(* ===== verification/Prelude.thy ===== *)
theory Prelude
  imports Main "HOL-Library.Word"
begin

text \<open>
  Shared vocabulary of the development: the machine types of the adb sources, the ways in
  which a C function can end other than by returning, sequencing of fallible steps, and the
  list, option and word lemmas that the component theories share.
\<close>

unbundle bit_operations_syntax

text \<open>
  Facts that a step of input or output brings back nothing that has been read; the loops of the services
  and of the client terminate by them.
\<close>

named_theorems io_left

section \<open>Types\<close>

type_synonym byte = "8 word"
type_synonym u32 = "32 word"
type_synonym addr = nat
type_synonym fdesc = int

text \<open>
  How a step of the program ends abnormally: \<open>Fatal\<close> is a call of \<open>fatal\<close>, \<open>fatal_errno\<close> or
  \<open>FATAL\<close> (the process exits with a message), \<open>ExitWith\<close> is a call of \<open>exit\<close>,
  \<open>MemFault\<close> is an access through a NULL or a dangling pointer or outside the initialised part
  of a buffer, \<open>Blocks\<close> is a system call on a blocking descriptor that has not returned, and
  \<open>TooDeep\<close> is a nesting of calls beyond the bound the model was given.
\<close>

datatype fault = Fatal string | ExitWith int | MemFault | Blocks | TooDeep

type_synonym 'a res = "fault + 'a"

section \<open>Sequencing\<close>

definition bindr :: "'e + 'a \<Rightarrow> ('a \<Rightarrow> 'e + 'b) \<Rightarrow> 'e + 'b" where
  "bindr m f = (case m of Inl e \<Rightarrow> Inl e | Inr x \<Rightarrow> f x)"

definition from_opt :: "'e \<Rightarrow> 'a option \<Rightarrow> 'e + 'a" where
  "from_opt e x = (case x of None \<Rightarrow> Inl e | Some y \<Rightarrow> Inr y)"

text \<open>A result satisfies a property whenever it is a normal one.\<close>

definition ensures :: "'e + 'a \<Rightarrow> ('a \<Rightarrow> bool) \<Rightarrow> bool" where
  "ensures m P = (case m of Inl _ \<Rightarrow> True | Inr x \<Rightarrow> P x)"

lemma bindr_simps [simp]:
  "bindr (Inl e) f = Inl e"
  "bindr (Inr x) f = f x"
  by (simp_all add: bindr_def)

lemma from_opt_simps [simp]:
  "from_opt e None = Inl e"
  "from_opt e (Some x) = Inr x"
  by (simp_all add: from_opt_def)

lemma from_opt_eq_Inr [simp]: "from_opt e x = Inr y \<longleftrightarrow> x = Some y"
  by (cases x) simp_all

lemma from_opt_eq_Inl [simp]: "from_opt e x = Inl e' \<longleftrightarrow> x = None \<and> e' = e"
  by (cases x) auto

lemma bindr_eq_Inr: "bindr m f = Inr y \<longleftrightarrow> (\<exists>x. m = Inr x \<and> f x = Inr y)"
  by (cases m) simp_all

lemma bindr_eq_Inl: "bindr m f = Inl e \<longleftrightarrow> m = Inl e \<or> (\<exists>x. m = Inr x \<and> f x = Inl e)"
  by (cases m) simp_all

lemma bindr_cong [fundef_cong]:
  "m = m' \<Longrightarrow> (\<And>x. m' = Inr x \<Longrightarrow> f x = g x) \<Longrightarrow> bindr m f = bindr m' g"
  by (cases m') simp_all

lemma ensures_simps [simp]:
  "ensures (Inl e) P"
  "ensures (Inr x) P = P x"
  by (simp_all add: ensures_def)

lemma ensures_bindr [simp]: "ensures (bindr m f) P = ensures m (\<lambda>x. ensures (f x) P)"
  by (cases m) simp_all

lemma ensures_mono: "ensures m P \<Longrightarrow> (\<And>x. m = Inr x \<Longrightarrow> P x \<Longrightarrow> Q x) \<Longrightarrow> ensures m Q"
  by (cases m) simp_all

lemma ensuresD: "ensures m P \<Longrightarrow> m = Inr x \<Longrightarrow> P x"
  by simp

lemma ensuresI: "(\<And>x. m = Inr x \<Longrightarrow> P x) \<Longrightarrow> ensures m P"
  by (cases m) simp_all

section \<open>Lists\<close>

lemma take_drop_split: "n \<le> m \<Longrightarrow> take m xs = take n xs @ take (m - n) (drop n xs)"
  by (metis le_add_diff_inverse take_add)

lemma distinct_remove1_filter: "distinct xs \<Longrightarrow> remove1 x xs = filter (\<lambda>y. y \<noteq> x) xs"
  by (simp add: distinct_remove1_removeAll removeAll_filter_not_eq eq_commute)

lemma find_Some_in_set: "List.find P xs = Some x \<Longrightarrow> x \<in> set xs \<and> P x"
  by (auto simp: find_Some_iff)

lemma find_None_all: "List.find P xs = None \<longleftrightarrow> (\<forall>x\<in>set xs. \<not> P x)"
  by (auto simp: find_None_iff)

section \<open>Words\<close>

lemma unat_u32_of_nat: "n < 2 ^ 32 \<Longrightarrow> unat (of_nat n :: u32) = n"
  by (simp add: unsigned_of_nat take_bit_eq_mod)

lemma unat_byte_less: "unat (b :: byte) < 256"
  using unsigned_less [of b] by simp

text \<open>A text is shorter after its first line.\<close>

lemma dropWhile_tail_less: "p \<noteq> [] \<Longrightarrow> length (drop 1 (dropWhile P p)) < length p"
  using length_dropWhile_le [of P p] by (cases p) auto

end
