(* ===== verification/Sysdeps.thy ===== *)
theory Sysdeps
  imports Prelude
begin

text \<open>
  Byte-level input and output. The kernel's answers to \<open>read\<close> and \<open>write\<close> are a script per
  descriptor (short transfers, end of file, EINTR, EAGAIN and other errors, or a call that
  never returns), so every theorem quantifies over all behaviours of the kernel. On top of
  \<open>adb_read\<close> and \<open>adb_write\<close> the theory models \<open>readx\<close> and \<open>writex\<close> of transport.c, in the
  form this repository gives them: \<open>writex\<close> never hands the kernel more than
  \<open>SYNC_DATA_MAX + 20\<close> bytes in one call, so that a message fits the Bluetooth L2CAP link.
\<close>

section \<open>The kernel side of a descriptor\<close>

datatype errno = EAGAIN | EINTR | ENOENT | EEXIST | EBADF | ECONNABORTED | EOTHER

text \<open>
  What the next \<open>read\<close> finds: some bytes (none is end of file) or an error. An empty script
  is a read with nothing to deliver: EAGAIN on a non-blocking descriptor, no return on a
  blocking one.
\<close>

datatype rd_event = RdBytes "byte list" | RdErr errno

text \<open>
  What the next \<open>write\<close> does: accept at most \<open>n\<close> bytes, fail, or never return. With an empty
  script the kernel accepts everything it is offered.
\<close>

datatype wr_event = WrAccept nat | WrErr errno | WrBlock

datatype io_ret = IoN nat | IoErr errno

record world =
  rd_ev :: "fdesc \<Rightarrow> rd_event list"
  wr_ev :: "fdesc \<Rightarrow> wr_event list"
  wr_out :: "fdesc \<Rightarrow> byte list"    \<comment> \<open>bytes the kernel has accepted\<close>
  wr_calls :: "fdesc \<Rightarrow> nat list"   \<comment> \<open>the size of each write call, in order\<close>
  nonblock :: "fdesc \<Rightarrow> bool"
  closed_fds :: "fdesc list"

text \<open>A state with nothing to read and every write accepted.\<close>

definition idle_world :: world where
  "idle_world = \<lparr>rd_ev = (\<lambda>_. []), wr_ev = (\<lambda>_. []), wr_out = (\<lambda>_. []), wr_calls = (\<lambda>_. []),
     nonblock = (\<lambda>_. False), closed_fds = []\<rparr>"

definition rd_set :: "fdesc \<Rightarrow> rd_event list \<Rightarrow> 'a world_scheme \<Rightarrow> 'a world_scheme" where
  "rd_set fd es w = w\<lparr>rd_ev := (rd_ev w)(fd := es)\<rparr>"

definition sys_read :: "fdesc \<Rightarrow> nat \<Rightarrow> 'a world_scheme \<Rightarrow> (io_ret \<times> byte list \<times> 'a world_scheme) res" where
  "sys_read fd len w =
     (case rd_ev w fd of
        [] \<Rightarrow> if nonblock w fd then Inr (IoErr EAGAIN, [], w) else Inl Blocks
      | RdErr e # es \<Rightarrow> Inr (IoErr e, [], rd_set fd es w)
      | RdBytes bs # es \<Rightarrow>
          Inr (IoN (length (take len bs)), take len bs,
               rd_set fd (if drop len bs = [] then es else RdBytes (drop len bs) # es) w))"

text \<open>The state after some writes: accepted bytes, sizes of the calls, rest of the script.\<close>

definition wr_done :: "fdesc \<Rightarrow> byte list \<Rightarrow> nat list \<Rightarrow> wr_event list \<Rightarrow> 'a world_scheme \<Rightarrow> 'a world_scheme" where
  "wr_done fd bs szs es w =
     w\<lparr>wr_ev := (wr_ev w)(fd := es),
       wr_out := (wr_out w)(fd := wr_out w fd @ bs),
       wr_calls := (wr_calls w)(fd := wr_calls w fd @ szs)\<rparr>"

definition sys_write :: "fdesc \<Rightarrow> byte list \<Rightarrow> 'a world_scheme \<Rightarrow> (io_ret \<times> 'a world_scheme) res" where
  "sys_write fd bs w =
     (case wr_ev w fd of
        [] \<Rightarrow> Inr (IoN (length bs), wr_done fd bs [length bs] [] w)
      | WrBlock # es \<Rightarrow> Inl Blocks
      | WrErr e # es \<Rightarrow> Inr (IoErr e, wr_done fd [] [length bs] es w)
      | WrAccept n # es \<Rightarrow>
          Inr (IoN (min n (length bs)), wr_done fd (take n bs) [length bs] es w))"

definition adb_close :: "fdesc \<Rightarrow> 'a world_scheme \<Rightarrow> 'a world_scheme" where
  "adb_close fd w = w\<lparr>closed_fds := closed_fds w @ [fd]\<rparr>"

text \<open>\<open>adb_read\<close> and \<open>adb_write\<close> wrap the system calls in \<open>TEMP_FAILURE_RETRY\<close>: an interrupted call
  is issued again.\<close>

lemma rd_set_simps [simp]:
  "rd_ev (rd_set fd es w) = (rd_ev w)(fd := es)"
  "nonblock (rd_set fd es w) = nonblock w"
  "rd_set fd es' (rd_set fd es w) = rd_set fd es' w"
  "rd_set fd (rd_ev w fd) w = w"
  by (simp_all add: rd_set_def)

lemma rd_set_id: "rd_ev w fd = es \<Longrightarrow> rd_set fd es w = w"
  using rd_set_simps(4) [of fd w] by simp

lemma sys_read_Err:
  "sys_read fd len w = Inr (IoErr EINTR, bs, w') \<Longrightarrow> length (rd_ev w' fd) < length (rd_ev w fd)"
  by (auto simp: sys_read_def split: list.splits rd_event.splits if_splits)

function adb_read :: "fdesc \<Rightarrow> nat \<Rightarrow> 'a world_scheme \<Rightarrow> (io_ret \<times> byte list \<times> 'a world_scheme) res" where
  "adb_read fd len w =
     (case sys_read fd len w of
        Inr (IoErr EINTR, bs, w') \<Rightarrow> adb_read fd len w'
      | r \<Rightarrow> r)"
  by pat_completeness auto
termination
  by (relation "measure (\<lambda>(fd, len, w). length (rd_ev w fd))") (auto dest: sys_read_Err)

declare adb_read.simps [simp del]

lemma wr_done_simps [simp]:
  "wr_ev (wr_done fd bs szs es w) = (wr_ev w)(fd := es)"
  "wr_out (wr_done fd bs szs es w) = (wr_out w)(fd := wr_out w fd @ bs)"
  "wr_calls (wr_done fd bs szs es w) = (wr_calls w)(fd := wr_calls w fd @ szs)"
  "rd_ev (wr_done fd bs szs es w) = rd_ev w"
  "nonblock (wr_done fd bs szs es w) = nonblock w"
  "closed_fds (wr_done fd bs szs es w) = closed_fds w"
  "wr_done fd bs' szs' es' (wr_done fd bs szs es w) = wr_done fd (bs @ bs') (szs @ szs') es' w"
  by (simp_all add: wr_done_def)

lemma wr_done_id: "wr_ev w fd = es \<Longrightarrow> wr_done fd [] [] es w = w"
  by (auto simp: wr_done_def fun_upd_idem)

lemma sys_write_Err:
  "sys_write fd bs w = Inr (IoErr e, w') \<Longrightarrow> length (wr_ev w' fd) < length (wr_ev w fd)"
  by (auto simp: sys_write_def split: list.splits wr_event.splits)

function adb_write :: "fdesc \<Rightarrow> byte list \<Rightarrow> 'a world_scheme \<Rightarrow> (io_ret \<times> 'a world_scheme) res" where
  "adb_write fd bs w =
     (case sys_write fd bs w of
        Inr (IoErr EINTR, w') \<Rightarrow> adb_write fd bs w'
      | r \<Rightarrow> r)"
  by pat_completeness auto
termination
  by (relation "measure (\<lambda>(fd, bs, w). length (wr_ev w fd))") (auto dest: sys_write_Err)

declare adb_write.simps [simp del]

text \<open>The outcome of a call by the head of the script.\<close>

lemma adb_read_cases:
  "rd_ev w fd = [] \<Longrightarrow> adb_read fd len w = (if nonblock w fd then Inr (IoErr EAGAIN, [], w) else Inl Blocks)"
  "rd_ev w fd = RdErr EINTR # es \<Longrightarrow> adb_read fd len w = adb_read fd len (rd_set fd es w)"
  "rd_ev w fd = RdErr e # es \<Longrightarrow> e \<noteq> EINTR \<Longrightarrow> adb_read fd len w = Inr (IoErr e, [], rd_set fd es w)"
  "rd_ev w fd = RdBytes bs # es \<Longrightarrow> adb_read fd len w =
     Inr (IoN (length (take len bs)), take len bs,
       rd_set fd (if drop len bs = [] then es else RdBytes (drop len bs) # es) w)"
  by (subst adb_read.simps, cases e, simp_all add: sys_read_def)+

lemma adb_write_cases:
  "wr_ev w fd = [] \<Longrightarrow> adb_write fd bs w = Inr (IoN (length bs), wr_done fd bs [length bs] [] w)"
  "wr_ev w fd = WrBlock # es \<Longrightarrow> adb_write fd bs w = Inl Blocks"
  "wr_ev w fd = WrErr EINTR # es \<Longrightarrow> adb_write fd bs w = adb_write fd bs (wr_done fd [] [length bs] es w)"
  "wr_ev w fd = WrErr e # es \<Longrightarrow> e \<noteq> EINTR \<Longrightarrow>
     adb_write fd bs w = Inr (IoErr e, wr_done fd [] [length bs] es w)"
  "wr_ev w fd = WrAccept n # es \<Longrightarrow>
     adb_write fd bs w = Inr (IoN (min n (length bs)), wr_done fd (take n bs) [length bs] es w)"
  by (subst adb_write.simps, cases e, simp_all add: sys_write_def)+

lemma adb_read_N:
  "adb_read fd len w = Inr (IoN n, bs, w') \<Longrightarrow> n > 0 \<Longrightarrow>
     len - n + length (rd_ev w' fd) < len + length (rd_ev w fd)"
proof (induction fd len w rule: adb_read.induct)
  case (1 fd len w)
  show ?case
  proof (cases "rd_ev w fd")
    case Nil
    with "1.prems" show ?thesis by (simp add: adb_read_cases split: if_splits)
  next
    case (Cons e es)
    show ?thesis
    proof (cases e)
      case (RdBytes d)
      with Cons "1.prems" show ?thesis by (auto simp: adb_read_cases split: if_splits)
    next
      case (RdErr x)
      show ?thesis
      proof (cases "x = EINTR")
        case True
        have "sys_read fd len w = Inr (IoErr EINTR, [], rd_set fd es w)"
          by (simp add: sys_read_def Cons RdErr True)
        from "1.IH" [OF this refl refl refl] "1.prems" show ?thesis
          by (simp add: adb_read_cases Cons RdErr True)
      next
        case False
        with Cons RdErr "1.prems" show ?thesis by (simp add: adb_read_cases)
      qed
    qed
  qed
qed

section \<open>readx\<close>

lemma adb_read_not_EINTR: "adb_read fd len w \<noteq> Inr (IoErr EINTR, bs, w')"
proof (induction fd len w rule: adb_read.induct)
  case (1 fd len w)
  then show ?case
    by (subst adb_read.simps) (auto split: sum.splits io_ret.splits errno.splits prod.splits)
qed

function readx :: "fdesc \<Rightarrow> nat \<Rightarrow> 'a world_scheme \<Rightarrow> (byte list option \<times> 'a world_scheme) res" where
  "readx fd len w =
     (if len = 0 then Inr (Some [], w)
      else case adb_read fd len w of
        Inl e \<Rightarrow> Inl e
      | Inr (IoN n, bs, w') \<Rightarrow>
          if n > 0
          then bindr (readx fd (len - n) w') (\<lambda>(rest, w''). Inr (map_option (\<lambda>r. bs @ r) rest, w''))
          else Inr (None, w')
      | Inr (IoErr e, bs, w') \<Rightarrow> if e = EINTR then readx fd len w' else Inr (None, w'))"
  by pat_completeness auto
termination
  by (relation "measure (\<lambda>(fd, len, w). len + length (rd_ev w fd))")
    (auto dest: adb_read_N simp: adb_read_not_EINTR)

declare readx.simps [simp del]

section \<open>writex\<close>

definition SYNC_DATA_MAX :: nat where "SYNC_DATA_MAX = 450"

definition writex_maxnum :: nat where "writex_maxnum = SYNC_DATA_MAX + 20"

lemma adb_write_N:
  "adb_write fd bs w = Inr (IoN n, w') \<Longrightarrow>
     n \<le> length bs \<and> length (wr_ev w' fd) \<le> length (wr_ev w fd)"
proof (induction fd bs w rule: adb_write.induct)
  case (1 fd bs w)
  then show ?case
    by (subst (asm) (2) adb_write.simps)
      (fastforce simp: sys_write_def split: sum.splits io_ret.splits errno.splits list.splits wr_event.splits)
qed

lemma adb_write_not_EINTR: "adb_write fd bs w \<noteq> Inr (IoErr EINTR, w')"
proof (induction fd bs w rule: adb_write.induct)
  case (1 fd bs w)
  then show ?case
    by (subst adb_write.simps) (auto split: sum.splits io_ret.splits errno.splits prod.splits)
qed

text \<open>The first loop of \<open>writex\<close>: full-size chunks while more than \<open>maxnum\<close> bytes are left.
  The result is what is left to write, or nothing when the write failed.\<close>

function writex_chunks :: "fdesc \<Rightarrow> byte list \<Rightarrow> 'a world_scheme \<Rightarrow> (byte list option \<times> 'a world_scheme) res" where
  "writex_chunks fd bs w =
     (if length bs \<le> writex_maxnum then Inr (Some bs, w)
      else case adb_write fd (take writex_maxnum bs) w of
        Inl e \<Rightarrow> Inl e
      | Inr (IoN n, w') \<Rightarrow> if n > 0 then writex_chunks fd (drop n bs) w' else Inr (None, w')
      | Inr (IoErr e, w') \<Rightarrow> if e = EINTR then writex_chunks fd bs w' else Inr (None, w'))"
  by pat_completeness auto
termination
  by (relation "measure (\<lambda>(fd, bs, w). length bs + length (wr_ev w fd))")
    (auto dest!: adb_write_N simp: adb_write_not_EINTR)

declare writex_chunks.simps [simp del]

function writex_rest :: "fdesc \<Rightarrow> byte list \<Rightarrow> 'a world_scheme \<Rightarrow> (int \<times> 'a world_scheme) res" where
  "writex_rest fd bs w =
     (if bs = [] then Inr (0, w)
      else case adb_write fd bs w of
        Inl e \<Rightarrow> Inl e
      | Inr (IoN n, w') \<Rightarrow> if n > 0 then writex_rest fd (drop n bs) w' else Inr (-1, w')
      | Inr (IoErr e, w') \<Rightarrow> if e = EINTR then writex_rest fd bs w' else Inr (-1, w'))"
  by pat_completeness auto
termination
  by (relation "measure (\<lambda>(fd, bs, w). length bs + length (wr_ev w fd))")
    (auto dest!: adb_write_N simp: adb_write_not_EINTR)

declare writex_rest.simps [simp del]

definition writex :: "fdesc \<Rightarrow> byte list \<Rightarrow> 'a world_scheme \<Rightarrow> (int \<times> 'a world_scheme) res" where
  "writex fd bs w =
     bindr (writex_chunks fd bs w)
       (\<lambda>(left, w'). case left of None \<Rightarrow> Inr (-1, w') | Some rest \<Rightarrow> writex_rest fd rest w')"

section \<open>What readx and writex deliver\<close>

text \<open>The bytes a reader gets before end of file or an error other than EINTR.\<close>

fun good_bytes :: "rd_event list \<Rightarrow> byte list" where
  "good_bytes [] = []"
| "good_bytes (RdBytes bs # es) = (if bs = [] then [] else bs @ good_bytes es)"
| "good_bytes (RdErr e # es) = (if e = EINTR then good_bytes es else [])"

text \<open>A write script in which no call fails for good or accepts nothing.\<close>

fun wr_clean :: "wr_event list \<Rightarrow> bool" where
  "wr_clean [] = True"
| "wr_clean (WrAccept n # es) = (n > 0 \<and> wr_clean es)"
| "wr_clean (WrErr e # es) = (e = EINTR \<and> wr_clean es)"
| "wr_clean (WrBlock # es) = False"

text \<open>One round of \<open>readx\<close> on the head of the script.\<close>

lemma readx_0 [simp]: "readx fd 0 w = Inr (Some [], w)"
  by (simp add: readx.simps)

lemma readx_EINTR:
  "rd_ev w fd = RdErr EINTR # es \<Longrightarrow> len > 0 \<Longrightarrow> readx fd len w = readx fd len (rd_set fd es w)"
  by (subst (1 2) readx.simps) (simp add: adb_read_cases)

lemma readx_short:
  "rd_ev w fd = RdBytes bs # es \<Longrightarrow> bs \<noteq> [] \<Longrightarrow> length bs \<le> len \<Longrightarrow>
   readx fd len w = bindr (readx fd (len - length bs) (rd_set fd es w))
     (\<lambda>(rest, w'). Inr (map_option (\<lambda>r. bs @ r) rest, w'))"
  by (cases bs; subst readx.simps) (auto simp: adb_read_cases)

lemma readx_full:
  "rd_ev w fd = RdBytes bs # es \<Longrightarrow> len < length bs \<Longrightarrow> 0 < len \<Longrightarrow>
   readx fd len w = Inr (Some (take len bs), rd_set fd (RdBytes (drop len bs) # es) w)"
  by (subst readx.simps) (auto simp: adb_read_cases)

lemma readx_fail:
  "rd_ev w fd = RdBytes [] # es \<Longrightarrow> 0 < len \<Longrightarrow> readx fd len w = Inr (None, rd_set fd es w)"
  "rd_ev w fd = RdErr e # es \<Longrightarrow> e \<noteq> EINTR \<Longrightarrow> 0 < len \<Longrightarrow> readx fd len w = Inr (None, rd_set fd es w)"
  by (subst readx.simps, simp add: adb_read_cases)+

lemma readx_good:
  "rd_ev w fd = es \<Longrightarrow> len \<le> length (good_bytes es) \<Longrightarrow>
   \<exists>es'. readx fd len w = Inr (Some (take len (good_bytes es)), rd_set fd es' w)
      \<and> good_bytes es' = drop len (good_bytes es)"
proof (induction es arbitrary: len w rule: good_bytes.induct)
  case (1 len w)
  then show ?case by (intro exI [of _ "[]"]) (simp add: rd_set_id)
next
  case (2 bs es len w)
  show ?case
  proof (cases "bs = [] \<or> len = 0")
    case True
    then show ?thesis
      using "2.prems" by (intro exI [of _ "RdBytes bs # es"]) (auto simp: rd_set_id)
  next
    case False
    show ?thesis
    proof (cases "length bs \<le> len")
      case True
      with False "2.prems" have "len - length bs \<le> length (good_bytes es)" by auto
      then obtain es' where
        "readx fd (len - length bs) (rd_set fd es w) =
           Inr (Some (take (len - length bs) (good_bytes es)), rd_set fd es' w)"
        "good_bytes es' = drop (len - length bs) (good_bytes es)"
        using "2.IH" [of "rd_set fd es w"] False by auto
      with False True "2.prems" show ?thesis by (auto simp: readx_short)
    next
      case full: False
      with False "2.prems" show ?thesis
        by (intro exI [of _ "RdBytes (drop len bs) # es"]) (auto simp: readx_full)
    qed
  qed
next
  case (3 e es len w)
  show ?case
  proof (cases "len = 0")
    case True
    with "3.prems"(1) show ?thesis by (intro exI [of _ "RdErr e # es"]) (auto simp: rd_set_id)
  next
    case False
    with "3.prems" have "e = EINTR" by (auto split: if_splits)
    with "3.IH" [of "rd_set fd es w" len] "3.prems" False show ?thesis
      by (auto simp: readx_EINTR)
  qed
qed

lemma readx_bad:
  "rd_ev w fd = es \<Longrightarrow> length (good_bytes es) < len \<Longrightarrow>
   (\<exists>es'. readx fd len w = Inr (None, rd_set fd es' w)) \<or> readx fd len w = Inl Blocks"
proof (induction es arbitrary: len w rule: good_bytes.induct)
  case (1 len w)
  then show ?case
    by (subst (1 2) readx.simps) (auto simp: adb_read_cases rd_set_id intro!: exI [of _ "[]"])
next
  case (2 bs es len w)
  show ?case
  proof (cases "bs = []")
    case True
    with "2.prems" show ?thesis by (auto simp: readx_fail)
  next
    case False
    with "2.prems" have "length (good_bytes es) < len - length bs" by auto
    with "2.IH" [of "rd_set fd es w" "len - length bs"] False "2.prems"
    show ?thesis by (auto simp: readx_short)
  qed
next
  case (3 e es len w)
  show ?case
  proof (cases "e = EINTR")
    case True
    with "3.IH" [of "rd_set fd es w" len] "3.prems" show ?thesis by (auto simp: readx_EINTR)
  next
    case False
    with "3.prems" show ?thesis by (auto simp: readx_fail)
  qed
qed

text \<open>
  \<open>wr_prefix fd bs w k w'\<close>: from \<open>w\<close>, the first \<open>k\<close> bytes of \<open>bs\<close> and nothing else were written
  to \<open>fd\<close>, no call offered more than \<open>writex_maxnum\<close> bytes, and a clean script stays clean.
\<close>

definition wr_prefix :: "fdesc \<Rightarrow> byte list \<Rightarrow> 'a world_scheme \<Rightarrow> nat \<Rightarrow> 'a world_scheme \<Rightarrow> bool" where
  "wr_prefix fd bs w k w' \<longleftrightarrow> k \<le> length bs \<and>
     (\<exists>cs es. w' = wr_done fd (take k bs) cs es w \<and> (\<forall>c\<in>set cs. c \<le> writex_maxnum)
        \<and> (wr_clean (wr_ev w fd) \<longrightarrow> wr_clean es))"

lemma wr_prefix_refl: "wr_prefix fd bs w 0 w"
  unfolding wr_prefix_def
  by (intro conjI exI [of _ "[]"] exI [of _ "wr_ev w fd"]) (simp_all add: wr_done_id)

lemma wr_prefix_trans:
  assumes "wr_prefix fd bs w k w'" and "wr_prefix fd (drop k bs) w' j w''"
  shows "wr_prefix fd bs w (k + j) w''"
proof -
  from assms(1) obtain cs es where 1: "w' = wr_done fd (take k bs) cs es w"
      "\<forall>c\<in>set cs. c \<le> writex_maxnum" "wr_clean (wr_ev w fd) \<longrightarrow> wr_clean es" "k \<le> length bs"
    by (auto simp: wr_prefix_def)
  from assms(2) 1(1) obtain cs' es' where "w'' = wr_done fd (take j (drop k bs)) cs' es' w'"
      "\<forall>c\<in>set cs'. c \<le> writex_maxnum" "wr_clean es \<longrightarrow> wr_clean es'" "j \<le> length bs - k"
    by (auto simp: wr_prefix_def)
  with 1 show ?thesis
    unfolding wr_prefix_def
    by (intro conjI exI [of _ "cs @ cs'"] exI [of _ es']) (auto simp: take_add)
qed

lemma wr_prefix_clean: "wr_prefix fd bs w k w' \<Longrightarrow> wr_clean (wr_ev w fd) \<Longrightarrow> wr_clean (wr_ev w' fd)"
  by (auto simp: wr_prefix_def)

lemma wr_prefix_take: "wr_prefix fd (take m bs) w k w' \<Longrightarrow> wr_prefix fd bs w k w'"
  unfolding wr_prefix_def by (elim conjE exE) (simp add: min_absorb1, blast)

lemma wr_prefixI:
  "k \<le> length bs \<Longrightarrow> take k bs = d \<Longrightarrow> length bs \<le> writex_maxnum \<Longrightarrow> (wr_clean (wr_ev w fd) \<Longrightarrow> wr_clean es) \<Longrightarrow>
   wr_prefix fd bs w k (wr_done fd d [length bs] es w)"
  unfolding wr_prefix_def by (intro conjI exI [of _ "[length bs]"] exI [of _ es]) auto

lemma adb_write_prefix:
  "wr_ev w fd = evs \<Longrightarrow> length bs \<le> writex_maxnum \<Longrightarrow>
   adb_write fd bs w = Inl Blocks \<and> \<not> wr_clean evs
   \<or> (\<exists>k w'. adb_write fd bs w = Inr (IoN k, w') \<and> wr_prefix fd bs w k w'
         \<and> (bs \<noteq> [] \<longrightarrow> wr_clean evs \<longrightarrow> 0 < k))
   \<or> (\<exists>e w'. adb_write fd bs w = Inr (IoErr e, w') \<and> wr_prefix fd bs w 0 w' \<and> \<not> wr_clean evs)"
proof (induction evs arbitrary: w rule: wr_clean.induct)
  case (1 w)
  then show ?case using wr_prefixI [of "length bs" bs bs w fd "[]"] by (auto simp: adb_write_cases)
next
  case (2 n es w)
  then show ?case
    using wr_prefixI [of "min n (length bs)" bs "take n bs" w fd es]
    by (auto simp: adb_write_cases min_def split: if_splits)
next
  case (3 e es w)
  let ?w = "wr_done fd [] [length bs] es w"
  have p: "wr_prefix fd bs w 0 ?w" using "3.prems" by (intro wr_prefixI) auto
  show ?case
  proof (cases "e = EINTR")
    case True
    from "3.IH" [of ?w] "3.prems" wr_prefix_trans [OF p] show ?thesis
      by (auto simp: adb_write_cases True)
  next
    case False
    with p "3.prems" show ?thesis by (auto simp: adb_write_cases)
  qed
next
  case (4 es w)
  then show ?case by (simp add: adb_write_cases)
qed

lemma writex_chunks_spec:
  "writex_chunks fd bs w = Inl Blocks \<and> \<not> wr_clean (wr_ev w fd)
   \<or> (\<exists>k w'. writex_chunks fd bs w = Inr (Some (drop k bs), w') \<and> wr_prefix fd bs w k w'
         \<and> length bs - k \<le> writex_maxnum)
   \<or> (\<exists>k w'. writex_chunks fd bs w = Inr (None, w') \<and> wr_prefix fd bs w k w' \<and> k < length bs
         \<and> \<not> wr_clean (wr_ev w fd))"
proof (induction fd bs w rule: writex_chunks.induct)
  case (1 fd bs w)
  let ?b = "take writex_maxnum bs"
  show ?case
  proof (cases "length bs \<le> writex_maxnum")
    case True
    then show ?thesis
      by (intro disjI2 disjI1 exI [of _ 0] exI [of _ w])
        (simp add: writex_chunks.simps wr_prefix_refl)
  next
    case big: False
    have ne: "?b \<noteq> []" using big by (auto simp: writex_maxnum_def)
    consider "adb_write fd ?b w = Inl Blocks" "\<not> wr_clean (wr_ev w fd)"
      | k w' where "adb_write fd ?b w = Inr (IoN k, w')" "wr_prefix fd ?b w k w'"
          "wr_clean (wr_ev w fd) \<longrightarrow> 0 < k"
      | e w' where "adb_write fd ?b w = Inr (IoErr e, w')" "wr_prefix fd ?b w 0 w'"
          "wr_clean (wr_ev w fd) \<longrightarrow> e = EINTR"
      using adb_write_prefix [OF refl, of ?b fd w] ne by auto
    then show ?thesis
    proof cases
      case 1
      then show ?thesis using big by (simp add: writex_chunks.simps)
    next
      case (2 k w')
      show ?thesis
      proof (cases "k = 0")
        case True
        with 2 big show ?thesis
          by (subst (1 2 3) writex_chunks.simps) (auto intro: wr_prefix_refl dest: wr_prefix_take)
      next
        case False
        have p: "wr_prefix fd bs w k w'" using 2(2) by (rule wr_prefix_take)
        have r: "writex_chunks fd bs w = writex_chunks fd (drop k bs) w'"
          using False big 2(1) by (subst writex_chunks.simps) simp
        from "1.IH"(1) [OF big 2(1) refl refl] False show ?thesis
          unfolding r
          by (auto simp: add.commute dest: wr_prefix_trans [OF p] wr_prefix_clean [OF p])
            (metis add.commute less_diff_conv wr_prefix_clean [OF p] wr_prefix_trans [OF p])
      qed
    next
      case (3 e w')
      have p: "wr_prefix fd bs w 0 w'" using 3(2) by (rule wr_prefix_take)
      show ?thesis
      proof (cases "e = EINTR")
        case True
        have r: "writex_chunks fd bs w = writex_chunks fd bs w'"
          using True big 3(1) by (subst writex_chunks.simps) simp
        from "1.IH"(2) [OF big 3(1) refl refl True] show ?thesis
          unfolding r using wr_prefix_trans [OF p] wr_prefix_clean [OF p] by auto
      next
        case False
        with 3 big p show ?thesis
          by (subst (1 2 3) writex_chunks.simps) (auto simp: writex_maxnum_def)
      qed
    qed
  qed
qed

lemma writex_rest_spec:
  "length bs \<le> writex_maxnum \<Longrightarrow>
   writex_rest fd bs w = Inl Blocks \<and> \<not> wr_clean (wr_ev w fd)
   \<or> (\<exists>w'. writex_rest fd bs w = Inr (0, w') \<and> wr_prefix fd bs w (length bs) w')
   \<or> (\<exists>k w'. writex_rest fd bs w = Inr (-1, w') \<and> wr_prefix fd bs w k w' \<and> k < length bs
         \<and> \<not> wr_clean (wr_ev w fd))"
proof (induction fd bs w rule: writex_rest.induct)
  case (1 fd bs w)
  show ?case
  proof (cases "bs = []")
    case True
    then show ?thesis using wr_prefix_refl [of fd bs w] by (simp add: writex_rest.simps)
  next
    case ne: False
    consider "adb_write fd bs w = Inl Blocks" "\<not> wr_clean (wr_ev w fd)"
      | k w' where "adb_write fd bs w = Inr (IoN k, w')" "wr_prefix fd bs w k w'"
          "wr_clean (wr_ev w fd) \<longrightarrow> 0 < k"
      | e w' where "adb_write fd bs w = Inr (IoErr e, w')" "wr_prefix fd bs w 0 w'"
          "wr_clean (wr_ev w fd) \<longrightarrow> e = EINTR"
      using adb_write_prefix [OF refl, of bs fd w] ne "1.prems" by auto
    then show ?thesis
    proof cases
      case 1
      then show ?thesis using ne by (simp add: writex_rest.simps)
    next
      case (2 k w')
      note p = 2(2)
      show ?thesis
      proof (cases "k = 0")
        case True
        with 2 ne show ?thesis by (subst (1 2 3) writex_rest.simps) auto
      next
        case False
        have r: "writex_rest fd bs w = writex_rest fd (drop k bs) w'"
          using False ne 2(1) by (subst writex_rest.simps) simp
        have len: "k + (length bs - k) = length bs" using p by (simp add: wr_prefix_def)
        from "1.IH"(1) [OF ne 2(1) refl refl] False "1.prems" show ?thesis
          unfolding r using wr_prefix_trans [OF p] wr_prefix_clean [OF p] len
          by (auto simp: add.commute) (metis add.commute less_diff_conv)+
      qed
    next
      case (3 e w')
      note p = 3(2)
      show ?thesis
      proof (cases "e = EINTR")
        case True
        have r: "writex_rest fd bs w = writex_rest fd bs w'"
          using True ne 3(1) by (subst writex_rest.simps) simp
        from "1.IH"(2) [OF ne 3(1) refl refl True] "1.prems" show ?thesis
          unfolding r using wr_prefix_trans [OF p] wr_prefix_clean [OF p] by auto
      next
        case False
        with 3 ne p show ?thesis by (subst (1 2 3) writex_rest.simps) auto
      qed
    qed
  qed
qed

text \<open>The three ways in which \<open>writex\<close> can end.\<close>

lemma writex_spec:
  "writex fd bs w = Inl Blocks \<and> \<not> wr_clean (wr_ev w fd)
   \<or> (\<exists>w'. writex fd bs w = Inr (0, w') \<and> wr_prefix fd bs w (length bs) w')
   \<or> (\<exists>k w'. writex fd bs w = Inr (-1, w') \<and> wr_prefix fd bs w k w' \<and> k < length bs
         \<and> \<not> wr_clean (wr_ev w fd))"
  using writex_chunks_spec [of fd bs w]
proof (elim disjE exE conjE)
  fix k w1
  assume c: "writex_chunks fd bs w = Inr (Some (drop k bs), w1)"
    and p: "wr_prefix fd bs w k w1" and l: "length bs - k \<le> writex_maxnum"
  have w: "writex fd bs w = writex_rest fd (drop k bs) w1"
    by (simp add: writex_def c)
  have len: "k + (length bs - k) = length bs" using p by (simp add: wr_prefix_def)
  show ?thesis
    unfolding w using writex_rest_spec [of "drop k bs" fd w1] l len
      wr_prefix_trans [OF p] wr_prefix_clean [OF p]
    by (auto simp: add.commute) (metis add.commute less_diff_conv)+
qed (auto simp: writex_def)

lemma readx_rd_set: "readx fd len w = Inr (r, w') \<Longrightarrow> \<exists>es. w' = rd_set fd es w"
  using readx_good [OF refl, of len w fd] readx_bad [OF refl, of w fd len]
  by (cases "len \<le> length (good_bytes (rd_ev w fd))") auto

lemma writex_clean:
  "wr_clean (wr_ev w fd) \<Longrightarrow> \<exists>w'. writex fd bs w = Inr (0, w') \<and> wr_clean (wr_ev w' fd)"
  using writex_spec [of fd bs w] wr_prefix_clean by blast

section \<open>Interfaces\<close>

text \<open>
  What a packet reader needs from the layer below: a function that delivers exactly the bytes
  asked for when the stream has them, and fails or blocks when it has not.
\<close>

locale byte_source =
  fixes rd :: "nat \<Rightarrow> 's \<Rightarrow> (byte list option \<times> 's) res"
    and stream :: "'s \<Rightarrow> byte list"
  assumes rd_enough: "n \<le> length (stream s) \<Longrightarrow>
      \<exists>s'. rd n s = Inr (Some (take n (stream s)), s') \<and> stream s' = drop n (stream s)"
    and rd_short: "length (stream s) < n \<Longrightarrow> (\<exists>s'. rd n s = Inr (None, s')) \<or> rd n s = Inl Blocks"
begin

lemma rd_Some:
  assumes "rd n s = Inr (Some bs, s')"
  shows "length bs = n \<and> stream s = bs @ stream s'"
proof (cases "n \<le> length (stream s)")
  case True
  then show ?thesis using rd_enough [OF True] assms by auto
next
  case False
  then show ?thesis using rd_short [of s n] assms by auto
qed

end

text \<open>What a packet writer needs: on success everything has been sent, on failure a proper prefix.\<close>

locale byte_sink =
  fixes wr :: "byte list \<Rightarrow> 's \<Rightarrow> (int \<times> 's) res"
    and sent :: "'s \<Rightarrow> byte list"
  assumes wr_ok: "wr bs s = Inr (0, s') \<Longrightarrow> sent s' = sent s @ bs"
    and wr_fail: "wr bs s = Inr (r, s') \<Longrightarrow> r \<noteq> 0 \<Longrightarrow> \<exists>k < length bs. sent s' = sent s @ take k bs"
begin

text \<open>Two writes in sequence send the concatenation.\<close>

lemma wr_seq:
  "wr bs s = Inr (0, s') \<Longrightarrow> wr bs' s' = Inr (0, s'') \<Longrightarrow> sent s'' = sent s @ bs @ bs'"
  by (simp add: wr_ok)

end

interpretation sock_src: byte_source "readx fd" "\<lambda>w. good_bytes (rd_ev w fd)" for fd
proof
  show "\<exists>s'. readx fd n s = Inr (Some (take n (good_bytes (rd_ev s fd))), s')
      \<and> good_bytes (rd_ev s' fd) = drop n (good_bytes (rd_ev s fd))"
    if "n \<le> length (good_bytes (rd_ev s fd))" for n and s :: "'a world_scheme"
    using readx_good [OF refl that] by auto
  show "(\<exists>s'. readx fd n s = Inr (None, s')) \<or> readx fd n s = Inl Blocks"
    if "length (good_bytes (rd_ev s fd)) < n" for n and s :: "'a world_scheme"
    using readx_bad [OF refl that] by blast
qed

interpretation sock_snk: byte_sink "writex fd" "\<lambda>w. wr_out w fd" for fd
proof
  fix bs and s s' :: "'a world_scheme"
  show "wr_out s' fd = wr_out s fd @ bs" if "writex fd bs s = Inr (0, s')"
    using that writex_spec [of fd bs s] by (auto simp: wr_prefix_def)
  show "\<exists>k<length bs. wr_out s' fd = wr_out s fd @ take k bs"
    if "writex fd bs s = Inr (r, s')" "r \<noteq> 0" for r
    using that writex_spec [of fd bs s] by (auto simp: wr_prefix_def)
qed

section \<open>Properties\<close>

text \<open>
  \<open>readx\<close> is correct for every schedule of short reads and interruptions: when the
  descriptor still delivers at least \<open>len\<close> bytes before end of file or a hard error, \<open>readx\<close>
  returns exactly the next \<open>len\<close> of them, leaves the rest of the stream in place and touches
  no other part of the state; otherwise it returns -1 or is still blocked.
\<close>

theorem readx_correct:
  "if len \<le> length (good_bytes (rd_ev w fd))
   then \<exists>es. readx fd len w = Inr (Some (take len (good_bytes (rd_ev w fd))), rd_set fd es w)
          \<and> good_bytes es = drop len (good_bytes (rd_ev w fd))
   else (\<exists>es. readx fd len w = Inr (None, rd_set fd es w)) \<or> readx fd len w = Inl Blocks"
  using readx_good [OF refl, of len w fd] readx_bad [OF refl, of w fd len] by auto

text \<open>
  Property C20. \<open>writex\<close> is correct for every schedule of partial writes and interruptions, and keeps
  the Bluetooth chunk limit: it returns 0 exactly when all bytes were accepted in order, -1
  when only a proper prefix was, and in either case no single \<open>adb_write\<close> was given more than
  \<open>SYNC_DATA_MAX + 20\<close> bytes and nothing but the written descriptor changed. When no call
  fails for good, it does return 0.
\<close>

theorem writex_correct:
  "writex fd bs w = Inl Blocks \<and> \<not> wr_clean (wr_ev w fd)
   \<or> (\<exists>r k cs es. writex fd bs w = Inr (r, wr_done fd (take k bs) cs es w)
        \<and> (\<forall>c\<in>set cs. c \<le> SYNC_DATA_MAX + 20)
        \<and> (r = 0 \<and> k = length bs \<or> r = -1 \<and> k < length bs \<and> \<not> wr_clean (wr_ev w fd)))"
  using writex_spec [of fd bs w]
  by (auto simp: wr_prefix_def simp flip: writex_maxnum_def) blast+

theorem writex_correct_witness:
  "\<exists>cs es. writex 3 [1, 2] idle_world = Inr (0, wr_done 3 [1, 2] cs es idle_world)"
  using writex_correct [of 3 "[1, 2]" idle_world] by (auto simp: idle_world_def)

end
