(* ===== verification/Packet.thy ===== *)
theory Packet
  imports Sysdeps
begin

text \<open>
  The packet layer: the message header and packet of adb.h, the checksum and magic that
  \<open>send_packet\<close> computes and \<open>check_header\<close> and \<open>check_data\<close> test (transport.c), the byte order
  conversion, and reading and writing one packet on a transport (transport_local.c). The data
  buffer of a packet is modelled by its initialised prefix; reading behind it is a fault.
\<close>

section \<open>Data\<close>

definition MAX_PAYLOAD :: nat where "MAX_PAYLOAD = 4096"

definition A_SYNC :: u32 where "A_SYNC = 0x434e5953"
definition A_CNXN :: u32 where "A_CNXN = 0x4e584e43"
definition A_OPEN :: u32 where "A_OPEN = 0x4e45504f"
definition A_OKAY :: u32 where "A_OKAY = 0x59414b4f"
definition A_CLSE :: u32 where "A_CLSE = 0x45534c43"
definition A_WRTE :: u32 where "A_WRTE = 0x45545257"
definition A_AUTH :: u32 where "A_AUTH = 0x48545541"
definition A_VERSION :: u32 where "A_VERSION = 0x01000000"

lemmas command_defs = A_SYNC_def A_CNXN_def A_OPEN_def A_OKAY_def A_CLSE_def A_WRTE_def A_AUTH_def

record amessage =
  command :: u32
  arg0 :: u32
  arg1 :: u32
  data_length :: u32
  data_check :: u32
  magic :: u32

record apacket =
  pk_len :: nat            \<comment> \<open>bytes of the packet still to be written\<close>
  pk_ptr :: nat            \<comment> \<open>offset of the next byte in \<open>data\<close>\<close>
  msg :: amessage
  pk_data :: "byte list"   \<comment> \<open>the initialised prefix of \<open>data[MAX_PAYLOAD]\<close>\<close>

definition zero_msg :: amessage where
  "zero_msg = \<lparr>command = 0, arg0 = 0, arg1 = 0, data_length = 0, data_check = 0, magic = 0\<rparr>"

text \<open>\<open>get_apacket\<close> clears everything but the data buffer.\<close>

definition get_apacket :: apacket where
  "get_apacket = \<lparr>pk_len = 0, pk_ptr = 0, msg = zero_msg, pk_data = []\<rparr>"

section \<open>Checksum and header checks\<close>

fun sum_loop :: "nat \<Rightarrow> byte list \<Rightarrow> u32 \<Rightarrow> u32 res" where
  "sum_loop 0 xs acc = Inr acc"
| "sum_loop (Suc count) (x # xs) acc = sum_loop count xs (acc + ucast x)"
| "sum_loop (Suc count) [] acc = Inl MemFault"

definition seal_packet :: "apacket \<Rightarrow> apacket res" where
  "seal_packet p =
     (let p1 = p\<lparr>msg := (msg p)\<lparr>magic := command (msg p) XOR 0xffffffff\<rparr>\<rparr> in
      bindr (sum_loop (unat (data_length (msg p1))) (pk_data p1) 0)
        (\<lambda>c. Inr (p1\<lparr>msg := (msg p1)\<lparr>data_check := c\<rparr>\<rparr>)))"

definition check_header :: "apacket \<Rightarrow> int" where
  "check_header p =
     (if magic (msg p) \<noteq> command (msg p) XOR 0xffffffff then -1
      else if unat (data_length (msg p)) > MAX_PAYLOAD then -1
      else 0)"

definition check_data :: "apacket \<Rightarrow> int res" where
  "check_data p =
     bindr (sum_loop (unat (data_length (msg p))) (pk_data p) 0)
       (\<lambda>c. Inr (if c \<noteq> data_check (msg p) then -1 else 0))"

section \<open>Byte order\<close>

text \<open>The four bytes of an \<open>unsigned\<close> in memory, on a little- or big-endian machine.\<close>

definition le_bytes :: "u32 \<Rightarrow> byte list" where
  "le_bytes x = [ucast x, ucast (drop_bit 8 x), ucast (drop_bit 16 x), ucast (drop_bit 24 x)]"

definition mem_bytes :: "bool \<Rightarrow> u32 \<Rightarrow> byte list" where
  "mem_bytes big_endian x = (if big_endian then rev (le_bytes x) else le_bytes x)"

definition le_word :: "byte list \<Rightarrow> u32" where
  "le_word bs =
     (case bs of
        [a, b, c, d] \<Rightarrow> ucast a OR push_bit 8 (ucast b) OR push_bit 16 (ucast c) OR push_bit 24 (ucast d)
      | _ \<Rightarrow> 0)"

definition mem_word :: "bool \<Rightarrow> byte list \<Rightarrow> u32" where
  "mem_word big_endian bs = le_word (if big_endian then rev bs else bs)"

definition H4 :: "u32 \<Rightarrow> u32" where
  "H4 x = (drop_bit 24 (x AND 0xFF000000)) OR (drop_bit 8 (x AND 0x00FF0000))
        OR (push_bit 8 (x AND 0x0000FF00)) OR (push_bit 24 (x AND 0x000000FF))"

definition fix_endians :: "bool \<Rightarrow> amessage \<Rightarrow> amessage" where
  "fix_endians big_endian m =
     (if big_endian then
        \<lparr>command = H4 (command m), arg0 = H4 (arg0 m), arg1 = H4 (arg1 m),
         data_length = H4 (data_length m), data_check = H4 (data_check m), magic = H4 (magic m)\<rparr>
      else m)"

definition mem_message :: "bool \<Rightarrow> amessage \<Rightarrow> byte list" where
  "mem_message big_endian m =
     mem_bytes big_endian (command m) @ mem_bytes big_endian (arg0 m) @ mem_bytes big_endian (arg1 m)
     @ mem_bytes big_endian (data_length m) @ mem_bytes big_endian (data_check m)
     @ mem_bytes big_endian (magic m)"

definition message_of_mem :: "bool \<Rightarrow> byte list \<Rightarrow> amessage" where
  "message_of_mem big_endian bs =
     (let f = (\<lambda>i. mem_word big_endian (take 4 (drop (4 * i) bs))) in
      \<lparr>command = f 0, arg0 = f 1, arg1 = f 2, data_length = f 3, data_check = f 4, magic = f 5\<rparr>)"

definition sizeof_amessage :: nat where "sizeof_amessage = 24"

section \<open>One packet on a stream transport\<close>

text \<open>
  \<open>remote_read\<close> and \<open>remote_write\<close> of transport_local.c. The functions they call to move bytes
  (\<open>readx\<close> and \<open>writex\<close> on the transport's descriptor) are arguments.
\<close>

definition remote_read ::
  "(nat \<Rightarrow> 's \<Rightarrow> (byte list option \<times> 's) res) \<Rightarrow> bool \<Rightarrow> apacket \<Rightarrow> 's \<Rightarrow> (int \<times> apacket \<times> 's) res" where
  "remote_read rd big_endian p s =
     bindr (rd sizeof_amessage s) (\<lambda>(r, s).
       case r of None \<Rightarrow> Inr (-1, p, s)
       | Some bs \<Rightarrow>
         let p = p\<lparr>msg := fix_endians big_endian (message_of_mem big_endian bs)\<rparr> in
         if check_header p \<noteq> 0 then Inr (-1, p, s)
         else bindr (rd (unat (data_length (msg p))) s) (\<lambda>(r, s).
           case r of None \<Rightarrow> Inr (-1, p, s)
           | Some d \<Rightarrow>
             let p = p\<lparr>pk_data := d\<rparr> in
             bindr (check_data p) (\<lambda>c. if c \<noteq> 0 then Inr (-1, p, s) else Inr (0, p, s))))"

definition remote_write ::
  "(byte list \<Rightarrow> 's \<Rightarrow> (int \<times> 's) res) \<Rightarrow> bool \<Rightarrow> apacket \<Rightarrow> 's \<Rightarrow> (int \<times> 's) res" where
  "remote_write wr big_endian p s =
     (let len = unat (data_length (msg p)) in
      if len > length (pk_data p) then Inl MemFault
      else bindr (wr (mem_message big_endian (fix_endians big_endian (msg p)) @ take len (pk_data p)) s)
        (\<lambda>(r, s). if r \<noteq> 0 then Inr (-1, s) else Inr (0, s)))"

section \<open>Byte order lemmas\<close>

lemma length_le_bytes [simp]: "length (le_bytes x) = 4"
  by (simp add: le_bytes_def)

lemma length_mem_bytes [simp]: "length (mem_bytes be x) = 4"
  by (simp add: mem_bytes_def)

lemma le_word_bytes [simp]: "le_word (le_bytes x) = x"
proof (rule bit_word_eqI)
  fix n assume "n < LENGTH(32)"
  then consider "n < 8" | "8 \<le> n" "n < 16" | "16 \<le> n" "n < 24" | "24 \<le> n" "n < 32" by force
  then show "bit (le_word (le_bytes x)) n = bit x n"
    by cases (auto simp: le_word_def le_bytes_def bit_simps)
qed

lemma mem_word_bytes [simp]: "mem_word be (mem_bytes be x) = x"
  by (simp add: mem_word_def mem_bytes_def)

lemma H4_masks:
  "H4 x = drop_bit 24 (x AND push_bit 24 (mask 8)) OR drop_bit 8 (x AND push_bit 16 (mask 8))
     OR push_bit 8 (x AND push_bit 8 (mask 8)) OR push_bit 24 (x AND mask 8)"
  by (simp add: H4_def mask_eq_exp_minus_1 push_bit_eq_mult)

lemma bit_H4:
  "n < 32 \<Longrightarrow> bit (H4 x) n =
     bit x (if n < 8 then n + 24 else if n < 16 then n + 8 else if n < 24 then n - 8 else n - 24)"
  by (auto simp: H4_masks bit_simps add.commute)

lemma H4_bytes: "le_bytes (H4 x) = rev (le_bytes x)"
proof -
  have "ucast (H4 x) = (ucast (drop_bit 24 x) :: byte)"
    by (rule bit_word_eqI) (simp add: bit_simps bit_H4 add.commute)
  moreover have "ucast (drop_bit 8 (H4 x)) = (ucast (drop_bit 16 x) :: byte)"
    by (rule bit_word_eqI) (simp add: bit_simps bit_H4 add.commute)
  moreover have "ucast (drop_bit 16 (H4 x)) = (ucast (drop_bit 8 x) :: byte)"
    by (rule bit_word_eqI) (simp add: bit_simps bit_H4 add.commute)
  moreover have "ucast (drop_bit 24 (H4 x)) = (ucast x :: byte)"
    by (rule bit_word_eqI) (simp add: bit_simps bit_H4 add.commute)
  ultimately show ?thesis by (simp add: le_bytes_def)
qed

lemma H4_H4 [simp]: "H4 (H4 x) = x"
  by (metis H4_bytes le_word_bytes rev_rev_ident)

lemma mem_bytes_H4: "mem_bytes True (H4 x) = le_bytes x"
  by (simp add: mem_bytes_def H4_bytes)

section \<open>The wire format\<close>

text \<open>
  What a packet looks like on the wire, independent of the machine, and which packets the
  receiving side accepts.
\<close>

definition wire_message :: "amessage \<Rightarrow> byte list" where
  "wire_message m = le_bytes (command m) @ le_bytes (arg0 m) @ le_bytes (arg1 m)
     @ le_bytes (data_length m) @ le_bytes (data_check m) @ le_bytes (magic m)"

definition checksum :: "byte list \<Rightarrow> u32" where
  "checksum bs = sum_list (map ucast bs)"

definition valid_packet :: "apacket \<Rightarrow> bool" where
  "valid_packet p \<longleftrightarrow>
     magic (msg p) = command (msg p) XOR 0xffffffff
     \<and> unat (data_length (msg p)) \<le> MAX_PAYLOAD
     \<and> length (pk_data p) = unat (data_length (msg p))
     \<and> data_check (msg p) = checksum (pk_data p)"

definition wire_packet :: "apacket \<Rightarrow> byte list" where
  "wire_packet p = wire_message (msg p) @ pk_data p"

lemma length_wire_message [simp]: "length (wire_message m) = sizeof_amessage"
  by (simp add: wire_message_def sizeof_amessage_def)

lemma sum_loop_enough:
  "n \<le> length xs \<Longrightarrow> sum_loop n xs acc = Inr (acc + checksum (take n xs))"
  by (induction n xs acc rule: sum_loop.induct) (auto simp: checksum_def)

lemma sum_loop_short: "length xs < n \<Longrightarrow> sum_loop n xs acc = Inl MemFault"
  by (induction n xs acc rule: sum_loop.induct) auto

lemma mem_message_fix: "mem_message be (fix_endians be m) = wire_message m"
  by (cases be) (simp_all add: mem_message_def fix_endians_def wire_message_def mem_bytes_H4,
      simp add: mem_bytes_def)

lemma le_bytes_word: "length bs = 4 \<Longrightarrow> le_bytes (le_word bs) = bs"
proof -
  assume "length bs = 4"
  then obtain a b c d where bs: "bs = [a, b, c, d]"
    by (auto simp: numeral_eq_Suc length_Suc_conv)
  show ?thesis
    unfolding bs le_bytes_def le_word_def
    by simp (intro conjI bit_word_eqI; auto simp: bit_simps dest: bit_imp_le_length)
qed

lemma H4_le_word: "length bs = 4 \<Longrightarrow> H4 (le_word (rev bs)) = le_word bs"
  by (metis H4_bytes le_bytes_word le_word_bytes length_rev rev_rev_ident)

lemma length_4_split:
  assumes "length bs = sizeof_amessage"
  obtains b0 b1 b2 b3 b4 b5 where "bs = b0 @ b1 @ b2 @ b3 @ b4 @ b5"
    "length b0 = 4" "length b1 = 4" "length b2 = 4" "length b3 = 4" "length b4 = 4" "length b5 = 4"
proof
  let ?f = "\<lambda>i. take 4 (drop (4 * i) bs)"
  note split = append_take_drop_id [of 4, symmetric]
  have "bs = ?f 0 @ drop 4 bs" "drop 4 bs = ?f 1 @ drop 8 bs" "drop 8 bs = ?f 2 @ drop 12 bs"
    "drop 12 bs = ?f 3 @ drop 16 bs" "drop 16 bs = ?f 4 @ drop 20 bs" "drop 20 bs = ?f 5"
    using split [of bs] split [of "drop 4 bs"] split [of "drop 8 bs"] split [of "drop 12 bs"]
      split [of "drop 16 bs"] assms by (simp_all add: sizeof_amessage_def)
  then show "bs = ?f 0 @ ?f 1 @ ?f 2 @ ?f 3 @ ?f 4 @ ?f 5" by metis
qed (use assms in \<open>simp_all add: sizeof_amessage_def\<close>)

lemma wire_message_read:
  assumes "length bs = sizeof_amessage"
  shows "wire_message (fix_endians be (message_of_mem be bs)) = bs"
proof -
  obtain b0 b1 b2 b3 b4 b5 where bs: "bs = b0 @ b1 @ b2 @ b3 @ b4 @ b5"
    and l: "length b0 = 4" "length b1 = 4" "length b2 = 4" "length b3 = 4" "length b4 = 4" "length b5 = 4"
    using length_4_split [OF assms] by blast
  show ?thesis
    by (cases be)
      (simp_all add: bs l wire_message_def fix_endians_def message_of_mem_def Let_def mem_word_def
        le_bytes_word H4_le_word)
qed

lemma le_bytes_inj [simp]: "le_bytes x = le_bytes y \<longleftrightarrow> x = y"
  by (metis le_word_bytes)

lemma wire_message_inj: "wire_message m = wire_message m' \<longleftrightarrow> m = m'"
  by (auto simp: wire_message_def)

lemma read_wire_message: "fix_endians be (message_of_mem be (wire_message m)) = m"
  by (simp add: wire_message_read flip: wire_message_inj)

section \<open>Packets over a byte source and a byte sink\<close>

lemma seal_packet_valid:
  assumes "length (pk_data p) = unat (data_length (msg p))" and "unat (data_length (msg p)) \<le> MAX_PAYLOAD"
  shows "\<exists>q. seal_packet p = Inr q \<and> valid_packet q \<and> pk_data q = pk_data p
    \<and> command (msg q) = command (msg p) \<and> arg0 (msg q) = arg0 (msg p) \<and> arg1 (msg q) = arg1 (msg p)
    \<and> data_length (msg q) = data_length (msg p)"
  using assms by (simp add: seal_packet_def valid_packet_def sum_loop_enough Let_def)

lemma check_header_0:
  "check_header p = 0 \<longleftrightarrow>
     magic (msg p) = command (msg p) XOR 0xffffffff \<and> unat (data_length (msg p)) \<le> MAX_PAYLOAD"
  by (auto simp: check_header_def)

lemma valid_packet_checks:
  "valid_packet p \<longleftrightarrow> check_header p = 0 \<and> length (pk_data p) = unat (data_length (msg p)) \<and> check_data p = Inr 0"
  by (auto simp: valid_packet_def check_header_def check_data_def sum_loop_enough split: if_splits)

lemma checksum_update:
  "i < length xs \<Longrightarrow> checksum (xs[i := b]) = checksum xs + ucast b - ucast (xs ! i)"
  by (induction xs arbitrary: i) (auto simp: checksum_def nth_Cons split: nat.splits)

lemma unat_ucast_byte: "unat (ucast (a :: byte) :: u32) = unat a"
  using unat_byte_less [of a] by (simp add: unsigned_ucast_eq take_bit_nat_eq_self)

lemma ucast_byte_inj: "(ucast (a :: byte) :: u32) = ucast b \<longleftrightarrow> a = b"
  by (metis unat_ucast_byte word_unat_eq_iff)

context byte_source
begin

lemma remote_read_accepts:
  assumes "valid_packet p" and "stream s = wire_packet p @ rest"
  shows "\<exists>s'. remote_read rd be p0 s = Inr (0, p0\<lparr>msg := msg p, pk_data := pk_data p\<rparr>, s') \<and> stream s' = rest"
proof -
  from assms(2) obtain s1 where 1: "rd sizeof_amessage s = Inr (Some (wire_message (msg p)), s1)"
      and s1: "stream s1 = pk_data p @ rest"
    using rd_enough [of sizeof_amessage s] by (auto simp: wire_packet_def)
  have len: "length (pk_data p) = unat (data_length (msg p))"
    using assms(1) by (simp add: valid_packet_def)
  obtain s2 where 2: "rd (unat (data_length (msg p))) s1 = Inr (Some (pk_data p), s2)"
      and s2: "stream s2 = rest"
    using rd_enough [of "unat (data_length (msg p))" s1] by (auto simp: s1 len [symmetric])
  have "check_header (p0\<lparr>msg := msg p\<rparr>) = 0" "check_data (p0\<lparr>msg := msg p, pk_data := pk_data p\<rparr>) = Inr 0"
    using assms(1) valid_packet_checks [of p] by (simp_all add: check_header_0 check_data_def)
  with 1 2 s2 show ?thesis
    by (simp add: remote_read_def read_wire_message)
qed

lemma remote_read_sound:
  assumes "remote_read rd be p0 s = Inr (0, p, s')"
  shows "valid_packet p \<and> stream s = wire_packet p @ stream s'
    \<and> p = p0\<lparr>msg := msg p, pk_data := pk_data p\<rparr>"
proof -
  from assms obtain bs s1 d where 1: "rd sizeof_amessage s = Inr (Some bs, s1)"
    and h: "check_header (p0\<lparr>msg := fix_endians be (message_of_mem be bs)\<rparr>) = 0"
    and 2: "rd (unat (data_length (fix_endians be (message_of_mem be bs)))) s1 = Inr (Some d, s')"
    and p: "p = p0\<lparr>msg := fix_endians be (message_of_mem be bs), pk_data := d\<rparr>"
    and c: "check_data p = Inr 0"
    by (auto simp: remote_read_def bindr_eq_Inr Let_def split: option.splits if_splits)
  from rd_Some [OF 1] rd_Some [OF 2] have
    "length bs = sizeof_amessage" "stream s = bs @ d @ stream s'" "length d = unat (data_length (msg p))"
    by (simp_all add: p)
  with h c show ?thesis
    by (simp add: p wire_packet_def wire_message_read valid_packet_checks check_header_0)
qed

lemma remote_read_bad_sum:
  assumes "valid_packet p" and "length d = length (pk_data p)" and "checksum d \<noteq> checksum (pk_data p)"
    and "stream s = wire_message (msg p) @ d @ rest"
  shows "\<exists>s'. remote_read rd be p0 s = Inr (-1, p0\<lparr>msg := msg p, pk_data := d\<rparr>, s')"
proof -
  have len: "length d = unat (data_length (msg p))" and h: "check_header p = 0"
    using assms(1,2) valid_packet_checks [of p] by auto
  obtain s1 where 1: "rd sizeof_amessage s = Inr (Some (wire_message (msg p)), s1)"
      and s1: "stream s1 = d @ rest"
    using rd_enough [of sizeof_amessage s] assms(4) by auto
  obtain s2 where 2: "rd (unat (data_length (msg p))) s1 = Inr (Some d, s2)"
    using rd_enough [of "unat (data_length (msg p))" s1] by (auto simp: s1 len [symmetric])
  have "check_data (p0\<lparr>msg := msg p, pk_data := d\<rparr>) = Inr (-1)"
    using assms(1,3) len by (simp add: check_data_def sum_loop_enough valid_packet_def)
  moreover have "check_header (p0\<lparr>msg := msg p\<rparr>) = 0"
    using h by (simp add: check_header_0)
  ultimately show ?thesis using 1 2 by (simp add: remote_read_def read_wire_message)
qed

lemma remote_read_bad_header:
  assumes "magic m \<noteq> command m XOR 0xffffffff \<or> unat (data_length m) > MAX_PAYLOAD"
    and "stream s = wire_message m @ rest"
  shows "\<exists>s'. remote_read rd be p0 s = Inr (-1, p0\<lparr>msg := m\<rparr>, s') \<and> stream s' = rest"
proof -
  obtain s1 where 1: "rd sizeof_amessage s = Inr (Some (wire_message m), s1)" "stream s1 = rest"
    using rd_enough [of sizeof_amessage s] assms(2) by auto
  moreover have "check_header (p0\<lparr>msg := m\<rparr>) \<noteq> 0"
    using assms(1) by (auto simp: check_header_0)
  ultimately show ?thesis by (simp add: remote_read_def read_wire_message)
qed

end

context byte_sink
begin

lemma remote_write_sends:
  assumes "length (pk_data p) = unat (data_length (msg p))" and "remote_write wr be p s = Inr (r, s')"
  shows "if r = 0 then sent s' = sent s @ wire_packet p
    else r = -1 \<and> (\<exists>k < length (wire_packet p). sent s' = sent s @ take k (wire_packet p))"
proof -
  from assms obtain r' where "wr (wire_packet p) s = Inr (r', s')" "r = (if r' = 0 then 0 else -1)"
    by (auto simp: remote_write_def Let_def bindr_eq_Inr mem_message_fix wire_packet_def split: if_splits)
  then show ?thesis using wr_ok [of "wire_packet p" s s'] wr_fail [of "wire_packet p" s r' s'] by auto
qed

end

section \<open>Properties\<close>

text \<open>
  Property C6. Round trip: whatever packet \<open>send_packet\<close> seals and \<open>remote_write\<close> sends, on either
  byte order and under any schedule of partial writes, \<open>remote_read\<close> on the other side (again
  on either byte order and under any fragmentation of the stream) accepts, delivers with the
  same header and payload, and leaves the rest of the stream for the next packet.
\<close>

theorem packet_roundtrip:
  assumes "length (pk_data p) = unat (data_length (msg p))"
    and "unat (data_length (msg p)) \<le> MAX_PAYLOAD"
    and "seal_packet p = Inr q"
    and "remote_write (writex fd) be q w = Inr (0, w')"
    and "wr_out w' fd = wr_out w fd @ bs"
    and "good_bytes (rd_ev v fd') = bs @ rest"
  shows "\<exists>v'. remote_read (readx fd') be' get_apacket v
      = Inr (0, get_apacket\<lparr>msg := msg q, pk_data := pk_data p\<rparr>, v')
    \<and> good_bytes (rd_ev v' fd') = rest"
proof -
  from seal_packet_valid [OF assms(1,2)] assms(3)
  have q: "valid_packet q" "pk_data q = pk_data p" by auto
  then have "length (pk_data q) = unat (data_length (msg q))" by (simp add: valid_packet_def)
  from sock_snk.remote_write_sends [OF this assms(4)] assms(5)
  have "bs = wire_packet q" by simp
  with sock_src.remote_read_accepts [OF q(1), of v fd' rest be' get_apacket] assms(6) q(2)
  show ?thesis by simp
qed

text \<open>
  Property C19. \<open>remote_read\<close> is sound: a packet it accepts has a matching magic, a length within
  \<open>MAX_PAYLOAD\<close> (so the data buffer is never overrun), exactly that many data bytes and a
  matching checksum, and it is precisely the bytes taken off the stream.
\<close>

theorem remote_read_only_valid:
  assumes "remote_read (readx fd) be p0 w = Inr (0, p, w')"
  shows "valid_packet p \<and> length (pk_data p) \<le> MAX_PAYLOAD
    \<and> good_bytes (rd_ev w fd) = wire_packet p @ good_bytes (rd_ev w' fd)"
  using sock_src.remote_read_sound [OF assms] by (simp add: valid_packet_def)

text \<open>
  Corruption of one payload byte in transit is always detected: if the stream carries a
  valid packet with any single data byte replaced by a different value, \<open>remote_read\<close> fails.
\<close>

theorem corrupt_byte_rejected:
  assumes "valid_packet p" and "i < length (pk_data p)" and "b \<noteq> pk_data p ! i"
    and "good_bytes (rd_ev w fd) = wire_message (msg p) @ (pk_data p)[i := b] @ rest"
  shows "\<exists>q w'. remote_read (readx fd) be p0 w = Inr (-1, q, w')"
proof -
  have "checksum ((pk_data p)[i := b]) \<noteq> checksum (pk_data p)"
    using assms(2,3) by (simp add: checksum_update ucast_byte_inj)
  with sock_src.remote_read_bad_sum [OF assms(1) _ _ assms(4), of be p0] show ?thesis by auto
qed

section \<open>Witnesses\<close>

definition ex_packet :: apacket where
  "ex_packet = get_apacket\<lparr>msg := zero_msg\<lparr>command := A_WRTE, arg0 := 7, arg1 := 9, data_length := 2\<rparr>,
     pk_data := [0x41, 0x42]\<rparr>"

definition ex_sealed :: apacket where
  "ex_sealed = ex_packet\<lparr>msg := (msg ex_packet)\<lparr>magic := A_WRTE XOR 0xffffffff, data_check := 0x83\<rparr>\<rparr>"

text \<open>A reader whose stream arrives as a short read, an interruption and the rest.\<close>

definition ex_reader :: "byte list \<Rightarrow> world" where
  "ex_reader bs = idle_world\<lparr>rd_ev := (\<lambda>_. [RdBytes (take 5 bs), RdErr EINTR, RdBytes (drop 5 bs)])\<rparr>"

lemma ex_sealed: "seal_packet ex_packet = Inr ex_sealed"
  by (simp add: seal_packet_def ex_packet_def ex_sealed_def get_apacket_def zero_msg_def sum_loop_enough checksum_def)

lemma good_bytes_ex_reader: "5 < length bs \<Longrightarrow> good_bytes (rd_ev (ex_reader bs) fd) = bs"
  by (auto simp: ex_reader_def)

lemma ex_sent:
  "remote_write (writex 3) False ex_sealed idle_world
   = Inr (0, wr_done 3 (wire_packet ex_sealed) [26] [] idle_world)"
proof -
  have "length (wire_packet ex_sealed) = 26"
    by (simp add: wire_packet_def sizeof_amessage_def ex_sealed_def ex_packet_def get_apacket_def)
  moreover from this have "wire_packet ex_sealed \<noteq> []" by auto
  ultimately have "writex 3 (wire_packet ex_sealed) idle_world
      = Inr (0, wr_done 3 (wire_packet ex_sealed) [26] [] idle_world)"
    by (simp add: writex_def writex_chunks.simps writex_rest.simps writex_maxnum_def SYNC_DATA_MAX_def
        adb_write_cases idle_world_def)
  moreover have "take (unat (data_length (msg ex_sealed))) (pk_data ex_sealed) = pk_data ex_sealed"
    by (simp add: ex_sealed_def ex_packet_def get_apacket_def zero_msg_def)
  ultimately show ?thesis
    by (simp add: remote_write_def mem_message_fix Let_def flip: wire_packet_def)
      (simp add: ex_sealed_def ex_packet_def get_apacket_def zero_msg_def)
qed

theorem packet_roundtrip_witness:
  "\<exists>v'. remote_read (readx 4) True get_apacket (ex_reader (wire_packet ex_sealed))
     = Inr (0, get_apacket\<lparr>msg := msg ex_sealed, pk_data := pk_data ex_packet\<rparr>, v')"
proof -
  have "length (pk_data ex_packet) = unat (data_length (msg ex_packet))"
    "unat (data_length (msg ex_packet)) \<le> MAX_PAYLOAD"
    by (simp_all add: ex_packet_def get_apacket_def zero_msg_def MAX_PAYLOAD_def)
  from packet_roundtrip [OF this ex_sealed ex_sent, of "wire_packet ex_sealed"
      "ex_reader (wire_packet ex_sealed)" 4 "[]" True]
  show ?thesis
    by (auto simp: good_bytes_ex_reader idle_world_def wire_packet_def sizeof_amessage_def)
qed

lemma valid_ex_sealed: "valid_packet ex_sealed"
  by (simp add: valid_packet_def ex_sealed_def ex_packet_def get_apacket_def zero_msg_def
      MAX_PAYLOAD_def checksum_def)

theorem remote_read_only_valid_witness:
  "\<exists>p w'. remote_read (readx 4) False get_apacket (ex_reader (wire_packet ex_sealed)) = Inr (0, p, w')
     \<and> valid_packet p"
proof -
  obtain w' where r: "remote_read (readx 4) False get_apacket (ex_reader (wire_packet ex_sealed))
      = Inr (0, get_apacket\<lparr>msg := msg ex_sealed, pk_data := pk_data ex_sealed\<rparr>, w')"
    using sock_src.remote_read_accepts [OF valid_ex_sealed, of "ex_reader (wire_packet ex_sealed)" 4 "[]"]
    by (auto simp: good_bytes_ex_reader wire_packet_def sizeof_amessage_def)
  with remote_read_only_valid [OF r] show ?thesis by blast
qed

theorem corrupt_byte_rejected_witness:
  "\<exists>q w'. remote_read (readx 4) False get_apacket
     (ex_reader (wire_message (msg ex_sealed) @ [0x41, 0x43])) = Inr (-1, q, w')"
  by (rule corrupt_byte_rejected [OF valid_ex_sealed, of 1 "0x43" _ 4 "[]"])
    (auto simp: good_bytes_ex_reader sizeof_amessage_def ex_sealed_def ex_packet_def get_apacket_def)

end
