(* ===== verification/Fdevent.thy ===== *)
theory Fdevent
  imports Packet
begin

text \<open>
  The event loop of fdevent.c (the \<open>select\<close> variant that is compiled in): the table from
  descriptors to event records, the descriptor sets given to \<open>select\<close>, the list of records with
  events to deliver, and every operation on them. Event records live in a store addressed by
  \<open>addr\<close>, since they are embedded in the sockets, listeners and transports that own them; the
  pending list, circular and doubly linked in the code, is the list of its addresses. Pointers
  and \<open>int\<close> have the same size, as in the 32-bit builds the project describes.
\<close>

section \<open>Data\<close>

type_synonym u16 = "16 word"

definition FDE_READ :: u16 where "FDE_READ = 0x0001"
definition FDE_WRITE :: u16 where "FDE_WRITE = 0x0002"
definition FDE_ERROR :: u16 where "FDE_ERROR = 0x0004"
definition FDE_DONT_CLOSE :: u16 where "FDE_DONT_CLOSE = 0x0080"
definition FDE_EVENTMASK :: u16 where "FDE_EVENTMASK = 0x00ff"
definition FDE_STATEMASK :: u16 where "FDE_STATEMASK = 0xff00"
definition FDE_ACTIVE :: u16 where "FDE_ACTIVE = 0x0100"
definition FDE_PENDING :: u16 where "FDE_PENDING = 0x0200"
definition FDE_CREATED :: u16 where "FDE_CREATED = 0x0400"

definition FD_SETSIZE :: nat where "FD_SETSIZE = 1024"

text \<open>The C test \<open>s & m\<close> as a condition.\<close>

definition has :: "u16 \<Rightarrow> u16 \<Rightarrow> bool" where
  "has s m \<longleftrightarrow> s AND m \<noteq> 0"

text \<open>The callbacks the program installs, with the argument each is installed with.\<close>

datatype fd_func =
    local_socket_event_func addr
  | ss_listener_event_func addr
  | listener_event_func addr
  | transport_socket_events addr
  | transport_registration_func
  | fdevent_subproc_event_func
  | adb_auth_event addr
  | adb_auth_listener
  | jdwp_process_event addr
  | jdwp_control_event

record fdevent =
  fde_fd :: int
  force_eof :: bool
  fde_state :: u16
  fde_events :: u16
  fde_func :: fd_func

record fdstate = world +
  fdes :: "addr \<rightharpoonup> fdevent"
  list_pending :: "addr list"
  fd_table :: "addr option list"      \<comment> \<open>its length is \<open>fd_table_max\<close>\<close>
  select_n :: nat
  read_fds :: "nat set"
  write_fds :: "nat set"
  error_fds :: "nat set"

definition get_fde :: "addr \<Rightarrow> 'a fdstate_scheme \<Rightarrow> fdevent res" where
  "get_fde a st = from_opt MemFault (fdes st a)"

definition put_fde :: "addr \<Rightarrow> fdevent \<Rightarrow> 'a fdstate_scheme \<Rightarrow> 'a fdstate_scheme" where
  "put_fde a f st = st\<lparr>fdes := (fdes st)(a \<mapsto> f)\<rparr>"

section \<open>The select back end\<close>

definition fdevent_init :: "'a fdstate_scheme \<Rightarrow> 'a fdstate_scheme" where
  "fdevent_init st = st\<lparr>read_fds := {}, write_fds := {}, error_fds := {}\<rparr>"

definition fdevent_connect :: "addr \<Rightarrow> 'a fdstate_scheme \<Rightarrow> 'a fdstate_scheme res" where
  "fdevent_connect a st = bindr (get_fde a st) (\<lambda>f.
     Inr (if fde_fd f \<ge> int (select_n st) then st\<lparr>select_n := nat (fde_fd f + 1)\<rparr> else st))"

text \<open>The largest index below \<open>n\<close> whose table entry is set, or 0.\<close>

fun last_used :: "addr option list \<Rightarrow> nat \<Rightarrow> nat" where
  "last_used tbl 0 = 0"
| "last_used tbl (Suc i) = (if i < length tbl \<and> tbl ! i \<noteq> None then i else last_used tbl i)"

definition fdevent_disconnect :: "addr \<Rightarrow> 'a fdstate_scheme \<Rightarrow> 'a fdstate_scheme res" where
  "fdevent_disconnect a st = bindr (get_fde a st) (\<lambda>f.
     if \<not> (0 \<le> fde_fd f \<and> fde_fd f < int FD_SETSIZE) then Inl MemFault
     else if select_n st > length (fd_table st) then Inl MemFault
     else
       let fd = nat (fde_fd f) in
       Inr (st\<lparr>read_fds := read_fds st - {fd}, write_fds := write_fds st - {fd},
              error_fds := error_fds st - {fd},
              select_n := last_used (fd_table st) (select_n st) + 1\<rparr>))"

definition fd_put :: "bool \<Rightarrow> nat \<Rightarrow> nat set \<Rightarrow> nat set" where
  "fd_put b i S = (if b then insert i S else S - {i})"

text \<open>The three \<open>FD_SET\<close> or \<open>FD_CLR\<close> calls for one descriptor.\<close>

definition watch_fd :: "nat \<Rightarrow> u16 \<Rightarrow> 'a fdstate_scheme \<Rightarrow> 'a fdstate_scheme" where
  "watch_fd fd events st =
     st\<lparr>read_fds := fd_put (has events FDE_READ) fd (read_fds st),
        write_fds := fd_put (has events FDE_WRITE) fd (write_fds st),
        error_fds := fd_put (has events FDE_ERROR) fd (error_fds st)\<rparr>"

definition fdevent_update :: "addr \<Rightarrow> u16 \<Rightarrow> 'a fdstate_scheme \<Rightarrow> 'a fdstate_scheme res" where
  "fdevent_update a events st = bindr (get_fde a st) (\<lambda>f.
     if \<not> (0 \<le> fde_fd f \<and> fde_fd f < int FD_SETSIZE) then Inl MemFault
     else Inr (put_fde a (f\<lparr>fde_state := (fde_state f AND FDE_STATEMASK) OR events\<rparr>)
            (watch_fd (nat (fde_fd f)) events st)))"

section \<open>The descriptor table\<close>

function grow_max :: "nat \<Rightarrow> nat \<Rightarrow> nat" where
  "grow_max m fd = (if 0 < m \<and> m \<le> fd then grow_max (2 * m) fd else m)"
  by pat_completeness auto
termination by (relation "measure (\<lambda>(m, fd). Suc fd - m)") auto

declare grow_max.simps [simp del]

definition fdevent_register :: "addr \<Rightarrow> 'a fdstate_scheme \<Rightarrow> 'a fdstate_scheme res" where
  "fdevent_register a st = bindr (get_fde a st) (\<lambda>f.
     if fde_fd f < 0 then Inl (Fatal ''bogus negative fd'')
     else
       let fd = nat (fde_fd f); oldmax = length (fd_table st) in
       bindr
         (if fd \<ge> oldmax then
            if fd > 32000 then Inl (Fatal ''bogus huuuuge fd'')
            else
              let st1 = (if oldmax = 0 then fdevent_init st else st);
                  newmax = grow_max (if oldmax = 0 then 256 else oldmax) fd
              in Inr (st1\<lparr>fd_table := fd_table st1 @ replicate (newmax - oldmax) None\<rparr>)
          else Inr st)
         (\<lambda>st. Inr (st\<lparr>fd_table := (fd_table st)[fd := Some a]\<rparr>)))"

definition fdevent_unregister :: "addr \<Rightarrow> 'a fdstate_scheme \<Rightarrow> 'a fdstate_scheme res" where
  "fdevent_unregister a st = bindr (get_fde a st) (\<lambda>f.
     if fde_fd f < 0 \<or> fde_fd f \<ge> int (length (fd_table st)) then Inl (Fatal ''fd out of range'')
     else if fd_table st ! nat (fde_fd f) \<noteq> Some a then Inl (Fatal ''fd_table out of sync'')
     else
       let st1 = st\<lparr>fd_table := (fd_table st)[nat (fde_fd f) := None]\<rparr> in
       Inr (if has (fde_state f) FDE_DONT_CLOSE then st1 else adb_close (fde_fd f) st1))"

section \<open>The pending list\<close>

definition fdevent_plist_enqueue :: "addr \<Rightarrow> 'a fdstate_scheme \<Rightarrow> 'a fdstate_scheme" where
  "fdevent_plist_enqueue a st = st\<lparr>list_pending := list_pending st @ [a]\<rparr>"

text \<open>Unlinking a node that is in no list writes through its NULL links.\<close>

definition fdevent_plist_remove :: "addr \<Rightarrow> 'a fdstate_scheme \<Rightarrow> 'a fdstate_scheme res" where
  "fdevent_plist_remove a st =
     (if a \<in> set (list_pending st) then Inr (st\<lparr>list_pending := remove1 a (list_pending st)\<rparr>)
      else Inl MemFault)"

definition fdevent_plist_dequeue :: "'a fdstate_scheme \<Rightarrow> addr option \<times> 'a fdstate_scheme" where
  "fdevent_plist_dequeue st =
     (case list_pending st of
        [] \<Rightarrow> (None, st)
      | a # as \<Rightarrow> (Some a, st\<lparr>list_pending := as\<rparr>))"

section \<open>The public operations\<close>

definition fdevent_install :: "addr \<Rightarrow> int \<Rightarrow> fd_func \<Rightarrow> 'a fdstate_scheme \<Rightarrow> 'a fdstate_scheme res" where
  "fdevent_install a fd func st =
     (let f = \<lparr>fde_fd = fd, force_eof = False, fde_state = FDE_ACTIVE, fde_events = 0, fde_func = func\<rparr>;
          st1 = put_fde a f st;
          st2 = st1\<lparr>nonblock := (nonblock st1)(fd := True)\<rparr> in
      bindr (fdevent_register a st2) (\<lambda>st3.
      bindr (fdevent_connect a st3) (\<lambda>st4.
      bindr (get_fde a st4) (\<lambda>f.
        Inr (put_fde a (f\<lparr>fde_state := fde_state f OR FDE_ACTIVE\<rparr>) st4)))))"

definition fdevent_remove :: "addr \<Rightarrow> 'a fdstate_scheme \<Rightarrow> 'a fdstate_scheme res" where
  "fdevent_remove a st = bindr (get_fde a st) (\<lambda>f.
     bindr (if has (fde_state f) FDE_PENDING then fdevent_plist_remove a st else Inr st) (\<lambda>st.
     bindr (if has (fde_state f) FDE_ACTIVE
            then bindr (fdevent_disconnect a st) (fdevent_unregister a) else Inr st) (\<lambda>st.
       Inr (put_fde a (f\<lparr>fde_state := 0, fde_events := 0\<rparr>) st))))"

definition fdevent_set :: "addr \<Rightarrow> u16 \<Rightarrow> 'a fdstate_scheme \<Rightarrow> 'a fdstate_scheme res" where
  "fdevent_set a events st =
     (let events = events AND FDE_EVENTMASK in
      bindr (get_fde a st) (\<lambda>f.
      if fde_state f AND FDE_EVENTMASK = events then Inr st
      else
        bindr (if has (fde_state f) FDE_ACTIVE then fdevent_update a events st else Inr st) (\<lambda>st.
        let f = f\<lparr>fde_state := (fde_state f AND FDE_STATEMASK) OR events\<rparr> in
        if has (fde_state f) FDE_PENDING then
          let f = f\<lparr>fde_events := fde_events f AND NOT events\<rparr> in
          if fde_events f = 0 then
            bindr (fdevent_plist_remove a st) (\<lambda>st.
              Inr (put_fde a (f\<lparr>fde_state := fde_state f AND NOT FDE_PENDING\<rparr>) st))
          else Inr (put_fde a f st)
        else Inr (put_fde a f st))))"

definition fdevent_add :: "addr \<Rightarrow> u16 \<Rightarrow> 'a fdstate_scheme \<Rightarrow> 'a fdstate_scheme res" where
  "fdevent_add a events st = bindr (get_fde a st) (\<lambda>f.
     fdevent_set a ((fde_state f AND FDE_EVENTMASK) OR (events AND FDE_EVENTMASK)) st)"

definition fdevent_del :: "addr \<Rightarrow> u16 \<Rightarrow> 'a fdstate_scheme \<Rightarrow> 'a fdstate_scheme res" where
  "fdevent_del a events st = bindr (get_fde a st) (\<lambda>f.
     fdevent_set a ((fde_state f AND FDE_EVENTMASK) AND NOT (events AND FDE_EVENTMASK)) st)"

definition fdevent_create :: "addr \<Rightarrow> int \<Rightarrow> fd_func \<Rightarrow> 'a fdstate_scheme \<Rightarrow> 'a fdstate_scheme res" where
  "fdevent_create a fd func st =
     bindr (fdevent_install a fd func st) (\<lambda>st.
     bindr (get_fde a st) (\<lambda>f.
       Inr (put_fde a (f\<lparr>fde_state := fde_state f OR FDE_CREATED\<rparr>) st)))"

definition fdevent_destroy :: "addr option \<Rightarrow> 'a fdstate_scheme \<Rightarrow> 'a fdstate_scheme res" where
  "fdevent_destroy fde st =
     (case fde of None \<Rightarrow> Inr st
      | Some a \<Rightarrow> bindr (get_fde a st) (\<lambda>f.
          if \<not> has (fde_state f) FDE_CREATED then Inl (Fatal ''fde not created by fdevent_create()'')
          else fdevent_remove a st))"

section \<open>Waiting for events\<close>

text \<open>
  The outcome of \<open>select\<close>: an error, or the count it returns with the three sets it leaves in its
  arguments. Which descriptors \<open>fcntl(F_GETFL)\<close> rejects is the predicate \<open>bad\<close>.
\<close>

datatype select_ret = SelErr errno | SelN nat "nat set" "nat set" "nat set"

definition fdevent_fd_check :: "(nat \<Rightarrow> bool) \<Rightarrow> 'a fdstate_scheme \<Rightarrow> nat set \<Rightarrow> (nat \<times> nat set) res" where
  "fdevent_fd_check bad st fds =
     (if select_n st > length (fd_table st) then Inl MemFault
      else
        let is = filter (\<lambda>i. fd_table st ! i \<noteq> None \<and> bad i) [0..<select_n st] in
        if \<exists>i\<in>set is. i \<ge> FD_SETSIZE then Inl MemFault
        else Inr (length is, set is \<union> fds))"

definition sel_events :: "nat \<Rightarrow> nat set \<Rightarrow> nat set \<Rightarrow> nat set \<Rightarrow> u16" where
  "sel_events i rfd wfd efd =
     (if i \<in> rfd then FDE_READ else 0) OR (if i \<in> wfd then FDE_WRITE else 0)
     OR (if i \<in> efd then FDE_ERROR else 0)"

definition sel_count :: "nat \<Rightarrow> nat set \<Rightarrow> nat set \<Rightarrow> nat set \<Rightarrow> nat" where
  "sel_count i rfd wfd efd = of_bool (i \<in> rfd) + of_bool (i \<in> wfd) + of_bool (i \<in> efd)"

text \<open>Marking the record of descriptor \<open>i\<close>: the body of the loop when it has events.\<close>

definition mark_pending :: "nat \<Rightarrow> u16 \<Rightarrow> 'a fdstate_scheme \<Rightarrow> 'a fdstate_scheme res" where
  "mark_pending i events st =
     (if i \<ge> length (fd_table st) then Inl MemFault
      else case fd_table st ! i of
        None \<Rightarrow> Inl (Fatal ''missing fde for fd'')
      | Some a \<Rightarrow> bindr (get_fde a st) (\<lambda>f.
          let f = f\<lparr>fde_events := fde_events f OR events\<rparr> in
          if has (fde_state f) FDE_PENDING then Inr (put_fde a f st)
          else Inr (fdevent_plist_enqueue a (put_fde a (f\<lparr>fde_state := fde_state f OR FDE_PENDING\<rparr>) st))))"

text \<open>The loop over the descriptors, which ends early once all \<open>n\<close> reported bits are accounted for.\<close>

fun process_fds :: "nat list \<Rightarrow> int \<Rightarrow> nat set \<Rightarrow> nat set \<Rightarrow> nat set \<Rightarrow> 'a fdstate_scheme \<Rightarrow> 'a fdstate_scheme res" where
  "process_fds [] n rfd wfd efd st = Inr st"
| "process_fds (i # is) n rfd wfd efd st =
     (if n \<le> 0 then Inr st
      else if i \<ge> FD_SETSIZE then Inl MemFault
      else
        let events = sel_events i rfd wfd efd; n = n - int (sel_count i rfd wfd efd) in
        if events = 0 then process_fds is n rfd wfd efd st
        else bindr (mark_pending i events st) (process_fds is n rfd wfd efd))"

definition fdevent_process :: "select_ret \<Rightarrow> (nat \<Rightarrow> bool) \<Rightarrow> 'a fdstate_scheme \<Rightarrow> 'a fdstate_scheme res" where
  "fdevent_process sel bad st =
     (case sel of
        SelErr e \<Rightarrow>
          if e = EBADF then
            bindr (fdevent_fd_check bad st {}) (\<lambda>(n, rfd).
              process_fds [0..<select_n st] (int n) rfd {} {} st)
          else Inr st
      | SelN n rfd wfd efd \<Rightarrow>
          bindr (if n = 0 then fdevent_fd_check bad st rfd else Inr (n, rfd)) (\<lambda>(n, rfd).
            process_fds [0..<select_n st] (int n) rfd wfd efd st))"

section \<open>Delivering events\<close>

text \<open>The callbacks are an argument: what the function stored in the record does.\<close>

type_synonym 's callback = "fd_func \<Rightarrow> int \<Rightarrow> u16 \<Rightarrow> 's \<Rightarrow> 's res"

definition fdevent_call_fdfunc :: "'a fdstate_scheme callback \<Rightarrow> addr \<Rightarrow> 'a fdstate_scheme \<Rightarrow> 'a fdstate_scheme res" where
  "fdevent_call_fdfunc call a st = bindr (get_fde a st) (\<lambda>f.
     let events = fde_events f; f = f\<lparr>fde_events := 0\<rparr> in
     if \<not> has (fde_state f) FDE_PENDING then Inr (put_fde a f st)
     else
       let f = f\<lparr>fde_state := fde_state f AND NOT FDE_PENDING\<rparr> in
       call (fde_func f) (fde_fd f) events (put_fde a f st))"

text \<open>
  The notification that a subprocess has exited. \<open>rcount\<close> is what \<open>ioctl(FIONREAD)\<close> reports for
  the descriptor.
\<close>

definition subproc_notify :: "(int \<Rightarrow> int) \<Rightarrow> 'a fdstate_scheme callback \<Rightarrow> int
    \<Rightarrow> 'a fdstate_scheme \<Rightarrow> 'a fdstate_scheme res" where
  "subproc_notify rcount call subproc_fd st =
     (if subproc_fd < 0 \<or> subproc_fd \<ge> int (length (fd_table st)) then Inr st
      else case fd_table st ! nat subproc_fd of
        None \<Rightarrow> Inr st
      | Some a \<Rightarrow> bindr (get_fde a st) (\<lambda>f.
          if fde_fd f \<noteq> subproc_fd then Inr st
          else
            let f = f\<lparr>force_eof := True\<rparr> in
            if rcount subproc_fd \<noteq> 0 then Inr (put_fde a f st)
            else
              let f = f\<lparr>fde_events := fde_events f OR FDE_READ\<rparr> in
              if has (fde_state f) FDE_PENDING then Inr (put_fde a f st)
              else fdevent_call_fdfunc call a
                (put_fde a (f\<lparr>fde_state := fde_state f OR FDE_PENDING\<rparr>) st)))"

definition fdevent_subproc_event :: "bool \<Rightarrow> (int \<Rightarrow> int) \<Rightarrow> 'a fdstate_scheme callback \<Rightarrow> int \<Rightarrow> u16
    \<Rightarrow> 'a fdstate_scheme \<Rightarrow> 'a fdstate_scheme res" where
  "fdevent_subproc_event big_endian rcount call fd ev st =
     (if fd < 0 \<or> fd \<ge> int (length (fd_table st)) then Inl (Fatal ''fd out of range for fd_table'')
      else case fd_table st ! nat fd of
        None \<Rightarrow> Inl MemFault
      | Some fde \<Rightarrow> bindr (fdevent_add fde FDE_READ st) (\<lambda>st.
          if \<not> has ev FDE_READ then Inr st
          else bindr (readx fd 4 st) (\<lambda>(r, st). case r of
            None \<Rightarrow> Inl (Fatal ''Failed to read the subproc's fd'')
          | Some bs \<Rightarrow> subproc_notify rcount call (sint (mem_word big_endian bs)) st)))"

text \<open>\<open>a\<close> is the address of the new record, \<open>s0\<close> and \<open>s1\<close> the ends of the new socket pair, if any.\<close>

definition fdevent_subproc_setup :: "addr \<Rightarrow> (int \<times> int) option \<Rightarrow> 'a fdstate_scheme \<Rightarrow> (int \<times> 'a fdstate_scheme) res" where
  "fdevent_subproc_setup a s st =
     (case s of
        None \<Rightarrow> Inl (Fatal ''cannot create shell-exit socket-pair'')
      | Some (s0, s1) \<Rightarrow>
          bindr (fdevent_create a s1 fdevent_subproc_event_func st) (\<lambda>st.
          bindr (fdevent_add a FDE_READ st) (\<lambda>st. Inr (s0, st))))"

text \<open>
  The inner loop of \<open>fdevent_loop\<close>, which empties the pending list; \<open>None\<close> is running out of fuel.
\<close>

fun fdevent_drain :: "nat \<Rightarrow> 'a fdstate_scheme callback \<Rightarrow> 'a fdstate_scheme \<Rightarrow> 'a fdstate_scheme res option" where
  "fdevent_drain 0 call st = None"
| "fdevent_drain (Suc k) call st =
     (case fdevent_plist_dequeue st of
        (None, st) \<Rightarrow> Some (Inr st)
      | (Some a, st) \<Rightarrow>
          (case fdevent_call_fdfunc call a st of
             Inl e \<Rightarrow> Some (Inl e)
           | Inr st \<Rightarrow> fdevent_drain k call st))"

text \<open>
  \<open>fdevent_loop\<close>, which never returns, cut off after a number of rounds, one for each outcome of
  \<open>select\<close>; the result carries the descriptor that becomes \<open>SHELL_EXIT_NOTIFY_FD\<close>.
\<close>

fun loop_rounds :: "nat \<Rightarrow> 'a fdstate_scheme callback \<Rightarrow> (select_ret \<times> (nat \<Rightarrow> bool)) list
    \<Rightarrow> 'a fdstate_scheme \<Rightarrow> 'a fdstate_scheme res option" where
  "loop_rounds k call [] st = Some (Inr st)"
| "loop_rounds k call ((sel, bad) # sels) st =
     (case fdevent_process sel bad st of
        Inl e \<Rightarrow> Some (Inl e)
      | Inr st \<Rightarrow>
          (case fdevent_drain k call st of
             None \<Rightarrow> None
           | Some (Inl e) \<Rightarrow> Some (Inl e)
           | Some (Inr st) \<Rightarrow> loop_rounds k call sels st))"

definition fdevent_loop :: "nat \<Rightarrow> 'a fdstate_scheme callback \<Rightarrow> addr \<Rightarrow> (int \<times> int) option
    \<Rightarrow> (select_ret \<times> (nat \<Rightarrow> bool)) list \<Rightarrow> 'a fdstate_scheme \<Rightarrow> (int \<times> 'a fdstate_scheme) res option" where
  "fdevent_loop k call a s sels st =
     (case fdevent_subproc_setup a s st of
        Inl e \<Rightarrow> Some (Inl e)
      | Inr (fd, st) \<Rightarrow> map_option (\<lambda>r. bindr r (\<lambda>st. Inr (fd, st))) (loop_rounds k call sels st))"

section \<open>Flags\<close>

lemma has_bit:
  "has s FDE_READ = bit s 0" "has s FDE_WRITE = bit s 1" "has s FDE_ERROR = bit s 2"
  "has s FDE_DONT_CLOSE = bit s 7"
  "has s FDE_ACTIVE = bit s 8" "has s FDE_PENDING = bit s 9" "has s FDE_CREATED = bit s 10"
  using and_exp_eq_0_iff_not_bit [of s 0] and_exp_eq_0_iff_not_bit [of s 1]
    and_exp_eq_0_iff_not_bit [of s 2] and_exp_eq_0_iff_not_bit [of s 7]
    and_exp_eq_0_iff_not_bit [of s 8] and_exp_eq_0_iff_not_bit [of s 9]
    and_exp_eq_0_iff_not_bit [of s 10]
  by (simp_all add: has_def FDE_READ_def FDE_WRITE_def FDE_ERROR_def FDE_DONT_CLOSE_def
      FDE_ACTIVE_def FDE_PENDING_def FDE_CREATED_def)

lemma flag_exp:
  "FDE_READ = 2 ^ 0" "FDE_WRITE = 2 ^ 1" "FDE_ERROR = 2 ^ 2" "FDE_ACTIVE = 2 ^ 8"
  "FDE_PENDING = 2 ^ 9" "FDE_CREATED = 2 ^ 10"
  by (simp_all add: FDE_READ_def FDE_WRITE_def FDE_ERROR_def FDE_ACTIVE_def FDE_PENDING_def FDE_CREATED_def)

lemma bit_flag [simp]:
  "bit FDE_READ n \<longleftrightarrow> n = 0" "bit FDE_WRITE n \<longleftrightarrow> n = 1" "bit FDE_ERROR n \<longleftrightarrow> n = 2"
  "bit FDE_ACTIVE n \<longleftrightarrow> n = 8" "bit FDE_PENDING n \<longleftrightarrow> n = 9" "bit FDE_CREATED n \<longleftrightarrow> n = 10"
  unfolding flag_exp bit_exp_iff by auto

lemma mask_exp: "FDE_EVENTMASK = mask 8" "FDE_STATEMASK = push_bit 8 (mask 8)"
  by (simp_all add: FDE_EVENTMASK_def FDE_STATEMASK_def mask_numeral)

lemma bit_mask_flags [simp]:
  "bit FDE_EVENTMASK n \<longleftrightarrow> n < 8" "bit FDE_STATEMASK n \<longleftrightarrow> 8 \<le> n \<and> n < 16"
  unfolding mask_exp by (auto simp: bit_simps)

lemmas flag_bits = has_bit bit_and_iff bit_or_iff bit_not_iff

lemma u16_eqI: "(\<And>n. n < 16 \<Longrightarrow> bit a n = bit b n) \<Longrightarrow> a = (b :: u16)"
  by (rule bit_word_eqI) simp


section \<open>The invariant\<close>

definition tbl_at :: "'a fdstate_scheme \<Rightarrow> nat \<Rightarrow> addr option" where
  "tbl_at st i = (if i < length (fd_table st) then fd_table st ! i else None)"

text \<open>The set \<open>S\<close> given to \<open>select\<close> holds the descriptors of the active records that want \<open>ev\<close>.\<close>

definition watches :: "'a fdstate_scheme \<Rightarrow> nat set \<Rightarrow> u16 \<Rightarrow> bool" where
  "watches st S ev \<longleftrightarrow> (\<forall>i. i \<in> S \<longleftrightarrow>
     (\<exists>a f. fdes st a = Some f \<and> has (fde_state f) FDE_ACTIVE \<and> fde_fd f = int i \<and> has (fde_state f) ev))"

text \<open>
  The consistency of the event state: the pending list holds exactly the records marked
  \<open>FDE_PENDING\<close>, which are those with events recorded and are all active; the table maps exactly
  the descriptors of active records, below \<open>select_n\<close>; the three sets are the wanted events.
\<close>

definition fd_inv :: "'a fdstate_scheme \<Rightarrow> bool" where
  "fd_inv st \<longleftrightarrow>
     distinct (list_pending st)
     \<and> (\<forall>a. a \<in> set (list_pending st) \<longleftrightarrow> (\<exists>f. fdes st a = Some f \<and> has (fde_state f) FDE_PENDING))
     \<and> (\<forall>a f. fdes st a = Some f \<longrightarrow> (fde_events f \<noteq> 0 \<longleftrightarrow> has (fde_state f) FDE_PENDING))
     \<and> (\<forall>a f. fdes st a = Some f \<longrightarrow> has (fde_state f) FDE_PENDING \<longrightarrow> has (fde_state f) FDE_ACTIVE)
     \<and> (\<forall>a f. fdes st a = Some f \<longrightarrow> has (fde_state f) FDE_ACTIVE \<longrightarrow> 0 \<le> fde_fd f)
     \<and> (\<forall>i a. tbl_at st i = Some a \<longleftrightarrow>
          (\<exists>f. fdes st a = Some f \<and> has (fde_state f) FDE_ACTIVE \<and> fde_fd f = int i))
     \<and> (\<forall>i a. tbl_at st i = Some a \<longrightarrow> i < select_n st)
     \<and> select_n st \<le> length (fd_table st)
     \<and> watches st (read_fds st) FDE_READ \<and> watches st (write_fds st) FDE_WRITE
     \<and> watches st (error_fds st) FDE_ERROR"

lemmas fd_inv_unfold = fd_inv_def watches_def tbl_at_def

lemma put_fde_simps [simp]:
  "fdes (put_fde a f st) = (fdes st)(a \<mapsto> f)"
  "list_pending (put_fde a f st) = list_pending st"
  "fd_table (put_fde a f st) = fd_table st"
  "select_n (put_fde a f st) = select_n st"
  "read_fds (put_fde a f st) = read_fds st"
  "write_fds (put_fde a f st) = write_fds st"
  "error_fds (put_fde a f st) = error_fds st"
  "nonblock (put_fde a f st) = nonblock st"
  "rd_ev (put_fde a f st) = rd_ev st"
  "wr_ev (put_fde a f st) = wr_ev st"
  "wr_out (put_fde a f st) = wr_out st"
  "closed_fds (put_fde a f st) = closed_fds st"
  "put_fde a f (put_fde a g st) = put_fde a f st"
  "put_fde a f (st\<lparr>list_pending := ps\<rparr>) = (put_fde a f st)\<lparr>list_pending := ps\<rparr>"
  by (simp_all add: put_fde_def)

lemma fde_upd_swap: "f\<lparr>fde_events := e, fde_state := s\<rparr> = f\<lparr>fde_state := s, fde_events := e\<rparr>"
  by simp

lemma tbl_at_put_fde [simp]: "tbl_at (put_fde a f st) = tbl_at st"
  by (simp add: tbl_at_def fun_eq_iff)

lemma get_fde_eq [simp]: "get_fde a st = Inr f \<longleftrightarrow> fdes st a = Some f"
  by (simp add: get_fde_def)

lemma fd_invD:
  assumes "fd_inv st"
  shows "distinct (list_pending st)"
    "a \<in> set (list_pending st) \<longleftrightarrow> (\<exists>f. fdes st a = Some f \<and> has (fde_state f) FDE_PENDING)"
    "fdes st a = Some f \<Longrightarrow> fde_events f \<noteq> 0 \<longleftrightarrow> has (fde_state f) FDE_PENDING"
    "fdes st a = Some f \<Longrightarrow> has (fde_state f) FDE_PENDING \<Longrightarrow> has (fde_state f) FDE_ACTIVE"
    "fdes st a = Some f \<Longrightarrow> has (fde_state f) FDE_ACTIVE \<Longrightarrow> 0 \<le> fde_fd f"
    "tbl_at st i = Some a \<longleftrightarrow> (\<exists>f. fdes st a = Some f \<and> has (fde_state f) FDE_ACTIVE \<and> fde_fd f = int i)"
    "tbl_at st i = Some a \<Longrightarrow> i < select_n st"
    "select_n st \<le> length (fd_table st)"
    "watches st (read_fds st) FDE_READ" "watches st (write_fds st) FDE_WRITE"
    "watches st (error_fds st) FDE_ERROR"
  using assms unfolding fd_inv_def by blast+

text \<open>Two active records never share a descriptor.\<close>

lemma fd_inv_unique:
  assumes "fd_inv st" "fdes st a = Some f" "fdes st b = Some g"
    "has (fde_state f) FDE_ACTIVE" "has (fde_state g) FDE_ACTIVE" "fde_fd f = fde_fd g"
  shows "a = b"
proof -
  have "0 \<le> fde_fd f" using assms by (simp add: fd_inv_def)
  then obtain i where "fde_fd f = int i" by (rule nonneg_int_cases)
  then have "tbl_at st i = Some a" "tbl_at st i = Some b" using assms by (auto simp: fd_inv_def)
  then show ?thesis by simp
qed


lemma watch_fd_simps [simp]:
  "fdes (watch_fd i ev st) = fdes st"
  "list_pending (watch_fd i ev st) = list_pending st"
  "fd_table (watch_fd i ev st) = fd_table st"
  "select_n (watch_fd i ev st) = select_n st"
  "read_fds (watch_fd i ev st) = fd_put (has ev FDE_READ) i (read_fds st)"
  "write_fds (watch_fd i ev st) = fd_put (has ev FDE_WRITE) i (write_fds st)"
  "error_fds (watch_fd i ev st) = fd_put (has ev FDE_ERROR) i (error_fds st)"
  by (simp_all add: watch_fd_def)

lemma tbl_at_watch_fd [simp]: "tbl_at (watch_fd i ev st) = tbl_at st"
  by (simp add: tbl_at_def fun_eq_iff)

lemma watch_fd_cong: "ev AND FDE_EVENTMASK = ev' AND FDE_EVENTMASK \<Longrightarrow> watch_fd i ev st = watch_fd i ev' st"
proof -
  assume e: "ev AND FDE_EVENTMASK = ev' AND FDE_EVENTMASK"
  have "bit ev n = bit ev' n" if "n < 8" for n
    using arg_cong [OF e, of "\<lambda>x. bit x n"] that by (simp add: bit_and_iff)
  then show ?thesis by (simp add: watch_fd_def has_bit)
qed

text \<open>
  Changing an active record in place: only its flags and recorded events change, and the sets
  and the pending list with them.
\<close>

lemma watches_change:
  assumes inv: "fd_inv st" and f: "fdes st a = Some f" and act: "has (fde_state f) FDE_ACTIVE"
    and g: "fde_fd g = fde_fd f" and w: "watches st S ev"
    and that: "fdes st' = fdes st"
  shows "watches (put_fde a g st') (fd_put (has (fde_state g) FDE_ACTIVE \<and> has (fde_state g) ev) (nat (fde_fd f)) S) ev"
  unfolding watches_def
proof
  fix i
  have u: "b = a" if "fdes st b = Some h" "has (fde_state h) FDE_ACTIVE" "fde_fd h = fde_fd f" for b h
    using fd_inv_unique [OF inv that(1) f that(2) act that(3)] .
  have fd: "0 \<le> fde_fd f" using inv f act by (simp add: fd_inv_def)
  show "i \<in> fd_put (has (fde_state g) FDE_ACTIVE \<and> has (fde_state g) ev) (nat (fde_fd f)) S \<longleftrightarrow> (\<exists>b h. fdes (put_fde a g st') b = Some h
      \<and> has (fde_state h) FDE_ACTIVE \<and> fde_fd h = int i \<and> has (fde_state h) ev)"
  proof (cases "i = nat (fde_fd f)")
    case True
    with fd u g that show ?thesis by (auto simp: fd_put_def split: if_splits)
  next
    case False
    then have "i \<in> fd_put (has (fde_state g) FDE_ACTIVE \<and> has (fde_state g) ev) (nat (fde_fd f)) S \<longleftrightarrow> i \<in> S" by (auto simp: fd_put_def)
    also have "\<dots> \<longleftrightarrow> (\<exists>b h. fdes st b = Some h \<and> has (fde_state h) FDE_ACTIVE \<and> fde_fd h = int i
        \<and> has (fde_state h) ev)" using w by (simp add: watches_def)
    finally show ?thesis using False g f that by auto (metis fun_upd_other nat_int option.inject)+
  qed
qed

lemma fd_inv_change:
  assumes inv: "fd_inv st" and f: "fdes st a = Some f" and act: "has (fde_state f) FDE_ACTIVE"
    and g: "fde_fd g = fde_fd f" "has (fde_state g) FDE_ACTIVE" "fde_events g \<noteq> 0 \<longleftrightarrow> has (fde_state g) FDE_PENDING"
    and pend: "distinct ps"
      "set ps = (if has (fde_state g) FDE_PENDING then insert a (set (list_pending st))
         else set (list_pending st) - {a})"
  shows "fd_inv ((put_fde a g (watch_fd (nat (fde_fd f)) (fde_state g) st))\<lparr>list_pending := ps\<rparr>)" (is "fd_inv ?st")
proof -
  let ?w = "watch_fd (nat (fde_fd f)) (fde_state g) st"
  have "watches (put_fde a g ?w) (fd_put (has (fde_state g) ev) (nat (fde_fd f)) S) ev"
    if "watches st S ev" for S ev
    using watches_change [OF inv f act g(1) that, of ?w] g(2) by simp
  then have w: "watches ?st (fd_put (has (fde_state g) ev) (nat (fde_fd f)) S) ev"
    if "watches st S ev" for S ev
    using that by (simp add: watches_def)
  have t: "tbl_at ?st = tbl_at st" by (simp add: fun_eq_iff tbl_at_def)
  show ?thesis
    unfolding fd_inv_def t using inv f act g pend w unfolding fd_inv_def by auto
qed

text \<open>The case in which the wanted events stay as they are.\<close>

lemma watch_fd_same:
  assumes inv: "fd_inv st" and f: "fdes st a = Some f" and act: "has (fde_state f) FDE_ACTIVE"
  shows "watch_fd (nat (fde_fd f)) (fde_state f) st = st"
proof -
  have fd: "0 \<le> fde_fd f" using inv f act by (simp add: fd_inv_def)
  have "nat (fde_fd f) \<in> S \<longleftrightarrow> has (fde_state f) ev" if "watches st S ev" for S ev
    using that f act fd fd_inv_unique [OF inv _ f _ act] unfolding watches_def
    by (metis nat_0_le option.inject)
  then have "fd_put (has (fde_state f) ev) (nat (fde_fd f)) S = S" if "watches st S ev" for S ev
    using that by (auto simp: fd_put_def)
  then show ?thesis using inv by (simp add: watch_fd_def fd_inv_def)
qed

text \<open>Records that are not active do not take part.\<close>

definition inactive :: "'a fdstate_scheme \<Rightarrow> addr \<Rightarrow> bool" where
  "inactive st a \<longleftrightarrow> (\<forall>f. fdes st a = Some f \<longrightarrow> \<not> has (fde_state f) FDE_ACTIVE)"

lemma inactive_not_pending: "fd_inv st \<Longrightarrow> inactive st a \<Longrightarrow> a \<notin> set (list_pending st)"
  by (auto simp: fd_inv_def inactive_def)

lemma fd_inv_put_inactive:
  assumes inv: "fd_inv st" and a: "inactive st a"
    and g: "\<not> has (fde_state g) FDE_ACTIVE" "\<not> has (fde_state g) FDE_PENDING" "fde_events g = 0"
  shows "fd_inv (put_fde a g st)"
proof -
  have "watches (put_fde a g st) S ev" if "watches st S ev" for S ev
    using that a g unfolding watches_def inactive_def
    by (auto split: if_splits)
  then show ?thesis
    using inv a g inactive_not_pending [OF inv a] unfolding fd_inv_def inactive_def
    by (simp only: tbl_at_put_fde put_fde_simps) auto
qed



lemma fdevent_set_active:
  assumes inv: "fd_inv st" and f: "fdes st a = Some f" and act: "has (fde_state f) FDE_ACTIVE"
    and ok: "fdevent_set a events st = Inr st'"
  defines "e \<equiv> events AND FDE_EVENTMASK"
  shows "\<exists>g ps. st' = (put_fde a g (watch_fd (nat (fde_fd f)) (fde_state g) st))\<lparr>list_pending := ps\<rparr>
    \<and> fde_fd g = fde_fd f \<and> has (fde_state g) FDE_ACTIVE \<and> fde_state g AND FDE_EVENTMASK = e
    \<and> (fde_events g \<noteq> 0 \<longleftrightarrow> has (fde_state g) FDE_PENDING)
    \<and> ps = (if has (fde_state g) FDE_PENDING then list_pending st else remove1 a (list_pending st))
    \<and> (has (fde_state g) FDE_PENDING \<longrightarrow> a \<in> set (list_pending st))"
proof -
  let ?s = "(fde_state f AND FDE_STATEMASK) OR e"
  have e: "?s AND FDE_EVENTMASK = e" "(?s AND NOT FDE_PENDING) AND FDE_EVENTMASK = e"
    by (auto intro!: u16_eqI simp: bit_simps e_def)
  have bits: "has ?s FDE_PENDING = has (fde_state f) FDE_PENDING" "has ?s FDE_ACTIVE"
    "\<not> has (?s AND NOT FDE_PENDING) FDE_PENDING" "has (?s AND NOT FDE_PENDING) FDE_ACTIVE"
    using act by (simp_all add: flag_bits e_def)
  have w: "watch_fd i e st = watch_fd i ?s st" "watch_fd i e st = watch_fd i (?s AND NOT FDE_PENDING) st" for i
    using e by (auto intro!: watch_fd_cong simp: e_def)
  have pl: "a \<in> set (list_pending st) \<longleftrightarrow> has (fde_state f) FDE_PENDING"
    and ev: "fde_events f \<noteq> 0 \<longleftrightarrow> has (fde_state f) FDE_PENDING" using inv f by (auto simp: fd_inv_def)
  consider (same) "fde_state f AND FDE_EVENTMASK = e" "st' = st"
    | (idle) "\<not> has (fde_state f) FDE_PENDING" "st' = put_fde a (f\<lparr>fde_state := ?s\<rparr>) (watch_fd (nat (fde_fd f)) e st)"
    | (drop) "has (fde_state f) FDE_PENDING" "fde_events f AND NOT e = 0"
        "st' = (put_fde a (f\<lparr>fde_state := ?s AND NOT FDE_PENDING, fde_events := 0\<rparr>)
           (watch_fd (nat (fde_fd f)) e st))\<lparr>list_pending := remove1 a (list_pending st)\<rparr>"
    | (keep) "has (fde_state f) FDE_PENDING" "fde_events f AND NOT e \<noteq> 0"
        "st' = put_fde a (f\<lparr>fde_state := ?s, fde_events := fde_events f AND NOT e\<rparr>)
           (watch_fd (nat (fde_fd f)) e st)"
    using ok f act bits pl
    by (auto simp: fdevent_set_def Let_def bindr_eq_Inr fdevent_update_def fdevent_plist_remove_def
        get_fde_def e_def fde_upd_swap split: if_splits)
  then show ?thesis
  proof cases
    case same
    then show ?thesis using watch_fd_same [OF inv f act] f act pl ev
      by (intro exI [of _ f] exI [of _ "list_pending st"])
        (auto simp: put_fde_def fun_upd_idem remove1_idem)
  next
    case idle
    then show ?thesis using w bits e pl ev
      by (intro exI [of _ "f\<lparr>fde_state := ?s\<rparr>"] exI [of _ "list_pending st"]) (auto simp: put_fde_def remove1_idem)
  next
    case drop
    then show ?thesis using w bits e
      by (intro exI [of _ "f\<lparr>fde_state := ?s AND NOT FDE_PENDING, fde_events := 0\<rparr>"] exI) auto
  next
    case keep
    then show ?thesis using w bits e pl
      by (intro exI [of _ "f\<lparr>fde_state := ?s, fde_events := fde_events f AND NOT e\<rparr>"] exI [of _ "list_pending st"])
        (auto simp: put_fde_def)
  qed
qed

lemma fdevent_set_inv:
  assumes inv: "fd_inv st" and ok: "fdevent_set a events st = Inr st'"
  shows "fd_inv st' \<and> length (list_pending st') \<le> length (list_pending st)"
proof -
  obtain f where f: "fdes st a = Some f" using ok by (auto simp: fdevent_set_def bindr_eq_Inr Let_def)
  have d: "distinct (list_pending st)" using inv by (simp add: fd_inv_def)
  show ?thesis
  proof (cases "has (fde_state f) FDE_ACTIVE")
    case True
    obtain g ps where "st' = (put_fde a g (watch_fd (nat (fde_fd f)) (fde_state g) st))\<lparr>list_pending := ps\<rparr>"
      "fde_fd g = fde_fd f" "has (fde_state g) FDE_ACTIVE" "fde_events g \<noteq> 0 \<longleftrightarrow> has (fde_state g) FDE_PENDING"
      "ps = (if has (fde_state g) FDE_PENDING then list_pending st else remove1 a (list_pending st))"
      "has (fde_state g) FDE_PENDING \<longrightarrow> a \<in> set (list_pending st)"
      using fdevent_set_active [OF inv f True ok] by blast
    with d show ?thesis
      by (auto intro!: fd_inv_change [OF inv f True] simp: length_remove1)
  next
    case False
    have np: "\<not> has (fde_state f) FDE_PENDING" "fde_events f = 0" using fd_invD(3,4) [OF inv f] False by auto
    let ?g = "f\<lparr>fde_state := (fde_state f AND FDE_STATEMASK) OR (events AND FDE_EVENTMASK)\<rparr>"
    have b: "has (fde_state ?g) FDE_PENDING = has (fde_state f) FDE_PENDING"
      "has (fde_state ?g) FDE_ACTIVE = has (fde_state f) FDE_ACTIVE" by (simp_all add: flag_bits)
    have "st' = st \<or> st' = put_fde a ?g st"
      using ok False np b f by (auto simp: fdevent_set_def get_fde_def Let_def split: if_splits)
    then show ?thesis
      using inv False np b f by (auto intro!: fd_inv_put_inactive simp: inactive_def)
  qed
qed


lemma grow_max_gt: "0 < m \<Longrightarrow> fd < grow_max m fd \<and> m \<le> grow_max m fd"
  by (induction m fd rule: grow_max.induct) (subst grow_max.simps, subst (2) grow_max.simps, fastforce)


lemma fd_inv_empty_table:
  assumes inv: "fd_inv st" and e: "fd_table st = []"
  shows "read_fds st = {} \<and> write_fds st = {} \<and> error_fds st = {}"
proof -
  have "\<not> has (fde_state f) FDE_ACTIVE \<or> fde_fd f \<noteq> int i" if "fdes st a = Some f" for a f i
    using fd_invD(6) [OF inv, of i a] e that by (auto simp: tbl_at_def)
  then have "S = {}" if "watches st S ev" for S ev
    using that unfolding watches_def by blast
  then show ?thesis using fd_invD(9-11) [OF inv] by blast
qed

text \<open>Growing the table does not change what it maps.\<close>

lemma tbl_at_grow: "tbl_at (st\<lparr>fd_table := fd_table st @ replicate n None\<rparr>) = tbl_at st"
  by (auto simp: tbl_at_def fun_eq_iff nth_append)

lemma tbl_at_update:
  "i < length (fd_table st) \<Longrightarrow> tbl_at (st\<lparr>fd_table := (fd_table st)[i := x]\<rparr>) = (tbl_at st)(i := x)"
  by (auto simp: tbl_at_def fun_eq_iff)

lemma fdevent_register_result:
  assumes init: "fd_table st = [] \<Longrightarrow> read_fds st = {} \<and> write_fds st = {} \<and> error_fds st = {}"
    and ok: "fdevent_register a st = Inr st'" and f: "fdes st a = Some f"
  shows "0 \<le> fde_fd f \<and> tbl_at st' = (tbl_at st)(nat (fde_fd f) \<mapsto> a)
    \<and> length (fd_table st) \<le> length (fd_table st') \<and> nat (fde_fd f) < length (fd_table st')
    \<and> (\<exists>t. st' = st\<lparr>fd_table := t\<rparr>)"
proof -
  let ?n = "nat (fde_fd f)" and ?m = "length (fd_table st)"
  have init: "fdevent_init st = st" if "fd_table st = []"
    using init [OF that] by (simp add: fdevent_init_def)
  let ?g = "grow_max (if ?m = 0 then 256 else ?m) ?n"
  have fd: "0 \<le> fde_fd f" using ok f by (auto simp: fdevent_register_def get_fde_def split: if_splits)
  show ?thesis
  proof (cases "?n < ?m")
    case True
    have "st' = st\<lparr>fd_table := (fd_table st)[?n := Some a]\<rparr>"
      using ok f fd True by (auto simp: fdevent_register_def get_fde_def Let_def)
    then show ?thesis using True fd by (auto simp: tbl_at_update)
  next
    case False
    let ?s = "st\<lparr>fd_table := fd_table st @ replicate (?g - ?m) None\<rparr>"
    have g: "?n < ?g" "?m \<le> ?g" using grow_max_gt [of "if ?m = 0 then 256 else ?m" ?n] by (auto split: if_splits)
    have "st' = ?s\<lparr>fd_table := (fd_table ?s)[?n := Some a]\<rparr>"
      using ok f fd False init by (auto simp: fdevent_register_def get_fde_def Let_def bindr_eq_Inr split: if_splits)
    moreover have "tbl_at (?s\<lparr>fd_table := (fd_table ?s)[?n := Some a]\<rparr>) = (tbl_at st)(?n \<mapsto> a)"
      using g False by (subst tbl_at_update) (auto simp: tbl_at_grow)
    ultimately show ?thesis using fd g False by auto
  qed
qed

lemma fdevent_install_result:
  assumes inv: "fd_inv st" and ok: "fdevent_install a fd func st = Inr st'"
  defines "f \<equiv> \<lparr>fde_fd = fd, force_eof = False, fde_state = FDE_ACTIVE, fde_events = 0, fde_func = func\<rparr>"
  shows "0 \<le> fd \<and> fdes st' = (fdes st)(a \<mapsto> f) \<and> tbl_at st' = (tbl_at st)(nat fd \<mapsto> a)
    \<and> list_pending st' = list_pending st \<and> select_n st' = max (select_n st) (nat fd + 1)
    \<and> length (fd_table st) \<le> length (fd_table st') \<and> nat fd < length (fd_table st')
    \<and> read_fds st' = read_fds st \<and> write_fds st' = write_fds st \<and> error_fds st' = error_fds st"
proof -
  let ?s = "(put_fde a f st)\<lparr>nonblock := (nonblock st)(fd := True)\<rparr>"
  obtain s3 s4 f4 where r: "fdevent_register a ?s = Inr s3" and c: "fdevent_connect a s3 = Inr s4"
    and f4: "fdes s4 a = Some f4" and st': "st' = put_fde a (f4\<lparr>fde_state := fde_state f4 OR FDE_ACTIVE\<rparr>) s4"
    using ok by (auto simp: fdevent_install_def Let_def bindr_eq_Inr f_def)
  have i: "read_fds ?s = {} \<and> write_fds ?s = {} \<and> error_fds ?s = {}" if "fd_table ?s = []"
    using fd_inv_empty_table [OF inv] that by simp
  obtain t where s3: "s3 = ?s\<lparr>fd_table := t\<rparr>" and R: "0 \<le> fd" "tbl_at s3 = (tbl_at st)(nat fd \<mapsto> a)"
    "length (fd_table st) \<le> length t" "nat fd < length t"
    using fdevent_register_result [OF i r, of f] by (auto simp: f_def tbl_at_def fun_eq_iff)
  have s4: "s4 = s3\<lparr>select_n := max (select_n st) (nat fd + 1)\<rparr>"
    using c R(1) by (auto simp: fdevent_connect_def get_fde_def s3 f_def max_def nat_add_distrib)
  have "f4\<lparr>fde_state := fde_state f4 OR FDE_ACTIVE\<rparr> = f" using f4 by (auto simp: s4 s3 f_def)
  moreover have "tbl_at st' = tbl_at s3" by (simp add: st' s4 tbl_at_def fun_eq_iff)
  ultimately show ?thesis using R by (simp add: st') (simp add: s4 s3 fun_upd_idem)
qed


text \<open>Installing a record on a descriptor that is not in the table keeps the invariant.\<close>

lemma fdevent_install_inv:
  assumes inv: "fd_inv st" and a: "inactive st a" and free: "tbl_at st (nat fd) = None"
    and ok: "fdevent_install a fd func st = Inr st'"
  shows "fd_inv st' \<and> list_pending st' = list_pending st"
proof -
  note R = fdevent_install_result [OF inv ok]
  have bits: "has FDE_ACTIVE FDE_ACTIVE" "\<not> has FDE_ACTIVE FDE_PENDING" "\<not> has FDE_ACTIVE FDE_READ"
    "\<not> has FDE_ACTIVE FDE_WRITE" "\<not> has FDE_ACTIVE FDE_ERROR" by (simp_all add: flag_bits)
  have w: "watches st' S ev" if "watches st S ev" "\<not> has FDE_ACTIVE ev" for S ev
    using that a R unfolding watches_def inactive_def by auto
  have "a \<noteq> b" if "tbl_at st i = Some b" for i b using that fd_invD(6) [OF inv, of i b] a by (auto simp: inactive_def)
  moreover have "fde_fd g \<noteq> fd" if "fdes st b = Some g" "has (fde_state g) FDE_ACTIVE" for b g
    using that fd_invD(6) [OF inv, of "nat fd" b] free R by auto
  ultimately show ?thesis
    unfolding fd_inv_def
    using inv R w bits a inactive_not_pending [OF inv a] unfolding fd_inv_def inactive_def
    by (auto simp: less_max_iff_disj)
qed

lemma last_used_ge: "i < n \<Longrightarrow> i < length tbl \<Longrightarrow> tbl ! i \<noteq> None \<Longrightarrow> i \<le> last_used tbl n"
  by (induction n) (auto simp: less_Suc_eq)

lemma last_used_less: "0 < n \<Longrightarrow> last_used tbl n < n"
proof (induction n)
  case (Suc n)
  then show ?case by (cases n) auto
qed simp

lemma fdevent_remove_result:
  assumes inv: "fd_inv st" and f: "fdes st a = Some f" and act: "has (fde_state f) FDE_ACTIVE"
    and ok: "fdevent_remove a st = Inr st'"
  defines "i \<equiv> nat (fde_fd f)"
  shows "fdes st' = (fdes st)(a \<mapsto> f\<lparr>fde_state := 0, fde_events := 0\<rparr>) \<and> tbl_at st' = (tbl_at st)(i := None)
    \<and> list_pending st' = remove1 a (list_pending st) \<and> select_n st' = last_used (fd_table st) (select_n st) + 1
    \<and> length (fd_table st') = length (fd_table st) \<and> i < length (fd_table st)
    \<and> read_fds st' = read_fds st - {i} \<and> write_fds st' = write_fds st - {i} \<and> error_fds st' = error_fds st - {i}
    \<and> closed_fds st' = (if has (fde_state f) FDE_DONT_CLOSE then closed_fds st else closed_fds st @ [fde_fd f])"
proof -
  have fd: "0 \<le> fde_fd f" using fd_invD(5) [OF inv f act] .
  then have t: "tbl_at st i = Some a" using fd_invD(6) [OF inv] f act by (auto simp: i_def)
  then have il: "i < length (fd_table st)" "fd_table st ! i = Some a" by (auto simp: tbl_at_def split: if_splits)
  have rm: "(if has (fde_state f) FDE_PENDING then fdevent_plist_remove a st else Inr st)
      = Inr (st\<lparr>list_pending := remove1 a (list_pending st)\<rparr>)"
    using fd_invD(2) [OF inv, of a] f by (auto simp: fdevent_plist_remove_def remove1_idem)
  show ?thesis
    using ok f act fd il unfolding fdevent_remove_def
    by (auto simp: rm get_fde_def fdevent_disconnect_def fdevent_unregister_def bindr_eq_Inr Let_def i_def
        adb_close_def tbl_at_def fun_eq_iff split: if_splits)
qed


lemma has_0 [simp]: "\<not> has 0 m"
  by (simp add: has_def)

lemma fdevent_remove_inactive:
  assumes inv: "fd_inv st" and f: "fdes st a = Some f" and act: "\<not> has (fde_state f) FDE_ACTIVE"
  shows "fdevent_remove a st = Inr (put_fde a (f\<lparr>fde_state := 0, fde_events := 0\<rparr>) st)"
  using fd_invD(4) [OF inv f] act f by (auto simp: fdevent_remove_def get_fde_def)

lemma fdevent_remove_inv:
  assumes inv: "fd_inv st" and ok: "fdevent_remove a st = Inr st'"
  shows "fd_inv st' \<and> inactive st' a \<and> length (list_pending st') \<le> length (list_pending st)"
proof -
  obtain f where f: "fdes st a = Some f" using ok by (auto simp: fdevent_remove_def bindr_eq_Inr)
  show ?thesis
  proof (cases "has (fde_state f) FDE_ACTIVE")
    case False
    then have "st' = put_fde a (f\<lparr>fde_state := 0, fde_events := 0\<rparr>) st"
      using fdevent_remove_inactive [OF inv f] ok by simp
    then show ?thesis using False f
      by (auto intro!: fd_inv_put_inactive inv simp: inactive_def)
  next
    case True
    note R = fdevent_remove_result [OF inv f True ok]
    let ?g = "f\<lparr>fde_state := 0, fde_events := 0\<rparr>" and ?i = "nat (fde_fd f)"
    have w: "watches st' (S - {?i}) ev" if "watches st S ev" for S ev
      using watches_change [OF inv f True _ that, of ?g st] R by (simp add: fd_put_def watches_def)
    have t: "tbl_at st' = (tbl_at st)(?i := None)" and F: "fdes st' = (fdes st)(a \<mapsto> ?g)" using R by simp_all
    have up: "j \<le> last_used (fd_table st) (select_n st)" if "tbl_at st j = Some b" for j b
      using that fd_invD(7) [OF inv that] by (intro last_used_ge) (auto simp: tbl_at_def split: if_splits)
    have ai: "tbl_at st ?i = Some a" using fd_invD(5,6) [OF inv] f True by auto
    then have "0 < select_n st" using fd_invD(7) [OF inv ai] by simp
    then have "select_n st' \<le> length (fd_table st')"
      using R last_used_less [of "select_n st" "fd_table st"] fd_invD(8) [OF inv] by simp
    moreover have u: "b = a" if "fdes st b = Some h" "has (fde_state h) FDE_ACTIVE" "fde_fd h = fde_fd f" for b h
      using fd_inv_unique [OF inv that(1) f that(2) True that(3)] .
    moreover have "tbl_at st' j = Some b \<longleftrightarrow> (\<exists>h. fdes st' b = Some h \<and> has (fde_state h) FDE_ACTIVE \<and> fde_fd h = int j)"
      for j b
    proof (cases "j = ?i")
      case True
      then show ?thesis using t R u fd_invD(5) [OF inv f \<open>has (fde_state f) FDE_ACTIVE\<close>] by (auto split: if_splits)
    next
      case False
      then have "tbl_at st' j = Some b \<longleftrightarrow> tbl_at st j = Some b" by (simp add: t)
      also have "\<dots> \<longleftrightarrow> (\<exists>h. fdes st b = Some h \<and> has (fde_state h) FDE_ACTIVE \<and> fde_fd h = int j)"
        by (rule fd_invD(6) [OF inv])
      finally show ?thesis using False R f by (cases "b = a") auto
    qed
    moreover have "j < select_n st'" if "tbl_at st' j = Some b" for j b
      using up [of j b] that R by (auto split: if_splits)
    moreover have "b \<in> set (list_pending st') \<longleftrightarrow> (\<exists>h. fdes st' b = Some h \<and> has (fde_state h) FDE_PENDING)" for b
      using R fd_invD(1) [OF inv] fd_invD(2) [OF inv, of b] by auto
    moreover have "distinct (list_pending st')" using R fd_invD(1) [OF inv] by simp
    moreover have "fde_events h \<noteq> 0 \<longleftrightarrow> has (fde_state h) FDE_PENDING" "has (fde_state h) FDE_PENDING \<Longrightarrow> has (fde_state h) FDE_ACTIVE"
      "has (fde_state h) FDE_ACTIVE \<Longrightarrow> 0 \<le> fde_fd h" if "fdes st' b = Some h" for b h
      using fd_invD(3-5) [OF inv, of b h] that F by (cases "b = a"; auto)+
    moreover have "watches st' (read_fds st') FDE_READ" "watches st' (write_fds st') FDE_WRITE" "watches st' (error_fds st') FDE_ERROR"
      using R w fd_invD(9-11) [OF inv] by simp_all
    ultimately have "fd_inv st'" unfolding fd_inv_def by blast
    then show ?thesis using R by (auto simp: inactive_def length_remove1)
  qed
qed

lemma fdevent_add_inv:
  assumes "fd_inv st" "fdevent_add a events st = Inr st'"
  shows "fd_inv st' \<and> length (list_pending st') \<le> length (list_pending st)"
  using assms fdevent_set_inv [OF assms(1)] by (auto simp: fdevent_add_def bindr_eq_Inr)

lemma fdevent_del_inv:
  assumes "fd_inv st" "fdevent_del a events st = Inr st'"
  shows "fd_inv st' \<and> length (list_pending st') \<le> length (list_pending st)"
  using assms fdevent_set_inv [OF assms(1)] by (auto simp: fdevent_del_def bindr_eq_Inr)

lemma fdevent_destroy_inv:
  assumes "fd_inv st" "fdevent_destroy a st = Inr st'"
  shows "fd_inv st' \<and> length (list_pending st') \<le> length (list_pending st)"
  using assms fdevent_remove_inv [OF assms(1)] by (auto simp: fdevent_destroy_def bindr_eq_Inr split: if_splits option.splits)

text \<open>Changes of an active record that leave its wanted events alone.\<close>

lemma fd_inv_change_same:
  assumes inv: "fd_inv st" and f: "fdes st a = Some f" and act: "has (fde_state f) FDE_ACTIVE"
    and g: "fde_fd g = fde_fd f" "has (fde_state g) FDE_ACTIVE" "fde_events g \<noteq> 0 \<longleftrightarrow> has (fde_state g) FDE_PENDING"
      "fde_state g AND FDE_EVENTMASK = fde_state f AND FDE_EVENTMASK"
    and pend: "distinct ps"
      "set ps = (if has (fde_state g) FDE_PENDING then insert a (set (list_pending st))
         else set (list_pending st) - {a})"
  shows "fd_inv ((put_fde a g st)\<lparr>list_pending := ps\<rparr>)"
  using fd_inv_change [OF inv f act g(1-3) pend] watch_fd_same [OF inv f act] watch_fd_cong [OF g(4), of "nat (fde_fd f)" st]
  by simp

lemma fd_inv_change_keep:
  assumes inv: "fd_inv st" and f: "fdes st a = Some f" and act: "has (fde_state f) FDE_ACTIVE"
    and g: "fde_fd g = fde_fd f" "has (fde_state g) FDE_ACTIVE" "fde_events g \<noteq> 0 \<longleftrightarrow> has (fde_state g) FDE_PENDING"
      "fde_state g AND FDE_EVENTMASK = fde_state f AND FDE_EVENTMASK"
    and pend: "has (fde_state g) FDE_PENDING \<longleftrightarrow> a \<in> set (list_pending st)"
  shows "fd_inv (put_fde a g st)"
proof -
  have e: "(put_fde a g st)\<lparr>list_pending := list_pending st\<rparr> = put_fde a g st" by (simp add: put_fde_def)
  have "fd_inv ((put_fde a g st)\<lparr>list_pending := list_pending st\<rparr>)"
    using fd_inv_change_same [OF inv f act g, of "list_pending st"] fd_invD(1) [OF inv] pend by (auto simp: insert_absorb)
  then show ?thesis by (simp only: e)
qed

lemma fdevent_create_inv:
  assumes inv: "fd_inv st" and a: "inactive st a" and free: "tbl_at st (nat fd) = None"
    and ok: "fdevent_create a fd func st = Inr st'"
  shows "fd_inv st' \<and> list_pending st' = list_pending st"
proof -
  obtain s f where s: "fdevent_install a fd func st = Inr s" and f: "fdes s a = Some f"
    and st': "st' = put_fde a (f\<lparr>fde_state := fde_state f OR FDE_CREATED\<rparr>) s"
    using ok by (auto simp: fdevent_create_def bindr_eq_Inr)
  have i: "fd_inv s" "list_pending s = list_pending st" using fdevent_install_inv [OF inv a free s] by simp_all
  have b: "fde_state f = FDE_ACTIVE" "fde_events f = 0" using fdevent_install_result [OF inv s] f by auto
  have "a \<notin> set (list_pending s)" using i inactive_not_pending [OF inv a] by simp
  then have "fd_inv (put_fde a (f\<lparr>fde_state := fde_state f OR FDE_CREATED\<rparr>) s)"
    using b by (intro fd_inv_change_keep [OF i(1) f]) (auto intro!: u16_eqI simp: flag_bits)
  then show ?thesis using st' i by simp
qed


section \<open>What waiting records\<close>

definition marked :: "u16 \<Rightarrow> fdevent \<Rightarrow> fdevent" where
  "marked ev f = (if ev = 0 then f
     else f\<lparr>fde_events := fde_events f OR ev, fde_state := fde_state f OR FDE_PENDING\<rparr>)"

lemma or_eq_0_u16: "a OR b = 0 \<longleftrightarrow> a = 0 \<and> b = (0 :: u16)"
  by (auto simp: bit_eq_iff bit_or_iff)

lemma marked_simps [simp]:
  "marked 0 f = f"
  "fde_fd (marked ev f) = fde_fd f"
  "has (fde_state (marked ev f)) FDE_ACTIVE = has (fde_state f) FDE_ACTIVE"
  "has (fde_state (marked ev f)) FDE_PENDING \<longleftrightarrow> has (fde_state f) FDE_PENDING \<or> ev \<noteq> 0"
  "fde_state (marked ev f) AND FDE_EVENTMASK = fde_state f AND FDE_EVENTMASK"
  by (auto simp: marked_def flag_bits intro!: u16_eqI)

lemma has_PENDING_or: "has s FDE_PENDING \<Longrightarrow> s OR FDE_PENDING = s"
  by (auto simp: flag_bits intro!: u16_eqI)

lemma mark_pending_spec:
  assumes inv: "fd_inv st" and t: "tbl_at st i = Some a" and ev: "ev \<noteq> 0"
  obtains f st' where "fdes st a = Some f" "has (fde_state f) FDE_ACTIVE" "fde_fd f = int i"
    "mark_pending i ev st = Inr st'" "fd_inv st'" "fdes st' = (fdes st)(a \<mapsto> marked ev f)"
    "list_pending st' = list_pending st @ filter (\<lambda>x. x \<notin> set (list_pending st)) [a]"
    "tbl_at st' = tbl_at st" "select_n st' = select_n st"
proof -
  obtain f where f: "fdes st a = Some f" "has (fde_state f) FDE_ACTIVE" "fde_fd f = int i"
    using fd_invD(6) [OF inv] t by blast
  have il: "i < length (fd_table st)" "fd_table st ! i = Some a" using t by (auto simp: tbl_at_def split: if_splits)
  have p: "a \<in> set (list_pending st) \<longleftrightarrow> has (fde_state f) FDE_PENDING" using fd_invD(2) [OF inv] f by auto
  have e: "fde_events (marked ev f) \<noteq> 0" using ev by (simp add: marked_def or_eq_0_u16)
  let ?s = "(put_fde a (marked ev f) st)\<lparr>list_pending := list_pending st @ filter (\<lambda>x. x \<notin> set (list_pending st)) [a]\<rparr>"
  have "mark_pending i ev st = Inr ?s"
  proof (cases "has (fde_state f) FDE_PENDING")
    case True
    then have "marked ev f = f\<lparr>fde_events := fde_events f OR ev\<rparr>" using ev by (simp add: marked_def has_PENDING_or)
    then show ?thesis using True il f p by (simp add: mark_pending_def get_fde_def put_fde_def)
  next
    case False
    then show ?thesis using il f p ev
      by (simp add: mark_pending_def get_fde_def put_fde_def marked_def fdevent_plist_enqueue_def)
  qed
  moreover have "fd_inv ?s"
    using f e ev fd_invD(1) [OF inv] by (intro fd_inv_change_same [OF inv f(1,2)]) auto
  ultimately show ?thesis using that f by (simp add: tbl_at_def fun_eq_iff)
qed

lemma sel_0: "sel_events i R W E = 0 \<longleftrightarrow> sel_count i R W E = 0"
  by (auto simp: sel_events_def sel_count_def or_eq_0_u16 FDE_READ_def FDE_WRITE_def FDE_ERROR_def)

lemma process_fds_spec:
  assumes "fd_inv st" "distinct is" "\<forall>i\<in>set is. i < FD_SETSIZE"
    "\<forall>i\<in>set is. sel_events i R W E \<noteq> 0 \<longrightarrow> tbl_at st i \<noteq> None"
    "n = int (sum_list (map (\<lambda>i. sel_count i R W E) is))"
  shows "\<exists>st'. process_fds is n R W E st = Inr st' \<and> fd_inv st' \<and> select_n st' = select_n st \<and> tbl_at st' = tbl_at st
    \<and> (\<forall>a. fdes st' a = map_option (\<lambda>f. marked (if has (fde_state f) FDE_ACTIVE \<and> nat (fde_fd f) \<in> set is
          then sel_events (nat (fde_fd f)) R W E else 0) f) (fdes st a))
    \<and> list_pending st' = list_pending st @ filter (\<lambda>a. a \<notin> set (list_pending st))
        (map (\<lambda>i. the (tbl_at st i)) (filter (\<lambda>i. sel_events i R W E \<noteq> 0) is))"
  using assms
proof (induction "is" arbitrary: st n)
  case Nil
  then show ?case by (auto simp: option.map_ident)
next
  case (Cons i "is")
  show ?case
  proof (cases "n \<le> 0")
    case True
    then have "sum_list (map (\<lambda>i. sel_count i R W E) (i # is)) = 0" using Cons.prems(5) by linarith
    then have z: "\<forall>j\<in>set (i # is). sel_events j R W E = 0" unfolding sum_list_eq_0_iff by (auto simp: sel_0)
    then have "map_option (\<lambda>f. marked (if has (fde_state f) FDE_ACTIVE \<and> nat (fde_fd f) \<in> set (i # is)
          then sel_events (nat (fde_fd f)) R W E else 0) f) x = x" for x
      by (cases x) auto
    with z True Cons.prems show ?thesis by (simp add: filter_False)
  next
    case False
    have lt: "i < FD_SETSIZE" using Cons.prems by simp
    let ?n = "n - int (sel_count i R W E)"
    show ?thesis
    proof (cases "sel_events i R W E = 0")
      case True
      have "process_fds (i # is) n R W E st = process_fds is ?n R W E st"
        using True False lt by simp
      moreover have "?n = int (sum_list (map (\<lambda>i. sel_count i R W E) is))" using Cons.prems by simp
      moreover have "(if c \<and> k \<in> set (i # is) then sel_events k R W E else 0)
          = (if c \<and> k \<in> set is then sel_events k R W E else 0)" for c k using True by auto
      ultimately show ?thesis using Cons.IH [of st ?n] Cons.prems True by simp
    next
      case ne: False
      then obtain a where t: "tbl_at st i = Some a" using Cons.prems(4) by auto
      obtain f st1 where f: "fdes st a = Some f" "has (fde_state f) FDE_ACTIVE" "fde_fd f = int i"
        and m: "mark_pending i (sel_events i R W E) st = Inr st1" "fd_inv st1" "fdes st1 = (fdes st)(a \<mapsto> marked (sel_events i R W E) f)"
        "list_pending st1 = list_pending st @ filter (\<lambda>x. x \<notin> set (list_pending st)) [a]"
        "tbl_at st1 = tbl_at st" "select_n st1 = select_n st"
        by (rule mark_pending_spec [OF Cons.prems(1) t ne])
      have "process_fds (i # is) n R W E st = process_fds is ?n R W E st1"
        using ne False lt m by simp
      moreover obtain st' where st': "process_fds is ?n R W E st1 = Inr st'" "fd_inv st'"
        "select_n st' = select_n st1" "tbl_at st' = tbl_at st1"
        "\<forall>a. fdes st' a = map_option (\<lambda>f. marked (if has (fde_state f) FDE_ACTIVE \<and> nat (fde_fd f) \<in> set is
          then sel_events (nat (fde_fd f)) R W E else 0) f) (fdes st1 a)"
        "list_pending st' = list_pending st1 @ filter (\<lambda>a. a \<notin> set (list_pending st1))
          (map (\<lambda>i. the (tbl_at st1 i)) (filter (\<lambda>i. sel_events i R W E \<noteq> 0) is))"
        using Cons.IH [OF m(2), of ?n] Cons.prems m(5) by auto
      moreover have "fdes st' b = map_option (\<lambda>f. marked (if has (fde_state f) FDE_ACTIVE \<and> nat (fde_fd f) \<in> set (i # is)
          then sel_events (nat (fde_fd f)) R W E else 0) f) (fdes st b)" for b
      proof (cases "b = a")
        case True
        then show ?thesis using st'(5) m(3) f Cons.prems(2) by simp
      next
        case False
        have "fde_fd g \<noteq> int i \<and> 0 \<le> fde_fd g" if "fdes st b = Some g" "has (fde_state g) FDE_ACTIVE" for g
          using fd_inv_unique [OF Cons.prems(1) that(1) f(1) that(2) f(2)] f(3) False
            fd_invD(5) [OF Cons.prems(1) that] by auto
        then show ?thesis using st'(5) m(3) False by (cases "fdes st b") auto
      qed
      moreover have "list_pending st' = list_pending st @ filter (\<lambda>a. a \<notin> set (list_pending st))
        (map (\<lambda>i. the (tbl_at st i)) (filter (\<lambda>i. sel_events i R W E \<noteq> 0) (i # is)))"
      proof -
        have "the (tbl_at st j) \<noteq> a" if "j \<in> set is" "sel_events j R W E \<noteq> 0" for j
        proof
          assume "the (tbl_at st j) = a"
          then have "tbl_at st j = Some a" using Cons.prems(4) that by auto
          then have "j = i" using fd_invD(6) [OF Cons.prems(1), of j a] f by auto
          then show False using that Cons.prems(2) by simp
        qed
        then have "filter (\<lambda>b. b \<notin> set (list_pending st1)) (map (\<lambda>i. the (tbl_at st i)) (filter (\<lambda>i. sel_events i R W E \<noteq> 0) is))
            = filter (\<lambda>b. b \<notin> set (list_pending st)) (map (\<lambda>i. the (tbl_at st i)) (filter (\<lambda>i. sel_events i R W E \<noteq> 0) is))"
          by (intro filter_cong) (auto simp: m(4))
        then show ?thesis using st'(6) m(4,5) ne t by simp
      qed
      ultimately show ?thesis using m by simp
    qed
  qed
qed

lemma rd_set_fd [simp]:
  "fd_inv (rd_set fd es st) = fd_inv st"
  "list_pending (rd_set fd es st) = list_pending st"
  "fdes (rd_set fd es st) = fdes st"
  by (simp_all add: rd_set_def fd_inv_unfold)

text \<open>The descriptors \<open>fdevent_fd_check\<close> finds to be bad.\<close>

definition bad_fds :: "(nat \<Rightarrow> bool) \<Rightarrow> 'a fdstate_scheme \<Rightarrow> nat set" where
  "bad_fds bad st = {i. i < select_n st \<and> tbl_at st i \<noteq> None \<and> bad i}"

text \<open>What \<open>select\<close> may answer: subsets of the sets it was given and the number of their elements.\<close>

definition select_ok :: "select_ret \<Rightarrow> 'a fdstate_scheme \<Rightarrow> bool" where
  "select_ok sel st \<longleftrightarrow>
     (case sel of SelErr e \<Rightarrow> True
      | SelN n R W E \<Rightarrow> R \<subseteq> read_fds st \<and> W \<subseteq> write_fds st \<and> E \<subseteq> error_fds st
          \<and> n = card R + card W + card E)"

text \<open>The events of descriptor \<open>i\<close> that one round of \<open>fdevent_process\<close> has to record.\<close>

definition round_events :: "select_ret \<Rightarrow> (nat \<Rightarrow> bool) \<Rightarrow> 'a fdstate_scheme \<Rightarrow> nat \<Rightarrow> u16" where
  "round_events sel bad st i =
     (case sel of
        SelErr e \<Rightarrow> if e = EBADF \<and> i \<in> bad_fds bad st then FDE_READ else 0
      | SelN n R W E \<Rightarrow> if n = 0 then if i \<in> bad_fds bad st then FDE_READ else 0 else sel_events i R W E)"

lemma watched_registered:
  assumes inv: "fd_inv st" and i: "i \<in> read_fds st \<or> i \<in> write_fds st \<or> i \<in> error_fds st"
  shows "tbl_at st i \<noteq> None \<and> i < select_n st"
proof -
  obtain a f where "fdes st a = Some f" "has (fde_state f) FDE_ACTIVE" "fde_fd f = int i"
    using fd_invD(9-11) [OF inv] i unfolding watches_def by blast
  then have "tbl_at st i = Some a" using fd_invD(6) [OF inv] by blast
  then show ?thesis using fd_invD(7) [OF inv] by simp
qed

lemma sum_sel_count:
  assumes "R \<subseteq> {..<m}" "W \<subseteq> {..<m}" "E \<subseteq> {..<m}"
  shows "sum_list (map (\<lambda>i. sel_count i R W E) [0..<m]) = card R + card W + card E"
proof -
  have "sum_list (map (\<lambda>i. sel_count i R W E) [0..<m]) = (\<Sum>i<m. sel_count i R W E)"
    by (simp add: interv_sum_list_conv_sum_set_nat atLeast0LessThan)
  then show ?thesis using assms by (simp add: sel_count_def sum.distrib Int_absorb1)
qed

lemma fdevent_fd_check_spec:
  assumes inv: "fd_inv st" and n: "select_n st \<le> FD_SETSIZE"
  shows "fdevent_fd_check bad st R = Inr (card (bad_fds bad st), bad_fds bad st \<union> R)"
proof -
  let ?is = "filter (\<lambda>i. fd_table st ! i \<noteq> None \<and> bad i) [0..<select_n st]"
  have s: "set ?is = bad_fds bad st"
    using fd_invD(8) [OF inv] by (auto simp: bad_fds_def tbl_at_def)
  have "length ?is = card (set ?is)" by (simp add: distinct_card del: set_filter)
  then show ?thesis
    using s n fd_invD(8) [OF inv] by (fastforce simp: fdevent_fd_check_def Let_def bad_fds_def simp del: set_filter)
qed

lemma fdevent_process_spec:
  assumes inv: "fd_inv st" and n: "select_n st \<le> FD_SETSIZE" and ok: "select_ok sel st"
    and ev_def: "ev = round_events sel bad st"
  shows "\<exists>st'. fdevent_process sel bad st = Inr st' \<and> fd_inv st'
    \<and> (\<forall>a. fdes st' a = map_option (\<lambda>f. marked (if has (fde_state f) FDE_ACTIVE then ev (nat (fde_fd f)) else 0) f) (fdes st a))
    \<and> list_pending st' = list_pending st @ filter (\<lambda>a. a \<notin> set (list_pending st))
        (map (\<lambda>i. the (tbl_at st i)) (filter (\<lambda>i. ev i \<noteq> 0) [0..<select_n st]))"
proof -
  let ?B = "bad_fds bad st" and ?is = "[0..<select_n st]"
  have bB: "?B \<subseteq> {..<select_n st}" "i \<in> ?B \<Longrightarrow> tbl_at st i \<noteq> None" for i by (auto simp: bad_fds_def)
  have act: "nat (fde_fd f) \<in> set ?is" if "fdes st a = Some f" "has (fde_state f) FDE_ACTIVE" for a f
    using fd_invD(5) [OF inv that] fd_invD(6) [OF inv, of "nat (fde_fd f)" a] fd_invD(7) [OF inv, of "nat (fde_fd f)" a] that
    by auto
  have P: ?thesis if p: "fdevent_process sel bad st = process_fds ?is (int k) R W E st"
    and s: "R \<subseteq> {..<select_n st}" "W \<subseteq> {..<select_n st}" "E \<subseteq> {..<select_n st}" "k = card R + card W + card E"
    and t: "\<forall>i. sel_events i R W E \<noteq> 0 \<longrightarrow> tbl_at st i \<noteq> None" and e: "ev = (\<lambda>i. sel_events i R W E)" for k R W E
  proof -
    have "map_option (\<lambda>f. marked (if has (fde_state f) FDE_ACTIVE \<and> nat (fde_fd f) \<in> set ?is then ev (nat (fde_fd f)) else 0) f) (fdes st a)
        = map_option (\<lambda>f. marked (if has (fde_state f) FDE_ACTIVE then ev (nat (fde_fd f)) else 0) f) (fdes st a)" for a
      using act [of a] by (cases "fdes st a") auto
    then show ?thesis
      using process_fds_spec [OF inv, of ?is R W E "int k"] n t s sum_sel_count [OF s(1-3)] unfolding p e by auto
  qed
  have B: "round_events (SelErr EBADF) bad st = (\<lambda>i. sel_events i ?B {} {})"
    "round_events (SelN 0 R W E) bad st = (\<lambda>i. sel_events i ?B {} {})" for R W E
    by (auto simp: sel_events_def round_events_def)
  have tB: "\<forall>i. sel_events i ?B {} {} \<noteq> 0 \<longrightarrow> tbl_at st i \<noteq> None" using bB by (auto simp: sel_events_def)
  show ?thesis
  proof (cases sel)
    case (SelErr e)
    show ?thesis
    proof (cases "e = EBADF")
      case True
      then show ?thesis using SelErr bB tB
        by (intro P [of "card ?B" ?B "{}" "{}"])
          (auto simp: fdevent_process_def fdevent_fd_check_spec [OF inv n] ev_def B)
    next
      case False
      then have "ev = (\<lambda>i. 0)" using SelErr by (auto simp: ev_def round_events_def)
      then show ?thesis using False SelErr inv unfolding \<open>ev = (\<lambda>i. 0)\<close>
        by (simp add: fdevent_process_def option.map_ident)
    qed
  next
    case (SelN k R W E)
    have o: "R \<subseteq> read_fds st" "W \<subseteq> write_fds st" "E \<subseteq> error_fds st" "k = card R + card W + card E"
      using ok SelN by (auto simp: select_ok_def)
    have sub: "R \<subseteq> {..<select_n st}" "W \<subseteq> {..<select_n st}" "E \<subseteq> {..<select_n st}"
      using o watched_registered [OF inv] by blast+
    have t: "\<forall>i. sel_events i R W E \<noteq> 0 \<longrightarrow> tbl_at st i \<noteq> None"
      using o watched_registered [OF inv] by (auto simp: sel_events_def split: if_splits)
    show ?thesis
    proof (cases "k = 0")
      case False
      then show ?thesis using SelN o sub t
        by (intro P [of k R W E]) (auto simp: fdevent_process_def ev_def round_events_def)
    next
      case True
      then have "R = {}" "W = {}" "E = {}" using o sub by (auto dest: finite_subset)
      then show ?thesis using SelN bB tB True
        by (intro P [of "card ?B" ?B "{}" "{}"])
          (auto simp: fdevent_process_def fdevent_fd_check_spec [OF inv n] ev_def B)
    qed
  qed
qed

section \<open>Delivery\<close>

text \<open>Taking the first record off the pending list and clearing its mark.\<close>

lemma deliver_inv:
  assumes inv: "fd_inv st" and p: "list_pending st = a # as" and f: "fdes st a = Some f"
  shows "has (fde_state f) FDE_PENDING \<and> fd_inv ((put_fde a (f\<lparr>fde_events := 0, fde_state := fde_state f AND NOT FDE_PENDING\<rparr>) st)\<lparr>list_pending := as\<rparr>)"
proof
  show pe: "has (fde_state f) FDE_PENDING" using fd_invD(2) [OF inv, of a] p f by auto
  have act: "has (fde_state f) FDE_ACTIVE" using fd_invD(4) [OF inv f pe] .
  show "fd_inv ((put_fde a (f\<lparr>fde_events := 0, fde_state := fde_state f AND NOT FDE_PENDING\<rparr>) st)\<lparr>list_pending := as\<rparr>)"
    using act p fd_invD(1) [OF inv]
    by (intro fd_inv_change_same [OF inv f act]) (auto simp: flag_bits intro!: u16_eqI)
qed

text \<open>
  The contract of the callbacks towards the event loop: they keep an invariant of the program that
  contains the consistency of the event state and that the loop's own bookkeeping does not disturb,
  and they do not put records on the pending list, which only \<open>fdevent_process\<close> does.
\<close>

locale fd_client =
  fixes call :: "'a fdstate_scheme callback" and I :: "'a fdstate_scheme \<Rightarrow> bool"
  assumes I_inv: "I st \<Longrightarrow> fd_inv st"
    and I_change: "I st \<Longrightarrow> fdes st a = Some f \<Longrightarrow> has (fde_state g) FDE_ACTIVE = has (fde_state f) FDE_ACTIVE \<Longrightarrow>
      fd_inv ((put_fde a g st)\<lparr>list_pending := as\<rparr>) \<Longrightarrow> I ((put_fde a g st)\<lparr>list_pending := as\<rparr>)"
    and I_read: "I st \<Longrightarrow> I (rd_set fd es st)"
    and I_add: "I st \<Longrightarrow> fdevent_add a ev st = Inr st' \<Longrightarrow> I st'"
    and call_inv: "I st \<Longrightarrow> call fn fd ev st = Inr st' \<Longrightarrow> I st'"
    and call_pending: "I st \<Longrightarrow> call fn fd ev st = Inr st' \<Longrightarrow>
      length (list_pending st') \<le> length (list_pending st)"
begin

lemma I_put:
  assumes "I st" "fdes st a = Some f" "has (fde_state g) FDE_ACTIVE = has (fde_state f) FDE_ACTIVE" "fd_inv (put_fde a g st)"
  shows "I (put_fde a g st)"
proof -
  have e: "(put_fde a g st)\<lparr>list_pending := list_pending st\<rparr> = put_fde a g st" by (simp add: put_fde_def)
  show ?thesis using I_change [of st a f g "list_pending st"] assms unfolding e by simp
qed

lemma call_fdfunc_keeps:
  assumes I: "I st" and p: "list_pending st = a # as"
    and ok: "fdevent_call_fdfunc call a (st\<lparr>list_pending := as\<rparr>) = Inr st'"
  shows "I st' \<and> length (list_pending st') \<le> length as"
proof -
  have inv: "fd_inv st" using I by (rule I_inv)
  obtain f where f: "fdes st a = Some f" using fd_invD(2) [OF inv, of a] p by auto
  let ?s = "(put_fde a (f\<lparr>fde_events := 0, fde_state := fde_state f AND NOT FDE_PENDING\<rparr>) st)\<lparr>list_pending := as\<rparr>"
  have d: "has (fde_state f) FDE_PENDING" "fd_inv ?s" using deliver_inv [OF inv p f] by auto
  then have D: "has (fde_state f) FDE_PENDING" "I ?s" by (auto intro!: I_change [OF I f] simp: flag_bits)
  then have "call (fde_func f) (fde_fd f) (fde_events f) ?s = Inr st'"
    using ok f by (simp add: fdevent_call_fdfunc_def get_fde_def Let_def)
  with D(2) show ?thesis using call_inv call_pending by fastforce
qed

text \<open>Emptying the pending list takes at most one round per record on it.\<close>

lemma drain_ends:
  assumes "I st" "length (list_pending st) < k"
  shows "\<exists>r. fdevent_drain k call st = Some r \<and> ensures r (\<lambda>st'. I st' \<and> list_pending st' = [])"
  using assms
proof (induction k arbitrary: st)
  case (Suc k)
  show ?case
  proof (cases "list_pending st")
    case Nil
    then show ?thesis using Suc.prems by (simp add: fdevent_plist_dequeue_def)
  next
    case (Cons a as)
    show ?thesis
    proof (cases "fdevent_call_fdfunc call a (st\<lparr>list_pending := as\<rparr>)")
      case (Inl e)
      then show ?thesis using Cons by (simp add: fdevent_plist_dequeue_def)
    next
      case (Inr st1)
      then show ?thesis
        using call_fdfunc_keeps [OF Suc.prems(1) Cons Inr] Suc.IH [of st1] Suc.prems(2) Cons
        by (simp add: fdevent_plist_dequeue_def)
    qed
  qed
qed simp

lemma drain_inv: "I st \<Longrightarrow> fdevent_drain k call st = Some (Inr st') \<Longrightarrow> I st' \<and> list_pending st' = []"
proof (induction k arbitrary: st)
  case (Suc k)
  then show ?case
    using call_fdfunc_keeps [OF Suc.prems(1)]
    by (fastforce simp: fdevent_plist_dequeue_def split: list.splits sum.splits)
qed simp


text \<open>The exit notification of a subprocess fits the contract as well.\<close>

lemma subproc_notify_keeps:
  assumes I: "I st" and ok: "subproc_notify rcount call sfd st = Inr st'"
  shows "I st' \<and> length (list_pending st') \<le> length (list_pending st)"
proof -
  have inv: "fd_inv st" using I by (rule I_inv)
  consider "st' = st" | a f where "tbl_at st (nat sfd) = Some a" "fdes st a = Some f" "fde_fd f = sfd" "0 \<le> sfd"
    using ok by (auto simp: subproc_notify_def tbl_at_def bindr_eq_Inr nat_less_iff split: if_splits option.splits)
  then show ?thesis
  proof cases
    case 1
    then show ?thesis using I by simp
  next
    case (2 a f)
    have act: "has (fde_state f) FDE_ACTIVE" using fd_invD(6) [OF inv, of "nat sfd" a] 2 by auto
    have pl: "a \<in> set (list_pending st) \<longleftrightarrow> has (fde_state f) FDE_PENDING"
      and ev: "fde_events f \<noteq> 0 \<longleftrightarrow> has (fde_state f) FDE_PENDING"
      using fd_invD(2,3) [OF inv] 2(2) by auto
    let ?e = "f\<lparr>force_eof := True\<rparr>"
    have e: "I (put_fde a ?e st)"
      using act pl ev by (intro I_put [OF I 2(2)] fd_inv_change_keep [OF inv 2(2) act]) auto
    have m: "I (put_fde a (?e\<lparr>fde_events := fde_events f OR FDE_READ\<rparr>) st)" if "has (fde_state f) FDE_PENDING"
      using act pl ev that by (intro I_put [OF I 2(2)] fd_inv_change_keep [OF inv 2(2) act]) (auto simp: or_eq_0_u16)
    have c: "fdevent_call_fdfunc call a (put_fde a (?e\<lparr>fde_events := x, fde_state := fde_state f OR FDE_PENDING\<rparr>) st)
        = call (fde_func f) sfd x (put_fde a ?e st)" if "\<not> has (fde_state f) FDE_PENDING" for x
    proof -
      have "has (fde_state f OR FDE_PENDING) FDE_PENDING" by (simp add: flag_bits)
      moreover have "(fde_state f OR FDE_PENDING) AND NOT FDE_PENDING = fde_state f"
        using that by (auto intro!: u16_eqI simp: flag_bits)
      moreover have r: "f\<lparr>force_eof := True, fde_events := 0\<rparr> = ?e" using ev that by (cases f) simp
      ultimately show ?thesis using ev that 2 by (simp add: fdevent_call_fdfunc_def get_fde_def) (simp only: r)
    qed
    show ?thesis
      using ok 2 e m act
        call_inv [OF e] call_pending [OF e]
      by (auto simp: subproc_notify_def tbl_at_def get_fde_def Let_def c split: if_splits)
  qed
qed

lemma subproc_event_keeps:
  assumes I: "I st" and ok: "fdevent_subproc_event be rcount call fd ev st = Inr st'"
  shows "I st' \<and> length (list_pending st') \<le> length (list_pending st)"
proof -
  obtain b s1 where s1: "fdevent_add b FDE_READ st = Inr s1"
    and rest: "st' = s1 \<or> (\<exists>bs es. subproc_notify rcount call (sint (mem_word be bs)) (rd_set fd es s1) = Inr st')"
    using ok by (auto simp: fdevent_subproc_event_def bindr_eq_Inr split: if_splits option.splits dest!: readx_rd_set) blast+
  have k1: "I s1" "length (list_pending s1) \<le> length (list_pending st)" using I_add [OF I s1] fdevent_add_inv [OF I_inv [OF I] s1] by auto
  then have "I (rd_set fd es s1)" for es by (simp add: I_read)
  from rest k1 subproc_notify_keeps [OF this] show ?thesis by fastforce
qed

end

section \<open>Reachable event states\<close>

definition fd_start :: "'a fdstate_scheme \<Rightarrow> bool" where
  "fd_start st \<longleftrightarrow> fdes st = (\<lambda>_. None) \<and> list_pending st = [] \<and> fd_table st = [] \<and> select_n st = 0
     \<and> read_fds st = {} \<and> write_fds st = {} \<and> error_fds st = {}"

text \<open>
  One step of a program that keeps the contract of the event loop: an operation of fdevent.h, where installing and
  creating are limited to records that are not in use and descriptors that are not in the table (fdevent.c checks neither); one return
  of \<open>select\<close>; or the delivery of the first pending record up to the call of its callback, which
  then takes steps of its own.
\<close>

inductive fd_step :: "'a fdstate_scheme \<Rightarrow> 'a fdstate_scheme \<Rightarrow> bool" where
  step_install: "inactive st a \<Longrightarrow> tbl_at st (nat fd) = None \<Longrightarrow> fdevent_install a fd fn st = Inr st' \<Longrightarrow> fd_step st st'"
| step_create: "inactive st a \<Longrightarrow> tbl_at st (nat fd) = None \<Longrightarrow> fdevent_create a fd fn st = Inr st' \<Longrightarrow> fd_step st st'"
| step_remove: "fdevent_remove a st = Inr st' \<Longrightarrow> fd_step st st'"
| step_destroy: "fdevent_destroy a st = Inr st' \<Longrightarrow> fd_step st st'"
| step_set: "fdevent_set a ev st = Inr st' \<Longrightarrow> fd_step st st'"
| step_add: "fdevent_add a ev st = Inr st' \<Longrightarrow> fd_step st st'"
| step_del: "fdevent_del a ev st = Inr st' \<Longrightarrow> fd_step st st'"
| step_process: "select_ok sel st \<Longrightarrow> select_n st \<le> FD_SETSIZE \<Longrightarrow> fdevent_process sel bad st = Inr st' \<Longrightarrow> fd_step st st'"
| step_deliver: "fdevent_plist_dequeue st = (Some a, st1) \<Longrightarrow>
    fdevent_call_fdfunc (\<lambda>_ _ _ s. Inr s) a st1 = Inr st' \<Longrightarrow> fd_step st st'"

lemma fd_step_inv: "fd_step st st' \<Longrightarrow> fd_inv st \<Longrightarrow> fd_inv st'"
proof (induction rule: fd_step.induct)
  case (step_process sel st bad st')
  then show ?case using fdevent_process_spec [OF _ _ _ refl, of st sel bad] by auto
next
  case (step_deliver st a st1 st')
  obtain as where p: "list_pending st = a # as" and s1: "st1 = st\<lparr>list_pending := as\<rparr>"
    using step_deliver by (auto simp: fdevent_plist_dequeue_def split: list.splits)
  obtain f where f: "fdes st a = Some f" using fd_invD(2) [OF step_deliver.prems, of a] p by auto
  from deliver_inv [OF step_deliver.prems p f] show ?case
    using step_deliver.hyps f by (auto simp: fdevent_call_fdfunc_def get_fde_def Let_def s1)
qed (auto dest: fdevent_install_inv fdevent_create_inv fdevent_remove_inv fdevent_destroy_inv
    fdevent_set_inv fdevent_add_inv fdevent_del_inv)

lemma fd_start_inv: "fd_start st \<Longrightarrow> fd_inv st"
  by (simp add: fd_start_def fd_inv_def watches_def tbl_at_def)


section \<open>What the operations leave alone\<close>

text \<open>The event operations touch the event state, may close descriptors and set them non-blocking; the rest stays.\<close>

definition fd_frame :: "'a fdstate_scheme \<Rightarrow> 'a fdstate_scheme \<Rightarrow> bool" where
  "fd_frame st st' \<longleftrightarrow> fdstate.more st' = fdstate.more st \<and> rd_ev st' = rd_ev st \<and> wr_ev st' = wr_ev st
     \<and> wr_out st' = wr_out st \<and> wr_calls st' = wr_calls st \<and> (\<exists>ys. closed_fds st' = closed_fds st @ ys)"

lemma fd_frame_refl [simp]: "fd_frame st st"
  by (simp add: fd_frame_def)

lemma fd_frame_trans: "fd_frame st st' \<Longrightarrow> fd_frame st' st'' \<Longrightarrow> fd_frame st st''"
  by (auto simp: fd_frame_def)

lemma fd_frame_simps [simp]:
  "fd_frame st (put_fde a f st') = fd_frame st st'"
  "fd_frame (put_fde a f st) st' = fd_frame st st'"
  "fd_frame st (st'\<lparr>list_pending := ps\<rparr>) = fd_frame st st'"
  "fd_frame st (watch_fd i ev st') = fd_frame st st'"
  "fd_frame (st\<lparr>nonblock := x\<rparr>) st' = fd_frame st st'"
  by (simp_all add: fd_frame_def put_fde_def watch_fd_def)

lemma fdevent_update_frame: "fdevent_update a ev st = Inr st' \<Longrightarrow> fd_frame st st'"
  by (auto simp: fdevent_update_def bindr_eq_Inr split: if_splits)

lemma plist_remove_frame: "fdevent_plist_remove a st = Inr st' \<Longrightarrow> fd_frame st st'"
  by (auto simp: fdevent_plist_remove_def split: if_splits)

lemma fdevent_set_frame: "fdevent_set a ev st = Inr st' \<Longrightarrow> fd_frame st st'"
  by (auto simp: fdevent_set_def Let_def bindr_eq_Inr split: if_splits
      dest!: fdevent_update_frame plist_remove_frame intro: fd_frame_trans)

lemma fdevent_add_frame: "fdevent_add a ev st = Inr st' \<Longrightarrow> fd_frame st st'"
  by (auto simp: fdevent_add_def bindr_eq_Inr dest: fdevent_set_frame)

lemma fdevent_del_frame: "fdevent_del a ev st = Inr st' \<Longrightarrow> fd_frame st st'"
  by (auto simp: fdevent_del_def bindr_eq_Inr dest: fdevent_set_frame)

lemma fdevent_disconnect_frame: "fdevent_disconnect a st = Inr st' \<Longrightarrow> fd_frame st st'"
  by (auto simp: fdevent_disconnect_def bindr_eq_Inr Let_def fd_frame_def split: if_splits)

lemma fdevent_unregister_frame: "fdevent_unregister a st = Inr st' \<Longrightarrow> fd_frame st st'"
  by (auto simp: fdevent_unregister_def bindr_eq_Inr Let_def fd_frame_def adb_close_def split: if_splits)

lemma fdevent_remove_frame: "fdevent_remove a st = Inr st' \<Longrightarrow> fd_frame st st'"
  by (auto simp: fdevent_remove_def bindr_eq_Inr split: if_splits
      dest!: plist_remove_frame fdevent_disconnect_frame fdevent_unregister_frame intro: fd_frame_trans elim: fd_frame_trans)

lemma fdevent_register_frame: "fdevent_register a st = Inr st' \<Longrightarrow> fd_frame st st'"
  by (auto simp: fdevent_register_def bindr_eq_Inr Let_def fd_frame_def fdevent_init_def split: if_splits)

lemma fdevent_connect_frame: "fdevent_connect a st = Inr st' \<Longrightarrow> fd_frame st st'"
  by (auto simp: fdevent_connect_def bindr_eq_Inr fd_frame_def)

lemma fdevent_install_frame: "fdevent_install a fd fn st = Inr st' \<Longrightarrow> fd_frame st st'"
  by (auto simp: fdevent_install_def Let_def bindr_eq_Inr
      dest!: fdevent_register_frame fdevent_connect_frame intro: fd_frame_trans)

section \<open>Properties\<close>

text \<open>The operations do not fail on the records and descriptors they are meant for.\<close>

lemma fdevent_install_ok:
  assumes "0 \<le> fd" "fd \<le> 32000"
  shows "\<exists>st'. fdevent_install a fd fn st = Inr st'"
  using assms
  by (auto simp: fdevent_install_def fdevent_register_def fdevent_connect_def get_fde_def Let_def bindr_def fdevent_init_def)

lemma fdevent_create_ok:
  assumes "fd_inv st" "0 \<le> fd" "fd \<le> 32000"
  shows "\<exists>st'. fdevent_create a fd fn st = Inr st'"
proof -
  obtain s where s: "fdevent_install a fd fn st = Inr s" using fdevent_install_ok assms by blast
  then show ?thesis using fdevent_install_result [OF assms(1) s] by (auto simp: fdevent_create_def get_fde_def)
qed

definition ex_fdstate :: fdstate where
  "ex_fdstate = \<lparr>rd_ev = (\<lambda>_. []), wr_ev = (\<lambda>_. []), wr_out = (\<lambda>_. []), wr_calls = (\<lambda>_. []),
     nonblock = (\<lambda>_. False), closed_fds = [], fdes = (\<lambda>_. None), list_pending = [], fd_table = [],
     select_n = 0, read_fds = {}, write_fds = {}, error_fds = {}\<rparr>"

lemma ex_fdstate_start: "fd_start ex_fdstate"
  by (simp add: fd_start_def ex_fdstate_def)

text \<open>
  Property C10. The event loop stays consistent as long as its callers keep a contract that fdevent.c does not
  check: a record is installed or created only while it is not active, and only on a descriptor that no record
  is watching; and \<open>select\<close> is called for at most \<open>FD_SETSIZE\<close> descriptors. After any sequence of such
  operations, of returns of \<open>select\<close> and of deliveries, the pending list holds exactly the records marked
  \<open>FDE_PENDING\<close>, each once, these are exactly the records with events recorded, the table maps
  exactly the descriptors of the active records, all below \<open>select_n\<close>, and the sets handed to
  \<open>select\<close> are exactly the wanted events. The daemon breaks the contract in one place, when it shows a second public
  key to the framework (adb_auth_client.c); \<open>DaemonInv\<close> treats that case.
\<close>

theorem fd_reachable_consistent: "fd_start st0 \<Longrightarrow> fd_step\<^sup>*\<^sup>* st0 st \<Longrightarrow> fd_inv st"
proof -
  assume s: "fd_start st0" and r: "fd_step\<^sup>*\<^sup>* st0 st"
  from r show "fd_inv st"
    by (induction rule: rtranclp_induct) (auto intro: fd_start_inv [OF s] fd_step_inv)
qed

theorem fd_reachable_consistent_witness:
  "\<exists>st. fdevent_create 7 3 fdevent_subproc_event_func ex_fdstate = Inr st \<and> fd_step\<^sup>*\<^sup>* ex_fdstate st \<and> fd_inv st"
proof -
  obtain st where st: "fdevent_create 7 3 fdevent_subproc_event_func ex_fdstate = Inr st"
    using fdevent_create_ok [OF fd_start_inv [OF ex_fdstate_start]] by fastforce
  have "fd_step ex_fdstate st"
    by (rule step_create [OF _ _ st]) (simp_all add: inactive_def ex_fdstate_def tbl_at_def)
  then have r: "fd_step\<^sup>*\<^sup>* ex_fdstate st" by blast
  show ?thesis using st r fd_reachable_consistent [OF ex_fdstate_start r] by blast
qed

text \<open>
  Property C21. One round of \<open>fdevent_process\<close> records exactly the events \<open>select\<close> reported, although its
  loop stops as soon as the returned count is used up: the record of each descriptor gets the
  reported events added, and the newly pending records are appended in descriptor order, each
  once. When \<open>select\<close> fails with EBADF or reports nothing, the descriptors that have gone bad are
  given a read event instead. The only limit is \<open>FD_SETSIZE\<close>.
\<close>

theorem fdevent_process_exact:
  assumes "fd_inv st" "select_n st \<le> FD_SETSIZE" "select_ok sel st"
  shows "\<exists>st'. fdevent_process sel bad st = Inr st' \<and> fd_inv st'
    \<and> (\<forall>a. fdes st' a = map_option (\<lambda>f. marked (if has (fde_state f) FDE_ACTIVE
          then round_events sel bad st (nat (fde_fd f)) else 0) f) (fdes st a))
    \<and> list_pending st' = list_pending st @ filter (\<lambda>a. a \<notin> set (list_pending st))
        (map (\<lambda>i. the (tbl_at st i)) (filter (\<lambda>i. round_events sel bad st i \<noteq> 0) [0..<select_n st]))"
  using fdevent_process_spec [OF assms refl] .

definition ex_watched :: fdstate where
  "ex_watched = ex_fdstate\<lparr>fdes := [7 \<mapsto> \<lparr>fde_fd = 1, force_eof = False, fde_state = FDE_ACTIVE OR FDE_READ,
       fde_events = 0, fde_func = jdwp_control_event\<rparr>],
     fd_table := [None, Some 7], select_n := 2, read_fds := {1}\<rparr>"

lemma ex_watched_inv: "fd_inv ex_watched"
  by (auto simp: fd_inv_def ex_watched_def ex_fdstate_def watches_def tbl_at_def flag_bits nth_Cons less_Suc_eq split: nat.splits if_splits)

theorem fdevent_process_exact_witness:
  "\<exists>st'. fdevent_process (SelN 1 {1} {} {}) (\<lambda>_. False) ex_watched = Inr st' \<and> list_pending st' = [7]"
  using fdevent_process_exact [OF ex_watched_inv, of "SelN 1 {1} {} {}" "\<lambda>_. False"]
  by (auto simp: select_ok_def ex_watched_def ex_fdstate_def FD_SETSIZE_def round_events_def sel_events_def
      tbl_at_def FDE_READ_def upt_rec)

text \<open>
  \<open>fdevent_remove\<close> gives everything back: the record leaves the table, the three sets and the
  pending list, its recorded events are dropped, its descriptor is closed exactly once unless
  \<open>FDE_DONT_CLOSE\<close> is set, and no other record changes.
\<close>

theorem fdevent_remove_releases:
  assumes "fd_inv st" "fdes st a = Some f" "has (fde_state f) FDE_ACTIVE" "fde_fd f < int FD_SETSIZE"
  shows "\<exists>st'. fdevent_remove a st = Inr st' \<and> fd_inv st'
    \<and> fdes st' = (fdes st)(a \<mapsto> f\<lparr>fde_state := 0, fde_events := 0\<rparr>)
    \<and> tbl_at st' = (tbl_at st)(nat (fde_fd f) := None)
    \<and> list_pending st' = remove1 a (list_pending st) \<and> a \<notin> set (list_pending st')
    \<and> read_fds st' = read_fds st - {nat (fde_fd f)}
    \<and> closed_fds st' = (if has (fde_state f) FDE_DONT_CLOSE then closed_fds st else closed_fds st @ [fde_fd f])"
proof -
  have fd: "0 \<le> fde_fd f" using fd_invD(5) assms by blast
  then have "tbl_at st (nat (fde_fd f)) = Some a" using fd_invD(6) [OF assms(1)] assms(2,3) by auto
  then have il: "nat (fde_fd f) < length (fd_table st)" "fd_table st ! nat (fde_fd f) = Some a"
    by (auto simp: tbl_at_def split: if_splits)
  have pl: "has (fde_state f) FDE_PENDING \<Longrightarrow> a \<in> set (list_pending st)" using fd_invD(2) [OF assms(1)] assms(2) by auto
  have "\<exists>st'. fdevent_remove a st = Inr st'"
    using assms(2-4) fd il pl fd_invD(8) [OF assms(1)]
    by (auto simp: fdevent_remove_def get_fde_def fdevent_plist_remove_def fdevent_disconnect_def fdevent_unregister_def Let_def)
  then obtain st' where st': "fdevent_remove a st = Inr st'" by blast
  then show ?thesis
    using fdevent_remove_result [OF assms(1-3) st'] fdevent_remove_inv [OF assms(1) st'] fd_invD(1) [OF assms(1)]
    by auto
qed

theorem fdevent_remove_releases_witness:
  "\<exists>st'. fdevent_remove 7 ex_watched = Inr st' \<and> fd_inv st' \<and> closed_fds st' = [1]"
  using fdevent_remove_releases [OF ex_watched_inv, of 7]
  by (auto simp: ex_watched_def ex_fdstate_def FD_SETSIZE_def flag_bits)

text \<open>
  What \<open>fdevent_set\<close> does to a record with undelivered events when the wanted events change: the
  recorded events that are wanted are dropped and those that are not wanted stay, and the record
  leaves the pending list when nothing stays.
\<close>

theorem fdevent_set_pending:
  assumes "fd_inv st" "fdes st a = Some f" "has (fde_state f) FDE_PENDING" "fde_fd f < int FD_SETSIZE"
    "fde_state f AND FDE_EVENTMASK \<noteq> events AND FDE_EVENTMASK"
  shows "\<exists>st' g. fdevent_set a events st = Inr st' \<and> fdes st' a = Some g
    \<and> fde_state g AND FDE_EVENTMASK = events AND FDE_EVENTMASK
    \<and> fde_events g = fde_events f AND NOT (events AND FDE_EVENTMASK)
    \<and> (a \<in> set (list_pending st') \<longleftrightarrow> fde_events g \<noteq> 0)"
proof -
  have act: "has (fde_state f) FDE_ACTIVE" using fd_invD(4) assms by blast
  have fd: "0 \<le> fde_fd f" using fd_invD(5) act assms by blast
  have pl: "a \<in> set (list_pending st)" using fd_invD(2) [OF assms(1)] assms(2,3) by auto
  let ?e = "events AND FDE_EVENTMASK"
  let ?s = "(fde_state f AND FDE_STATEMASK) OR ?e"
  have "has ?s FDE_PENDING" using assms(3) by (simp add: flag_bits)
  moreover have "?s AND FDE_EVENTMASK = ?e" "(?s AND NOT FDE_PENDING) AND FDE_EVENTMASK = ?e"
    by (auto intro!: u16_eqI simp: bit_simps)
  ultimately show ?thesis
    using assms(2-5) act fd pl fd_invD(1) [OF assms(1)]
    by (auto simp: fdevent_set_def get_fde_def fdevent_update_def fdevent_plist_remove_def Let_def)
qed


definition ex_pending :: fdstate where
  "ex_pending = ex_watched\<lparr>fdes := [7 \<mapsto> \<lparr>fde_fd = 1, force_eof = False,
       fde_state = FDE_ACTIVE OR FDE_READ OR FDE_PENDING, fde_events = FDE_READ, fde_func = jdwp_control_event\<rparr>],
     list_pending := [7]\<rparr>"

lemma FDE_READ_nz: "FDE_READ \<noteq> 0"
  by (simp add: FDE_READ_def)

lemma ex_pending_inv: "fd_inv ex_pending"
  by (auto simp: fd_inv_def ex_pending_def ex_watched_def ex_fdstate_def watches_def tbl_at_def flag_bits nth_Cons
      less_Suc_eq FDE_READ_nz split: nat.splits if_splits)

text \<open>Asking for write events as well loses a read event that was waiting to be delivered.\<close>

theorem fdevent_set_pending_witness:
  "\<exists>st' g. fdevent_set 7 (FDE_READ OR FDE_WRITE) ex_pending = Inr st' \<and> fdes st' 7 = Some g
    \<and> fde_events g = 0 \<and> 7 \<notin> set (list_pending st')"
proof -
  have "FDE_READ AND NOT (FDE_READ OR FDE_WRITE) = 0" by (simp add: FDE_READ_def FDE_WRITE_def)
  moreover have "(FDE_ACTIVE OR FDE_READ OR FDE_PENDING) AND FDE_EVENTMASK \<noteq> (FDE_READ OR FDE_WRITE) AND FDE_EVENTMASK"
    by (simp add: FDE_READ_def FDE_WRITE_def FDE_ACTIVE_def FDE_PENDING_def FDE_EVENTMASK_def)
  moreover have "(FDE_READ OR FDE_WRITE) AND FDE_EVENTMASK = FDE_READ OR FDE_WRITE"
    by (simp add: FDE_READ_def FDE_WRITE_def FDE_EVENTMASK_def)
  ultimately show ?thesis
    using fdevent_set_pending [OF ex_pending_inv, of 7 _ "FDE_READ OR FDE_WRITE"]
    by (auto simp: ex_pending_def ex_watched_def ex_fdstate_def FD_SETSIZE_def flag_bits)
qed

end
