(* ===== verification/CString.thy ===== *)
theory CString
  imports Packet
begin

text \<open>
  The text of the protocols: C strings as character lists without the terminating NUL, their
  bytes, the hexadecimal lengths that precede every host message (\<open>"%04x"\<close> and \<open>unhex\<close>), the
  failure message of \<open>sendfailmsg\<close>, the comparison and search functions of string.h the sources
  use, and \<open>skip_host_serial\<close>, which finds the end of a serial number that may itself contain
  the delimiter.
\<close>

section \<open>Characters and bytes\<close>

definition byte_of :: "char \<Rightarrow> byte" where
  "byte_of c = of_nat (of_char c)"

definition char_of_byte :: "byte \<Rightarrow> char" where
  "char_of_byte b = char_of (unat b)"

definition bytes_of :: "string \<Rightarrow> byte list" where
  "bytes_of s = map byte_of s"

text \<open>The C string at the start of a buffer: everything before the first NUL.\<close>

definition cstr :: "byte list \<Rightarrow> string" where
  "cstr bs = map char_of_byte (takeWhile (\<lambda>b. b \<noteq> 0) bs)"

section \<open>string.h\<close>

definition strncmp_eq :: "string \<Rightarrow> string \<Rightarrow> nat \<Rightarrow> bool" where
  "strncmp_eq a b n = (take n a = take n b)"

fun strchr :: "string \<Rightarrow> char \<Rightarrow> nat option" where
  "strchr [] c = None"
| "strchr (x # xs) c = (if x = c then Some 0 else map_option Suc (strchr xs c))"

definition isdigit :: "char \<Rightarrow> bool" where
  "isdigit c \<longleftrightarrow> (of_char CHR ''0'' :: nat) \<le> of_char c \<and> of_char c \<le> (of_char CHR ''9'' :: nat)"

fun skip_digits :: "string \<Rightarrow> nat" where
  "skip_digits [] = 0"
| "skip_digits (x # xs) = (if isdigit x then Suc (skip_digits xs) else 0)"

section \<open>Hexadecimal\<close>

definition hex_digit :: "nat \<Rightarrow> char" where
  "hex_digit n = ''0123456789abcdef'' ! (n mod 16)"

fun hex_digits :: "nat \<Rightarrow> string" where
  "hex_digits n = (if n < 16 then [hex_digit n] else hex_digits (n div 16) @ [hex_digit n])"

declare hex_digits.simps [simp del]

text \<open>\<open>"%04x"\<close>\<close>

definition fmt_04x :: "nat \<Rightarrow> string" where
  "fmt_04x n = replicate (4 - length (hex_digits n)) CHR ''0'' @ hex_digits n"

text \<open>\<open>"%d"\<close>\<close>

fun dec_digits :: "nat \<Rightarrow> string" where
  "dec_digits n = (if n < 10 then [hex_digit n] else dec_digits (n div 10) @ [hex_digit (n mod 10)])"

declare dec_digits.simps [simp del]

definition fmt_d :: "int \<Rightarrow> string" where
  "fmt_d i = (if i < 0 then CHR ''-'' # dec_digits (nat (- i)) else dec_digits (nat i))"

definition unhex_digit :: "byte \<Rightarrow> u32 option" where
  "unhex_digit c =
     (if 0x30 \<le> c \<and> c \<le> 0x39 then Some (ucast c - 0x30)
      else if 0x61 \<le> c \<and> c \<le> 0x66 then Some (ucast c - 0x61 + 10)
      else if 0x41 \<le> c \<and> c \<le> 0x46 then Some (ucast c - 0x41 + 10)
      else None)"

fun unhex_loop :: "byte list \<Rightarrow> nat \<Rightarrow> u32 \<Rightarrow> u32 res" where
  "unhex_loop s 0 n = Inr n"
| "unhex_loop [] (Suc len) n = Inl MemFault"
| "unhex_loop (c # s) (Suc len) n =
     (case unhex_digit c of
        None \<Rightarrow> Inr 0xffffffff
      | Some d \<Rightarrow> unhex_loop s len (push_bit 4 n OR d))"

definition unhex :: "byte list \<Rightarrow> nat \<Rightarrow> u32 res" where
  "unhex s len = unhex_loop s len 0"

section \<open>Serial numbers in service names\<close>

definition prefixes :: "string list" where
  "prefixes = [''usb:'', ''product:'', ''model:'', ''device:'']"

text \<open>The offset of the delimiter that ends the serial number, if there is one.\<close>

fun skip_prefix :: "string list \<Rightarrow> string \<Rightarrow> nat option option" where
  "skip_prefix [] service = None"
| "skip_prefix (p # ps) service =
     (if strncmp_eq service p (length p)
      then Some (map_option (\<lambda>i. length p + i) (strchr (drop (length p) service) CHR '':''))
      else skip_prefix ps service)"

definition skip_host_serial :: "string \<Rightarrow> nat option" where
  "skip_host_serial service =
     (case skip_prefix prefixes service of
        Some r \<Rightarrow> r
      | None \<Rightarrow>
          (case strchr service CHR '':'' of
             None \<Rightarrow> None
           | Some first_colon \<Rightarrow>
               let rest = drop (Suc first_colon) service; n = skip_digits rest in
               if n > 0 \<and> n < length rest \<and> rest ! n = CHR '':'' then Some (Suc first_colon + n)
               else Some first_colon))"

section \<open>Failure messages\<close>

definition fail_message :: "string \<Rightarrow> byte list" where
  "fail_message reason = bytes_of (''FAIL'' @ fmt_04x (min (length reason) 0xffff))"

definition sendfailmsg :: "fdesc \<Rightarrow> string \<Rightarrow> 'a world_scheme \<Rightarrow> (int \<times> 'a world_scheme) res" where
  "sendfailmsg fd reason w =
     bindr (writex fd (take 8 (fail_message reason)) w) (\<lambda>(r, w).
       if r \<noteq> 0 then Inr (-1, w) else writex fd (bytes_of (take 0xffff reason)) w)"

section \<open>Bytes and characters\<close>

lemma of_char_less: "(of_char c :: nat) < 256"
  using of_char_mod_256 [of c, where 'a = nat] by (metis mod_less_divisor zero_less_numeral)

lemma unat_byte_of: "unat (byte_of c) = of_char c"
  by (simp add: byte_of_def unsigned_of_nat take_bit_eq_mod)

lemma char_of_byte_of [simp]: "char_of_byte (byte_of c) = c"
  by (simp add: char_of_byte_def unat_byte_of)

lemma byte_of_char_of [simp]: "byte_of (char_of_byte b) = b"
proof -
  have "unat b < 256" using unat_byte_less .
  then show ?thesis by (simp add: byte_of_def char_of_byte_def)
qed

lemma byte_of_eq_0: "byte_of c = 0 \<longleftrightarrow> c = CHR 0x00"
proof -
  have "byte_of c = 0 \<longleftrightarrow> unat (byte_of c) = 0" by (simp add: unsigned_eq_0_iff)
  also have "\<dots> \<longleftrightarrow> (of_char c :: nat) = of_char (CHR 0x00)" by (simp add: unat_byte_of)
  finally show ?thesis by (simp only: of_char_eq_iff)
qed

lemma length_bytes_of [simp]: "length (bytes_of s) = length s"
  by (simp add: bytes_of_def)

lemma bytes_of_append [simp]: "bytes_of (s @ t) = bytes_of s @ bytes_of t"
  by (simp add: bytes_of_def)

lemma cstr_bytes_of: "CHR 0x00 \<notin> set s \<Longrightarrow> cstr (bytes_of s @ 0 # rest) = s"
proof -
  assume "CHR 0x00 \<notin> set s"
  then have "takeWhile (\<lambda>b. b \<noteq> 0) (bytes_of s @ 0 # rest) = bytes_of s"
    by (subst takeWhile_append2) (auto simp: bytes_of_def byte_of_eq_0)
  then show ?thesis by (simp add: cstr_def) (simp add: bytes_of_def comp_def)
qed

section \<open>Hexadecimal lengths\<close>

lemma fmt_04x_digits:
  assumes "n < 65536"
  shows "fmt_04x n = [hex_digit (n div 4096), hex_digit (n div 256), hex_digit (n div 16), hex_digit n]"
proof -
  have z: "hex_digit 0 = CHR ''0''" by (simp add: hex_digit_def)
  consider "n < 16" | "16 \<le> n" "n < 256" | "256 \<le> n" "n < 4096" | "4096 \<le> n" by linarith
  then show ?thesis
  proof cases
    case 1
    then show ?thesis using z by (simp add: fmt_04x_def hex_digits.simps [of n] numeral_3_eq_3)
  next
    case 2
    then have "n div 16 < 16" by simp
    with 2 show ?thesis using z by (simp add: fmt_04x_def hex_digits.simps [of n] hex_digits.simps [of "n div 16"] numeral_2_eq_2)
  next
    case 3
    then have "16 \<le> n div 16" "n div 16 div 16 < 16" by (simp_all add: less_eq_div_iff_mult_less_eq less_mult_imp_div_less)
    with 3 show ?thesis using z
      by (simp add: fmt_04x_def hex_digits.simps [of n] hex_digits.simps [of "n div 16"] hex_digits.simps [of "n div 256"]
          flip: div_mult2_eq)
  next
    case 4
    then have "16 \<le> n div 16" "16 \<le> n div 256" "n div 4096 < 16"
      using assms by (simp_all add: less_eq_div_iff_mult_less_eq less_mult_imp_div_less)
    with 4 show ?thesis
      by (simp add: fmt_04x_def hex_digits.simps [of n] hex_digits.simps [of "n div 16"] hex_digits.simps [of "n div 256"]
         hex_digits.simps [of "n div 4096"] flip: div_mult2_eq)
  qed
qed

lemma unhex_hex_digit: "unhex_digit (byte_of (hex_digit d)) = Some (of_nat (d mod 16))"
proof -
  have "\<forall>k<16. unhex_digit (byte_of (''0123456789abcdef'' ! k)) = Some (of_nat k)" by code_simp
  then show ?thesis by (simp add: hex_digit_def)
qed

lemma shift_or: "d < 16 \<Longrightarrow> push_bit 4 (of_nat k) OR of_nat d = (of_nat (16 * k + d) :: u32)"
proof -
  assume d: "d < 16"
  have b: "\<not> bit (of_nat d :: u32) n" if "4 \<le> n" for n
  proof -
    have "d < 2 ^ n" using d power_increasing [OF that, of "2::nat"] by simp
    then have "\<not> bit d n" by (simp add: bit_iff_odd)
    then show ?thesis by (simp add: bit_of_nat_iff)
  qed
  have "push_bit 4 (of_nat k) OR of_nat d = push_bit 4 (of_nat k) + (of_nat d :: u32)"
    by (rule disjunctive_add [symmetric]) (auto simp: bit_push_bit_iff b)
  then show ?thesis by (simp add: push_bit_eq_mult)
qed

lemma unhex_4:
  assumes "unhex_digit a = Some (of_nat w)" "unhex_digit b = Some (of_nat x)"
    "unhex_digit c = Some (of_nat y)" "unhex_digit d = Some (of_nat z)"
    and "w < 16" "x < 16" "y < 16" "z < 16"
  shows "unhex (a # b # c # d # rest) 4 = Inr (of_nat (16 * (16 * (16 * w + x) + y) + z))"
proof -
  have "unhex (a # b # c # d # rest) 4 = unhex_loop (a # b # c # d # rest) (Suc (Suc (Suc (Suc 0)))) (of_nat 0)"
    by (simp add: unhex_def numeral_eq_Suc)
  also have "\<dots> = Inr (of_nat (16 * (16 * (16 * (16 * 0 + w) + x) + y) + z))"
    unfolding unhex_loop.simps assms(1-4) option.case using assms(5-) by (simp only: shift_or)
  finally show ?thesis by simp
qed

lemma hex_parts:
  fixes n :: nat
  assumes "n < 65536"
  shows "16 * (16 * (16 * (n div 4096 mod 16) + n div 256 mod 16) + n div 16 mod 16) + n mod 16 = n"
proof -
  have "n div 4096 mod 16 = n div 4096" using assms by (simp add: less_mult_imp_div_less)
  moreover have "n div 4096 = n div 256 div 16" "n div 256 = n div 16 div 16" by (simp_all flip: div_mult2_eq)
  ultimately show ?thesis by (simp only: mult_div_mod_eq)
qed

lemma unhex_fmt:
  assumes "n < 65536"
  shows "unhex (bytes_of (fmt_04x n) @ rest) 4 = Inr (of_nat n)"
proof -
  note hex_parts [OF assms]
  moreover have "unhex (map byte_of [hex_digit (n div 4096), hex_digit (n div 256), hex_digit (n div 16), hex_digit n] @ rest) 4
      = Inr (of_nat (16 * (16 * (16 * (n div 4096 mod 16) + n div 256 mod 16) + n div 16 mod 16) + n mod 16))"
    unfolding list.map append.simps by (intro unhex_4 unhex_hex_digit mod_less_divisor) simp_all
  ultimately show ?thesis by (simp only: fmt_04x_digits [OF assms] bytes_of_def)
qed


section \<open>Finding the end of a serial number\<close>

lemma strchr_append: "c \<notin> set a \<Longrightarrow> strchr (a @ c # b) c = Some (length a)"
  by (induction a) auto

lemma skip_digits_append: "\<forall>c\<in>set d. isdigit c \<Longrightarrow> \<not> isdigit x \<Longrightarrow> skip_digits (d @ x # r) = length d"
  by (induction d) auto

lemma skip_digits_all: "\<forall>c\<in>set (take (skip_digits s) s). isdigit c"
  by (induction s) auto

lemma not_digit_colon [simp]: "\<not> isdigit CHR '':''"
  by (simp add: isdigit_def)

lemma takeWhile_colon: "CHR '':'' \<notin> set a \<Longrightarrow> takeWhile (\<lambda>c. c \<noteq> CHR '':'') (a @ CHR '':'' # b) = a"
  by (subst takeWhile_append2) auto

lemma strncmp_colon:
  assumes "CHR '':'' \<notin> set q" "CHR '':'' \<notin> set h"
  shows "strncmp_eq (h @ CHR '':'' # x) (q @ '':'') (length (q @ '':'')) \<longleftrightarrow> h = q"
proof
  assume "strncmp_eq (h @ CHR '':'' # x) (q @ '':'') (length (q @ '':''))"
  then have "take (length (q @ '':'')) (h @ CHR '':'' # x) = q @ '':''" by (simp add: strncmp_eq_def)
  then have "h @ CHR '':'' # x = (q @ '':'') @ drop (length (q @ '':'')) (h @ CHR '':'' # x)"
    by (metis append_take_drop_id)
  then have "takeWhile (\<lambda>c. c \<noteq> CHR '':'') (h @ CHR '':'' # x)
      = takeWhile (\<lambda>c. c \<noteq> CHR '':'') (q @ CHR '':'' # drop (length (q @ '':'')) (h @ CHR '':'' # x))" by simp
  then show "h = q" by (simp add: takeWhile_colon assms)
qed (simp add: strncmp_eq_def)

definition prefix_names :: "string list" where
  "prefix_names = [''usb'', ''product'', ''model'', ''device'']"

lemma prefixes_names: "prefixes = map (\<lambda>q. q @ '':'') prefix_names"
  by (simp add: prefixes_def prefix_names_def)

lemma skip_prefix_names:
  assumes "\<forall>q\<in>set qs. CHR '':'' \<notin> set q" "CHR '':'' \<notin> set h"
  shows "skip_prefix (map (\<lambda>q. q @ '':'') qs) (h @ CHR '':'' # x)
    = (if h \<in> set qs then Some (map_option (\<lambda>i. length h + 1 + i) (strchr x CHR '':'')) else None)"
  using assms
proof (induction qs)
  case (Cons q qs)
  then show ?case using strncmp_colon [of q h x] by (cases "strchr x CHR '':''") auto
qed simp

lemma skip_prefix_prefixes:
  "CHR '':'' \<notin> set h \<Longrightarrow> skip_prefix prefixes (h @ CHR '':'' # x)
    = (if h \<in> set prefix_names then Some (map_option (\<lambda>i. length h + 1 + i) (strchr x CHR '':'')) else None)"
  unfolding prefixes_names by (rule skip_prefix_names) (simp_all add: prefix_names_def)

text \<open>A name without the delimiter that is not one of the attribute prefixes, and digits before a delimiter.\<close>

definition plain_name :: "string \<Rightarrow> bool" where
  "plain_name s \<longleftrightarrow> CHR '':'' \<notin> set s \<and> s \<notin> set prefix_names"

definition port_first :: "string \<Rightarrow> bool" where
  "port_first s \<longleftrightarrow> (let n = skip_digits s in 0 < n \<and> n < length s \<and> s ! n = CHR '':'')"

lemma skip_plain:
  assumes "plain_name h"
  shows "skip_host_serial (h @ CHR '':'' # x) =
    Some (if port_first x then Suc (length h) + skip_digits x else length h)"
  using assms by (simp add: skip_host_serial_def plain_name_def skip_prefix_prefixes strchr_append port_first_def Let_def)

text \<open>
  \<open>skip_host_serial\<close> finds the end of the serial number in \<open>serial:service\<close> for the three forms
  of serial number: \<open>host:port\<close>, an attribute such as \<open>usb:path\<close> or \<open>model:name\<close>, and a plain
  name, provided the service behind a plain name does not itself start like a port number.
\<close>

theorem skip_host_serial_finds:
  assumes "(\<exists>h p. serial = h @ '':'' @ p \<and> plain_name h \<and> p \<noteq> [] \<and> (\<forall>c\<in>set p. isdigit c))
    \<or> (\<exists>q\<in>set prefixes. \<exists>v. serial = q @ v \<and> CHR '':'' \<notin> set v)
    \<or> plain_name serial \<and> \<not> port_first service"
  shows "skip_host_serial (serial @ '':'' @ service) = Some (length serial)"
  using assms
proof (elim disjE exE conjE bexE)
  fix h p assume s: "serial = h @ '':'' @ p" "plain_name h" "p \<noteq> []" "\<forall>c\<in>set p. isdigit c"
  have "skip_digits (p @ CHR '':'' # service) = length p" using s(4) by (intro skip_digits_append) auto
  then have "port_first (p @ CHR '':'' # service)" using s(3) by (simp add: port_first_def)
  then show ?thesis using skip_plain [OF s(2), of "p @ CHR '':'' # service"] s
    \<open>skip_digits (p @ CHR '':'' # service) = length p\<close> by simp
next
  fix q v assume s: "q \<in> set prefixes" "serial = q @ v" "CHR '':'' \<notin> set v"
  obtain n where n: "q = n @ '':''" "n \<in> set prefix_names" using s(1) by (auto simp: prefixes_names)
  have "CHR '':'' \<notin> set n" using n(2) by (auto simp: prefix_names_def)
  then show ?thesis
    using s n skip_prefix_prefixes [of n "v @ CHR '':'' # service"] by (simp add: skip_host_serial_def strchr_append)
next
  assume "plain_name serial" "\<not> port_first service"
  then show ?thesis using skip_plain [of serial service] by simp
qed

theorem skip_host_serial_finds_witness:
  "skip_host_serial (''10.0.0.7:5555'' @ '':'' @ ''get-state'') = Some 13"
proof -
  have "\<exists>h p. ''10.0.0.7:5555'' = h @ '':'' @ p \<and> plain_name h \<and> p \<noteq> [] \<and> (\<forall>c\<in>set p. isdigit c)"
    by (rule exI [of _ "''10.0.0.7''"], rule exI [of _ "''5555''"])
      (simp add: plain_name_def prefix_names_def isdigit_def)
  then show ?thesis using skip_host_serial_finds [OF disjI1, of "''10.0.0.7:5555''" "''get-state''"] by simp
qed

section \<open>Failure messages\<close>

lemma length_fail_message: "length (fail_message reason) = 8"
  by (simp add: fail_message_def fmt_04x_digits)

text \<open>
  The failure message \<open>sendfailmsg\<close> sends can be parsed back: when it reports success, the
  descriptor has been sent the word FAIL, four hexadecimal digits that \<open>unhex\<close> reads as the
  length of what follows, and the reason, cut at 65535 characters.
\<close>

theorem sendfailmsg_parses:
  assumes "sendfailmsg fd reason w = Inr (0, w')"
  shows "\<exists>d. wr_out w' fd = wr_out w fd @ d \<and> take 4 d = bytes_of ''FAIL''
    \<and> drop 8 d = bytes_of (take 0xffff reason)
    \<and> unhex (drop 4 d) 4 = Inr (of_nat (min (length reason) 0xffff))"
proof -
  let ?n = "min (length reason) 0xffff"
  obtain w1 where w1: "writex fd (fail_message reason) w = Inr (0, w1)"
    "writex fd (bytes_of (take 0xffff reason)) w1 = Inr (0, w')"
    using assms by (auto simp: sendfailmsg_def bindr_eq_Inr length_fail_message split: if_splits)
  have "wr_out w' fd = wr_out w fd @ fail_message reason @ bytes_of (take 0xffff reason)"
    by (rule sock_snk.wr_seq [OF w1])
  moreover have "unhex (bytes_of (fmt_04x ?n) @ bytes_of (take 0xffff reason)) 4 = Inr (of_nat ?n)"
    by (rule unhex_fmt) simp
  moreover have "drop 4 (fail_message reason) = bytes_of (fmt_04x ?n)" "take 4 (fail_message reason) = bytes_of ''FAIL''"
    by (simp_all add: fail_message_def bytes_of_def)
  ultimately show ?thesis
    by (intro exI [of _ "fail_message reason @ bytes_of (take 0xffff reason)"])
      (simp add: length_fail_message min.commute)
qed


lemma sendfailmsg_clean: "wr_clean (wr_ev w fd) \<Longrightarrow> \<exists>w'. sendfailmsg fd reason w = Inr (0, w')"
  using writex_clean [of w fd "fail_message reason"] writex_clean [of _ fd "bytes_of (take 0xffff reason)"]
  by (fastforce simp: sendfailmsg_def length_fail_message)

theorem sendfailmsg_parses_witness:
  "\<exists>w' d. sendfailmsg 3 ''closed'' idle_world = Inr (0, w') \<and> wr_out w' 3 = d \<and> unhex (drop 4 d) 4 = Inr 6"
proof -
  obtain w' where w': "sendfailmsg 3 ''closed'' idle_world = Inr (0, w')"
    using sendfailmsg_clean [of idle_world 3] by (auto simp: idle_world_def)
  then show ?thesis using sendfailmsg_parses [OF w'] by (auto simp: idle_world_def bytes_of_def)
qed

end
