(* ===== verification/Transport.thy ===== *)
theory Transport
  imports Fdevent CString
begin

text \<open>
  Transports (transport.c, transport_local.c, transport_usb.c): the objects that stand for a
  connection to a device, their two lists, reference counts and disconnect callbacks, the pipe
  between the main loop and the two threads of a transport, registration and removal, the
  choice of a transport for a request, and the textual device list.

  A transport is an entry of a store addressed by \<open>addr\<close>; the circular lists of the code are
  lists of addresses. The socket pair between the main loop and a transport's threads carries
  packet addresses; here it carries the packets, and a write of an address is a write of
  \<open>sizeof_ptr\<close> bytes that may fail or block like any other.
\<close>

section \<open>Data\<close>

datatype transport_type = kTransportUsb | kTransportLocal | kTransportAny | kTransportHost

definition CS_ANY :: int where "CS_ANY = -1"
definition CS_OFFLINE :: int where "CS_OFFLINE = 0"
definition CS_BOOTLOADER :: int where "CS_BOOTLOADER = 1"
definition CS_DEVICE :: int where "CS_DEVICE = 2"
definition CS_HOST :: int where "CS_HOST = 3"
definition CS_RECOVERY :: int where "CS_RECOVERY = 4"
definition CS_NOPERM :: int where "CS_NOPERM = 5"
definition CS_SIDELOAD :: int where "CS_SIDELOAD = 6"
definition CS_UNAUTHORIZED :: int where "CS_UNAUTHORIZED = 7"

lemmas cs_defs = CS_ANY_def CS_OFFLINE_def CS_BOOTLOADER_def CS_DEVICE_def CS_HOST_def CS_RECOVERY_def
  CS_NOPERM_def CS_SIDELOAD_def CS_UNAUTHORIZED_def

text \<open>The disconnect callbacks, with the object each is registered for.\<close>

datatype adisconnect = remote_socket_disconnect addr | listener_disconnect addr | adb_auth_disconnect addr

record atransport =
  t_fd :: int
  transport_socket :: int
  ref_count :: int
  sync_token :: u32
  connection_state :: int
  t_online :: bool
  t_type :: transport_type
  t_usb :: "addr option"
  sfd :: int
  serial :: "string option"
  product :: "string option"
  model :: "string option"
  device :: "string option"
  devpath :: "string option"
  adb_port :: int
  kicked :: bool
  disconnects :: "adisconnect list"
  t_key :: "addr option"
  token :: "byte list"
  failed_auth_attempts :: u32
  t_links :: "addr option \<times> addr option"  \<comment> \<open>the neighbours at the last unlinking; \<open>None\<close> is the list head\<close>

text \<open>A transport as \<open>calloc\<close> leaves it.\<close>

definition zero_transport :: atransport where
  "zero_transport = \<lparr>t_fd = 0, transport_socket = 0, ref_count = 0, sync_token = 0, connection_state = 0,
     t_online = False, t_type = kTransportUsb, t_usb = None, sfd = 0, serial = None, product = None,
     model = None, device = None, devpath = None, adb_port = 0, kicked = False, disconnects = [],
     t_key = None, token = replicate 20 0, failed_auth_attempts = 0, t_links = (None, None)\<rparr>"

text \<open>Calls into the USB back end, which is not part of these files.\<close>

datatype usb_call = usb_kick "addr option" | usb_close "addr option"

record tstate = fdstate +
  ADB_HOST :: bool                                \<comment> \<open>the compile-time switch\<close>
  HOST :: bool
  next_addr :: addr
  transports :: "addr \<rightharpoonup> atransport"
  transport_list :: "addr list"
  pending_list :: "addr list"
  local_transports :: "addr option list"
  sock_pair :: "fdesc \<Rightarrow> fdesc"                   \<comment> \<open>the other end of a socket pair\<close>
  pipe :: "fdesc \<Rightarrow> apacket list"                 \<comment> \<open>packets that can be read from a descriptor\<close>
  registration_send :: fdesc
  tmsgs :: "(addr \<times> int) list"                    \<comment> \<open>registration messages not read yet\<close>
  usb_calls :: "usb_call list"

definition get_transport :: "addr \<Rightarrow> 'a tstate_scheme \<Rightarrow> atransport res" where
  "get_transport a st = from_opt MemFault (transports st a)"

definition put_transport :: "addr \<Rightarrow> atransport \<Rightarrow> 'a tstate_scheme \<Rightarrow> 'a tstate_scheme" where
  "put_transport a t st = st\<lparr>transports := (transports st)(a \<mapsto> t)\<rparr>"

text \<open>
  Addresses are handed out in steps of 4. The event records embedded in a transport have addresses
  of their own, which are no multiples of 4.
\<close>

definition alloc :: "'a tstate_scheme \<Rightarrow> addr \<times> 'a tstate_scheme" where
  "alloc st = (next_addr st, st\<lparr>next_addr := next_addr st + 4\<rparr>)"

definition transport_fde :: "addr \<Rightarrow> addr" where "transport_fde t = 4 * t + 1"
definition auth_fde :: "addr \<Rightarrow> addr" where "auth_fde t = 4 * t + 2"

section \<open>The pipe to the transport threads\<close>

definition sizeof_ptr :: nat where "sizeof_ptr = 4"

definition write_packet :: "fdesc \<Rightarrow> apacket \<Rightarrow> 'a tstate_scheme \<Rightarrow> (int \<times> 'a tstate_scheme) res" where
  "write_packet fd p st =
     bindr (writex_rest fd (replicate sizeof_ptr 0) st) (\<lambda>(r, st).
       if r \<noteq> 0 then Inr (-1, st)
       else let to = sock_pair st fd in Inr (0, st\<lparr>pipe := (pipe st)(to := pipe st to @ [p])\<rparr>))"

definition read_packet :: "fdesc \<Rightarrow> 'a tstate_scheme \<Rightarrow> (apacket option \<times> 'a tstate_scheme) res" where
  "read_packet fd st =
     (case pipe st fd of
        p # ps \<Rightarrow> Inr (Some p, st\<lparr>pipe := (pipe st)(fd := ps)\<rparr>)
      | [] \<Rightarrow>
          if nonblock st fd \<or> sock_pair st fd \<in> set (closed_fds st) then Inr (None, st) else Inl Blocks)"

definition send_packet :: "apacket \<Rightarrow> addr option \<Rightarrow> 'a tstate_scheme \<Rightarrow> 'a tstate_scheme res" where
  "send_packet p t st =
     bindr (seal_packet p) (\<lambda>p.
       case t of
         None \<Rightarrow> Inl (Fatal ''Transport is null'')
       | Some a \<Rightarrow> bindr (get_transport a st) (\<lambda>tr.
           bindr (write_packet (transport_socket tr) p st) (\<lambda>(r, st).
             if r \<noteq> 0 then Inl (Fatal ''cannot enqueue packet on transport socket'') else Inr st)))"

section \<open>Kicking and closing\<close>

text \<open>\<open>remote_kick\<close> and \<open>remote_close\<close> of the two kinds of transport.\<close>

fun clear_slot :: "addr \<Rightarrow> addr option list \<Rightarrow> addr option list" where
  "clear_slot t [] = []"
| "clear_slot t (x # xs) = (if x = Some t then None # xs else x # clear_slot t xs)"

definition remote_kick :: "addr \<Rightarrow> 'a tstate_scheme \<Rightarrow> 'a tstate_scheme res" where
  "remote_kick a st = bindr (get_transport a st) (\<lambda>t.
     if t_type t = kTransportUsb then Inr (st\<lparr>usb_calls := usb_calls st @ [usb_kick (t_usb t)]\<rparr>)
     else
       let st = adb_close (sfd t) (put_transport a (t\<lparr>sfd := -1\<rparr>) st) in
       Inr (if ADB_HOST st \<and> HOST st then st\<lparr>local_transports := clear_slot a (local_transports st)\<rparr> else st))"

definition remote_close :: "addr \<Rightarrow> 'a tstate_scheme \<Rightarrow> 'a tstate_scheme res" where
  "remote_close a st = bindr (get_transport a st) (\<lambda>t.
     if t_type t = kTransportUsb
     then Inr (put_transport a (t\<lparr>t_usb := None\<rparr>) (st\<lparr>usb_calls := usb_calls st @ [usb_close (t_usb t)]\<rparr>))
     else Inr (adb_close (t_fd t) st))"

text \<open>The test and the assignment of \<open>kicked\<close>, with the call that follows the first kick.\<close>

definition kick_once :: "addr \<Rightarrow> 'a tstate_scheme \<Rightarrow> 'a tstate_scheme res" where
  "kick_once a st = bindr (get_transport a st) (\<lambda>t.
     if kicked t then Inr st else remote_kick a (put_transport a (t\<lparr>kicked := True\<rparr>) st))"

definition kick_transport :: "addr option \<Rightarrow> 'a tstate_scheme \<Rightarrow> 'a tstate_scheme res" where
  "kick_transport t st = (case t of None \<Rightarrow> Inr st | Some a \<Rightarrow> kick_once a st)"

section \<open>Registration messages\<close>

definition transport_write_action :: "addr \<times> int \<Rightarrow> 'a tstate_scheme \<Rightarrow> (int \<times> 'a tstate_scheme) res" where
  "transport_write_action m st =
     bindr (writex_rest (registration_send st) (replicate (sizeof_ptr + 4) 0) st) (\<lambda>(r, st).
       if r \<noteq> 0 then Inr (-1, st) else Inr (0, st\<lparr>tmsgs := tmsgs st @ [m]\<rparr>))"

definition transport_read_action :: "'a tstate_scheme \<Rightarrow> ((addr \<times> int) option \<times> 'a tstate_scheme)" where
  "transport_read_action st =
     (case tmsgs st of [] \<Rightarrow> (None, st) | m # ms \<Rightarrow> (Some m, st\<lparr>tmsgs := ms\<rparr>))"

definition register_transport :: "addr \<Rightarrow> 'a tstate_scheme \<Rightarrow> 'a tstate_scheme res" where
  "register_transport a st = bindr (transport_write_action (a, 1) st) (\<lambda>(r, st).
     if r \<noteq> 0 then Inl (Fatal ''cannot write transport registration socket'') else Inr st)"

definition remove_transport :: "addr \<Rightarrow> 'a tstate_scheme \<Rightarrow> 'a tstate_scheme res" where
  "remove_transport a st = bindr (transport_write_action (a, 0) st) (\<lambda>(r, st).
     if r \<noteq> 0 then Inl (Fatal ''cannot write transport registration socket'') else Inr st)"

definition transport_unref_locked :: "addr \<Rightarrow> 'a tstate_scheme \<Rightarrow> 'a tstate_scheme res" where
  "transport_unref_locked a st = bindr (get_transport a st) (\<lambda>t.
     let t = t\<lparr>ref_count := ref_count t - 1\<rparr>; st = put_transport a t st in
     if ref_count t = 0 then
       bindr (kick_once a st) (\<lambda>st. bindr (remote_close a st) (remove_transport a))
     else Inr st)"

definition transport_unref :: "addr option \<Rightarrow> 'a tstate_scheme \<Rightarrow> 'a tstate_scheme res" where
  "transport_unref t st = (case t of None \<Rightarrow> Inr st | Some a \<Rightarrow> transport_unref_locked a st)"

section \<open>Disconnect callbacks\<close>

definition add_transport_disconnect :: "addr option \<Rightarrow> adisconnect \<Rightarrow> 'a tstate_scheme \<Rightarrow> 'a tstate_scheme res" where
  "add_transport_disconnect t dis st =
     (case t of None \<Rightarrow> Inl MemFault
      | Some a \<Rightarrow> bindr (get_transport a st) (\<lambda>tr.
          Inr (put_transport a (tr\<lparr>disconnects := disconnects tr @ [dis]\<rparr>) st)))"

text \<open>Unlinking an entry that is in no list any more touches only the entry itself.\<close>

definition remove_transport_disconnect :: "addr option \<Rightarrow> adisconnect \<Rightarrow> 'a tstate_scheme \<Rightarrow> 'a tstate_scheme res" where
  "remove_transport_disconnect t dis st =
     (case t of None \<Rightarrow> Inl MemFault
      | Some a \<Rightarrow> bindr (get_transport a st) (\<lambda>tr.
          Inr (put_transport a (tr\<lparr>disconnects := remove1 dis (disconnects tr)\<rparr>) st)))"

text \<open>The next entry is fetched before the callback runs; what the callback does is an argument.\<close>

fun run_disconnects :: "(adisconnect \<Rightarrow> 's \<Rightarrow> 's res) \<Rightarrow> adisconnect list \<Rightarrow> 's \<Rightarrow> 's res" where
  "run_disconnects func [] st = Inr st"
| "run_disconnects func (d # ds) st = bindr (func d st) (run_disconnects func ds)"

definition run_transport_disconnects ::
  "(adisconnect \<Rightarrow> 'a tstate_scheme \<Rightarrow> 'a tstate_scheme res) \<Rightarrow> addr \<Rightarrow> 'a tstate_scheme \<Rightarrow> 'a tstate_scheme res" where
  "run_transport_disconnects func a st = bindr (get_transport a st) (\<lambda>t. run_disconnects func (disconnects t) st)"

section \<open>Choosing a transport\<close>

definition qual_char_is_invalid :: "char \<Rightarrow> bool" where
  "qual_char_is_invalid ch =
     (let c = (of_char ch :: nat) in
      if of_char CHR ''A'' \<le> c \<and> c \<le> of_char CHR ''Z'' then False
      else if of_char CHR ''a'' \<le> c \<and> c \<le> of_char CHR ''z'' then False
      else if of_char CHR ''0'' \<le> c \<and> c \<le> of_char CHR ''9'' then False
      else True)"

definition sanitize :: "bool \<Rightarrow> char \<Rightarrow> char" where
  "sanitize sanitize_qual ch = (if sanitize_qual \<and> qual_char_is_invalid ch then CHR ''_'' else ch)"

text \<open>The two loops: they advance in \<open>to_test\<close>, whose end never equals a character of the other string.\<close>

fun eat_prefix :: "string \<Rightarrow> string \<Rightarrow> string option" where
  "eat_prefix [] to_test = Some to_test"
| "eat_prefix (p # ps) [] = None"
| "eat_prefix (p # ps) (c # cs) = (if p \<noteq> c then None else eat_prefix ps cs)"

fun eat_qual :: "bool \<Rightarrow> string \<Rightarrow> string \<Rightarrow> string option" where
  "eat_qual san [] to_test = Some to_test"
| "eat_qual san (q # qs) [] = None"
| "eat_qual san (q # qs) (c # cs) = (if sanitize san q \<noteq> c then None else eat_qual san qs cs)"

definition qual_match :: "string option \<Rightarrow> string option \<Rightarrow> string option \<Rightarrow> bool \<Rightarrow> bool" where
  "qual_match to_test prefix qual sanitize_qual =
     (case to_test of
        None \<Rightarrow> qual = None \<or> qual = Some []
      | Some [] \<Rightarrow> qual = None \<or> qual = Some []
      | Some t \<Rightarrow>
          (case qual of None \<Rightarrow> False
           | Some q \<Rightarrow>
               (case (case prefix of None \<Rightarrow> Some t | Some p \<Rightarrow> eat_prefix p t) of
                  None \<Rightarrow> False
                | Some r \<Rightarrow> eat_qual sanitize_qual q r = Some [])))"

definition serial_matches :: "string \<Rightarrow> atransport \<Rightarrow> bool" where
  "serial_matches ser t \<longleftrightarrow>
     serial t = Some ser \<or> devpath t = Some ser
     \<or> qual_match (Some ser) (Some ''product:'') (product t) False
     \<or> qual_match (Some ser) (Some ''model:'') (model t) True
     \<or> qual_match (Some ser) (Some ''device:'') (device t) False"

text \<open>Whether the loop counts a transport, and the message if it is the second one.\<close>

definition wanted :: "transport_type \<Rightarrow> string option \<Rightarrow> atransport \<Rightarrow> bool" where
  "wanted ttype ser t =
     (case ser of
        Some s \<Rightarrow> serial_matches s t
      | None \<Rightarrow>
          if ttype = kTransportUsb \<and> t_type t = kTransportUsb then True
          else if ttype = kTransportLocal \<and> t_type t = kTransportLocal then True
          else ttype = kTransportAny)"

definition more_than_one :: "transport_type \<Rightarrow> string option \<Rightarrow> string" where
  "more_than_one ttype ser =
     (case ser of
        Some s \<Rightarrow> ''more than one device''
      | None \<Rightarrow>
          if ttype = kTransportUsb then ''more than one device''
          else if ttype = kTransportLocal then ''more than one emulator''
          else ''more than one device and emulator'')"

text \<open>The loop over the list: the result, whether it was ambiguous, and the error text.\<close>

fun acquire_loop :: "transport_type \<Rightarrow> string option \<Rightarrow> addr list \<Rightarrow> addr option \<Rightarrow> bool \<Rightarrow> string \<Rightarrow> 'a tstate_scheme
    \<Rightarrow> (addr option \<times> bool \<times> string) res" where
  "acquire_loop ttype ser [] result ambiguous err st = Inr (result, ambiguous, err)"
| "acquire_loop ttype ser (a # as) result ambiguous err st = bindr (get_transport a st) (\<lambda>t.
     if connection_state t = CS_NOPERM
     then acquire_loop ttype ser as result ambiguous ''insufficient permissions for device'' st
     else if wanted ttype ser t then
       if result \<noteq> None then Inr (None, True, more_than_one ttype ser)
       else acquire_loop ttype ser as (Some a) ambiguous err st
     else acquire_loop ttype ser as result ambiguous err st)"

text \<open>The checks on the connection state of the transport found.\<close>

definition acquire_check :: "int \<Rightarrow> addr option \<Rightarrow> string \<Rightarrow> 'a tstate_scheme \<Rightarrow> (addr option \<times> string) res" where
  "acquire_check state result err st =
     (case result of None \<Rightarrow> Inr (None, err)
      | Some a \<Rightarrow> bindr (get_transport a st) (\<lambda>t.
          if connection_state t = CS_UNAUTHORIZED
          then Inr (None, ''device unauthorized. Please check the confirmation dialog on your device.'')
          else if connection_state t = CS_OFFLINE then Inr (None, ''device offline'')
          else if state \<noteq> CS_ANY \<and> connection_state t \<noteq> state then Inr (None, ''invalid device state'')
          else Inr (Some a, err)))"

text \<open>
  \<open>acquire_one_transport\<close> looks again every second while it waits; the list argument holds the
  states it sees, and \<open>None\<close> is still waiting. The result carries the transport or the error.
\<close>

fun acquire_retry :: "int \<Rightarrow> transport_type \<Rightarrow> string option \<Rightarrow> bool \<Rightarrow> 'a tstate_scheme list
    \<Rightarrow> (string + addr) res option" where
  "acquire_retry state ttype ser ambiguous [] = None"
| "acquire_retry state ttype ser ambiguous (st # sts) =
     (case acquire_loop ttype ser (transport_list st) None ambiguous ''device not found'' st of
        Inl e \<Rightarrow> Some (Inl e)
      | Inr (result, ambiguous, err) \<Rightarrow>
          (case acquire_check state result err st of
             Inl e \<Rightarrow> Some (Inl e)
           | Inr (Some a, _) \<Rightarrow> Some (Inr (Inr a))
           | Inr (None, err) \<Rightarrow>
               if state \<noteq> CS_ANY \<and> (ser \<noteq> None \<or> \<not> ambiguous)
               then acquire_retry state ttype ser ambiguous sts
               else Some (Inr (Inl err))))"

definition acquire_one_transport :: "int \<Rightarrow> transport_type \<Rightarrow> string option \<Rightarrow> 'a tstate_scheme list
    \<Rightarrow> (string + addr) res option" where
  "acquire_one_transport state ttype ser sts = acquire_retry state ttype ser False sts"

fun find_serial :: "string \<Rightarrow> addr list \<Rightarrow> 'a tstate_scheme \<Rightarrow> addr option res" where
  "find_serial ser [] st = Inr None"
| "find_serial ser (a # as) st = bindr (get_transport a st) (\<lambda>t.
     if serial t = Some ser then Inr (Some a) else find_serial ser as st)"

definition find_transport :: "string \<Rightarrow> 'a tstate_scheme \<Rightarrow> addr option res" where
  "find_transport ser st = find_serial ser (transport_list st) st"

section \<open>The device list\<close>

definition statename :: "atransport \<Rightarrow> string" where
  "statename t =
     (let c = connection_state t in
      if c = CS_OFFLINE then ''offline''
      else if c = CS_BOOTLOADER then ''bootloader''
      else if c = CS_DEVICE then ''device''
      else if c = CS_HOST then ''host''
      else if c = CS_RECOVERY then ''recovery''
      else if c = CS_SIDELOAD then ''sideload''
      else if c = CS_NOPERM then ''no permissions''
      else if c = CS_UNAUTHORIZED then ''unauthorized''
      else ''unknown'')"

text \<open>
  A buffer that is being printed into: the text so far and the remaining size, which is negative
  once a piece did not fit; the next write then lands behind the buffer.
\<close>

definition add_qual :: "string \<Rightarrow> string option \<Rightarrow> bool \<Rightarrow> string \<times> int \<Rightarrow> (string \<times> int) res" where
  "add_qual prefix qual sanitize_qual buf =
     (let (txt, rem) = buf in
      if rem = 0 \<or> qual = None \<or> qual = Some [] then Inr buf
      else if rem < 0 then Inl MemFault
      else
        let len = int (length prefix + length (the qual)) in
        if sanitize_qual \<and> len > rem then Inl MemFault
        else Inr (txt @ prefix @ map (sanitize sanitize_qual) (the qual), rem - len))"

definition fmt_left22 :: "string \<Rightarrow> string" where
  "fmt_left22 s = s @ replicate (22 - length s) CHR '' ''"

text \<open>The text a transport is listed with; its length is what the function returns.\<close>

definition format_transport :: "atransport \<Rightarrow> int \<Rightarrow> bool \<Rightarrow> string res" where
  "format_transport t bufsize long_listing =
     (let ser = (case serial t of None \<Rightarrow> ''????????????'' | Some [] \<Rightarrow> ''????????????'' | Some s \<Rightarrow> s) in
      if \<not> long_listing then Inr (ser @ [CHR 0x09] @ statename t @ [CHR 0x0a])
      else
        let txt = fmt_left22 ser @ '' '' @ statename t in
        bindr (add_qual '' '' (devpath t) False (txt, bufsize - int (length txt))) (\<lambda>buf.
        bindr (add_qual '' product:'' (product t) False buf) (\<lambda>buf.
        bindr (add_qual '' model:'' (model t) True buf) (\<lambda>buf.
        bindr (add_qual '' device:'' (device t) False buf) (\<lambda>(txt, rem).
          if rem < 0 then Inl MemFault else Inr (txt @ [CHR 0x0a]))))))"

fun list_loop :: "bool \<Rightarrow> int \<Rightarrow> addr list \<Rightarrow> string \<Rightarrow> 'a tstate_scheme \<Rightarrow> string res" where
  "list_loop long_listing bufsize [] txt st = Inr txt"
| "list_loop long_listing bufsize (a # as) txt st = bindr (get_transport a st) (\<lambda>t.
     bindr (format_transport t (bufsize - int (length txt)) long_listing) (\<lambda>line.
       if int (length txt) + int (length line) \<ge> bufsize then Inr txt
       else list_loop long_listing bufsize as (txt @ line) st))"

definition list_transports :: "int \<Rightarrow> bool \<Rightarrow> 'a tstate_scheme \<Rightarrow> string res" where
  "list_transports bufsize long_listing st = list_loop long_listing bufsize (transport_list st) [] st"

definition list_transports_msg :: "int \<Rightarrow> 'a tstate_scheme \<Rightarrow> string res" where
  "list_transports_msg bufferlen st =
     bindr (list_transports (bufferlen - 4) False st) (\<lambda>txt. Inr (take 4 (fmt_04x (length txt)) @ txt))"

section \<open>Registering transports\<close>

definition ADB_LOCAL_TRANSPORT_MAX :: nat where "ADB_LOCAL_TRANSPORT_MAX = 16"

fun find_emulator_transport :: "int \<Rightarrow> addr option list \<Rightarrow> 'a tstate_scheme \<Rightarrow> addr option res" where
  "find_emulator_transport port [] st = Inr None"
| "find_emulator_transport port (None # xs) st = find_emulator_transport port xs st"
| "find_emulator_transport port (Some a # xs) st = bindr (get_transport a st) (\<lambda>t.
     if adb_port t = port then Inr (Some a) else find_emulator_transport port xs st)"

definition find_emulator_transport_by_adb_port :: "int \<Rightarrow> 'a tstate_scheme \<Rightarrow> addr option res" where
  "find_emulator_transport_by_adb_port port st = find_emulator_transport port (local_transports st) st"

fun free_slot :: "addr option list \<Rightarrow> nat option" where
  "free_slot [] = None"
| "free_slot (None # xs) = Some 0"
| "free_slot (Some a # xs) = map_option Suc (free_slot xs)"

definition get_available_local_transport_index :: "'a tstate_scheme \<Rightarrow> int" where
  "get_available_local_transport_index st =
     (case free_slot (local_transports st) of None \<Rightarrow> -1 | Some i \<Rightarrow> int i)"

definition init_socket_transport :: "addr \<Rightarrow> int \<Rightarrow> int \<Rightarrow> bool \<Rightarrow> 'a tstate_scheme \<Rightarrow> (int \<times> 'a tstate_scheme) res" where
  "init_socket_transport a s port local st = bindr (get_transport a st) (\<lambda>t.
     let t = t\<lparr>sfd := s, sync_token := 1, connection_state := CS_OFFLINE, t_type := kTransportLocal, adb_port := 0\<rparr> in
     if ADB_HOST st \<and> HOST st \<and> local then
       let st = put_transport a (t\<lparr>adb_port := port\<rparr>) st in
       bindr (find_emulator_transport_by_adb_port port st) (\<lambda>existing.
         let index = get_available_local_transport_index st in
         if existing \<noteq> None then Inr (-1, st)
         else if index < 0 then Inr (-1, st)
         else Inr (0, st\<lparr>local_transports := (local_transports st)[nat index := Some a]\<rparr>))
     else Inr (0, put_transport a t st))"

definition init_usb_transport :: "addr \<Rightarrow> addr option \<Rightarrow> int \<Rightarrow> 'a tstate_scheme \<Rightarrow> 'a tstate_scheme res" where
  "init_usb_transport a h state st = bindr (get_transport a st) (\<lambda>t.
     let st = put_transport a (t\<lparr>sync_token := 1, connection_state := state, t_type := kTransportUsb, t_usb := h\<rparr>) st in
     Inr (st\<lparr>HOST := ADB_HOST st\<rparr>))"

definition free_transport :: "addr \<Rightarrow> 'a tstate_scheme \<Rightarrow> 'a tstate_scheme" where
  "free_transport a st = st\<lparr>transports := (transports st)(a := None)\<rparr>"

text \<open>\<open>t_name\<close> is what \<open>"T-%p"\<close> prints for the address of the transport.\<close>

definition register_socket_transport :: "(addr \<Rightarrow> string) \<Rightarrow> int \<Rightarrow> string option \<Rightarrow> int \<Rightarrow> bool
    \<Rightarrow> 'a tstate_scheme \<Rightarrow> (int \<times> 'a tstate_scheme) res" where
  "register_socket_transport t_name s ser port local st =
     (let (a, st) = alloc st; st = put_transport a zero_transport st;
          ser = (case ser of None \<Rightarrow> t_name a | Some x \<Rightarrow> x) in
      bindr (init_socket_transport a s port local st) (\<lambda>(r, st).
        if r < 0 then Inr (-1, free_transport a st)
        else bindr (find_serial ser (pending_list st) st) (\<lambda>n.
          if n \<noteq> None then Inr (-1, free_transport a st)
          else bindr (find_serial ser (transport_list st) st) (\<lambda>n.
            if n \<noteq> None then Inr (-1, free_transport a st)
            else bindr (get_transport a st) (\<lambda>t.
              bindr (register_transport a
                      ((put_transport a (t\<lparr>serial := Some ser\<rparr>) st)\<lparr>pending_list := pending_list st @ [a]\<rparr>))
                (\<lambda>st. Inr (0, st)))))))"

definition register_usb_transport :: "addr option \<Rightarrow> string option \<Rightarrow> string option \<Rightarrow> bool
    \<Rightarrow> 'a tstate_scheme \<Rightarrow> 'a tstate_scheme res" where
  "register_usb_transport usb ser path writeable st =
     (let (a, st) = alloc st; st = put_transport a zero_transport st in
      bindr (init_usb_transport a usb (if writeable then CS_OFFLINE else CS_NOPERM) st) (\<lambda>st.
      bindr (get_transport a st) (\<lambda>t.
        register_transport a
          ((put_transport a (t\<lparr>serial := ser, devpath := path\<rparr>) st)\<lparr>pending_list := pending_list st @ [a]\<rparr>))))"

section \<open>Taking transports out of the lists\<close>

text \<open>The neighbours of an element; \<open>None\<close> stands for the head of the circular list.\<close>

fun neighbours :: "addr option \<Rightarrow> addr \<Rightarrow> addr list \<Rightarrow> (addr option \<times> addr option) option" where
  "neighbours p a [] = None"
| "neighbours p a (x # xs) =
     (if x = a then Some (p, case xs of [] \<Rightarrow> None | y # ys \<Rightarrow> Some y) else neighbours (Some x) a xs)"

fun adjacent :: "addr option \<Rightarrow> addr option \<times> addr option \<Rightarrow> addr list \<Rightarrow> bool" where
  "adjacent p pn [] = (pn = (p, None))"
| "adjacent p pn (x # xs) = (pn = (p, Some x) \<or> adjacent (Some x) pn xs)"

text \<open>
  Unlinking writes the neighbours' links. For a transport that was unlinked before, the stale
  links are harmless only while the two old neighbours are still next to each other in the
  device list; otherwise the write damages the list.
\<close>

definition unlink_transport :: "addr \<Rightarrow> 'a tstate_scheme \<Rightarrow> 'a tstate_scheme res" where
  "unlink_transport a st = bindr (get_transport a st) (\<lambda>t.
     case neighbours None a (transport_list st) of
       Some pn \<Rightarrow> Inr ((put_transport a (t\<lparr>t_links := pn\<rparr>) st)\<lparr>transport_list := remove1 a (transport_list st)\<rparr>)
     | None \<Rightarrow>
         (case neighbours None a (pending_list st) of
            Some pn \<Rightarrow> Inr ((put_transport a (t\<lparr>t_links := pn\<rparr>) st)\<lparr>pending_list := remove1 a (pending_list st)\<rparr>)
          | None \<Rightarrow> if adjacent None (t_links t) (transport_list st) then Inr st else Inl MemFault))"

definition unregister_transport :: "addr \<Rightarrow> 'a tstate_scheme \<Rightarrow> 'a tstate_scheme res" where
  "unregister_transport a st =
     bindr (unlink_transport a st) (\<lambda>st. bindr (kick_transport (Some a) st) (transport_unref (Some a)))"

text \<open>The loops fetch the next element before the current one is unlinked.\<close>

fun unregister_tcp_loop :: "addr list \<Rightarrow> 'a tstate_scheme \<Rightarrow> 'a tstate_scheme res" where
  "unregister_tcp_loop [] st = Inr st"
| "unregister_tcp_loop (a # as) st = bindr (get_transport a st) (\<lambda>t.
     if t_type t = kTransportLocal \<and> adb_port t = 0 then
       bindr (unlink_transport a st) (\<lambda>st.
       bindr (kick_once a st) (\<lambda>st.
       bindr (transport_unref_locked a st) (unregister_tcp_loop as)))
     else unregister_tcp_loop as st)"

definition unregister_all_tcp_transports :: "'a tstate_scheme \<Rightarrow> 'a tstate_scheme res" where
  "unregister_all_tcp_transports st = unregister_tcp_loop (transport_list st) st"

fun unregister_usb_loop :: "addr option \<Rightarrow> addr list \<Rightarrow> 'a tstate_scheme \<Rightarrow> 'a tstate_scheme res" where
  "unregister_usb_loop usb [] st = Inr st"
| "unregister_usb_loop usb (a # as) st = bindr (get_transport a st) (\<lambda>t.
     if t_usb t = usb \<and> connection_state t = CS_NOPERM then unlink_transport a st
     else unregister_usb_loop usb as st)"

definition unregister_usb_transport :: "addr option \<Rightarrow> 'a tstate_scheme \<Rightarrow> 'a tstate_scheme res" where
  "unregister_usb_transport usb st = unregister_usb_loop usb (transport_list st) st"

fun close_usb_loop :: "addr list \<Rightarrow> 'a tstate_scheme \<Rightarrow> 'a tstate_scheme res" where
  "close_usb_loop [] st = Inr st"
| "close_usb_loop (a # as) st = bindr (kick_once a st) (close_usb_loop as)"

definition close_usb_devices :: "'a tstate_scheme \<Rightarrow> 'a tstate_scheme res" where
  "close_usb_devices st = close_usb_loop (transport_list st) st"

section \<open>Handling a registration message\<close>

definition make_pair :: "fdesc \<Rightarrow> fdesc \<Rightarrow> 'a tstate_scheme \<Rightarrow> 'a tstate_scheme" where
  "make_pair s0 s1 st = st\<lparr>sock_pair := (sock_pair st)(s0 := s1, s1 := s0), pipe := (pipe st)(s0 := [], s1 := [])\<rparr>"

text \<open>
  \<open>transport_registration_func\<close>. Arguments: the disconnect callbacks, \<open>update_transports\<close>, the
  descriptors \<open>adb_socketpair\<close> returns. The two threads it starts run concurrently.
\<close>

definition transport_remove_action :: "(adisconnect \<Rightarrow> 'a tstate_scheme \<Rightarrow> 'a tstate_scheme res)
    \<Rightarrow> ('a tstate_scheme \<Rightarrow> 'a tstate_scheme res) \<Rightarrow> addr \<Rightarrow> 'a tstate_scheme \<Rightarrow> 'a tstate_scheme res" where
  "transport_remove_action func update a st = bindr (get_transport a st) (\<lambda>t.
     bindr (fdevent_remove (transport_fde a) st) (\<lambda>st.
     bindr (unlink_transport a (adb_close (t_fd t) st)) (\<lambda>st.
     bindr (run_transport_disconnects func a st) (\<lambda>st.
       update (free_transport a st)))))"

definition transport_start_action :: "('a tstate_scheme \<Rightarrow> 'a tstate_scheme res) \<Rightarrow> (int \<times> int) option
    \<Rightarrow> addr \<Rightarrow> 'a tstate_scheme \<Rightarrow> 'a tstate_scheme res" where
  "transport_start_action update pair a st = bindr (get_transport a st) (\<lambda>t.
     bindr
       (if connection_state t \<noteq> CS_NOPERM then
          case pair of
            None \<Rightarrow> Inl (Fatal ''cannot open transport socketpair'')
          | Some (s0, s1) \<Rightarrow>
              let st = make_pair s0 s1 (put_transport a (t\<lparr>ref_count := 2, transport_socket := s0, t_fd := s1\<rparr>) st) in
              bindr (fdevent_install (transport_fde a) s0 (transport_socket_events a) st) (\<lambda>st.
                fdevent_set (transport_fde a) FDE_READ st)
        else Inr st)
       (\<lambda>st. bindr (unlink_transport a st) (\<lambda>st.
          let st = st\<lparr>transport_list := transport_list st @ [a]\<rparr> in
          bindr (get_transport a st) (\<lambda>t. update (put_transport a (t\<lparr>disconnects := []\<rparr>) st)))))"

definition registration_event :: "(adisconnect \<Rightarrow> 'a tstate_scheme \<Rightarrow> 'a tstate_scheme res)
    \<Rightarrow> ('a tstate_scheme \<Rightarrow> 'a tstate_scheme res) \<Rightarrow> (int \<times> int) option \<Rightarrow> u16
    \<Rightarrow> 'a tstate_scheme \<Rightarrow> 'a tstate_scheme res" where
  "registration_event func update pair ev st =
     (if \<not> has ev FDE_READ then Inr st
      else case transport_read_action st of
        (None, st) \<Rightarrow> Inl (Fatal ''cannot read transport registration socket'')
      | (Some (a, action), st) \<Rightarrow>
          if action = 0 then transport_remove_action func update a st
          else transport_start_action update pair a st)"

text \<open>\<open>a\<close> is the address of the static record \<open>transport_registration_fde\<close>.\<close>

definition init_transport_registration :: "addr \<Rightarrow> (int \<times> int) option \<Rightarrow> 'a tstate_scheme \<Rightarrow> 'a tstate_scheme res" where
  "init_transport_registration a pair st =
     (case pair of
        None \<Rightarrow> Inl (Fatal ''cannot open transport registration socketpair'')
      | Some (s0, s1) \<Rightarrow>
          bindr (fdevent_install a s1 transport_registration_func (st\<lparr>registration_send := s0\<rparr>)) (\<lambda>st.
            fdevent_set a FDE_READ st))"

section \<open>The threads of a transport\<close>

text \<open>
  One round of each thread. \<open>rd\<close> and \<open>wr\<close> are the transport's \<open>read_from_remote\<close> and
  \<open>write_to_remote\<close>; \<open>close_all\<close> is \<open>close_all_sockets\<close>. A result \<open>None\<close> means that the thread has
  ended, otherwise it is the thread's local state.
\<close>

definition sync_packet :: "u32 \<Rightarrow> u32 \<Rightarrow> apacket" where
  "sync_packet a0 a1 = get_apacket\<lparr>msg := zero_msg\<lparr>command := A_SYNC, arg0 := a0, arg1 := a1, magic := A_SYNC XOR 0xffffffff\<rparr>\<rparr>"

definition thread_exit :: "addr \<Rightarrow> 'a tstate_scheme \<Rightarrow> 'a tstate_scheme res" where
  "thread_exit a st = bindr (kick_transport (Some a) st) (transport_unref (Some a))"

definition output_thread_start :: "addr \<Rightarrow> 'a tstate_scheme \<Rightarrow> (unit option \<times> 'a tstate_scheme) res" where
  "output_thread_start a st = bindr (get_transport a st) (\<lambda>t.
     let t = t\<lparr>sync_token := sync_token t + 1\<rparr> in
     bindr (write_packet (t_fd t) (sync_packet 1 (sync_token t)) (put_transport a t st)) (\<lambda>(r, st).
       if r \<noteq> 0 then bindr (thread_exit a st) (\<lambda>st. Inr (None, st)) else Inr (Some (), st)))"

definition output_thread_round :: "(apacket \<Rightarrow> 'a tstate_scheme \<Rightarrow> (int \<times> apacket \<times> 'a tstate_scheme) res) \<Rightarrow> addr
    \<Rightarrow> 'a tstate_scheme \<Rightarrow> (unit option \<times> 'a tstate_scheme) res" where
  "output_thread_round rd a st =
     bindr (rd get_apacket st) (\<lambda>(r, p, st).
     bindr (get_transport a st) (\<lambda>t.
       if r = 0 then
         bindr (write_packet (t_fd t) p st) (\<lambda>(r, st).
           if r \<noteq> 0 then bindr (thread_exit a st) (\<lambda>st. Inr (None, st)) else Inr (Some (), st))
       else
         bindr (write_packet (t_fd t) (sync_packet 0 0) st) (\<lambda>(r, st).
           bindr (thread_exit a st) (\<lambda>st. Inr (None, st)))))"

definition input_thread_round :: "(apacket \<Rightarrow> 'a tstate_scheme \<Rightarrow> (int \<times> 'a tstate_scheme) res)
    \<Rightarrow> (addr \<Rightarrow> 'a tstate_scheme \<Rightarrow> 'a tstate_scheme res) \<Rightarrow> addr \<Rightarrow> bool
    \<Rightarrow> 'a tstate_scheme \<Rightarrow> (bool option \<times> 'a tstate_scheme) res" where
  "input_thread_round wr close_all a active st = bindr (get_transport a st) (\<lambda>t.
     bindr (read_packet (t_fd t) st) (\<lambda>(p, st).
       let finish = bindr (close_all a st) (\<lambda>st. bindr (thread_exit a st) (\<lambda>st. Inr (None, st))) in
       case p of
         None \<Rightarrow> finish
       | Some p \<Rightarrow>
           if command (msg p) = A_SYNC then
             if arg0 (msg p) = 0 then finish
             else Inr (Some (active \<or> arg1 (msg p) = sync_token t), st)
           else if active then bindr (wr p st) (\<lambda>(r, st). Inr (Some active, st))
           else Inr (Some active, st)))"

section \<open>Choosing a transport: correctness\<close>

lemma get_transport_eq [simp]: "get_transport a st = Inr t \<longleftrightarrow> transports st a = Some t"
  by (simp add: get_transport_def)

text \<open>A transport the loop counts.\<close>

definition candidate :: "transport_type \<Rightarrow> string option \<Rightarrow> 'a tstate_scheme \<Rightarrow> addr \<Rightarrow> bool" where
  "candidate ttype ser st a \<longleftrightarrow>
     (\<exists>t. transports st a = Some t \<and> connection_state t \<noteq> CS_NOPERM \<and> wanted ttype ser t)"

definition store_ok :: "'a tstate_scheme \<Rightarrow> bool" where
  "store_ok st \<longleftrightarrow> (\<forall>a\<in>set (transport_list st) \<union> set (pending_list st). transports st a \<noteq> None)"

fun acquire_outcome :: "addr list \<Rightarrow> bool \<Rightarrow> string \<Rightarrow> string \<Rightarrow> addr option \<times> bool \<times> string" where
  "acquire_outcome [] amb err many = (None, amb, err)"
| "acquire_outcome [c] amb err many = (Some c, amb, err)"
| "acquire_outcome (c # d # ds) amb err many = (None, True, many)"

definition opt_list :: "'b option \<Rightarrow> 'b list" where
  "opt_list x = (case x of None \<Rightarrow> [] | Some a \<Rightarrow> [a])"

lemma opt_list_simps [simp]: "opt_list None = []" "opt_list (Some a) = [a]"
  by (simp_all add: opt_list_def)

lemma acquire_loop_spec:
  assumes "\<forall>a\<in>set as. transports st a \<noteq> None"
  shows "\<exists>err'. acquire_loop ttype ser as result amb err st =
    Inr (acquire_outcome (opt_list result @ filter (candidate ttype ser st) as) amb err' (more_than_one ttype ser))"
  using assms
proof (induction as arbitrary: result err)
  case Nil
  then show ?case by (cases result) auto
next
  case (Cons a as)
  then obtain t where t: "transports st a = Some t" by auto
  show ?case
  proof (cases "connection_state t = CS_NOPERM \<or> \<not> wanted ttype ser t")
    case True
    then have "\<not> candidate ttype ser st a" using t by (simp add: candidate_def)
    moreover have "acquire_loop ttype ser (a # as) result amb err st = acquire_loop ttype ser as result amb
        (if connection_state t = CS_NOPERM then ''insufficient permissions for device'' else err) st"
      using True t by (auto simp: get_transport_def)
    ultimately show ?thesis using Cons.IH [of result] Cons.prems by (simp del: acquire_loop.simps)
  next
    case False
    then have c: "candidate ttype ser st a" using t by (simp add: candidate_def)
    show ?thesis
    proof (cases result)
      case None
      then show ?thesis using Cons.IH [of "Some a" err] Cons.prems False t c
        by (auto simp: get_transport_def)
    next
      case (Some b)
      then show ?thesis using False t c by (auto simp: get_transport_def)
    qed
  qed
qed

text \<open>
  Property C22. A transport that \<open>acquire_one_transport\<close> returns was, in the state in which it was
  chosen, the only listed transport matching the request (transports without permission are not
  counted), and it was neither offline nor unauthorized and in the required state.
\<close>

theorem acquire_unique:
  assumes "acquire_one_transport state ttype ser sts = Some (Inr (Inr a))" "\<forall>st\<in>set sts. store_ok st"
  shows "\<exists>st t. st \<in> set sts \<and> transports st a = Some t
    \<and> filter (candidate ttype ser st) (transport_list st) = [a]
    \<and> connection_state t \<notin> {CS_NOPERM, CS_OFFLINE, CS_UNAUTHORIZED}
    \<and> (state = CS_ANY \<or> connection_state t = state)"
proof -
  define P where "P st \<longleftrightarrow> (\<exists>t. transports st a = Some t
    \<and> filter (candidate ttype ser st) (transport_list st) = [a]
    \<and> connection_state t \<notin> {CS_NOPERM, CS_OFFLINE, CS_UNAUTHORIZED}
    \<and> (state = CS_ANY \<or> connection_state t = state))" for st :: "'a tstate_scheme"
  have "\<exists>st\<in>set sts. P st" if "acquire_retry state ttype ser amb sts = Some (Inr (Inr a))"
      "\<forall>st\<in>set sts. store_ok st" for amb
    using that
  proof (induction sts arbitrary: amb)
    case (Cons st sts)
    let ?cs = "filter (candidate ttype ser st) (transport_list st)"
    have "\<forall>a\<in>set (transport_list st). transports st a \<noteq> None" using Cons.prems by (auto simp: store_ok_def)
    from acquire_loop_spec [OF this, of ttype ser None amb "''device not found''"]
    obtain err' where L: "acquire_loop ttype ser (transport_list st) None amb ''device not found'' st =
      Inr (acquire_outcome ?cs amb err' (more_than_one ttype ser))" by auto
    show ?case
    proof (cases "?cs")
      case Nil
      then show ?thesis using L Cons.prems Cons.IH by (auto simp: acquire_check_def split: if_splits)
    next
      case c: (Cons c cs)
      show ?thesis
      proof (cases cs)
        case Nil
        have "candidate ttype ser st c" using c by (auto simp: filter_eq_Cons_iff)
        then obtain t where t: "transports st c = Some t" "connection_state t \<noteq> CS_NOPERM" by (auto simp: candidate_def)
        then show ?thesis using L c Nil Cons.prems Cons.IH
          by (auto simp: acquire_check_def get_transport_def P_def split: if_splits)
      next
        case (Cons d ds)
        then show ?thesis using L c Cons.prems Cons.IH by (auto simp: acquire_check_def split: if_splits)
      qed
    qed
  qed simp
  from this [of False] show ?thesis using assms by (auto simp: acquire_one_transport_def P_def)
qed


definition ex_tstate :: tstate where
  "ex_tstate = fdstate.extend ex_fdstate \<lparr>ADB_HOST = True, HOST = True, next_addr = 16,
     transports = [8 \<mapsto> zero_transport\<lparr>connection_state := CS_DEVICE, serial := Some ''0123'', model := Some ''A 1''\<rparr>,
                   12 \<mapsto> zero_transport\<lparr>connection_state := CS_DEVICE, serial := Some ''4567'', t_type := kTransportLocal,
                          ref_count := 2, sfd := 9, t_fd := 11, transport_socket := 10, disconnects := []\<rparr>],
     transport_list = [8, 12], pending_list = [], local_transports = replicate 16 None,
     sock_pair = (\<lambda>_. 0), pipe = (\<lambda>_. []), registration_send = 5, tmsgs = [], usb_calls = []\<rparr>"

lemmas ex_tstate_simps = ex_tstate_def ex_fdstate_def fdstate.defs tstate.defs

theorem acquire_unique_witness:
  "\<exists>st t. st \<in> {ex_tstate} \<and> transports st 8 = Some t \<and> connection_state t = CS_DEVICE
    \<and> filter (candidate kTransportAny (Some ''0123'') st) (transport_list st) = [8]"
proof -
  have "acquire_one_transport CS_ANY kTransportAny (Some ''0123'') [ex_tstate] = Some (Inr (Inr 8))"
    by (simp add: acquire_one_transport_def ex_tstate_simps get_transport_def wanted_def serial_matches_def
        acquire_check_def zero_transport_def cs_defs qual_match_def)
  from acquire_unique [OF this] show ?thesis
    by (simp add: store_ok_def) (simp add: ex_tstate_simps zero_transport_def cs_defs)
qed

section \<open>Attributes in the listing and in requests\<close>

lemma eat_prefix_eq: "eat_prefix p t = Some r \<longleftrightarrow> t = p @ r"
  by (induction p t rule: eat_prefix.induct) auto

lemma eat_prefix_append [simp]: "eat_prefix p (p @ r) = Some r"
  by (simp add: eat_prefix_eq)

lemma sanitize_False [simp]: "map (sanitize False) q = q"
  by (simp add: sanitize_def map_idI)

lemma eat_qual_eq: "eat_qual san q t = Some r \<longleftrightarrow> t = map (sanitize san) q @ r"
  by (induction san q t rule: eat_qual.induct) auto

lemma qual_match_eq:
  "t \<noteq> [] \<Longrightarrow> qual_match (Some t) (Some p) (Some q) san \<longleftrightarrow> t = p @ map (sanitize san) q"
  by (cases t) (auto simp: qual_match_def eat_prefix_eq eat_qual_eq split: option.splits) 

text \<open>
  Every attribute the long device listing prints selects its device: the text that
  \<open>format_transport\<close> adds for the path, product, model and device name, with the characters it
  replaces, is accepted by \<open>acquire_one_transport\<close> as a serial number for that transport.
\<close>

theorem listed_attribute_selects:
  assumes "rem > 0" "q \<noteq> []"
    "(pre, san, t) \<in> {('' '', False, t0\<lparr>devpath := Some q\<rparr>), ('' product:'', False, t0\<lparr>product := Some q\<rparr>),
       ('' model:'', True, t0\<lparr>model := Some q\<rparr>), ('' device:'', False, t0\<lparr>device := Some q\<rparr>)}"
    "add_qual pre (Some q) san (txt, rem) = Inr (txt', rem')"
  shows "\<exists>v. txt' = txt @ '' '' @ v \<and> serial_matches v t"
  using assms
  by (auto simp: add_qual_def serial_matches_def qual_match_eq sanitize_def Let_def split: if_splits)

theorem listed_attribute_selects_witness:
  "\<exists>v. ''x model:A_1'' = ''x'' @ '' '' @ v \<and> serial_matches v (zero_transport\<lparr>model := Some ''A 1''\<rparr>)"
proof -
  have "add_qual '' model:'' (Some ''A 1'') True (''x'', 30) = Inr (''x model:A_1'', 20)" by code_simp
  note L = listed_attribute_selects [OF _ _ _ this, of "zero_transport\<lparr>model := Some ''A 1''\<rparr>" zero_transport]
  show ?thesis by (rule L) (simp, simp, blast)
qed


section \<open>Life of a transport\<close>

lemma put_transport_simps [simp]:
  "transports (put_transport a t st) = (transports st)(a \<mapsto> t)"
  "transport_list (put_transport a t st) = transport_list st"
  "pending_list (put_transport a t st) = pending_list st"
  "local_transports (put_transport a t st) = local_transports st"
  "tmsgs (put_transport a t st) = tmsgs st"
  "usb_calls (put_transport a t st) = usb_calls st"
  "closed_fds (put_transport a t st) = closed_fds st"
  "wr_ev (put_transport a t st) = wr_ev st"
  "pipe (put_transport a t st) = pipe st"
  "sock_pair (put_transport a t st) = sock_pair st"
  "nonblock (put_transport a t st) = nonblock st"
  "registration_send (put_transport a t st) = registration_send st"
  "ADB_HOST (put_transport a t st) = ADB_HOST st"
  "HOST (put_transport a t st) = HOST st"
  "next_addr (put_transport a t st) = next_addr st"
  "put_transport a t (put_transport a t' st) = put_transport a t st"
  by (simp_all add: put_transport_def)

lemma wr_done_tstate [simp]:
  "transports (wr_done fd bs cs es st) = transports st"
  "transport_list (wr_done fd bs cs es st) = transport_list st"
  "pending_list (wr_done fd bs cs es st) = pending_list st"
  "local_transports (wr_done fd bs cs es st) = local_transports st"
  "tmsgs (wr_done fd bs cs es st) = tmsgs st"
  "usb_calls (wr_done fd bs cs es st) = usb_calls st"
  "pipe (wr_done fd bs cs es st) = pipe st"
  "sock_pair (wr_done fd bs cs es st) = sock_pair st"
  "registration_send (wr_done fd bs cs es st) = registration_send st"
  "ADB_HOST (wr_done fd bs cs es st) = ADB_HOST st"
  "HOST (wr_done fd bs cs es st) = HOST st"
  "next_addr (wr_done fd bs cs es st) = next_addr st"
  by (simp_all add: wr_done_def)

lemma adb_close_tstate [simp]:
  "transports (adb_close fd st) = transports st"
  "transport_list (adb_close fd st) = transport_list st"
  "pending_list (adb_close fd st) = pending_list st"
  "local_transports (adb_close fd st) = local_transports st"
  "tmsgs (adb_close fd st) = tmsgs st"
  "usb_calls (adb_close fd st) = usb_calls st"
  "pipe (adb_close fd st) = pipe st"
  "sock_pair (adb_close fd st) = sock_pair st"
  "registration_send (adb_close fd st) = registration_send st"
  "ADB_HOST (adb_close fd st) = ADB_HOST st"
  "HOST (adb_close fd st) = HOST st"
  "wr_ev (adb_close fd st) = wr_ev st"
  "nonblock (adb_close fd st) = nonblock st"
  "closed_fds (adb_close fd st) = closed_fds st @ [fd]"
  by (simp_all add: adb_close_def)

text \<open>Writing on a descriptor whose writes do not fail.\<close>

lemma writex_rest_clean:
  "wr_clean (wr_ev w fd) \<Longrightarrow> length bs \<le> writex_maxnum \<Longrightarrow>
   \<exists>cs es. writex_rest fd bs w = Inr (0, wr_done fd bs cs es w) \<and> wr_clean es"
  using writex_rest_spec [of bs fd w] by (auto simp: wr_prefix_def)

lemma transport_write_action_clean:
  assumes "wr_clean (wr_ev st (registration_send st))"
  shows "\<exists>cs es. wr_clean es \<and> transport_write_action m st =
    Inr (0, (wr_done (registration_send st) (replicate 8 0) cs es st)\<lparr>tmsgs := tmsgs st @ [m]\<rparr>)"
  using writex_rest_clean [OF assms, of "replicate 8 0"]
  by (auto simp: transport_write_action_def sizeof_ptr_def writex_maxnum_def SYNC_DATA_MAX_def) blast

text \<open>
  A transport is kicked at most once, closed exactly once, and its removal requested
  exactly once, by the second of its two threads to exit: after both exits its socket and its end
  of the pipe have been closed once each, in this order, and one removal message is queued.
\<close>

theorem transport_threads_exit:
  assumes "transports st a = Some t" "t_type t = kTransportLocal" "ref_count t = 2" "\<not> kicked t"
    "wr_clean (wr_ev st (registration_send st))"
  shows "\<exists>st1 st2. thread_exit a st = Inr st1 \<and> thread_exit a st1 = Inr st2
    \<and> tmsgs st1 = tmsgs st \<and> closed_fds st1 = closed_fds st @ [sfd t]
    \<and> tmsgs st2 = tmsgs st @ [(a, 0)] \<and> closed_fds st2 = closed_fds st @ [sfd t, t_fd t]
    \<and> transport_list st2 = transport_list st"
proof -
  let ?t1 = "t\<lparr>kicked := True, sfd := -1, ref_count := 1\<rparr>"
  have "\<exists>st1. thread_exit a st = Inr st1 \<and> transports st1 a = Some ?t1 \<and> tmsgs st1 = tmsgs st
      \<and> closed_fds st1 = closed_fds st @ [sfd t] \<and> wr_clean (wr_ev st1 (registration_send st1))
      \<and> transport_list st1 = transport_list st"
    using assms
    by (simp add: thread_exit_def kick_transport_def kick_once_def remote_kick_def transport_unref_def
        transport_unref_locked_def get_transport_def Let_def)
  then obtain st1 where st1: "thread_exit a st = Inr st1" "transports st1 a = Some ?t1" "tmsgs st1 = tmsgs st"
      "closed_fds st1 = closed_fds st @ [sfd t]" "wr_clean (wr_ev st1 (registration_send st1))"
      "transport_list st1 = transport_list st" by blast
  let ?s = "adb_close (t_fd t) (put_transport a (?t1\<lparr>ref_count := 0\<rparr>) st1)"
  have "thread_exit a st1 = remove_transport a ?s"
    using st1(2) assms(2)
    by (simp add: thread_exit_def kick_transport_def kick_once_def transport_unref_def remote_close_def
        transport_unref_locked_def get_transport_def Let_def)
  moreover obtain cs es where "transport_write_action (a, 0) ?s =
      Inr (0, (wr_done (registration_send ?s) (replicate 8 0) cs es ?s)\<lparr>tmsgs := tmsgs ?s @ [(a, 0)]\<rparr>)"
    using transport_write_action_clean [of ?s "(a, 0)"] st1(5) by auto
  ultimately show ?thesis using st1 by (simp add: remove_transport_def)
qed


theorem transport_threads_exit_witness:
  "\<exists>st1 st2. thread_exit 12 ex_tstate = Inr st1 \<and> thread_exit 12 st1 = Inr st2
    \<and> tmsgs st2 = [(12, 0)] \<and> closed_fds st2 = [9, 11]"
  using transport_threads_exit [of ex_tstate 12]
  by (auto simp: ex_tstate_simps zero_transport_def)

lemma fd_frame_tstate:
  assumes "fd_frame st st'"
  shows "transports st' = transports st" "transport_list st' = transport_list st" "pending_list st' = pending_list st"
    "local_transports st' = local_transports st" "sock_pair st' = sock_pair st" "pipe st' = pipe st"
    "tmsgs st' = tmsgs st" "registration_send st' = registration_send st" "next_addr st' = next_addr st"
    "ADB_HOST st' = ADB_HOST st" "HOST st' = HOST st" "usb_calls st' = usb_calls st"
    "tstate.more st' = tstate.more st"
  using assms by (cases st; cases st'; simp add: fd_frame_def)+

lemma run_disconnects_closed:
  assumes "run_disconnects func ds st = Inr st'" "\<And>d s s'. func d s = Inr s' \<Longrightarrow> \<exists>ys. closed_fds s' = closed_fds s @ ys"
  shows "\<exists>ys. closed_fds st' = closed_fds st @ ys"
  using assms(1)
proof (induction ds arbitrary: st)
  case (Cons d ds)
  then obtain s where "func d st = Inr s" "run_disconnects func ds s = Inr st'" by (auto simp: bindr_eq_Inr)
  then show ?case using Cons.IH [of s] assms(2) [of d st s] by auto
qed simp

lemma unlink_transport_closed: "unlink_transport a st = Inr st' \<Longrightarrow> closed_fds st' = closed_fds st"
  by (auto simp: unlink_transport_def bindr_eq_Inr split: option.splits if_splits)

text \<open>
  The removal of a transport closes its end of the pipe a second time: after \<open>remote_close\<close>
  has closed the descriptor \<open>fd\<close> of a local transport, \<open>transport_registration_func\<close> closes it again
  when it handles the removal, by which time the number may belong to another descriptor.
\<close>

theorem transport_fd_closed_twice:
  assumes "transports st a = Some t" "t_type t = kTransportLocal" "remote_close a st = Inr st1"
    "transport_remove_action func update a st1 = Inr st2"
    "\<And>d s s'. func d s = Inr s' \<Longrightarrow> \<exists>ys. closed_fds s' = closed_fds s @ ys"
    "\<And>s s'. update s = Inr s' \<Longrightarrow> \<exists>ys. closed_fds s' = closed_fds s @ ys"
  shows "\<exists>xs ys. closed_fds st2 = closed_fds st @ [t_fd t] @ xs @ [t_fd t] @ ys"
proof -
  have st1: "closed_fds st1 = closed_fds st @ [t_fd t]" "transports st1 a = Some t"
    using assms(1-3) by (auto simp: remote_close_def get_transport_def)
  obtain s1 s2 s3 where s: "fdevent_remove (transport_fde a) st1 = Inr s1"
    "unlink_transport a (adb_close (t_fd t) s1) = Inr s2" "run_transport_disconnects func a s2 = Inr s3"
    "update (free_transport a s3) = Inr st2"
    using assms(4) st1(2) by (auto simp: transport_remove_action_def bindr_eq_Inr)
  obtain xs where xs: "closed_fds s1 = closed_fds st1 @ xs" using fdevent_remove_frame [OF s(1)] by (auto simp: fd_frame_def)
  have "closed_fds s2 = closed_fds st1 @ xs @ [t_fd t]" using unlink_transport_closed [OF s(2)] xs by simp
  moreover have "\<exists>ys. closed_fds s3 = closed_fds s2 @ ys"
    using s(3) run_disconnects_closed [OF _ assms(5)] by (auto simp: run_transport_disconnects_def bindr_eq_Inr)
  moreover have "\<exists>ys. closed_fds st2 = closed_fds s3 @ ys" using assms(6) [OF s(4)] by (simp add: free_transport_def)
  ultimately obtain ys zs where "closed_fds st2 = closed_fds st @ [t_fd t] @ xs @ [t_fd t] @ ys @ zs" using st1(1) by auto
  then show ?thesis by blast
qed

section \<open>Registration\<close>

text \<open>What registration needs of the state: listed transports exist and the next address is free.\<close>

definition t_fresh :: "'a tstate_scheme \<Rightarrow> bool" where
  "t_fresh st \<longleftrightarrow> store_ok st \<and> transports st (next_addr st) = None
     \<and> (\<forall>x\<in>set (local_transports st). \<forall>a. x = Some a \<longrightarrow> transports st a \<noteq> None)"

definition serial_used :: "string \<Rightarrow> 'a tstate_scheme \<Rightarrow> bool" where
  "serial_used ser st \<longleftrightarrow> (\<exists>a\<in>set (transport_list st) \<union> set (pending_list st). \<exists>t. transports st a = Some t \<and> serial t = Some ser)"

definition port_used :: "int \<Rightarrow> 'a tstate_scheme \<Rightarrow> bool" where
  "port_used port st \<longleftrightarrow> (\<exists>a t. Some a \<in> set (local_transports st) \<and> transports st a = Some t \<and> adb_port t = port)"

lemma find_serial_spec:
  "\<forall>a\<in>set as. transports st a \<noteq> None \<Longrightarrow>
   \<exists>r. find_serial ser as st = Inr r \<and> (r \<noteq> None \<longleftrightarrow> (\<exists>a\<in>set as. \<exists>t. transports st a = Some t \<and> serial t = Some ser))"
proof (induction as)
  case (Cons a as)
  then obtain t where t: "transports st a = Some t" by auto
  obtain r where r: "find_serial ser as st = Inr r"
    "r \<noteq> None \<longleftrightarrow> (\<exists>a\<in>set as. \<exists>t. transports st a = Some t \<and> serial t = Some ser)" using Cons by auto
  show ?case
    by (rule exI [of _ "if serial t = Some ser then Some a else r"]) (use t r in \<open>auto simp: get_transport_def\<close>)
qed simp

lemma find_emulator_spec:
  "\<forall>x\<in>set xs. \<forall>a. x = Some a \<longrightarrow> transports st a \<noteq> None \<Longrightarrow>
   \<exists>r. find_emulator_transport port xs st = Inr r
     \<and> (r \<noteq> None \<longleftrightarrow> (\<exists>a t. Some a \<in> set xs \<and> transports st a = Some t \<and> adb_port t = port))"
proof (induction xs)
  case (Cons x xs)
  obtain r where r: "find_emulator_transport port xs st = Inr r"
    "r \<noteq> None \<longleftrightarrow> (\<exists>a t. Some a \<in> set xs \<and> transports st a = Some t \<and> adb_port t = port)" using Cons by auto
  show ?case
  proof (cases x)
    case None
    then show ?thesis using r by auto
  next
    case (Some a)
    then obtain t where t: "transports st a = Some t" using Cons.prems by auto
    show ?thesis
      by (rule exI [of _ "if adb_port t = port then Some a else r"])
        (use Some t r in \<open>auto simp: get_transport_def\<close>)
  qed
qed simp

lemma free_slot_spec:
  "free_slot xs = None \<longleftrightarrow> None \<notin> set xs"
  "free_slot xs = Some i \<Longrightarrow> i < length xs \<and> xs ! i = None"
  by (induction xs arbitrary: i rule: free_slot.induct) auto


lemma register_transport_clean:
  assumes "wr_clean (wr_ev st (registration_send st))"
  shows "\<exists>st'. register_transport a st = Inr st' \<and> tmsgs st' = tmsgs st @ [(a, 1)]
    \<and> transports st' = transports st \<and> pending_list st' = pending_list st \<and> transport_list st' = transport_list st
    \<and> local_transports st' = local_transports st"
  using transport_write_action_clean [OF assms, of "(a, 1)"] by (auto simp: register_transport_def)

text \<open>The first half of the registration: the emulator slot.\<close>

definition needs_slot :: "bool \<Rightarrow> 'a tstate_scheme \<Rightarrow> bool" where
  "needs_slot local st \<longleftrightarrow> ADB_HOST st \<and> HOST st \<and> local"

definition new_sock_transport :: "int \<Rightarrow> int \<Rightarrow> atransport" where
  "new_sock_transport s port = zero_transport\<lparr>sfd := s, sync_token := 1, connection_state := CS_OFFLINE,
     t_type := kTransportLocal, adb_port := port\<rparr>"

lemma init_socket_transport_spec:
  assumes f: "t_fresh st" and a: "a = next_addr st" and st': "st' = put_transport a zero_transport (snd (alloc st))"
  shows "\<not> needs_slot local st \<Longrightarrow>
      init_socket_transport a s port local st' = Inr (0, put_transport a (new_sock_transport s 0) st')"
    and "needs_slot local st \<Longrightarrow> port_used port st \<or> None \<notin> set (local_transports st) \<Longrightarrow>
      init_socket_transport a s port local st' = Inr (-1, put_transport a (new_sock_transport s port) st')"
    and "needs_slot local st \<Longrightarrow> \<not> port_used port st \<Longrightarrow> None \<in> set (local_transports st) \<Longrightarrow>
      \<exists>i < length (local_transports st). init_socket_transport a s port local st' = Inr (0,
        (put_transport a (new_sock_transport s port) st')\<lparr>local_transports := (local_transports st)[i := Some a]\<rparr>)"
proof -
  let ?s = "put_transport a (new_sock_transport s port) st'"
  have t: "get_transport a st' = Inr zero_transport" by (simp add: st' get_transport_def)
  have F: "ADB_HOST st' = ADB_HOST st" "HOST st' = HOST st" "local_transports st' = local_transports st"
    "transports st' = (transports st)(a \<mapsto> zero_transport)"
    by (simp_all add: st' alloc_def)
  have ne: "x \<noteq> a" if "Some x \<in> set (local_transports st)" for x
    using f that by (auto simp: t_fresh_def a)
  have "\<forall>x\<in>set (local_transports ?s). \<forall>b. x = Some b \<longrightarrow> transports ?s b \<noteq> None"
    using f unfolding t_fresh_def put_transport_simps F by auto
  from find_emulator_spec [OF this, of port]
  obtain r where r: "find_emulator_transport_by_adb_port port ?s = Inr r"
    "r \<noteq> None \<longleftrightarrow> (\<exists>b t. Some b \<in> set (local_transports ?s) \<and> transports ?s b = Some t \<and> adb_port t = port)"
    unfolding find_emulator_transport_by_adb_port_def by (elim exE conjE)
  have r2: "r \<noteq> None \<longleftrightarrow> port_used port st"
    unfolding r(2) port_used_def using ne F by auto
  have i: "get_available_local_transport_index ?s = (case free_slot (local_transports st) of None \<Rightarrow> -1 | Some i \<Rightarrow> int i)"
    by (simp add: get_available_local_transport_index_def F)
  have e: "init_socket_transport a s port local st' =
    (if needs_slot local st then
       if r \<noteq> None then Inr (-1, ?s) else if get_available_local_transport_index ?s < 0 then Inr (-1, ?s)
       else Inr (0, ?s\<lparr>local_transports := (local_transports ?s)[nat (get_available_local_transport_index ?s) := Some a]\<rparr>)
     else Inr (0, put_transport a (new_sock_transport s 0) st'))"
    using r(1) unfolding init_socket_transport_def t bindr_simps Let_def F needs_slot_def new_sock_transport_def by simp
  show "\<not> needs_slot local st \<Longrightarrow>
      init_socket_transport a s port local st' = Inr (0, put_transport a (new_sock_transport s 0) st')" by (simp add: e)
  show "needs_slot local st \<Longrightarrow> port_used port st \<or> None \<notin> set (local_transports st) \<Longrightarrow>
      init_socket_transport a s port local st' = Inr (-1, put_transport a (new_sock_transport s port) st')"
    unfolding e i using r2 free_slot_spec(1) [of "local_transports st"] by auto
  assume n: "needs_slot local st" "\<not> port_used port st" "None \<in> set (local_transports st)"
  then obtain k where k: "free_slot (local_transports st) = Some k" using free_slot_spec(1) by (metis option.exhaust)
  have "k < length (local_transports st)" using free_slot_spec(2) [OF k] by simp
  then show "\<exists>i < length (local_transports st). init_socket_transport a s port local st' = Inr (0,
        (put_transport a (new_sock_transport s port) st')\<lparr>local_transports := (local_transports st)[i := Some a]\<rparr>)"
    unfolding e i k using n r2 by (intro exI [of _ k]) (simp add: F)
qed


text \<open>The second half: the check for duplicates and the queueing.\<close>

lemma register_rest:
  assumes f: "t_fresh st" and c: "wr_clean (wr_ev st (registration_send st))"
    and st2: "transports st2 = (transports st)(next_addr st \<mapsto> t)" "transport_list st2 = transport_list st"
      "pending_list st2 = pending_list st" "tmsgs st2 = tmsgs st" "wr_ev st2 = wr_ev st"
      "registration_send st2 = registration_send st"
    and init: "init_socket_transport (next_addr st) s port local (put_transport (next_addr st) zero_transport (snd (alloc st)))
      = Inr (r, st2)" and r: "r \<ge> 0"
  shows "\<exists>st'. register_socket_transport nm s (Some ser) port local st = Inr (if serial_used ser st then -1 else 0, st')
    \<and> transport_list st' = transport_list st \<and> local_transports st' = local_transports st2
    \<and> (if serial_used ser st
       then pending_list st' = pending_list st \<and> tmsgs st' = tmsgs st \<and> transports st' = transports st
       else pending_list st' = pending_list st @ [next_addr st] \<and> tmsgs st' = tmsgs st @ [(next_addr st, 1)]
         \<and> transports st' = (transports st)(next_addr st \<mapsto> t\<lparr>serial := Some ser\<rparr>))"
proof -
  let ?a = "next_addr st"
  have fr: "transports st ?a = None" "store_ok st" using f by (simp_all add: t_fresh_def)
  have fa: "?a \<notin> set (transport_list st) \<union> set (pending_list st)" using fr by (force simp: store_ok_def)
  have al: "fst (alloc st) = ?a" by (simp add: alloc_def)
  have ok: "\<forall>b\<in>set (pending_list st2). transports st2 b \<noteq> None" "\<forall>b\<in>set (transport_list st2). transports st2 b \<noteq> None"
    using fr(2) st2 by (auto simp: store_ok_def)
  from find_serial_spec [OF ok(1), of ser] obtain r1 where r1: "find_serial ser (pending_list st2) st2 = Inr r1"
    "r1 \<noteq> None \<longleftrightarrow> (\<exists>a\<in>set (pending_list st2). \<exists>t. transports st2 a = Some t \<and> serial t = Some ser)" by (elim exE conjE)
  from find_serial_spec [OF ok(2), of ser] obtain r2 where r2: "find_serial ser (transport_list st2) st2 = Inr r2"
    "r2 \<noteq> None \<longleftrightarrow> (\<exists>a\<in>set (transport_list st2). \<exists>t. transports st2 a = Some t \<and> serial t = Some ser)" by (elim exE conjE)
  have tr: "transports st2 b = transports st b" if "b \<in> set (transport_list st) \<union> set (pending_list st)" for b
    using that fa st2(1) by auto
  have "(\<exists>b\<in>A. \<exists>t. transports st2 b = Some t \<and> serial t = Some ser) \<longleftrightarrow> (\<exists>b\<in>A. \<exists>t. transports st b = Some t \<and> serial t = Some ser)"
    if "A \<subseteq> set (transport_list st) \<union> set (pending_list st)" for A
    using that tr by (intro bex_cong refl) (simp add: subset_iff)
  then have u: "serial_used ser st \<longleftrightarrow> r1 \<noteq> None \<or> r2 \<noteq> None"
    unfolding serial_used_def r1(2) r2(2) st2(2,3) bex_Un by auto
  let ?s = "(put_transport ?a (t\<lparr>serial := Some ser\<rparr>) st2)\<lparr>pending_list := pending_list st2 @ [?a]\<rparr>"
  have e: "register_socket_transport nm s (Some ser) port local st =
    (if serial_used ser st then Inr (-1, free_transport ?a st2) else bindr (register_transport ?a ?s) (\<lambda>st. Inr (0, st)))"
    using r unfolding register_socket_transport_def
    by (simp add: al init r1(1) r2(1) u get_transport_def st2(1) split_beta Let_def)
  show ?thesis
  proof (cases "serial_used ser st")
    case True
    then show ?thesis using e st2 fr(1) by (auto simp: free_transport_def fun_upd_idem)
  next
    case False
    from register_transport_clean [of ?s ?a] c st2 obtain st' where "register_transport ?a ?s = Inr st'"
      "tmsgs st' = tmsgs st @ [(?a, 1)]" "transports st' = (transports st)(?a \<mapsto> t\<lparr>serial := Some ser\<rparr>)"
      "pending_list st' = pending_list st @ [?a]" "transport_list st' = transport_list st" "local_transports st' = local_transports st2"
      by auto
    then show ?thesis using e False by simp
  qed
qed

definition may_register :: "string \<Rightarrow> int \<Rightarrow> bool \<Rightarrow> 'a tstate_scheme \<Rightarrow> bool" where
  "may_register ser port local st \<longleftrightarrow>
     \<not> serial_used ser st \<and> (needs_slot local st \<longrightarrow> \<not> port_used port st \<and> None \<in> set (local_transports st))"

text \<open>
  \<open>register_socket_transport\<close> accepts a connection exactly when its serial number is not in
  use and, for emulators on the host, its port is not connected yet and one of the 16 slots is
  free. An accepted transport is appended to the pending list and its registration queued; a
  rejected one leaves the lists, the store and the queue as they were.
\<close>

theorem register_socket_transport_exact:
  assumes f: "t_fresh st" and c: "wr_clean (wr_ev st (registration_send st))"
  shows "\<exists>st' t. register_socket_transport nm s (Some ser) port local st
        = Inr (if may_register ser port local st then 0 else -1, st')
    \<and> transport_list st' = transport_list st
    \<and> (if may_register ser port local st
       then pending_list st' = pending_list st @ [next_addr st] \<and> tmsgs st' = tmsgs st @ [(next_addr st, 1)]
         \<and> transports st' = (transports st)(next_addr st \<mapsto> t) \<and> serial t = Some ser \<and> sfd t = s
       else pending_list st' = pending_list st \<and> tmsgs st' = tmsgs st \<and> transports st' = transports st)"
proof -
  let ?s = "put_transport (next_addr st) zero_transport (snd (alloc st))"
  have al: "transports ?s = (transports st)(next_addr st \<mapsto> zero_transport)" "transport_list ?s = transport_list st"
    "pending_list ?s = pending_list st" "tmsgs ?s = tmsgs st" "wr_ev ?s = wr_ev st" "registration_send ?s = registration_send st"
    by (simp_all add: alloc_def)
  have sf: "sfd (new_sock_transport s p\<lparr>serial := Some ser\<rparr>) = s" for p by (simp add: new_sock_transport_def)
  note I = init_socket_transport_spec [OF f refl refl]
  consider (no) "needs_slot local st" "port_used port st \<or> None \<notin> set (local_transports st)"
    | (any) "\<not> needs_slot local st"
    | (slot) "needs_slot local st" "\<not> port_used port st" "None \<in> set (local_transports st)" by blast
  then show ?thesis
  proof cases
    case no
    have "register_socket_transport nm s (Some ser) port local st =
        Inr (-1, free_transport (next_addr st) (put_transport (next_addr st) (new_sock_transport s port) ?s))"
      using I(2) [OF no, of s] by (simp add: register_socket_transport_def alloc_def Let_def)
    moreover have "transports st (next_addr st) = None" using f by (simp add: t_fresh_def)
    ultimately show ?thesis using no by (auto simp: may_register_def free_transport_def alloc_def fun_upd_idem)
  next
    case any
    from register_rest [OF f c _ _ _ _ _ _ I(1) [OF any], where t = "new_sock_transport s 0" and s = s and port = port and nm = nm and ser = ser] any sf show ?thesis
      by (auto simp: may_register_def alloc_def intro!: exI [of _ "new_sock_transport s 0\<lparr>serial := Some ser\<rparr>"])
  next
    case slot
    from I(3) [OF slot, of s] obtain i where e: "init_socket_transport (next_addr st) s port local ?s = Inr (0,
      (put_transport (next_addr st) (new_sock_transport s port) ?s)\<lparr>local_transports := (local_transports st)[i := Some (next_addr st)]\<rparr>)"
      by blast
    from register_rest [OF f c _ _ _ _ _ _ e, where t = "new_sock_transport s port" and nm = nm and ser = ser] slot sf show ?thesis
      by (auto simp: may_register_def alloc_def intro!: exI [of _ "new_sock_transport s port\<lparr>serial := Some ser\<rparr>"])
  qed
qed

lemma ex_tstate_fresh: "t_fresh ex_tstate" "wr_clean (wr_ev ex_tstate (registration_send ex_tstate))"
  by (auto simp: t_fresh_def store_ok_def ex_tstate_simps)

theorem register_socket_transport_exact_witness:
  "\<exists>st'. register_socket_transport (\<lambda>_. []) 7 (Some ''emulator-5554'') 5555 True ex_tstate = Inr (0, st')
    \<and> pending_list st' = [16] \<and> tmsgs st' = [(16, 1)]"
  using register_socket_transport_exact [OF ex_tstate_fresh, of "\<lambda>_. []" 7 "''emulator-5554''" 5555 True]
  by (auto simp: may_register_def serial_used_def port_used_def ex_tstate_simps zero_transport_def split: if_splits)

text \<open>
  When the serial number of an emulator connection is already in use, the rejected transport
  is freed but its slot in \<open>local_transports\<close> keeps its address: the slot dangles.
\<close>

theorem rejected_emulator_dangles:
  assumes f: "t_fresh st" and c: "wr_clean (wr_ev st (registration_send st))"
    and "needs_slot local st" "\<not> port_used port st" "None \<in> set (local_transports st)" "serial_used ser st"
  shows "\<exists>st'. register_socket_transport nm s (Some ser) port local st = Inr (-1, st')
    \<and> Some (next_addr st) \<in> set (local_transports st') \<and> transports st' (next_addr st) = None"
proof -
  let ?s = "put_transport (next_addr st) zero_transport (snd (alloc st))"
  obtain i where i: "i < length (local_transports st)" and e: "init_socket_transport (next_addr st) s port local ?s = Inr (0,
      (put_transport (next_addr st) (new_sock_transport s port) ?s)\<lparr>local_transports := (local_transports st)[i := Some (next_addr st)]\<rparr>)"
    using init_socket_transport_spec(3) [OF f refl refl assms(3-5)] by blast
  from register_rest [OF f c _ _ _ _ _ _ e, where t = "new_sock_transport s port" and nm = nm and ser = ser] assms(6) show ?thesis
    using i f by (auto simp: alloc_def set_update_memI t_fresh_def)
qed


theorem rejected_emulator_dangles_witness:
  "\<exists>st'. register_socket_transport (\<lambda>_. []) 7 (Some ''4567'') 5555 True ex_tstate = Inr (-1, st')
    \<and> Some 16 \<in> set (local_transports st') \<and> transports st' 16 = None"
  using rejected_emulator_dangles [OF ex_tstate_fresh, of True 5555 "''4567''" "\<lambda>_. []" 7]
  by (auto simp: needs_slot_def serial_used_def port_used_def ex_tstate_simps zero_transport_def)

section \<open>The input thread\<close>

text \<open>
  What the input thread forwards of the packets it reads: those behind a SYNC with the current
  token, up to the SYNC that takes the transport offline.
\<close>

fun forwarded :: "u32 \<Rightarrow> bool \<Rightarrow> apacket list \<Rightarrow> apacket list" where
  "forwarded tok active [] = []"
| "forwarded tok active (p # ps) =
     (if command (msg p) = A_SYNC then
        if arg0 (msg p) = 0 then [] else forwarded tok (active \<or> arg1 (msg p) = tok) ps
      else (if active then [p] else []) @ forwarded tok active ps)"

text \<open>The thread while it is running: the rounds that read the next \<open>n\<close> packets.\<close>

fun input_rounds :: "nat \<Rightarrow> (apacket \<Rightarrow> 'a tstate_scheme \<Rightarrow> (int \<times> 'a tstate_scheme) res)
    \<Rightarrow> (addr \<Rightarrow> 'a tstate_scheme \<Rightarrow> 'a tstate_scheme res) \<Rightarrow> addr \<Rightarrow> bool \<Rightarrow> 'a tstate_scheme
    \<Rightarrow> (bool option \<times> 'a tstate_scheme) res" where
  "input_rounds 0 wr close_all a active st = Inr (Some active, st)"
| "input_rounds (Suc n) wr close_all a active st =
     bindr (input_thread_round wr close_all a active st) (\<lambda>(r, st).
       case r of None \<Rightarrow> Inr (None, st) | Some active \<Rightarrow> input_rounds n wr close_all a active st)"


lemma pipe_simps [simp]:
  "transports (st\<lparr>pipe := x\<rparr>) = transports st"
  "wr_out (st\<lparr>pipe := x\<rparr>) = wr_out st"
  "wr_ev (st\<lparr>pipe := x\<rparr>) = wr_ev st"
  by simp_all

lemma remote_write_clean:
  assumes "wr_clean (wr_ev st fd)" "length (pk_data p) = unat (data_length (msg p))"
  shows "\<exists>cs es. remote_write (writex fd) be p st = Inr (0, wr_done fd (wire_packet p) cs es st) \<and> wr_clean es"
proof -
  obtain cs es where "writex fd (wire_packet p) st = Inr (0, wr_done fd (wire_packet p) cs es st)" "wr_clean es"
    using writex_spec [of fd "wire_packet p" st] assms(1) by (auto simp: wr_prefix_def)
  then show ?thesis using assms(2) by (auto simp: remote_write_def Let_def mem_message_fix wire_packet_def)
qed

text \<open>
  Property C23. The input thread forwards to the device exactly the packets that follow the SYNC
  with the transport's current token, in order and each once, and drops those before it, which
  belong to an earlier connection.
\<close>

theorem input_thread_forwards:
  assumes "transports st a = Some t" "pipe st (t_fd t) = ps @ rest" "wr_clean (wr_ev st (sfd t))"
    "\<forall>p\<in>set ps. length (pk_data p) = unat (data_length (msg p)) \<and> \<not> (command (msg p) = A_SYNC \<and> arg0 (msg p) = 0)"
  shows "\<exists>active' st'. input_rounds (length ps) (remote_write (writex (sfd t)) be) close_all a active st = Inr (Some active', st')
    \<and> pipe st' (t_fd t) = rest
    \<and> wr_out st' (sfd t) = wr_out st (sfd t) @ concat (map wire_packet (forwarded (sync_token t) active ps))"
  using assms
proof (induction ps arbitrary: active st)
  case Nil
  then show ?case by simp
next
  case (Cons p ps)
  let ?s = "st\<lparr>pipe := (pipe st)(t_fd t := ps @ rest)\<rparr>"
  have rd: "read_packet (t_fd t) st = Inr (Some p, ?s)" using Cons.prems(2) by (simp add: read_packet_def)
  show ?case
  proof (cases "command (msg p) = A_SYNC \<or> \<not> active")
    case True
    define act where "act = (if command (msg p) = A_SYNC then active \<or> arg1 (msg p) = sync_token t else active)"
    have "input_thread_round (remote_write (writex (sfd t)) be) close_all a active st = Inr (Some act, ?s)"
      using True rd Cons.prems(1,4) by (auto simp: input_thread_round_def get_transport_def act_def Let_def)
    moreover have "forwarded (sync_token t) active (p # ps) = forwarded (sync_token t) act ps"
      using True Cons.prems(4) by (auto simp: act_def)
    ultimately show ?thesis using Cons.IH [of ?s act] Cons.prems by simp
  next
    case False
    obtain cs es where w: "remote_write (writex (sfd t)) be p ?s = Inr (0, wr_done (sfd t) (wire_packet p) cs es ?s)" "wr_clean es"
      using remote_write_clean [of ?s "sfd t" p be] Cons.prems by auto
    let ?s' = "wr_done (sfd t) (wire_packet p) cs es ?s"
    have "input_thread_round (remote_write (writex (sfd t)) be) close_all a active st = Inr (Some active, ?s')"
      using False rd w Cons.prems(1,4) by (auto simp: input_thread_round_def get_transport_def Let_def)
    moreover have "forwarded (sync_token t) active (p # ps) = p # forwarded (sync_token t) active ps"
      using False by simp
    ultimately show ?thesis using Cons.IH [of ?s' active] Cons.prems w(2) by simp
  qed
qed


definition ex_piped :: tstate where
  "ex_piped = ex_tstate\<lparr>pipe := (\<lambda>_. [])(11 := [ex_sealed, sync_packet 1 0, ex_sealed])\<rparr>"

theorem input_thread_forwards_witness:
  "\<exists>act st'. input_rounds 3 (remote_write (writex 9) False) (\<lambda>_ s. Inr s) 12 False ex_piped = Inr (Some act, st')
    \<and> wr_out st' 9 = wire_packet ex_sealed"
proof -
  let ?t = "the (transports ex_piped 12)"
  have t: "transports ex_piped 12 = Some ?t" "t_fd ?t = 11" "sfd ?t = 9" "sync_token ?t = 0"
    by (simp_all add: ex_piped_def ex_tstate_simps zero_transport_def)
  have p: "pipe ex_piped (t_fd ?t) = [ex_sealed, sync_packet 1 0, ex_sealed] @ []" "wr_ev ex_piped = (\<lambda>_. [])" "wr_out ex_piped 9 = []"
    unfolding t(2) by (simp_all add: ex_piped_def ex_tstate_simps)
  have c: "command (msg ex_sealed) \<noteq> A_SYNC" "length (pk_data ex_sealed) = unat (data_length (msg ex_sealed))"
    by (simp_all add: ex_sealed_def ex_packet_def command_defs)
  have "\<forall>p\<in>set [ex_sealed, sync_packet 1 0, ex_sealed]. length (pk_data p) = unat (data_length (msg p)) \<and> \<not> (command (msg p) = A_SYNC \<and> arg0 (msg p) = 0)"
    using c by (simp add: sync_packet_def get_apacket_def zero_msg_def)
  from input_thread_forwards [OF t(1) p(1) _ this, of False "\<lambda>_ s. Inr s" False] show ?thesis
    using t p c by (simp add: sync_packet_def numeral_3_eq_3 del: input_rounds.simps) blast
qed

definition ex_removal :: tstate where
  "ex_removal = ex_tstate\<lparr>fdes := [49 \<mapsto> \<lparr>fde_fd = 10, force_eof = False, fde_state = 0, fde_events = 0,
     fde_func = transport_socket_events 12\<rparr>]\<rparr>"

theorem transport_fd_closed_twice_witness:
  "\<exists>st1 st2 xs ys. remote_close 12 ex_removal = Inr st1 \<and> transport_remove_action (\<lambda>_ s. Inr s) Inr 12 st1 = Inr st2
    \<and> closed_fds st2 = [11] @ xs @ [11] @ ys"
proof -
  obtain t where t: "transports ex_removal 12 = Some t" "t_fd t = 11" "t_type t = kTransportLocal" "closed_fds ex_removal = []"
    by (auto simp: ex_removal_def ex_tstate_simps zero_transport_def)
  have r: "remote_close 12 ex_removal = Inr (adb_close 11 ex_removal)"
    using t by (simp add: remote_close_def get_transport_def)
  have "\<exists>st2. transport_remove_action (\<lambda>_ s. Inr s) Inr 12 (adb_close 11 ex_removal) = Inr st2"
    by (simp add: transport_remove_action_def get_transport_def ex_removal_def ex_tstate_simps fdevent_remove_def transport_fde_def
        get_fde_def adb_close_def put_fde_def unlink_transport_def put_transport_def run_transport_disconnects_def zero_transport_def)
  then obtain st2 where r2: "transport_remove_action (\<lambda>_ s. Inr s) Inr 12 (adb_close 11 ex_removal) = Inr st2" by blast
  from transport_fd_closed_twice [OF t(1) t(3) r r2] show ?thesis using r r2 unfolding t(2,4) by auto
qed

end
