(* ===== verification/Sockets.thy ===== *)
theory Sockets
  imports Transport
begin

text \<open>
  The sockets of sockets.c: local sockets bound to a descriptor, remote sockets bound to a
  transport, the smart socket that parses a client's first message, and the sockets other files
  derive from \<open>asocket\<close>, the device tracker of transport.c and the process lists of jdwp_service.c,
  since all of them call each other through \<open>peer\<close>. A socket's \<open>enqueue\<close>, \<open>ready\<close> and \<open>close\<close>
  pointers are values of three enumerations; calling through a pointer is a case distinction.

  A socket is an entry of a store addressed by \<open>addr\<close>; a local socket's event record has the
  same address. Freed sockets are taken out of the store, so that a later access is a fault.
\<close>

section \<open>Data\<close>

datatype enqueue_fn = local_socket_enqueue_fn | remote_socket_enqueue_fn | smart_socket_enqueue_fn
  | device_tracker_enqueue_fn | jdwp_socket_enqueue_fn | jdwp_tracker_enqueue_fn

datatype ready_fn = local_socket_ready_fn | local_socket_ready_notify_fn | remote_socket_ready_fn
  | smart_socket_ready_fn | device_tracker_ready_fn | jdwp_socket_ready_fn | jdwp_tracker_ready_fn

datatype close_fn = local_socket_close_fn | local_socket_close_notify_fn | remote_socket_close_fn
  | smart_socket_close_fn | device_tracker_close_fn | jdwp_socket_close_fn | jdwp_tracker_close_fn

record asocket =
  s_id :: u32
  closing :: bool
  exit_on_close :: bool
  peer :: "addr option"
  s_fd :: int
  pkt_q :: "apacket list"          \<comment> \<open>\<open>pkt_first\<close> to \<open>pkt_last\<close>\<close>
  s_enqueue :: enqueue_fn
  s_ready :: ready_fn
  s_close :: close_fn
  s_transport :: "addr option"
  s_flag :: int                    \<comment> \<open>\<open>update_needed\<close>, \<open>pass\<close> or \<open>need_update\<close> of the derived sockets\<close>

record jdwp_process =
  j_pid :: int
  j_socket :: int
  j_fde :: "addr option"
  in_buff :: "byte list"
  out_fds :: "int list"

record sstate = tstate +
  socks :: "addr \<rightharpoonup> asocket"
  local_socket_list :: "addr list"
  local_socket_closing_list :: "addr list"
  local_socket_next_id :: u32
  device_tracker_list :: "addr list"
  jdwp_trackers_list :: "addr list"
  jdwp_procs :: "addr \<rightharpoonup> jdwp_process"
  jdwp_list :: "addr list"
  sent_fds :: "(int \<times> int) list"    \<comment> \<open>descriptors passed over a process's socket\<close>

definition get_sock :: "addr \<Rightarrow> 'a sstate_scheme \<Rightarrow> asocket res" where
  "get_sock a st = from_opt MemFault (socks st a)"

definition put_sock :: "addr \<Rightarrow> asocket \<Rightarrow> 'a sstate_scheme \<Rightarrow> 'a sstate_scheme" where
  "put_sock a s st = st\<lparr>socks := (socks st)(a \<mapsto> s)\<rparr>"

definition upd_sock :: "addr \<Rightarrow> (asocket \<Rightarrow> asocket) \<Rightarrow> 'a sstate_scheme \<Rightarrow> 'a sstate_scheme res" where
  "upd_sock a f st = bindr (get_sock a st) (\<lambda>s. Inr (put_sock a (f s) st))"

definition free_sock :: "addr \<Rightarrow> 'a sstate_scheme \<Rightarrow> 'a sstate_scheme" where
  "free_sock a st = st\<lparr>socks := (socks st)(a := None), fdes := (fdes st)(a := None)\<rparr>"

text \<open>Dereferencing a pointer that may be NULL.\<close>

definition deref :: "addr option \<Rightarrow> addr res" where
  "deref p = from_opt MemFault p"

section \<open>The socket lists\<close>

fun find_sock :: "u32 \<Rightarrow> addr list \<Rightarrow> 'a sstate_scheme \<Rightarrow> addr option res" where
  "find_sock i [] st = Inr None"
| "find_sock i (a # as) st = bindr (get_sock a st) (\<lambda>s. if s_id s = i then Inr (Some a) else find_sock i as st)"

definition find_local_socket :: "u32 \<Rightarrow> 'a sstate_scheme \<Rightarrow> addr option res" where
  "find_local_socket i st = find_sock i (local_socket_list st) st"

definition install_local_socket :: "addr \<Rightarrow> 'a sstate_scheme \<Rightarrow> 'a sstate_scheme res" where
  "install_local_socket a st =
     bindr (upd_sock a (\<lambda>s. s\<lparr>s_id := local_socket_next_id st\<rparr>) st) (\<lambda>st.
       Inr (st\<lparr>local_socket_next_id := local_socket_next_id st + 1,
              local_socket_list := local_socket_list st @ [a]\<rparr>))"

text \<open>A socket has links exactly when it is in one of the two lists.\<close>

definition remove_socket :: "addr \<Rightarrow> 'a sstate_scheme \<Rightarrow> 'a sstate_scheme res" where
  "remove_socket a st = bindr (get_sock a st) (\<lambda>s.
     if a \<in> set (local_socket_list st) then
       Inr ((put_sock a (s\<lparr>s_id := 0\<rparr>) st)\<lparr>local_socket_list := remove1 a (local_socket_list st)\<rparr>)
     else if a \<in> set (local_socket_closing_list st) then
       Inr ((put_sock a (s\<lparr>s_id := 0\<rparr>) st)\<lparr>local_socket_closing_list := remove1 a (local_socket_closing_list st)\<rparr>)
     else Inr st)"

section \<open>Closing\<close>

definition local_socket_destroy :: "addr \<Rightarrow> 'a sstate_scheme \<Rightarrow> 'a sstate_scheme res" where
  "local_socket_destroy a st = bindr (get_sock a st) (\<lambda>s.
     bindr (fdevent_remove a st) (\<lambda>st.
     bindr (remove_socket a st) (\<lambda>st.
       let st = free_sock a st in
       if exit_on_close s then Inl (ExitWith 1) else Inr st)))"

text \<open>\<open>local_socket_close_locked\<close> once the peer has been dealt with.\<close>

definition local_close_tail :: "addr \<Rightarrow> 'a sstate_scheme \<Rightarrow> 'a sstate_scheme res" where
  "local_close_tail a st = bindr (get_sock a st) (\<lambda>s.
     if closing s \<or> pkt_q s = [] then local_socket_destroy a st
     else
       bindr (fdevent_del a FDE_READ (put_sock a (s\<lparr>closing := True\<rparr>) st)) (\<lambda>st.
       bindr (remove_socket a st) (\<lambda>st.
         Inr (st\<lparr>local_socket_closing_list := local_socket_closing_list st @ [a]\<rparr>))))"

definition message_packet :: "u32 \<Rightarrow> u32 \<Rightarrow> u32 \<Rightarrow> apacket" where
  "message_packet cmd a0 a1 = get_apacket\<lparr>msg := zero_msg\<lparr>command := cmd, arg0 := a0, arg1 := a1\<rparr>\<rparr>"

text \<open>
  What each close function does after closing its peer; \<open>pid\<close> is the peer's identifier, 0
  without a peer.
\<close>

definition local_socket_close_tail :: "addr \<Rightarrow> 'a sstate_scheme \<Rightarrow> 'a sstate_scheme res" where
  [simp]: "local_socket_close_tail a st = bindr (upd_sock a (\<lambda>s. s\<lparr>peer := None\<rparr>) st) (local_close_tail a)"

definition remote_socket_close_tail :: "addr \<Rightarrow> u32 \<Rightarrow> 'a sstate_scheme \<Rightarrow> 'a sstate_scheme res" where
  [simp]: "remote_socket_close_tail a pid st = bindr (get_sock a st) (\<lambda>s.
     bindr (send_packet (message_packet A_CLSE pid (s_id s)) (s_transport s) st) (\<lambda>st.
     bindr (remove_transport_disconnect (s_transport s) (remote_socket_disconnect a) st) (\<lambda>st.
       Inr (free_sock a st))))"

definition smart_socket_close_tail :: "addr \<Rightarrow> 'a sstate_scheme \<Rightarrow> 'a sstate_scheme res" where
  [simp]: "smart_socket_close_tail a st = Inr (free_sock a st)"

definition device_tracker_remove :: "addr \<Rightarrow> 'a sstate_scheme \<Rightarrow> 'a sstate_scheme" where
  [simp]: "device_tracker_remove a st = st\<lparr>device_tracker_list := remove1 a (device_tracker_list st)\<rparr>"

definition device_tracker_close_tail :: "addr \<Rightarrow> 'a sstate_scheme \<Rightarrow> 'a sstate_scheme res" where
  [simp]: "device_tracker_close_tail a st = Inr (free_sock a (device_tracker_remove a st))"

definition jdwp_socket_close_tail :: "addr \<Rightarrow> 'a sstate_scheme \<Rightarrow> 'a sstate_scheme res" where
  [simp]: "jdwp_socket_close_tail a st = Inr (free_sock a st)"

definition jdwp_tracker_close_tail :: "addr \<Rightarrow> 'a sstate_scheme \<Rightarrow> 'a sstate_scheme res" where
  [simp]: "jdwp_tracker_close_tail a st = bindr (remove_socket a st) (\<lambda>st.
     Inr (free_sock a (st\<lparr>jdwp_trackers_list := remove1 a (jdwp_trackers_list st)\<rparr>)))"

definition close_tail :: "close_fn \<Rightarrow> addr \<Rightarrow> u32 \<Rightarrow> 'a sstate_scheme \<Rightarrow> 'a sstate_scheme res" where
  "close_tail k a pid st =
     (case k of
        local_socket_close_fn \<Rightarrow> local_socket_close_tail a st
      | local_socket_close_notify_fn \<Rightarrow> local_socket_close_tail a st
      | remote_socket_close_fn \<Rightarrow> remote_socket_close_tail a pid st
      | smart_socket_close_fn \<Rightarrow> smart_socket_close_tail a st
      | device_tracker_close_fn \<Rightarrow> device_tracker_close_tail a st
      | jdwp_socket_close_fn \<Rightarrow> jdwp_socket_close_tail a st
      | jdwp_tracker_close_fn \<Rightarrow> jdwp_tracker_close_tail a st)"

text \<open>The notifying variant restores the plain functions and sends the reason; then it closes through the pointer.\<close>

definition local_socket_close_notify :: "addr \<Rightarrow> asocket \<Rightarrow> 'a sstate_scheme \<Rightarrow> (int \<times> 'a sstate_scheme) res" where
  [simp]: "local_socket_close_notify a s st = sendfailmsg (s_fd s) ''closed''
     (put_sock a (s\<lparr>s_ready := local_socket_ready_fn, s_close := local_socket_close_fn\<rparr>) st)"

text \<open>The depth of a call to close: whether there is a peer to close first, and whether the notifying variant is still set.\<close>

definition close_rank :: "addr \<Rightarrow> 'a sstate_scheme \<Rightarrow> nat" where
  "close_rank a st =
     (case socks st a of None \<Rightarrow> 0
      | Some s \<Rightarrow> (if peer s = None then 0 else 2) + (if s_close s = local_socket_close_notify_fn then 1 else 0))"

lemma get_sock_eq [simp]: "get_sock a st = Inr s \<longleftrightarrow> socks st a = Some s"
  by (simp add: get_sock_def)

lemma put_sock_simps [simp]:
  "socks (put_sock a s st) = (socks st)(a \<mapsto> s)"
  "put_sock a s (put_sock a s' st) = put_sock a s st"
  "local_socket_list (put_sock a s st) = local_socket_list st"
  "local_socket_closing_list (put_sock a s st) = local_socket_closing_list st"
  "local_socket_next_id (put_sock a s st) = local_socket_next_id st"
  by (simp_all add: put_sock_def)

lemma wr_done_socks [simp]:
  "socks (wr_done fd bs cs es st) = socks st"
  "local_socket_list (wr_done fd bs cs es st) = local_socket_list st"
  "local_socket_closing_list (wr_done fd bs cs es st) = local_socket_closing_list st"
  by (simp_all add: wr_done_def)

lemma writex_frame: "writex fd bs st = Inr (r, st') \<Longrightarrow> \<exists>ds cs es. st' = wr_done fd ds cs es st"
  using writex_spec [of fd bs st] by (auto simp: wr_prefix_def)

lemma sendfailmsg_frame: "sendfailmsg fd reason st = Inr (r, st') \<Longrightarrow> \<exists>ds cs es. st' = wr_done fd ds cs es st"
  by (auto simp: sendfailmsg_def bindr_eq_Inr split: if_splits dest!: writex_frame) blast

text \<open>
  Closing through the function pointer. The peer's \<open>peer\<close> is cleared before it is closed, so
  the nesting ends there.
\<close>

function asocket_close :: "addr \<Rightarrow> 'a sstate_scheme \<Rightarrow> 'a sstate_scheme res" where
  "asocket_close a st = bindr (get_sock a st) (\<lambda>s.
     if s_close s = local_socket_close_notify_fn then
       bindr (local_socket_close_notify a s st) (\<lambda>(r, st). asocket_close a st)
     else
       bindr (if s_close s = jdwp_socket_close_fn then remove_socket a st else Inr st) (\<lambda>st.
         case peer s of
           None \<Rightarrow> close_tail (s_close s) a 0 st
         | Some p \<Rightarrow> bindr (get_sock p st) (\<lambda>ps.
             bindr (asocket_close p (put_sock p (ps\<lparr>peer := None\<rparr>) st)) (close_tail (s_close s) a (s_id ps)))))"
  by pat_completeness auto
termination
proof (relation "measure (\<lambda>(a, st). close_rank a st)")
qed (auto simp: close_rank_def dest!: sendfailmsg_frame split: prod.splits)

declare asocket_close.simps [simp del]

text \<open>
  \<open>local_socket_close_locked\<close> called directly, as \<open>close_all_sockets\<close> does with every socket of
  the list, whatever its own close function is.
\<close>

definition local_socket_close_locked :: "addr \<Rightarrow> 'a sstate_scheme \<Rightarrow> 'a sstate_scheme res" where
  "local_socket_close_locked a st = bindr (get_sock a st) (\<lambda>s.
     case peer s of
       None \<Rightarrow> close_tail local_socket_close_fn a 0 st
     | Some p \<Rightarrow> bindr (get_sock p st) (\<lambda>ps.
         bindr (asocket_close p (put_sock p (ps\<lparr>peer := None\<rparr>) st)) (close_tail local_socket_close_fn a (s_id ps))))"

text \<open>
  The loop of \<open>close_all_sockets\<close>, which starts over after each close. The first argument bounds
  the number of restarts; as many as there are sockets are enough.
\<close>

fun close_matching :: "nat \<Rightarrow> addr \<Rightarrow> addr list \<Rightarrow> 'a sstate_scheme \<Rightarrow> 'a sstate_scheme res" where
  "close_matching k t [] st = Inr st"
| "close_matching k t (a # as) st = bindr (get_sock a st) (\<lambda>s.
     bindr (case peer s of None \<Rightarrow> Inr False
            | Some p \<Rightarrow> bindr (get_sock p st) (\<lambda>ps. Inr (s_transport ps = Some t))) (\<lambda>via_peer.
       if s_transport s = Some t \<or> via_peer then
         case k of 0 \<Rightarrow> Inl TooDeep
         | Suc k \<Rightarrow> bindr (local_socket_close_locked a st) (\<lambda>st. close_matching k t (local_socket_list st) st)
       else close_matching k t as st))"

definition close_all_sockets :: "addr \<Rightarrow> 'a sstate_scheme \<Rightarrow> 'a sstate_scheme res" where
  "close_all_sockets t st = close_matching (length (local_socket_list st)) t (local_socket_list st) st"

section \<open>Writing to a local socket\<close>

text \<open>
  Writing one packet: all of it was accepted, the descriptor would block, or it failed. The flag
  says whether the loop tries again when it is interrupted.
\<close>

datatype wr_result = WDone | WAgain | WFail

function write_loop :: "bool \<Rightarrow> fdesc \<Rightarrow> apacket \<Rightarrow> 'a world_scheme \<Rightarrow> (wr_result \<times> apacket \<times> 'a world_scheme) res" where
  "write_loop eintr fd p w =
     (if pk_len p = 0 then Inr (WDone, p, w)
      else if pk_ptr p + pk_len p > length (pk_data p) then Inl MemFault
      else case adb_write fd (take (pk_len p) (drop (pk_ptr p) (pk_data p))) w of
        Inl e \<Rightarrow> Inl e
      | Inr (IoN r, w') \<Rightarrow>
          if r > 0 then write_loop eintr fd (p\<lparr>pk_len := pk_len p - r, pk_ptr := pk_ptr p + r\<rparr>) w'
          else Inr (WFail, p, w')
      | Inr (IoErr e, w') \<Rightarrow>
          if e = EAGAIN then Inr (WAgain, p, w')
          else if e = EINTR \<and> eintr then write_loop eintr fd p w'
          else Inr (WFail, p, w'))"
  by pat_completeness auto
termination
  by (relation "measure (\<lambda>(b, fd, p, w). pk_len p + length (wr_ev w fd))")
    (auto dest!: adb_write_N simp: adb_write_not_EINTR)

declare write_loop.simps [simp del]

definition local_socket_enqueue :: "addr \<Rightarrow> apacket \<Rightarrow> 'a sstate_scheme \<Rightarrow> (int \<times> 'a sstate_scheme) res" where
  "local_socket_enqueue a p st =
     (let p = p\<lparr>pk_ptr := 0\<rparr>;
          backlog = (\<lambda>p st. bindr (upd_sock a (\<lambda>s. s\<lparr>pkt_q := pkt_q s @ [p]\<rparr>) st) (\<lambda>st.
            bindr (fdevent_add a FDE_WRITE st) (\<lambda>st. Inr (1, st)))) in
      bindr (get_sock a st) (\<lambda>s.
        if pkt_q s \<noteq> [] then backlog p st
        else bindr (write_loop False (s_fd s) p st) (\<lambda>(r, p, st).
          case r of
            WFail \<Rightarrow> bindr (asocket_close a st) (\<lambda>st. Inr (1, st))
          | WDone \<Rightarrow> Inr (0, st)
          | WAgain \<Rightarrow> backlog p st)))"

section \<open>Sending to a transport\<close>

definition remote_socket_enqueue :: "addr \<Rightarrow> apacket \<Rightarrow> 'a sstate_scheme \<Rightarrow> (int \<times> 'a sstate_scheme) res" where
  "remote_socket_enqueue a p st = bindr (get_sock a st) (\<lambda>s.
     bindr (deref (peer s)) (\<lambda>pa. bindr (get_sock pa st) (\<lambda>ps.
       let p = p\<lparr>msg := (msg p)\<lparr>command := A_WRTE, arg0 := s_id ps, arg1 := s_id s, data_length := of_nat (pk_len p)\<rparr>\<rparr> in
       bindr (send_packet p (s_transport s) st) (\<lambda>st. Inr (1, st)))))"

definition remote_socket_ready :: "addr \<Rightarrow> 'a sstate_scheme \<Rightarrow> 'a sstate_scheme res" where
  "remote_socket_ready a st = bindr (get_sock a st) (\<lambda>s.
     bindr (deref (peer s)) (\<lambda>pa. bindr (get_sock pa st) (\<lambda>ps.
       send_packet (message_packet A_OKAY (s_id ps) (s_id s)) (s_transport s) st)))"

definition connect_to_remote :: "addr \<Rightarrow> string \<Rightarrow> 'a sstate_scheme \<Rightarrow> 'a sstate_scheme res" where
  "connect_to_remote a destination st = bindr (get_sock a st) (\<lambda>s.
     let len = length destination + 1 in
     if len > MAX_PAYLOAD - 1 then Inl (Fatal ''destination oversized'')
     else
       let p = get_apacket\<lparr>msg := zero_msg\<lparr>command := A_OPEN, arg0 := s_id s, data_length := of_nat len\<rparr>,
                 pk_data := bytes_of destination @ [0]\<rparr> in
       send_packet p (s_transport s) st)"

text \<open>The disconnect callback of a remote socket.\<close>

definition remote_socket_disconnect_run :: "addr \<Rightarrow> 'a sstate_scheme \<Rightarrow> 'a sstate_scheme res" where
  "remote_socket_disconnect_run a st = bindr (get_sock a st) (\<lambda>s.
     bindr (case peer s of None \<Rightarrow> Inr st
            | Some p \<Rightarrow> bindr (get_sock p st) (\<lambda>ps. asocket_close p (put_sock p (ps\<lparr>peer := None\<rparr>) st))) (\<lambda>st.
     bindr (remove_transport_disconnect (s_transport s) (remote_socket_disconnect a) st) (\<lambda>st.
       Inr (free_sock a st))))"

section \<open>Creating sockets\<close>

text \<open>A socket as \<open>calloc\<close> leaves it, with its embedded event record, which is not in use.\<close>

definition zero_sock :: "enqueue_fn \<Rightarrow> ready_fn \<Rightarrow> close_fn \<Rightarrow> asocket" where
  "zero_sock e r c = \<lparr>s_id = 0, closing = False, exit_on_close = False, peer = None, s_fd = 0, pkt_q = [],
     s_enqueue = e, s_ready = r, s_close = c, s_transport = None, s_flag = 0\<rparr>"

definition zero_fde :: "addr \<Rightarrow> fdevent" where
  "zero_fde a = \<lparr>fde_fd = 0, force_eof = False, fde_state = 0, fde_events = 0, fde_func = local_socket_event_func a\<rparr>"

definition alloc_sock :: "asocket \<Rightarrow> 'a sstate_scheme \<Rightarrow> addr \<times> 'a sstate_scheme" where
  "alloc_sock s st = (let (a, st) = alloc st in (a, put_sock a s (put_fde a (zero_fde a) st)))"

definition create_local_socket :: "int \<Rightarrow> 'a sstate_scheme \<Rightarrow> (addr \<times> 'a sstate_scheme) res" where
  "create_local_socket fd st =
     (let (a, st) = alloc_sock ((zero_sock local_socket_enqueue_fn local_socket_ready_fn local_socket_close_fn)\<lparr>s_fd := fd\<rparr>) st in
      bindr (install_local_socket a st) (\<lambda>st.
      bindr (fdevent_install a fd (local_socket_event_func a) st) (\<lambda>st. Inr (a, st))))"

definition create_remote_socket :: "u32 \<Rightarrow> addr option \<Rightarrow> 'a sstate_scheme \<Rightarrow> (addr \<times> 'a sstate_scheme) res" where
  "create_remote_socket i t st =
     (let (a, st) = alloc_sock ((zero_sock remote_socket_enqueue_fn remote_socket_ready_fn remote_socket_close_fn)
                      \<lparr>s_id := i, s_transport := t\<rparr>) st in
      bindr (add_transport_disconnect t (remote_socket_disconnect a) st) (\<lambda>st. Inr (a, st)))"

definition create_smart_socket :: "'a sstate_scheme \<Rightarrow> addr \<times> 'a sstate_scheme" where
  "create_smart_socket st = alloc_sock (zero_sock smart_socket_enqueue_fn smart_socket_ready_fn smart_socket_close_fn) st"

definition create_device_tracker :: "'a sstate_scheme \<Rightarrow> addr \<times> 'a sstate_scheme" where
  "create_device_tracker st =
     (let (a, st) = alloc_sock ((zero_sock device_tracker_enqueue_fn device_tracker_ready_fn device_tracker_close_fn)
                      \<lparr>s_flag := 1\<rparr>) st in
      (a, st\<lparr>device_tracker_list := a # device_tracker_list st\<rparr>))"

definition create_jdwp_service_socket :: "'a sstate_scheme \<Rightarrow> (addr \<times> 'a sstate_scheme) res" where
  "create_jdwp_service_socket st =
     (let (a, st) = alloc_sock (zero_sock jdwp_socket_enqueue_fn jdwp_socket_ready_fn jdwp_socket_close_fn) st in
      bindr (install_local_socket a st) (\<lambda>st. Inr (a, st)))"

definition create_jdwp_tracker_service_socket :: "'a sstate_scheme \<Rightarrow> (addr \<times> 'a sstate_scheme) res" where
  "create_jdwp_tracker_service_socket st =
     (let (a, st) = alloc_sock ((zero_sock jdwp_tracker_enqueue_fn jdwp_tracker_ready_fn jdwp_tracker_close_fn)\<lparr>s_flag := 1\<rparr>) st in
      bindr (install_local_socket a (st\<lparr>jdwp_trackers_list := jdwp_trackers_list st @ [a]\<rparr>)) (\<lambda>st. Inr (a, st)))"

text \<open>
  A socket for a service of this process. \<open>to_fd\<close> is \<open>service_to_fd\<close>, \<open>root\<close> says whether the
  daemon runs as root.
\<close>

definition create_local_service_socket :: "(string \<Rightarrow> 'a sstate_scheme \<Rightarrow> (int \<times> 'a sstate_scheme) res) \<Rightarrow> bool
    \<Rightarrow> string \<Rightarrow> 'a sstate_scheme \<Rightarrow> (addr option \<times> 'a sstate_scheme) res" where
  "create_local_service_socket to_fd root name st =
     (if \<not> ADB_HOST st \<and> name = ''jdwp'' then bindr (create_jdwp_service_socket st) (\<lambda>(a, st). Inr (Some a, st))
      else if \<not> ADB_HOST st \<and> name = ''track-jdwp'' then
        bindr (create_jdwp_tracker_service_socket st) (\<lambda>(a, st). Inr (Some a, st))
      else bindr (to_fd name st) (\<lambda>(fd, st).
        if fd < 0 then Inr (None, st)
        else bindr (create_local_socket fd st) (\<lambda>(a, st).
          if \<not> ADB_HOST st \<and> (strncmp_eq name ''root:'' 5 \<and> \<not> root \<or> strncmp_eq name ''usb:'' 4 \<or> strncmp_eq name ''tcpip:'' 6)
          then bindr (upd_sock a (\<lambda>s. s\<lparr>exit_on_close := True\<rparr>) st) (\<lambda>st. Inr (Some a, st))
          else Inr (Some a, st))))"

section \<open>Process lists\<close>

text \<open>The process ids, one per line, as far as they fit; connections that have not sent theirs are skipped.\<close>

fun pid_lines :: "int \<Rightarrow> addr list \<Rightarrow> string \<Rightarrow> 'a sstate_scheme \<Rightarrow> string res" where
  "pid_lines bufferlen [] txt st = Inr txt"
| "pid_lines bufferlen (j # js) txt st = bindr (from_opt MemFault (jdwp_procs st j)) (\<lambda>proc.
     if j_pid proc < 0 then pid_lines bufferlen js txt st
     else
       let line = fmt_d (j_pid proc) @ [CHR 0x0a] in
       if int (length txt) + int (length line) \<ge> bufferlen then Inr txt
       else pid_lines bufferlen js (txt @ line) st)"

definition jdwp_process_list :: "int \<Rightarrow> 'a sstate_scheme \<Rightarrow> string res" where
  "jdwp_process_list bufferlen st = pid_lines bufferlen (jdwp_list st) [] st"

definition jdwp_process_list_msg :: "int \<Rightarrow> 'a sstate_scheme \<Rightarrow> string res" where
  "jdwp_process_list_msg bufferlen st =
     bindr (jdwp_process_list (bufferlen - 4) st) (\<lambda>txt. Inr (take 4 (fmt_04x (length txt)) @ txt))"

definition text_packet :: "string \<Rightarrow> apacket" where
  "text_packet txt = get_apacket\<lparr>pk_len := length txt, pk_data := bytes_of txt\<rparr>"

section \<open>Calling through the function pointers\<close>

text \<open>The smart socket's enqueue function is an argument here; it is defined below.\<close>

type_synonym 's enqueue = "addr \<Rightarrow> apacket \<Rightarrow> 's \<Rightarrow> (int \<times> 's) res"

definition close_peer_of :: "addr \<Rightarrow> 'a sstate_scheme \<Rightarrow> 'a sstate_scheme res" where
  "close_peer_of a st = bindr (get_sock a st) (\<lambda>s. bindr (deref (peer s)) (\<lambda>p. asocket_close p st))"

definition device_tracker_enqueue :: "'a sstate_scheme enqueue" where
  [simp]: "device_tracker_enqueue a p st = bindr (asocket_close a st) (\<lambda>st. Inr (-1, st))"

definition jdwp_socket_enqueue :: "'a sstate_scheme enqueue" where
  [simp]: "jdwp_socket_enqueue a p st = bindr (close_peer_of a st) (\<lambda>st. Inr (-1, st))"

definition jdwp_tracker_enqueue :: "'a sstate_scheme enqueue" where
  [simp]: "jdwp_tracker_enqueue a p st = bindr (close_peer_of a st) (\<lambda>st. Inr (-1, st))"

definition asocket_enqueue :: "'a sstate_scheme enqueue \<Rightarrow> 'a sstate_scheme enqueue" where
  "asocket_enqueue smart a p st = bindr (get_sock a st) (\<lambda>s.
     case s_enqueue s of
       local_socket_enqueue_fn \<Rightarrow> local_socket_enqueue a p st
     | remote_socket_enqueue_fn \<Rightarrow> remote_socket_enqueue a p st
     | smart_socket_enqueue_fn \<Rightarrow> smart a p st
     | device_tracker_enqueue_fn \<Rightarrow> device_tracker_enqueue a p st
     | jdwp_socket_enqueue_fn \<Rightarrow> jdwp_socket_enqueue a p st
     | jdwp_tracker_enqueue_fn \<Rightarrow> jdwp_tracker_enqueue a p st)"

definition device_tracker_send :: "'a sstate_scheme enqueue \<Rightarrow> addr \<Rightarrow> string \<Rightarrow> 'a sstate_scheme \<Rightarrow> 'a sstate_scheme res" where
  "device_tracker_send smart a txt st = bindr (get_sock a st) (\<lambda>s.
     bindr (deref (peer s)) (\<lambda>p. bindr (asocket_enqueue smart p (text_packet txt) st) (\<lambda>(r, st). Inr st)))"

definition local_socket_ready :: "addr \<Rightarrow> 'a sstate_scheme \<Rightarrow> 'a sstate_scheme res" where
  "local_socket_ready a st = fdevent_add a FDE_READ st"

definition device_tracker_ready :: "'a sstate_scheme enqueue \<Rightarrow> addr \<Rightarrow> 'a sstate_scheme \<Rightarrow> 'a sstate_scheme res" where
  "device_tracker_ready smart a st = bindr (get_sock a st) (\<lambda>s.
     if s_flag s > 0 then
       let st = put_sock a (s\<lparr>s_flag := 0\<rparr>) st in
       bindr (list_transports_msg 1024 st) (\<lambda>txt. device_tracker_send smart a txt st)
     else Inr st)"

definition jdwp_socket_ready :: "'a sstate_scheme enqueue \<Rightarrow> addr \<Rightarrow> 'a sstate_scheme \<Rightarrow> 'a sstate_scheme res" where
  "jdwp_socket_ready smart a st = bindr (get_sock a st) (\<lambda>s.
     if s_flag s = 0 then
       bindr (jdwp_process_list (int MAX_PAYLOAD) st) (\<lambda>txt.
       bindr (deref (peer s)) (\<lambda>p.
       bindr (asocket_enqueue smart p (text_packet txt) st) (\<lambda>(r, st). upd_sock a (\<lambda>s. s\<lparr>s_flag := 1\<rparr>) st)))
     else bindr (deref (peer s)) (\<lambda>p. asocket_close p st))"

definition jdwp_tracker_ready :: "'a sstate_scheme enqueue \<Rightarrow> addr \<Rightarrow> 'a sstate_scheme \<Rightarrow> 'a sstate_scheme res" where
  "jdwp_tracker_ready smart a st = bindr (get_sock a st) (\<lambda>s.
     if s_flag s \<noteq> 0 then
       let st = put_sock a (s\<lparr>s_flag := 0\<rparr>) st in
       bindr (jdwp_process_list_msg (int MAX_PAYLOAD) st) (\<lambda>txt.
       bindr (deref (peer s)) (\<lambda>p. bindr (asocket_enqueue smart p (text_packet txt) st) (\<lambda>(r, st). Inr st)))
     else Inr st)"

definition local_socket_ready_notify :: "addr \<Rightarrow> 'a sstate_scheme \<Rightarrow> 'a sstate_scheme res" where
  "local_socket_ready_notify a st = bindr (get_sock a st) (\<lambda>s.
     bindr (adb_write (s_fd s) (bytes_of ''OKAY'')
             (put_sock a (s\<lparr>s_ready := local_socket_ready_fn, s_close := local_socket_close_fn\<rparr>) st)) (\<lambda>(r, st).
       local_socket_ready a st))"

definition smart_socket_ready :: "addr \<Rightarrow> 'a sstate_scheme \<Rightarrow> 'a sstate_scheme res" where
  [simp]: "smart_socket_ready a st = Inr st"

definition asocket_ready :: "'a sstate_scheme enqueue \<Rightarrow> addr \<Rightarrow> 'a sstate_scheme \<Rightarrow> 'a sstate_scheme res" where
  "asocket_ready smart a st = bindr (get_sock a st) (\<lambda>s.
     case s_ready s of
       local_socket_ready_fn \<Rightarrow> local_socket_ready a st
     | local_socket_ready_notify_fn \<Rightarrow> local_socket_ready_notify a st
     | remote_socket_ready_fn \<Rightarrow> remote_socket_ready a st
     | smart_socket_ready_fn \<Rightarrow> smart_socket_ready a st
     | device_tracker_ready_fn \<Rightarrow> device_tracker_ready smart a st
     | jdwp_socket_ready_fn \<Rightarrow> jdwp_socket_ready smart a st
     | jdwp_tracker_ready_fn \<Rightarrow> jdwp_tracker_ready smart a st)"

text \<open>Telling all device trackers, or all process trackers, about a change. The loops fetch the
  next tracker before, respectively after, the current one has been sent its text.\<close>

fun send_trackers :: "'a sstate_scheme enqueue \<Rightarrow> string \<Rightarrow> addr list \<Rightarrow> 'a sstate_scheme \<Rightarrow> 'a sstate_scheme res" where
  "send_trackers smart txt [] st = Inr st"
| "send_trackers smart txt (a # as) st = bindr (device_tracker_send smart a txt st) (send_trackers smart txt as)"

definition update_transports :: "'a sstate_scheme enqueue \<Rightarrow> 'a sstate_scheme \<Rightarrow> 'a sstate_scheme res" where
  "update_transports smart st =
     (if ADB_HOST st then bindr (list_transports_msg 1024 st) (\<lambda>txt. send_trackers smart txt (device_tracker_list st) st)
      else Inr st)"

fun send_jdwp_trackers :: "'a sstate_scheme enqueue \<Rightarrow> string \<Rightarrow> addr list \<Rightarrow> 'a sstate_scheme \<Rightarrow> 'a sstate_scheme res" where
  "send_jdwp_trackers smart txt [] st = Inr st"
| "send_jdwp_trackers smart txt (a # as) st = bindr (device_tracker_send smart a txt st) (\<lambda>st.
     bindr (get_sock a st) (\<lambda>s. send_jdwp_trackers smart txt as st))"

definition jdwp_process_list_updated :: "'a sstate_scheme enqueue \<Rightarrow> 'a sstate_scheme \<Rightarrow> 'a sstate_scheme res" where
  "jdwp_process_list_updated smart st =
     bindr (jdwp_process_list_msg 1024 st) (\<lambda>txt. send_jdwp_trackers smart txt (jdwp_trackers_list st) st)"

definition connect_to_smartsocket :: "'a sstate_scheme enqueue \<Rightarrow> addr \<Rightarrow> 'a sstate_scheme \<Rightarrow> 'a sstate_scheme res" where
  "connect_to_smartsocket smart a st =
     (let (ss, st) = create_smart_socket st in
      bindr (upd_sock a (\<lambda>s. s\<lparr>peer := Some ss\<rparr>) st) (\<lambda>st.
      bindr (upd_sock ss (\<lambda>s. s\<lparr>peer := Some a\<rparr>) st) (asocket_ready smart a)))"

section \<open>The smart socket\<close>

text \<open>
  The functions of adb.c and services.c that the smart socket calls: \<open>handle_host_request\<close> with
  the service, the transport type, the serial number, the descriptor to reply on and the socket;
  and \<open>host_service_to_socket\<close>.
\<close>

record 's host_calls =
  handle_host_request_fn :: "string \<Rightarrow> transport_type \<Rightarrow> string option \<Rightarrow> int \<Rightarrow> addr \<Rightarrow> 's \<Rightarrow> (int \<times> 's) res"
  host_service_to_socket_fn :: "string \<Rightarrow> string option \<Rightarrow> 's \<Rightarrow> (addr option \<times> 's) res"

definition has_prefix :: "string \<Rightarrow> string \<Rightarrow> bool" where
  "has_prefix s pre = strncmp_eq s pre (length pre)"

text \<open>The part of a request behind its \<open>host\<close> prefix, with the transport type and serial number it names.\<close>

definition host_prefix :: "string \<Rightarrow> (string \<times> transport_type \<times> string option) option" where
  "host_prefix service =
     (if has_prefix service ''host-serial:'' then
        let service = drop (length ''host-serial:'') service in
        (case skip_host_serial service of
           Some n \<Rightarrow> Some (drop (Suc n) service, kTransportAny, Some (take n service))
         | None \<Rightarrow> Some (service, kTransportAny, None))
      else if has_prefix service ''host-usb:'' then Some (drop (length ''host-usb:'') service, kTransportUsb, None)
      else if has_prefix service ''host-local:'' then Some (drop (length ''host-local:'') service, kTransportLocal, None)
      else if has_prefix service ''host:'' then Some (drop (length ''host:'') service, kTransportAny, None)
      else None)"

definition smart_fail :: "addr \<Rightarrow> 'a sstate_scheme \<Rightarrow> (int \<times> 'a sstate_scheme) res" where
  "smart_fail a st = bindr (asocket_close a st) (\<lambda>st. Inr (-1, st))"

text \<open>A message for the client: the descriptor of the smart socket's peer.\<close>

definition peer_fd :: "addr \<Rightarrow> 'a sstate_scheme \<Rightarrow> int res" where
  "peer_fd a st = bindr (get_sock a st) (\<lambda>s. bindr (deref (peer s)) (\<lambda>p. bindr (get_sock p st) (\<lambda>ps. Inr (s_fd ps))))"

definition smart_refuse :: "addr \<Rightarrow> string \<Rightarrow> 'a sstate_scheme \<Rightarrow> (int \<times> 'a sstate_scheme) res" where
  "smart_refuse a reason st = bindr (peer_fd a st) (\<lambda>fd. bindr (sendfailmsg fd reason st) (\<lambda>(r, st). smart_fail a st))"

text \<open>A request for the server itself.\<close>

definition smart_host_service :: "('a sstate_scheme) host_calls \<Rightarrow> 'a sstate_scheme enqueue \<Rightarrow> addr \<Rightarrow> string
    \<Rightarrow> transport_type \<Rightarrow> string option \<Rightarrow> 'a sstate_scheme \<Rightarrow> (int \<times> 'a sstate_scheme) res" where
  "smart_host_service calls smart a service ttype ser st = bindr (peer_fd a st) (\<lambda>fd.
     bindr (handle_host_request_fn calls service ttype ser fd a st) (\<lambda>(r, st).
       if r = 0 then smart_fail a st
       else if has_prefix service ''transport'' then
         bindr (upd_sock a (\<lambda>s. s\<lparr>pkt_q := map (\<lambda>p. p\<lparr>pk_len := 0\<rparr>) (pkt_q s)\<rparr>) st) (\<lambda>st. Inr (0, st))
       else bindr (host_service_to_socket_fn calls service ser st) (\<lambda>(s2, st).
         case s2 of
           None \<Rightarrow> smart_refuse a ''unknown host service'' st
         | Some s2 \<Rightarrow>
             bindr (get_sock a st) (\<lambda>s. bindr (deref (peer s)) (\<lambda>p. bindr (get_sock p st) (\<lambda>ps.
             bindr (adb_write (s_fd ps) (bytes_of ''OKAY'') st) (\<lambda>(r, st).
             bindr (upd_sock p (\<lambda>x. x\<lparr>s_ready := local_socket_ready_fn, s_close := local_socket_close_fn, peer := Some s2\<rparr>) st) (\<lambda>st.
             bindr (upd_sock s2 (\<lambda>x. x\<lparr>peer := Some p\<rparr>) st) (\<lambda>st.
             bindr (upd_sock a (\<lambda>x. x\<lparr>peer := None\<rparr>) st) (\<lambda>st.
             bindr (asocket_close a st) (\<lambda>st.
             bindr (asocket_ready smart s2 st) (\<lambda>st. Inr (0, st)))))))))))))"

text \<open>A request to be passed on to the device: the transport is the one set before or, in the daemon, the only one.\<close>

definition smart_transport :: "addr \<Rightarrow> 'a sstate_scheme \<Rightarrow> ((string + addr option) \<times> 'a sstate_scheme) res" where
  "smart_transport a st = bindr (get_sock a st) (\<lambda>s.
     if ADB_HOST st \<or> s_transport s \<noteq> None then Inr (Inr (s_transport s), st)
     else case acquire_one_transport CS_ANY kTransportAny None [st] of
       None \<Rightarrow> Inl Blocks
     | Some (Inl e) \<Rightarrow> Inl e
     | Some (Inr (Inl err)) \<Rightarrow> Inr (Inl err, st)
     | Some (Inr (Inr t)) \<Rightarrow> Inr (Inr (Some t), put_sock a (s\<lparr>s_transport := Some t\<rparr>) st))"

definition smart_connect :: "addr \<Rightarrow> string \<Rightarrow> 'a sstate_scheme \<Rightarrow> (int \<times> 'a sstate_scheme) res" where
  "smart_connect a service st = bindr (smart_transport a st) (\<lambda>(r, st).
     case r of
       Inl err \<Rightarrow> smart_refuse a err st
     | Inr t \<Rightarrow>
         bindr (case t of None \<Rightarrow> Inr True
                | Some t \<Rightarrow> bindr (get_transport t st) (\<lambda>tr. Inr (connection_state tr = CS_OFFLINE))) (\<lambda>offline.
         if offline then smart_refuse a ''device offline (x)'' st
         else
           bindr (get_sock a st) (\<lambda>s. bindr (deref (peer s)) (\<lambda>p.
           bindr (upd_sock p (\<lambda>x. x\<lparr>s_ready := local_socket_ready_notify_fn, s_close := local_socket_close_notify_fn,
                                peer := None, s_transport := t\<rparr>) st) (\<lambda>st.
           bindr (connect_to_remote p service st) (\<lambda>st.
           bindr (upd_sock a (\<lambda>x. x\<lparr>peer := None\<rparr>) st) (\<lambda>st.
           bindr (asocket_close a st) (\<lambda>st. Inr (1, st)))))))))"

text \<open>A request that is complete.\<close>

definition smart_request :: "('a sstate_scheme) host_calls \<Rightarrow> 'a sstate_scheme enqueue \<Rightarrow> addr \<Rightarrow> string
    \<Rightarrow> 'a sstate_scheme \<Rightarrow> (int \<times> 'a sstate_scheme) res" where
  "smart_request calls smart a service st =
     (case (if ADB_HOST st then host_prefix service else None) of
        Some (service, ttype, ser) \<Rightarrow> smart_host_service calls smart a service ttype ser st
      | None \<Rightarrow> smart_connect a service st)"

text \<open>The bytes of a packet the smart socket holds.\<close>

definition held_bytes :: "apacket \<Rightarrow> byte list res" where
  "held_bytes p = (if pk_len p > length (pk_data p) then Inl MemFault else Inr (take (pk_len p) (pk_data p)))"

definition smart_socket_enqueue :: "('a sstate_scheme) host_calls \<Rightarrow> 'a sstate_scheme enqueue \<Rightarrow> 'a sstate_scheme enqueue" where
  "smart_socket_enqueue calls smart a p st = bindr (get_sock a st) (\<lambda>s.
     bindr (held_bytes p) (\<lambda>new.
     bindr (case pkt_q s of [] \<Rightarrow> Inr [] | q # qs \<Rightarrow> held_bytes q) (\<lambda>old.
       if pkt_q s \<noteq> [] \<and> length old + length new > MAX_PAYLOAD then smart_fail a st
       else
         let bs = old @ new; p = (case pkt_q s of [] \<Rightarrow> p | q # qs \<Rightarrow> q)\<lparr>pk_len := length bs, pk_data := bs\<rparr>; st = put_sock a (s\<lparr>pkt_q := [p]\<rparr>) st in
         if length bs < 4 then Inr (0, st)
         else bindr (unhex bs 4) (\<lambda>len.
           if unat len < 1 \<or> unat len > 1024 then smart_fail a st
           else if unat len + 4 > length bs then Inr (0, st)
           else smart_request calls smart a (cstr (take (unat len) (drop 4 bs))) st))))"

text \<open>
  The smart socket calls the ready function of the service it has connected, which may call the
  enqueue function of the client's local socket, but no smart socket again: two levels are enough.
\<close>

primrec smart_at :: "nat \<Rightarrow> ('a sstate_scheme) host_calls \<Rightarrow> 'a sstate_scheme enqueue" where
  "smart_at 0 calls = (\<lambda>a p st. Inl TooDeep)"
| "smart_at (Suc k) calls = smart_socket_enqueue calls (smart_at k calls)"

definition smart_enqueue :: "('a sstate_scheme) host_calls \<Rightarrow> 'a sstate_scheme enqueue" where
  "smart_enqueue calls = smart_at 2 calls"

section \<open>Events on a local socket\<close>

text \<open>Writing the queued packets: what is left of the queue and why the loop stopped.\<close>

fun drain_queue :: "fdesc \<Rightarrow> apacket list \<Rightarrow> 'a world_scheme \<Rightarrow> (wr_result \<times> apacket list \<times> 'a world_scheme) res" where
  "drain_queue fd [] w = Inr (WDone, [], w)"
| "drain_queue fd (p # ps) w = bindr (write_loop True fd p w) (\<lambda>(r, p, w).
     case r of WDone \<Rightarrow> drain_queue fd ps w | _ \<Rightarrow> Inr (r, p # ps, w))"

text \<open>\<open>False\<close> in the result means that the handler returns at once.\<close>

definition local_socket_write_event :: "'a sstate_scheme enqueue \<Rightarrow> addr \<Rightarrow> int \<Rightarrow> 'a sstate_scheme \<Rightarrow> (bool \<times> 'a sstate_scheme) res" where
  "local_socket_write_event smart a fd st = bindr (get_sock a st) (\<lambda>s.
     bindr (drain_queue fd (pkt_q s) st) (\<lambda>(r, q, st).
       let st = put_sock a (s\<lparr>pkt_q := q\<rparr>) st in
       case r of
         WAgain \<Rightarrow> Inr (False, st)
       | WFail \<Rightarrow> bindr (asocket_close a st) (\<lambda>st. Inr (False, st))
       | WDone \<Rightarrow>
           if closing s then bindr (asocket_close a st) (\<lambda>st. Inr (False, st))
           else
             bindr (fdevent_del a FDE_WRITE st) (\<lambda>st.
             bindr (deref (peer s)) (\<lambda>p.
             bindr (asocket_ready smart p st) (\<lambda>st. Inr (True, st))))))"

text \<open>Reading as much as fits a packet: the data, whether the end was seen, and the last return value.\<close>

function read_loop :: "fdesc \<Rightarrow> nat \<Rightarrow> int \<Rightarrow> 'a world_scheme \<Rightarrow> (byte list \<times> bool \<times> int \<times> 'a world_scheme) res" where
  "read_loop fd avail r w =
     (if avail = 0 then Inr ([], False, r, w)
      else case adb_read fd avail w of
        Inl e \<Rightarrow> Inl e
      | Inr (IoN n, bs, w') \<Rightarrow>
          if n > 0 then bindr (read_loop fd (avail - n) (int n) w') (\<lambda>(ds, eof, r, w). Inr (bs @ ds, eof, r, w))
          else Inr ([], True, 0, w')
      | Inr (IoErr e, bs, w') \<Rightarrow>
          if e = EAGAIN then Inr ([], False, -1, w')
          else if e = EINTR then read_loop fd avail (-1) w'
          else Inr ([], True, -1, w'))"
  by pat_completeness auto
termination
  by (relation "measure (\<lambda>(fd, avail, r, w). avail + length (rd_ev w fd))")
    (auto dest: adb_read_N simp: adb_read_not_EINTR)

declare read_loop.simps [simp del]

definition local_socket_read_event :: "'a sstate_scheme enqueue \<Rightarrow> addr \<Rightarrow> int \<Rightarrow> 'a sstate_scheme \<Rightarrow> 'a sstate_scheme res" where
  "local_socket_read_event smart a fd st =
     bindr (read_loop fd MAX_PAYLOAD 0 st) (\<lambda>(ds, eof, r, st).
     bindr (get_sock a st) (\<lambda>s.
     bindr (case peer s of
              None \<Rightarrow> Inr (Some r, st)
            | Some p \<Rightarrow>
                if ds = [] then Inr (Some r, st)
                else bindr (asocket_enqueue smart p (get_apacket\<lparr>pk_len := length ds, pk_data := ds\<rparr>) st) (\<lambda>(r, st).
                  if r < 0 then Inr (None, st)
                  else if r > 0 then bindr (fdevent_del a FDE_READ st) (\<lambda>st. Inr (Some r, st))
                  else Inr (Some r, st))) (\<lambda>(r, st).
       case r of
         None \<Rightarrow> Inr st
       | Some r \<Rightarrow> bindr (get_fde a st) (\<lambda>f.
           if force_eof f \<and> r = 0 \<or> eof then asocket_close a st else Inr st))))"

definition local_socket_event :: "'a sstate_scheme enqueue \<Rightarrow> addr \<Rightarrow> int \<Rightarrow> u16 \<Rightarrow> 'a sstate_scheme \<Rightarrow> 'a sstate_scheme res" where
  "local_socket_event smart a fd ev st =
     bindr (if has ev FDE_WRITE then local_socket_write_event smart a fd st else Inr (True, st)) (\<lambda>(go_on, st).
       if go_on \<and> has ev FDE_READ then local_socket_read_event smart a fd st else Inr st)"

end
