(* ===== verification/SocketInv.thy ===== *)
theory SocketInv
  imports Sockets
begin

text \<open>
  The invariant of the socket layer: sockets are connected in pairs, every socket has its event
  record, the two lists hold existing sockets, and the event loop is consistent. Closing a socket
  through its function pointer keeps it, closes both ends and leaves every other socket alone;
  \<open>close_all_sockets\<close> ends and leaves no socket of the transport behind.
\<close>

section \<open>Which event records are active\<close>

definition act :: "'a fdstate_scheme \<Rightarrow> addr \<Rightarrow> bool option" where
  "act st a = map_option (\<lambda>f. has (fde_state f) FDE_ACTIVE) (fdes st a)"

lemma act_put_fde [simp]: "act (put_fde a f st) = (act st)(a \<mapsto> has (fde_state f) FDE_ACTIVE)"
  by (auto simp: act_def)

lemma act_watch [simp]: "act (watch_fd i ev st) = act st"
  by (simp add: act_def fun_eq_iff)

lemma act_same: "fdes st a = Some f \<Longrightarrow> (act st)(a \<mapsto> has (fde_state f) FDE_ACTIVE) = act st"
  by (auto simp: act_def)

lemma act_pending [simp]: "act (st\<lparr>list_pending := x\<rparr>) = act st"
  by (simp add: act_def fun_eq_iff)

lemma fdevent_set_act: "fdevent_set a ev st = Inr st' \<Longrightarrow> act st' = act st"
proof -
  assume ok: "fdevent_set a ev st = Inr st'"
  then obtain f where f: "fdes st a = Some f" by (auto simp: fdevent_set_def bindr_eq_Inr Let_def)
  let ?s = "(fde_state f AND FDE_STATEMASK) OR (ev AND FDE_EVENTMASK)"
  have b: "has ?s FDE_ACTIVE = has (fde_state f) FDE_ACTIVE"
    "has (?s AND NOT FDE_PENDING) FDE_ACTIVE = has (fde_state f) FDE_ACTIVE"
    by (simp_all add: flag_bits)
  have A: "has (fde_state f) FDE_ACTIVE \<Longrightarrow> (act st)(a \<mapsto> True) = act st"
    "\<not> has (fde_state f) FDE_ACTIVE \<Longrightarrow> (act st)(a \<mapsto> False) = act st" using act_same [OF f] by auto
  show ?thesis
    using ok f b
    by (auto simp: A fdevent_set_def get_fde_def Let_def bindr_eq_Inr fdevent_update_def fdevent_plist_remove_def
        act_same [OF f] split: if_splits)
qed

lemma fdevent_add_act: "fdevent_add a ev st = Inr st' \<Longrightarrow> act st' = act st"
  by (auto simp: fdevent_add_def bindr_eq_Inr dest: fdevent_set_act)

lemma fdevent_del_act: "fdevent_del a ev st = Inr st' \<Longrightarrow> act st' = act st"
  by (auto simp: fdevent_del_def bindr_eq_Inr dest: fdevent_set_act)

lemma disconnect_fdes: "fdevent_disconnect a st = Inr st' \<Longrightarrow> fdes st' = fdes st"
  by (auto simp: fdevent_disconnect_def bindr_eq_Inr Let_def split: if_splits)

lemma unregister_fdes: "fdevent_unregister a st = Inr st' \<Longrightarrow> fdes st' = fdes st"
  by (auto simp: fdevent_unregister_def bindr_eq_Inr Let_def adb_close_def split: if_splits)

lemma fdevent_remove_act: "fdevent_remove a st = Inr st' \<Longrightarrow> act st' = (act st)(a \<mapsto> False)"
  by (auto simp: fdevent_remove_def bindr_eq_Inr fdevent_plist_remove_def act_def fun_eq_iff
      split: if_splits dest!: disconnect_fdes unregister_fdes)

lemma fdevent_install_act: "fd_inv st \<Longrightarrow> fdevent_install a fd fn st = Inr st' \<Longrightarrow> act st' = (act st)(a \<mapsto> True)"
  using fdevent_install_result [of st a fd fn st'] by (simp add: act_def fun_eq_iff flag_bits)

lemma act_inactive: "inactive st a \<longleftrightarrow> act st a \<noteq> Some True"
  by (auto simp: inactive_def act_def)

section \<open>The socket invariant\<close>

definition is_local :: "asocket \<Rightarrow> bool" where
  "is_local s \<longleftrightarrow> s_close s = local_socket_close_fn \<or> s_close s = local_socket_close_notify_fn"

definition linkable :: "asocket \<Rightarrow> bool" where
  "linkable s \<longleftrightarrow> is_local s \<or> s_close s = jdwp_socket_close_fn \<or> s_close s = jdwp_tracker_close_fn"

text \<open>
  The sockets outside \<open>E\<close> are connected in pairs: the peer of a socket exists and has this socket
  as its peer. Every socket has its event record, active only for local sockets; the two lists
  hold existing sockets, each once, and the sockets on the closing list are closing and have no peer.
\<close>

definition paired :: "addr set \<Rightarrow> 'a sstate_scheme \<Rightarrow> bool" where
  "paired E st \<longleftrightarrow> (\<forall>a s p. socks st a = Some s \<longrightarrow> a \<notin> E \<longrightarrow> peer s = Some p \<longrightarrow>
     p \<noteq> a \<and> (\<exists>ps. socks st p = Some ps \<and> peer ps = Some a))"

definition fde_ok :: "'a sstate_scheme \<Rightarrow> bool" where
  "fde_ok st \<longleftrightarrow> (\<forall>a s. socks st a = Some s \<longrightarrow> a < next_addr st \<and> 4 dvd a \<and> (\<exists>b. act st a = Some b \<and> (b \<longrightarrow> is_local s)))
     \<and> 4 dvd next_addr st \<and> (\<forall>a \<ge> next_addr st. 4 dvd a \<longrightarrow> act st a = None)"

definition lists_ok :: "'a sstate_scheme \<Rightarrow> bool" where
  "lists_ok st \<longleftrightarrow> distinct (local_socket_list st @ local_socket_closing_list st)
     \<and> (\<forall>a \<in> set (local_socket_list st). \<exists>s. socks st a = Some s \<and> linkable s)
     \<and> (\<forall>a \<in> set (local_socket_closing_list st). \<exists>s. socks st a = Some s \<and> linkable s \<and> closing s \<and> peer s = None)"

definition sock_inv :: "addr set \<Rightarrow> 'a sstate_scheme \<Rightarrow> bool" where
  "sock_inv E st \<longleftrightarrow> fd_inv st \<and> paired E st \<and> fde_ok st \<and> lists_ok st"

lemmas sock_inv_unfold = sock_inv_def paired_def fde_ok_def lists_ok_def

lemma pairedD:
  assumes "sock_inv E st" "socks st a = Some s" "a \<notin> E" "peer s = Some p"
  obtains ps where "p \<noteq> a" "socks st p = Some ps" "peer ps = Some a"
  using assms unfolding sock_inv_def paired_def by blast

text \<open>What the invariant depends on.\<close>

lemma fd_inv_cong:
  assumes "fdes st' = fdes st" "list_pending st' = list_pending st" "fd_table st' = fd_table st"
    "select_n st' = select_n st" "read_fds st' = read_fds st" "write_fds st' = write_fds st" "error_fds st' = error_fds st"
  shows "fd_inv st' = fd_inv st"
  using assms by (simp add: fd_inv_unfold)

lemma sock_inv_simps [simp]:
  "sock_inv E (wr_done fd bs cs es st) = sock_inv E st"
  "sock_inv E (st\<lparr>pipe := x\<rparr>) = sock_inv E st"
  "sock_inv E (put_transport t tr st) = sock_inv E st"
  "sock_inv E (rd_set fd rs st) = sock_inv E st"
  by (simp_all add: sock_inv_unfold act_def wr_done_def fd_inv_unfold put_transport_def rd_set_def)

lemma socks_simps [simp]:
  "socks (put_transport t tr st) = socks st"
  "socks (rd_set fd rs st) = socks st"
  "local_socket_list (put_transport t tr st) = local_socket_list st"
  "local_socket_closing_list (put_transport t tr st) = local_socket_closing_list st"
  by (simp_all add: put_transport_def rd_set_def)

lemma fd_frame_sstate:
  assumes "fd_frame st st'"
  shows "socks st' = socks st" "local_socket_list st' = local_socket_list st"
    "local_socket_closing_list st' = local_socket_closing_list st" "next_addr st' = next_addr st"
    "local_socket_next_id st' = local_socket_next_id st" "sstate.more st' = sstate.more st"
  using assms by (cases st; cases st'; simp add: fd_frame_def)+

definition unlisted :: "'a sstate_scheme \<Rightarrow> addr \<Rightarrow> bool" where
  "unlisted st a \<longleftrightarrow> a \<notin> set (local_socket_list st) \<and> a \<notin> set (local_socket_closing_list st)"

lemma unlisted_simps [simp]:
  "unlisted (wr_done fd bs cs es st) = unlisted st"
  "unlisted (st\<lparr>pipe := x\<rparr>) = unlisted st"
  "unlisted (put_transport t tr st) = unlisted st"
  "unlisted (rd_set fd rs st) = unlisted st"
  "unlisted (put_sock a s st) = unlisted st"
  "unlisted (free_sock a st) = unlisted st"
  "unlisted (st\<lparr>device_tracker_list := y\<rparr>) = unlisted st"
  "unlisted (st\<lparr>jdwp_trackers_list := y\<rparr>) = unlisted st"
  by (simp_all add: unlisted_def fun_eq_iff put_transport_def rd_set_def free_sock_def)

text \<open>Sending a packet and unregistering a callback do not touch the sockets.\<close>

lemma write_packet_frame:
  "write_packet fd p st = Inr (r, st') \<Longrightarrow> \<exists>ds cs es x. st' = (wr_done fd ds cs es st)\<lparr>pipe := x\<rparr>"
proof -
  assume "write_packet fd p st = Inr (r, st')"
  then obtain r1 s1 where w: "writex_rest fd (replicate sizeof_ptr 0) st = Inr (r1, s1)"
    and r: "st' = s1 \<or> (\<exists>x. st' = s1\<lparr>pipe := x\<rparr>)"
    by (auto simp: write_packet_def bindr_eq_Inr Let_def split: if_splits)
  have "\<exists>ds cs es. s1 = wr_done fd ds cs es st"
    using writex_rest_spec [of "replicate sizeof_ptr 0" fd st] w
    by (auto simp: wr_prefix_def sizeof_ptr_def writex_maxnum_def SYNC_DATA_MAX_def)
  then show ?thesis using r by (auto intro: exI [of _ "pipe s1"]) (metis tstate.surjective tstate.update_convs(9))+
qed

lemma send_packet_frame:
  "send_packet p t st = Inr st' \<Longrightarrow> \<exists>fd ds cs es x. st' = (wr_done fd ds cs es st)\<lparr>pipe := x\<rparr>"
  by (auto simp: send_packet_def bindr_eq_Inr split: option.splits if_splits dest!: write_packet_frame) blast

lemma send_packet_inv: "send_packet p t st = Inr st' \<Longrightarrow> sock_inv E st' = sock_inv E st \<and> socks st' = socks st \<and> unlisted st' = unlisted st"
  by (auto dest!: send_packet_frame)

lemma remove_disconnect_inv:
  "remove_transport_disconnect t d st = Inr st' \<Longrightarrow> sock_inv E st' = sock_inv E st \<and> socks st' = socks st \<and> unlisted st' = unlisted st"
  by (auto simp: remove_transport_disconnect_def bindr_eq_Inr split: option.splits)

text \<open>Event operations on a socket's record.\<close>

lemma sock_inv_fd_op:
  assumes "sock_inv E st" "fd_frame st st'" "fd_inv st'" "act st' = act st"
  shows "sock_inv E st' \<and> socks st' = socks st \<and> unlisted st' = unlisted st"
  using assms fd_frame_sstate [OF assms(2)] by (simp add: sock_inv_unfold unlisted_def fun_eq_iff)

lemma fdevent_add_sock:
  assumes inv: "sock_inv E st" and ok: "fdevent_add a ev st = Inr st'"
  shows "sock_inv E st' \<and> socks st' = socks st \<and> unlisted st' = unlisted st"
  using fdevent_add_inv [OF _ ok] inv
  by (intro sock_inv_fd_op [OF inv fdevent_add_frame [OF ok] _ fdevent_add_act [OF ok]]) (simp add: sock_inv_def)

lemma fdevent_del_sock:
  assumes inv: "sock_inv E st" and ok: "fdevent_del a ev st = Inr st'"
  shows "sock_inv E st' \<and> socks st' = socks st \<and> unlisted st' = unlisted st"
  using fdevent_del_inv [OF _ ok] inv
  by (intro sock_inv_fd_op [OF inv fdevent_del_frame [OF ok] _ fdevent_del_act [OF ok]]) (simp add: sock_inv_def)

lemma fdevent_remove_sock:
  assumes inv: "sock_inv E st" and ok: "fdevent_remove a st = Inr st'"
  shows "sock_inv E st' \<and> socks st' = socks st \<and> unlisted st' = unlisted st \<and> act st' a = Some False"
proof -
  have i: "fd_inv st'" using fdevent_remove_inv ok inv by (auto simp: sock_inv_def)
  obtain b where b: "act st a = Some b" using ok by (auto simp: fdevent_remove_def bindr_eq_Inr act_def)
  then have "4 dvd a \<longrightarrow> a < next_addr st" using inv unfolding sock_inv_def fde_ok_def by (metis not_le option.distinct(1))
  then show ?thesis
    using inv i fd_frame_sstate [OF fdevent_remove_frame [OF ok]] fdevent_remove_act [OF ok]
    by (auto simp: sock_inv_unfold unlisted_def fun_eq_iff)
qed

text \<open>Changing a socket in place without changing its peer or its kind.\<close>

lemma put_sock_inv:
  assumes inv: "sock_inv E st" and s: "socks st a = Some s"
    and s': "peer s' = peer s" "is_local s \<longrightarrow> is_local s'" "linkable s \<longrightarrow> linkable s'" "closing s \<longrightarrow> closing s'"
  shows "sock_inv E (put_sock a s' st)"
proof -
  have f: "fd_inv (put_sock a s' st) = fd_inv st" "act (put_sock a s' st) = act st" "next_addr (put_sock a s' st) = next_addr st"
    by (simp_all add: put_sock_def fd_inv_unfold act_def fun_eq_iff)
  have "paired E (put_sock a s' st)"
    using inv s s'(1) unfolding sock_inv_def paired_def put_sock_simps fun_upd_def by (metis option.inject)
  moreover have "\<exists>b. act st a = Some b \<and> (b \<longrightarrow> is_local s')"
    using inv s s'(2) unfolding sock_inv_def fde_ok_def by blast
  then have "fde_ok (put_sock a s' st)"
    using inv s f unfolding sock_inv_def fde_ok_def by auto
  moreover have "lists_ok (put_sock a s' st)"
    using inv s s' unfolding sock_inv_def lists_ok_def by fastforce
  ultimately show ?thesis using inv f by (simp add: sock_inv_def)
qed

text \<open>Detaching the peer of a socket leaves only that socket's own pointer dangling.\<close>

lemma detach_inv:
  assumes inv: "sock_inv {} st" and s: "socks st a = Some s" "peer s = Some p" and ps: "socks st p = Some ps"
  shows "sock_inv {a} (put_sock p (ps\<lparr>peer := None\<rparr>) st) \<and> p \<noteq> a \<and> peer ps = Some a"
proof -
  let ?st = "put_sock p (ps\<lparr>peer := None\<rparr>) st"
  have f: "fd_inv ?st = fd_inv st" "act ?st = act st" "next_addr ?st = next_addr st"
    by (simp_all add: put_sock_def fd_inv_unfold act_def fun_eq_iff)
  have pa: "p \<noteq> a" "peer ps = Some a"
    using inv s ps unfolding sock_inv_def paired_def by (metis empty_iff option.inject)+
  have "paired {a} ?st"
    unfolding paired_def
  proof (intro allI impI)
    fix b t q assume b: "socks ?st b = Some t" "b \<notin> {a}" "peer t = Some q"
    then have "b \<noteq> p" "socks st b = Some t" by (auto split: if_splits)
    then obtain qs where "q \<noteq> b" "socks st q = Some qs" "peer qs = Some b" using b by (auto elim: pairedD [OF inv])
    then show "q \<noteq> b \<and> (\<exists>ps. socks ?st q = Some ps \<and> peer ps = Some b)" using b pa ps by auto
  qed
  moreover have "fde_ok ?st" using inv ps f by (auto simp: sock_inv_def fde_ok_def is_local_def)
  moreover have "lists_ok ?st" using inv ps by (fastforce simp: sock_inv_def lists_ok_def linkable_def is_local_def)
  ultimately show ?thesis using inv f pa by (simp add: sock_inv_def)
qed

text \<open>Taking a socket without a peer out of the store.\<close>

lemma fd_inv_free:
  assumes inv: "fd_inv st" and a: "act st a \<noteq> Some True"
  shows "fd_inv (st\<lparr>fdes := (fdes st)(a := None)\<rparr>)" (is "fd_inv ?st")
proof -
  have i: "inactive st a" using a by (simp add: act_inactive)
  have "watches ?st S ev" if "watches st S ev" for S ev
    using that i unfolding watches_def inactive_def by auto
  moreover have t: "tbl_at ?st = tbl_at st" by (simp add: tbl_at_def fun_eq_iff)
  ultimately show ?thesis
    using inv i inactive_not_pending [OF inv i] unfolding fd_inv_def t inactive_def by auto
qed

lemma free_sock_simps [simp]:
  "socks (free_sock a st) = (socks st)(a := None)"
  "local_socket_list (free_sock a st) = local_socket_list st"
  "local_socket_closing_list (free_sock a st) = local_socket_closing_list st"
  "next_addr (free_sock a st) = next_addr st"
  "act (free_sock a st) = (act st)(a := None)"
  by (auto simp: free_sock_def act_def)

lemma free_sock_inv:
  assumes inv: "sock_inv E st" and nobody: "\<And>b t. socks st b = Some t \<Longrightarrow> b \<notin> E \<Longrightarrow> b \<noteq> a \<Longrightarrow> peer t \<noteq> Some a"
    and a: "act st a \<noteq> Some True" "a \<notin> set (local_socket_list st)" "a \<notin> set (local_socket_closing_list st)"
  shows "sock_inv (E - {a}) (free_sock a st)"
proof -
  have "fd_inv (free_sock a st) = fd_inv (st\<lparr>fdes := (fdes st)(a := None)\<rparr>)"
    by (rule fd_inv_cong) (simp_all add: free_sock_def)
  then have "fd_inv (free_sock a st)" using fd_inv_free [of st a] inv a(1) by (simp add: sock_inv_def)
  moreover have "paired (E - {a}) (free_sock a st)"
    using inv nobody by (auto simp: sock_inv_def paired_def)
  moreover have "fde_ok (free_sock a st)" using inv by (auto simp: sock_inv_def fde_ok_def)
  moreover have "lists_ok (free_sock a st)" using inv a by (auto simp: sock_inv_def lists_ok_def)
  ultimately show ?thesis by (simp add: sock_inv_def)
qed

lemma list_update_simps [simp]:
  "sock_inv E (st\<lparr>device_tracker_list := x\<rparr>) = sock_inv E st"
  "sock_inv E (st\<lparr>jdwp_trackers_list := y\<rparr>) = sock_inv E st"
  "act (st\<lparr>local_socket_list := x\<rparr>) = act st"
  "act (st\<lparr>local_socket_closing_list := x\<rparr>) = act st"
  "act (put_sock a s st) = act st"
  "next_addr (put_sock a s st) = next_addr st"
  "act (st\<lparr>device_tracker_list := x\<rparr>) = act st"
  "act (st\<lparr>jdwp_trackers_list := x\<rparr>) = act st"
  by (simp_all add: sock_inv_unfold fd_inv_unfold act_def fun_eq_iff put_sock_def)

lemma shrink_list_inv:
  assumes inv: "sock_inv E st"
  shows "sock_inv E (st\<lparr>local_socket_list := remove1 a (local_socket_list st)\<rparr>)"
    and "sock_inv E (st\<lparr>local_socket_closing_list := remove1 a (local_socket_closing_list st)\<rparr>)"
proof -
  have "fd_inv (st\<lparr>local_socket_list := x\<rparr>) = fd_inv st" "fd_inv (st\<lparr>local_socket_closing_list := x\<rparr>) = fd_inv st" for x
    by (rule fd_inv_cong; simp)+
  then show "sock_inv E (st\<lparr>local_socket_list := remove1 a (local_socket_list st)\<rparr>)"
    "sock_inv E (st\<lparr>local_socket_closing_list := remove1 a (local_socket_closing_list st)\<rparr>)"
    using inv set_remove1_subset [of a "local_socket_list st"] set_remove1_subset [of a "local_socket_closing_list st"]
    by (auto simp: sock_inv_unfold)
qed

lemma remove_socket_inv:
  assumes inv: "sock_inv E st" and ok: "remove_socket a st = Inr st'"
  obtains s s' where "socks st a = Some s" "socks st' = (socks st)(a \<mapsto> s')" "peer s' = peer s" "closing s' = closing s"
    "s_close s' = s_close s" "pkt_q s' = pkt_q s" "sock_inv E st'" "act st' = act st" "unlisted st' a" "\<forall>b. unlisted st b \<longrightarrow> unlisted st' b"
proof -
  obtain s where s: "socks st a = Some s" using ok by (auto simp: remove_socket_def bindr_eq_Inr)
  have d: "distinct (local_socket_list st @ local_socket_closing_list st)" using inv by (simp add: sock_inv_def lists_ok_def)
  let ?s = "s\<lparr>s_id := 0\<rparr>"
  have p: "sock_inv E (put_sock a ?s st)" using inv s by (intro put_sock_inv) (auto simp: is_local_def linkable_def)
  consider (l) "a \<in> set (local_socket_list st)" "st' = (put_sock a ?s st)\<lparr>local_socket_list := remove1 a (local_socket_list st)\<rparr>"
    | (c) "a \<notin> set (local_socket_list st)" "a \<in> set (local_socket_closing_list st)"
        "st' = (put_sock a ?s st)\<lparr>local_socket_closing_list := remove1 a (local_socket_closing_list st)\<rparr>"
    | (n) "unlisted st a" "st' = st"
    using ok s by (auto simp: remove_socket_def get_sock_def unlisted_def split: if_splits)
  then show thesis
  proof cases
    case l
    have "sock_inv E st'" using shrink_list_inv(1) [OF p, of a] by (simp add: l)
    then show thesis using that [of s ?s] s l d by (auto simp: unlisted_def)
  next
    case c
    have "sock_inv E st'" using shrink_list_inv(2) [OF p, of a] by (simp add: c)
    then show thesis using that [of s ?s] s c d by (auto simp: unlisted_def)
  next
    case n
    then show thesis using that [of s s] s inv by (auto simp: fun_upd_idem)
  qed
qed

text \<open>Nobody but \<open>a\<close> itself and the sockets in \<open>E\<close> refers to \<open>a\<close>.\<close>

definition alone :: "addr set \<Rightarrow> 'a sstate_scheme \<Rightarrow> addr \<Rightarrow> bool" where
  "alone E st a \<longleftrightarrow> (\<forall>b t. socks st b = Some t \<longrightarrow> b \<notin> E \<longrightarrow> b \<noteq> a \<longrightarrow> peer t \<noteq> Some a)"

lemma alone_no_peer: "sock_inv E st \<Longrightarrow> socks st a = Some s \<Longrightarrow> peer s = None \<Longrightarrow> alone E st a"
  unfolding alone_def by (metis option.distinct(1) option.inject pairedD)

lemma local_socket_destroy_inv:
  assumes inv: "sock_inv E st" and s: "socks st a = Some s" "alone E st a" and ok: "local_socket_destroy a st = Inr st'"
  shows "sock_inv (E - {a}) st' \<and> socks st' = (socks st)(a := None) \<and> (\<forall>b. unlisted st b \<longrightarrow> unlisted st' b)"
proof -
  obtain s1 s2 where s1: "fdevent_remove a st = Inr s1" and s2: "remove_socket a s1 = Inr s2" and st': "st' = free_sock a s2"
    using ok by (auto simp: local_socket_destroy_def bindr_eq_Inr Let_def split: if_splits)
  have r: "sock_inv E s1" "socks s1 = socks st" "act s1 a = Some False" "unlisted s1 = unlisted st" using fdevent_remove_sock [OF inv s1] by auto
  obtain x x' where R: "socks s1 a = Some x" "socks s2 = (socks s1)(a \<mapsto> x')" "sock_inv E s2" "act s2 = act s1" "unlisted s2 a"
    "\<forall>b. unlisted s1 b \<longrightarrow> unlisted s2 b"
    by (rule remove_socket_inv [OF r(1) s2])
  have "sock_inv (E - {a}) (free_sock a s2)"
    using s(2) R r by (intro free_sock_inv) (auto simp: alone_def unlisted_def split: if_splits)
  then show ?thesis using R r by (auto simp: st')
qed


lemma fd_inv_put_sock: "fd_inv (put_sock a s st) = fd_inv st"
  by (rule fd_inv_cong) (simp_all add: put_sock_def)

lemma clear_peer_inv:
  assumes inv: "sock_inv E st" and s: "socks st a = Some s" "alone E st a"
  shows "sock_inv (E - {a}) (put_sock a (s\<lparr>peer := None\<rparr>) st)"
proof -
  let ?st = "put_sock a (s\<lparr>peer := None\<rparr>) st"
  have "fd_inv ?st" using inv by (simp add: sock_inv_def fd_inv_put_sock)
  moreover have "paired (E - {a}) ?st"
    unfolding paired_def
  proof (intro allI impI)
    fix b t q assume b: "socks ?st b = Some t" "b \<notin> E - {a}" "peer t = Some q"
    then have ba: "b \<noteq> a" "socks st b = Some t" "b \<notin> E" by (auto split: if_splits)
    then obtain qs where "q \<noteq> b" "socks st q = Some qs" "peer qs = Some b" using b by (auto elim: pairedD [OF inv])
    moreover have "q \<noteq> a" using s(2) ba b by (auto simp: alone_def)
    ultimately show "q \<noteq> b \<and> (\<exists>ps. socks ?st q = Some ps \<and> peer ps = Some b)" by auto
  qed
  moreover have "fde_ok ?st" using inv s by (auto simp: sock_inv_def fde_ok_def is_local_def)
  moreover have "lists_ok ?st" using inv s by (fastforce simp: sock_inv_def lists_ok_def linkable_def is_local_def)
  ultimately show ?thesis by (simp add: sock_inv_def)
qed

lemma closing_list_inv:
  assumes inv: "sock_inv E st" and s: "socks st a = Some s" "linkable s" "closing s" "peer s = None" and u: "unlisted st a"
  shows "sock_inv E (st\<lparr>local_socket_closing_list := local_socket_closing_list st @ [a]\<rparr>)"
proof -
  have "fd_inv (st\<lparr>local_socket_closing_list := x\<rparr>) = fd_inv st" for x by (rule fd_inv_cong) simp_all
  then show ?thesis using inv s u by (auto simp: sock_inv_unfold unlisted_def)
qed

text \<open>What closing \<open>a\<close> does to the store: nothing else changes, and \<open>a\<close> is gone or has no peer.\<close>

definition closed :: "addr \<Rightarrow> 'a sstate_scheme \<Rightarrow> 'b sstate_scheme \<Rightarrow> bool" where
  "closed a st st' \<longleftrightarrow> (\<forall>b. b \<noteq> a \<longrightarrow> socks st' b = socks st b) \<and> (\<forall>s'. socks st' a = Some s' \<longrightarrow> peer s' = None)
     \<and> (\<forall>b. b \<noteq> a \<longrightarrow> unlisted st b \<longrightarrow> unlisted st' b)"

lemma local_close_tail_inv:
  assumes inv: "sock_inv E st" and s: "socks st a = Some s" "peer s = None" "linkable s" "a \<notin> E"
    and ok: "local_close_tail a st = Inr st'"
  shows "sock_inv E st' \<and> closed a st st'"
proof (cases "closing s \<or> pkt_q s = []")
  case True
  then have "local_socket_destroy a st = Inr st'" using ok s by (auto simp: local_close_tail_def bindr_eq_Inr)
  from local_socket_destroy_inv [OF inv s(1) alone_no_peer [OF inv s(1,2)] this] s(4) show ?thesis
    by (auto simp: closed_def)
next
  case False
  let ?s = "s\<lparr>closing := True\<rparr>"
  obtain s1 s2 where s1: "fdevent_del a FDE_READ (put_sock a ?s st) = Inr s1" and s2: "remove_socket a s1 = Inr s2"
    and st': "st' = s2\<lparr>local_socket_closing_list := local_socket_closing_list s2 @ [a]\<rparr>"
    using ok s False by (auto simp: local_close_tail_def bindr_eq_Inr get_sock_def)
  have "sock_inv E (put_sock a ?s st)" using s by (intro put_sock_inv [OF inv s(1)]) (auto simp: is_local_def linkable_def)
  from fdevent_del_sock [OF this s1] have r: "sock_inv E s1" "socks s1 = (socks st)(a \<mapsto> ?s)" "unlisted s1 = unlisted st" by auto
  obtain x x' where R: "socks s1 a = Some x" "socks s2 = (socks s1)(a \<mapsto> x')" "peer x' = peer x" "closing x' = closing x"
    "s_close x' = s_close x" "sock_inv E s2" "unlisted s2 a" "\<forall>b. unlisted s1 b \<longrightarrow> unlisted s2 b"
    by (rule remove_socket_inv [OF r(1) s2])
  have "sock_inv E st'" unfolding st'
    using R r s by (intro closing_list_inv [OF R(6), of a x']) (auto simp: linkable_def is_local_def)
  moreover have "unlisted st' b" if "b \<noteq> a" "unlisted s2 b" for b using that by (simp add: st' unlisted_def)
  ultimately show ?thesis using R r s by (auto simp: st' closed_def)
qed

lemma upd_sock_eq: "upd_sock a f st = Inr st' \<longleftrightarrow> (\<exists>s. socks st a = Some s \<and> st' = put_sock a (f s) st)"
  by (auto simp: upd_sock_def bindr_eq_Inr)

text \<open>When the tail of a close function may be run on \<open>a\<close>.\<close>

definition tail_ok :: "close_fn \<Rightarrow> addr \<Rightarrow> 'a sstate_scheme \<Rightarrow> bool" where
  "tail_ok k a st \<longleftrightarrow> (\<exists>s. socks st a = Some s \<and>
     (if k = local_socket_close_fn \<or> k = local_socket_close_notify_fn then linkable s else s_close s = k)
     \<and> (k = jdwp_socket_close_fn \<longrightarrow> unlisted st a))"

lemma free_frame:
  assumes inv: "sock_inv E st" and s: "socks st a = Some s" "alone E st a" "\<not> is_local s" and u: "unlisted st a"
  shows "sock_inv (E - {a}) (free_sock a st) \<and> closed a st (free_sock a st)"
proof -
  have "act st a \<noteq> Some True" using inv s by (force simp: sock_inv_def fde_ok_def)
  then show ?thesis using free_sock_inv [OF inv _ \<open>act st a \<noteq> Some True\<close>] s u by (auto simp: alone_def unlisted_def closed_def)
qed

lemma unlinkable_unlisted: "sock_inv E st \<Longrightarrow> socks st a = Some s \<Longrightarrow> \<not> linkable s \<Longrightarrow> unlisted st a"
  by (fastforce simp: sock_inv_def lists_ok_def unlisted_def)

lemma close_tail_inv:
  assumes inv: "sock_inv E st" and t: "tail_ok k a st" "alone E st a" and ok: "close_tail k a pid st = Inr st'"
  shows "sock_inv (E - {a}) st' \<and> closed a st st'"
proof -
  obtain s where s: "socks st a = Some s" "if k = local_socket_close_fn \<or> k = local_socket_close_notify_fn then linkable s else s_close s = k"
    "k = jdwp_socket_close_fn \<longrightarrow> unlisted st a"
    using t by (auto simp: tail_ok_def)
  consider (local) "k = local_socket_close_fn \<or> k = local_socket_close_notify_fn" "local_close_tail a (put_sock a (s\<lparr>peer := None\<rparr>) st) = Inr st'"
    | (remote) s1 s2 where "k = remote_socket_close_fn" "send_packet (message_packet A_CLSE pid (s_id s)) (s_transport s) st = Inr s1"
       "remove_transport_disconnect (s_transport s) (remote_socket_disconnect a) s1 = Inr s2" "st' = free_sock a s2"
    | (smart) "k = smart_socket_close_fn \<or> k = jdwp_socket_close_fn" "st' = free_sock a st"
    | (tracker) "k = device_tracker_close_fn" "st' = free_sock a (st\<lparr>device_tracker_list := remove1 a (device_tracker_list st)\<rparr>)"
    | (jdwp) s1 where "k = jdwp_tracker_close_fn" "remove_socket a st = Inr s1" "st' = free_sock a (s1\<lparr>jdwp_trackers_list := remove1 a (jdwp_trackers_list s1)\<rparr>)"
    using ok s by (cases k) (auto simp: close_tail_def bindr_eq_Inr upd_sock_def get_sock_def)
  then show ?thesis
  proof cases
    case local
    have "sock_inv (E - {a}) st' \<and> closed a (put_sock a (s\<lparr>peer := None\<rparr>) st) st'"
      using local s by (intro local_close_tail_inv [OF clear_peer_inv [OF inv s(1) t(2)], of a "s\<lparr>peer := None\<rparr>"])
        (auto simp: linkable_def is_local_def)
    then show ?thesis by (auto simp: closed_def)
  next
    case remote
    have r: "sock_inv E s2" "socks s2 = socks st" "unlisted s2 = unlisted st"
      using send_packet_inv [OF remote(2)] remove_disconnect_inv [OF remote(3)] inv by auto
    have n: "\<not> linkable s" "\<not> is_local s" using s(2) remote(1) by (auto simp: linkable_def is_local_def)
    have u: "unlisted s2 a" using r s n by (intro unlinkable_unlisted) auto
    show ?thesis using free_frame [OF r(1), of a s] u s n t(2) r(2,3) by (auto simp: remote(4) alone_def closed_def)
  next
    case smart
    have "\<not> is_local s" using s(2) smart by (auto simp: is_local_def)
    moreover have "unlisted st a"
    proof (cases "k = jdwp_socket_close_fn")
      case False
      then show ?thesis using s smart by (intro unlinkable_unlisted [OF inv s(1)]) (auto simp: linkable_def is_local_def)
    qed (use s in simp)
    ultimately show ?thesis using free_frame [OF inv s(1) t(2)] by (simp add: smart)
  next
    case tracker
    have n: "\<not> linkable s" "\<not> is_local s" using s(2) tracker(1) by (auto simp: linkable_def is_local_def)
    let ?st = "st\<lparr>device_tracker_list := remove1 a (device_tracker_list st)\<rparr>"
    have "sock_inv E ?st" using inv by simp
    from free_frame [OF this, of a s] s n t(2) unlinkable_unlisted [OF inv s(1) n(1)] show ?thesis
      by (auto simp: tracker alone_def closed_def)
  next
    case jdwp
    have n: "\<not> is_local s" using s(2) jdwp(1) by (auto simp: is_local_def)
    obtain x x' where R: "socks st a = Some x" "socks s1 = (socks st)(a \<mapsto> x')" "s_close x' = s_close x" "sock_inv E s1" "unlisted s1 a"
      "\<forall>b. unlisted st b \<longrightarrow> unlisted s1 b"
      by (rule remove_socket_inv [OF inv jdwp(2)])
    let ?st = "s1\<lparr>jdwp_trackers_list := remove1 a (jdwp_trackers_list s1)\<rparr>"
    have "sock_inv E ?st" using R by simp
    from free_frame [OF this, of a x'] R s n t(2) show ?thesis
      by (auto simp: jdwp alone_def closed_def is_local_def split: if_splits)
  qed
qed


text \<open>What \<open>asocket_close\<close> does before it reaches the peer.\<close>

lemma asocket_close_cases:
  assumes inv: "sock_inv E st" and s: "socks st a = Some s" and ok: "asocket_close a st = Inr st'"
  obtains k s1 s' where "sock_inv E s1" "socks s1 = (socks st)(a \<mapsto> s')" "peer s' = peer s" "tail_ok k a s1" "\<forall>b. unlisted st b \<longrightarrow> unlisted s1 b"
    "case peer s of None \<Rightarrow> close_tail k a 0 s1 = Inr st'
     | Some p \<Rightarrow> \<exists>ps s2. socks s1 p = Some ps \<and> asocket_close p (put_sock p (ps\<lparr>peer := None\<rparr>) s1) = Inr s2
         \<and> close_tail k a (s_id ps) s2 = Inr st'"
proof -
  note result = that
  have step: thesis if inv: "sock_inv E x" and x: "socks x a = Some t" "peer t = peer s" "s_close t \<noteq> local_socket_close_notify_fn"
      "\<forall>b. b \<noteq> a \<longrightarrow> socks x b = socks st b" "unlisted x = unlisted st" and ok: "asocket_close a x = Inr st'" for x t
  proof -
    obtain s1 where s1: "(if s_close t = jdwp_socket_close_fn then remove_socket a x else Inr x) = Inr s1"
      and c: "(case peer t of None \<Rightarrow> close_tail (s_close t) a 0 s1
         | Some p \<Rightarrow> bindr (get_sock p s1) (\<lambda>ps.
             bindr (asocket_close p (put_sock p (ps\<lparr>peer := None\<rparr>) s1)) (close_tail (s_close t) a (s_id ps)))) = Inr st'"
      using ok x by (subst (asm) asocket_close.simps) (auto simp: bindr_eq_Inr)
    have "\<exists>s'. sock_inv E s1 \<and> socks s1 = (socks st)(a \<mapsto> s') \<and> peer s' = peer s \<and> tail_ok (s_close t) a s1
        \<and> (\<forall>b. unlisted st b \<longrightarrow> unlisted s1 b)"
    proof (cases "s_close t = jdwp_socket_close_fn")
      case True
      with s1 have r: "remove_socket a x = Inr s1" by simp
      obtain y y' where "socks x a = Some y" "socks s1 = (socks x)(a \<mapsto> y')" "peer y' = peer y" "s_close y' = s_close y" "sock_inv E s1" "unlisted s1 a"
        "\<forall>b. unlisted x b \<longrightarrow> unlisted s1 b"
        by (rule remove_socket_inv [OF inv r])
      then show ?thesis using x True by (intro exI [of _ y']) (auto simp: tail_ok_def fun_eq_iff)
    next
      case False
      then show ?thesis using inv s1 x by (intro exI [of _ t]) (auto simp: tail_ok_def fun_eq_iff linkable_def is_local_def)
    qed
    then obtain s' where "sock_inv E s1" "socks s1 = (socks st)(a \<mapsto> s')" "peer s' = peer s" "tail_ok (s_close t) a s1"
      "\<forall>b. unlisted st b \<longrightarrow> unlisted s1 b" by blast
    moreover have "case peer s of None \<Rightarrow> close_tail (s_close t) a 0 s1 = Inr st'
     | Some p \<Rightarrow> \<exists>ps s2. socks s1 p = Some ps \<and> asocket_close p (put_sock p (ps\<lparr>peer := None\<rparr>) s1) = Inr s2
         \<and> close_tail (s_close t) a (s_id ps) s2 = Inr st'"
      using c x(2) by (auto simp: bindr_eq_Inr split: option.splits)
    ultimately show thesis by (rule result)
  qed
  show thesis
  proof (cases "s_close s = local_socket_close_notify_fn")
    case False
    then show thesis using step [of st s] inv s ok by blast
  next
    case True
    let ?s = "s\<lparr>s_ready := local_socket_ready_fn, s_close := local_socket_close_fn\<rparr>"
    obtain r s1 where f: "sendfailmsg (s_fd s) ''closed'' (put_sock a ?s st) = Inr (r, s1)" and c: "asocket_close a s1 = Inr st'"
      using ok s True by (subst (asm) asocket_close.simps) (auto simp: bindr_eq_Inr get_sock_def)
    obtain ds cs es where "s1 = wr_done (s_fd s) ds cs es (put_sock a ?s st)" using sendfailmsg_frame [OF f] by (elim exE)
    moreover have "sock_inv E (put_sock a ?s st)" using True by (intro put_sock_inv [OF inv s]) (auto simp: is_local_def linkable_def)
    ultimately show thesis using step [of s1 ?s] c by simp
  qed
qed

lemma close_detached:
  assumes inv: "sock_inv E st" and s: "socks st a = Some s" "peer s = None" "a \<notin> E" and ok: "asocket_close a st = Inr st'"
  shows "sock_inv E st' \<and> closed a st st'"
proof -
  obtain k s1 s' where c: "sock_inv E s1" "socks s1 = (socks st)(a \<mapsto> s')" "peer s' = peer s" "tail_ok k a s1" "close_tail k a 0 s1 = Inr st'"
    "\<forall>b. unlisted st b \<longrightarrow> unlisted s1 b"
    using s(2) by (rule_tac asocket_close_cases [OF inv s(1) ok]) auto
  have "alone E s1 a" using c s by (intro alone_no_peer [OF c(1)]) auto
  from close_tail_inv [OF c(1,4) this c(5)] s c(2,6) show ?thesis by (auto simp: closed_def)
qed

lemma alone_detached:
  assumes "sock_inv {a} st" "socks st p = Some ps" "peer ps = None" "\<And>s. socks st a = Some s \<Longrightarrow> peer s = Some p"
  shows "alone {a} st a"
  unfolding alone_def using assms pairedD [of "{a}" st]
  by (metis insertCI option.distinct(1) option.inject singletonD)

text \<open>Closing a connected socket closes both ends and keeps the invariant.\<close>

lemma closed_pair_tail:
  assumes inv: "sock_inv {} st" and s: "socks st a = Some s" "peer s = Some p" "socks st p = Some ps"
    and c: "asocket_close p (put_sock p (ps\<lparr>peer := None\<rparr>) st) = Inr s2"
  shows "sock_inv {a} s2 \<and> closed p st s2 \<and> alone {a} s2 a \<and> p \<noteq> a"
proof -
  let ?st = "put_sock p (ps\<lparr>peer := None\<rparr>) st"
  have d: "sock_inv {a} ?st" "p \<noteq> a" "peer ps = Some a" using detach_inv [OF inv s] by auto
  have c2: "sock_inv {a} s2" "closed p ?st s2" using close_detached [OF d(1) _ _ _ c] d(2) by auto
  have "alone {a} s2 a"
    unfolding alone_def
  proof (intro allI impI notI)
    fix b t assume b: "socks s2 b = Some t" "b \<notin> {a}" "b \<noteq> a" "peer t = Some a"
    then have "b \<noteq> p" using c2(2) by (auto simp: closed_def)
    then have "socks st b = Some t" using b c2(2) by (auto simp: closed_def)
    then show False using pairedD [OF inv, of b t a] b s \<open>b \<noteq> p\<close> by auto
  qed
  then show ?thesis using c2 d(2) by (auto simp: closed_def)
qed

definition both_closed :: "addr \<Rightarrow> 'a sstate_scheme \<Rightarrow> 'b sstate_scheme \<Rightarrow> bool" where
  "both_closed a st st' \<longleftrightarrow> (\<forall>s. socks st a = Some s \<longrightarrow> (\<forall>b. b \<noteq> a \<longrightarrow> peer s \<noteq> Some b \<longrightarrow> socks st' b = socks st b)
     \<and> (\<forall>b s'. b = a \<or> peer s = Some b \<longrightarrow> socks st' b = Some s' \<longrightarrow> peer s' = None))"

lemma asocket_close_inv:
  assumes inv: "sock_inv {} st" and ok: "asocket_close a st = Inr st'"
  shows "sock_inv {} st' \<and> both_closed a st st'"
proof -
  obtain s where s: "socks st a = Some s" using ok by (subst (asm) asocket_close.simps) (auto simp: bindr_eq_Inr)
  show ?thesis
  proof (cases "peer s")
    case None
    then show ?thesis using close_detached [OF inv s None _ ok] s by (auto simp: closed_def both_closed_def)
  next
    case (Some p)
    obtain k s1 s' ps s2 where c: "sock_inv {} s1" "socks s1 = (socks st)(a \<mapsto> s')" "peer s' = peer s" "tail_ok k a s1"
      "socks s1 p = Some ps" "asocket_close p (put_sock p (ps\<lparr>peer := None\<rparr>) s1) = Inr s2" "close_tail k a (s_id ps) s2 = Inr st'"
      using Some by (rule_tac asocket_close_cases [OF inv s ok]) auto
    have d: "sock_inv {a} s2" "closed p s1 s2" "alone {a} s2 a" "p \<noteq> a"
      using closed_pair_tail [OF c(1) _ _ c(5,6), of a s'] c Some by auto
    have "tail_ok k a s2" using c(4) d(2,4) by (auto simp: tail_ok_def closed_def)
    from close_tail_inv [OF d(1) this d(3) c(7)] show ?thesis using c d Some s
      by (auto simp: closed_def both_closed_def)
  qed
qed


lemma local_socket_close_locked_inv:
  assumes inv: "sock_inv {} st" and s: "socks st a = Some s" "linkable s" and ok: "local_socket_close_locked a st = Inr st'"
  shows "sock_inv {} st' \<and> both_closed a st st'"
proof (cases "peer s")
  case None
  then have "close_tail local_socket_close_fn a 0 st = Inr st'" using ok s by (simp add: local_socket_close_locked_def get_sock_def)
  moreover have "tail_ok local_socket_close_fn a st" using s by (simp add: tail_ok_def)
  ultimately show ?thesis using close_tail_inv [OF inv _ alone_no_peer [OF inv s(1) None]] s None
    by (force simp: closed_def both_closed_def)
next
  case (Some p)
  obtain ps s2 where c: "socks st p = Some ps" "asocket_close p (put_sock p (ps\<lparr>peer := None\<rparr>) st) = Inr s2"
    "close_tail local_socket_close_fn a (s_id ps) s2 = Inr st'"
    using ok s Some by (auto simp: local_socket_close_locked_def bindr_eq_Inr)
  have d: "sock_inv {a} s2" "closed p st s2" "alone {a} s2 a" "p \<noteq> a"
    using closed_pair_tail [OF inv s(1) Some c(1,2)] by auto
  have "tail_ok local_socket_close_fn a s2" using s d by (auto simp: tail_ok_def closed_def)
  from close_tail_inv [OF d(1) this d(3) c(3)] show ?thesis using d Some s by (auto simp: closed_def both_closed_def)
qed

section \<open>Closing all sockets of a transport\<close>

text \<open>Closing never adds to the list of open sockets.\<close>

lemma fdevent_remove_list: "fdevent_remove a st = Inr st' \<Longrightarrow> local_socket_list st' = local_socket_list st"
  by (rule fd_frame_sstate(2) [OF fdevent_remove_frame])

lemma fdevent_del_list: "fdevent_del a ev st = Inr st' \<Longrightarrow> local_socket_list st' = local_socket_list st"
  by (rule fd_frame_sstate(2) [OF fdevent_del_frame])

lemma remove_socket_list:
  "remove_socket a st = Inr st' \<Longrightarrow> set (local_socket_list st') \<subseteq> set (local_socket_list st)
     \<and> (distinct (local_socket_list st) \<longrightarrow> a \<notin> set (local_socket_list st'))"
  by (cases "socks st a") (simp_all add: remove_socket_def get_sock_def split: if_splits, (drule sym, simp add: set_remove1_subset)+)

lemma local_socket_destroy_list:
  "local_socket_destroy a st = Inr st' \<Longrightarrow> set (local_socket_list st') \<subseteq> set (local_socket_list st)
     \<and> (distinct (local_socket_list st) \<longrightarrow> a \<notin> set (local_socket_list st'))"
  by (auto simp: local_socket_destroy_def bindr_eq_Inr Let_def split: if_splits
      dest!: remove_socket_list fdevent_remove_list)

lemma local_close_tail_list:
  "local_close_tail a st = Inr st' \<Longrightarrow> set (local_socket_list st') \<subseteq> set (local_socket_list st)
     \<and> (distinct (local_socket_list st) \<longrightarrow> a \<notin> set (local_socket_list st'))"
  by (auto simp: local_close_tail_def bindr_eq_Inr split: if_splits
      dest!: remove_socket_list local_socket_destroy_list fdevent_del_list)

lemma send_packet_list: "send_packet p t st = Inr st' \<Longrightarrow> local_socket_list st' = local_socket_list st"
  by (auto dest!: send_packet_frame)

lemma remove_disconnect_list: "remove_transport_disconnect t d st = Inr st' \<Longrightarrow> local_socket_list st' = local_socket_list st"
  by (auto simp: remove_transport_disconnect_def bindr_eq_Inr split: option.splits)

lemma close_tail_list:
  "close_tail k a pid st = Inr st' \<Longrightarrow> set (local_socket_list st') \<subseteq> set (local_socket_list st)
     \<and> (k = local_socket_close_fn \<longrightarrow> distinct (local_socket_list st) \<longrightarrow> a \<notin> set (local_socket_list st'))"
  by (cases k) (auto simp: close_tail_def bindr_eq_Inr upd_sock_eq
      dest!: local_close_tail_list remove_socket_list send_packet_list remove_disconnect_list)

lemma asocket_close_list:
  "asocket_close a st = Inr st' \<Longrightarrow> set (local_socket_list st') \<subseteq> set (local_socket_list st)"
proof (induction a st arbitrary: st' rule: asocket_close.induct)
  case (1 a st)
  obtain s where s: "socks st a = Some s" using 1(3) by (subst (asm) asocket_close.simps) (auto simp: bindr_eq_Inr)
  show ?case
  proof (cases "s_close s = local_socket_close_notify_fn")
    case True
    let ?s = "s\<lparr>s_ready := local_socket_ready_fn, s_close := local_socket_close_fn\<rparr>"
    obtain r s1 where f: "sendfailmsg (s_fd s) ''closed'' (put_sock a ?s st) = Inr (r, s1)" and c: "asocket_close a s1 = Inr st'"
      using 1(3) s True by (subst (asm) asocket_close.simps) (auto simp: bindr_eq_Inr get_sock_def)
    then show ?thesis using 1(1) [of s "(r, s1)" r s1 st'] s True by (auto dest!: sendfailmsg_frame)
  next
    case False
    obtain s1 where s1: "(if s_close s = jdwp_socket_close_fn then remove_socket a st else Inr st) = Inr s1"
      and c: "(case peer s of None \<Rightarrow> close_tail (s_close s) a 0 s1
         | Some p \<Rightarrow> bindr (get_sock p s1) (\<lambda>ps.
             bindr (asocket_close p (put_sock p (ps\<lparr>peer := None\<rparr>) s1)) (close_tail (s_close s) a (s_id ps)))) = Inr st'"
      using 1(3) s False by (subst (asm) asocket_close.simps) (auto simp: bindr_eq_Inr)
    have "set (local_socket_list st') \<subseteq> set (local_socket_list s1)"
      using c 1(2) [OF _ False s1] s
      by (fastforce simp: bindr_eq_Inr split: option.splits dest!: close_tail_list)
    moreover have "set (local_socket_list s1) \<subseteq> set (local_socket_list st)"
      using s1 by (auto split: if_splits dest!: remove_socket_list)
    ultimately show ?thesis by blast
  qed
qed

lemma local_socket_close_locked_list:
  assumes inv: "sock_inv {} st" and s: "socks st a = Some s" "linkable s" and ok: "local_socket_close_locked a st = Inr st'"
  shows "set (local_socket_list st') \<subseteq> set (local_socket_list st) - {a}"
proof -
  have d: "distinct (local_socket_list x)" if "sock_inv E x" for x :: "'a sstate_scheme" and E
    using that by (simp add: sock_inv_def lists_ok_def)
  show ?thesis
  proof (cases "peer s")
    case None
    then show ?thesis using ok s d [OF inv] by (auto simp: local_socket_close_locked_def bindr_eq_Inr dest!: close_tail_list)
  next
    case (Some p)
    obtain ps s2 where c: "socks st p = Some ps" "asocket_close p (put_sock p (ps\<lparr>peer := None\<rparr>) st) = Inr s2"
      "close_tail local_socket_close_fn a (s_id ps) s2 = Inr st'"
      using ok s Some by (auto simp: local_socket_close_locked_def bindr_eq_Inr)
    have "distinct (local_socket_list s2)" using closed_pair_tail [OF inv s(1) Some c(1,2)] d by blast
    then show ?thesis using close_tail_list [OF c(3)] asocket_close_list [OF c(2)] by auto
  qed
qed

text \<open>Whether a listed socket belongs to a transport, directly or through its peer.\<close>

definition uses_transport :: "addr \<Rightarrow> 'a sstate_scheme \<Rightarrow> addr \<Rightarrow> bool" where
  "uses_transport t st a \<longleftrightarrow> (\<exists>s. socks st a = Some s \<and> (s_transport s = Some t
     \<or> (\<exists>p ps. peer s = Some p \<and> socks st p = Some ps \<and> s_transport ps = Some t)))"

lemma close_matching_step:
  assumes inv: "sock_inv {} st" and a: "a \<in> set (local_socket_list st)"
  shows "close_matching k t (a # as) st =
    (if uses_transport t st a then case k of 0 \<Rightarrow> Inl TooDeep
       | Suc k \<Rightarrow> bindr (local_socket_close_locked a st) (\<lambda>st. close_matching k t (local_socket_list st) st)
     else close_matching k t as st)"
proof -
  obtain s where s: "socks st a = Some s" using inv a by (auto simp: sock_inv_def lists_ok_def)
  show ?thesis
  proof (cases "peer s")
    case None
    then show ?thesis using s by (simp add: get_sock_def uses_transport_def)
  next
    case (Some p)
    obtain ps where "socks st p = Some ps" using pairedD [OF inv s _ Some] by blast
    then show ?thesis using s Some by (simp add: get_sock_def uses_transport_def)
  qed
qed

lemma listed_linkable:
  assumes "sock_inv E st" "a \<in> set (local_socket_list st)"
  obtains s where "socks st a = Some s" "linkable s"
  using assms by (auto simp: sock_inv_def lists_ok_def)

lemma close_matching_end:
  "\<lbrakk>sock_inv {} st; set as \<subseteq> set (local_socket_list st); \<forall>a \<in> set (local_socket_list st) - set as. \<not> uses_transport t st a;
    close_matching k t as st = Inr st'\<rbrakk>
   \<Longrightarrow> sock_inv {} st' \<and> set (local_socket_list st') \<subseteq> set (local_socket_list st)
     \<and> (\<forall>a \<in> set (local_socket_list st'). \<not> uses_transport t st' a)"
proof (induction k arbitrary: as st)
  case 0
  then show ?case
  proof (induction as)
    case (Cons a as)
    then show ?case using close_matching_step [of st a 0 t as] by (auto split: if_splits)
  qed auto
next
  case (Suc k)
  note outer = Suc.IH
  show ?case using Suc.prems
  proof (induction as)
    case (Cons a as)
    note step = close_matching_step [OF Cons.prems(1), of a "Suc k" t as]
    show ?case
    proof (cases "uses_transport t st a")
      case False
      then show ?thesis using Cons step by (auto split: if_splits)
    next
      case True
      obtain s1 where c: "local_socket_close_locked a st = Inr s1" "close_matching k t (local_socket_list s1) s1 = Inr st'"
        using step True Cons.prems by (auto simp: bindr_eq_Inr)
      obtain s where s: "socks st a = Some s" "linkable s" using Cons.prems by (auto elim: listed_linkable)
      have "sock_inv {} s1" "set (local_socket_list s1) \<subseteq> set (local_socket_list st)"
        using local_socket_close_locked_inv [OF Cons.prems(1) s c(1)] local_socket_close_locked_list [OF Cons.prems(1) s c(1)] by auto
      then show ?thesis using outer [OF _ _ _ c(2)] by auto
    qed
  qed auto
qed

text \<open>The bound on the restarts is never reached: a larger one gives the same result.\<close>

lemma close_matching_enough:
  "\<lbrakk>sock_inv {} st; set as \<subseteq> set (local_socket_list st); length (local_socket_list st) \<le> k\<rbrakk>
   \<Longrightarrow> close_matching (Suc k) t as st = close_matching k t as st"
proof (induction k arbitrary: as st)
  case 0
  then show ?case by simp
next
  case (Suc k)
  note outer = Suc.IH
  show ?case using Suc.prems(2)
  proof (induction as)
    case (Cons a as)
    have a: "a \<in> set (local_socket_list st)" using Cons.prems by simp
    obtain s where s: "socks st a = Some s" "linkable s" using listed_linkable [OF Suc.prems(1) a] .
    have "close_matching (Suc k) t (local_socket_list s1) s1 = close_matching k t (local_socket_list s1) s1"
      if "local_socket_close_locked a st = Inr s1" for s1
    proof -
      have i: "sock_inv {} s1" "set (local_socket_list s1) \<subseteq> set (local_socket_list st) - {a}"
        using local_socket_close_locked_inv [OF Suc.prems(1) s that] local_socket_close_locked_list [OF Suc.prems(1) s that] by auto
      have d: "distinct (local_socket_list s1)" "distinct (local_socket_list st)"
        using i(1) Suc.prems(1) by (simp_all add: sock_inv_def lists_ok_def)
      have "card (set (local_socket_list s1)) \<le> card (set (local_socket_list st) - {a})"
        by (rule card_mono [OF _ i(2)]) simp
      also have "\<dots> < card (set (local_socket_list st))" using a by (intro card_Diff1_less) simp_all
      finally have "length (local_socket_list s1) \<le> k" using Suc.prems(3) by (simp add: distinct_card d)
      then show ?thesis using outer [OF i(1)] by simp
    qed
    then have "bindr (local_socket_close_locked a st) (\<lambda>st. close_matching (Suc k) t (local_socket_list st) st)
        = bindr (local_socket_close_locked a st) (\<lambda>st. close_matching k t (local_socket_list st) st)"
      by (rule bindr_cong [OF refl])
    then show ?case using close_matching_step [OF Suc.prems(1) a] Cons by simp
  qed simp
qed

lemma close_all_sockets_bound:
  assumes "sock_inv {} st"
  shows "close_matching (n + length (local_socket_list st)) t (local_socket_list st) st = close_all_sockets t st"
  by (induction n) (simp_all add: close_all_sockets_def close_matching_enough [OF assms])

end
