(* ===== verification/SocketFlow.thy ===== *)
theory SocketFlow
  imports SocketInv
begin

text \<open>
  What the sockets do with the data: a local socket's write and read loops move bytes between the
  descriptor, the queued packets and the peer without loss or reordering. Every handler of the
  socket layer keeps the invariant; the handlers are proved once against a contract for the smart
  socket's enqueue function, which the daemon's smart socket satisfies.
\<close>

section \<open>What one write loop sends\<close>

lemma adb_write_spec:
  "adb_write fd bs w = Inr (r, w') \<Longrightarrow>
     \<exists>n cs es. w' = wr_done fd (take n bs) cs es w
       \<and> (\<forall>m. r = IoN m \<longrightarrow> m = length (take n bs)) \<and> (\<forall>e. r = IoErr e \<longrightarrow> n = 0)"
proof (induction fd bs w rule: adb_write.induct)
  case (1 fd bs w)
  show ?case
  proof (cases "\<exists>w1. sys_write fd bs w = Inr (IoErr EINTR, w1)")
    case True
    then obtain w1 where w1: "sys_write fd bs w = Inr (IoErr EINTR, w1)" by blast
    then have a: "adb_write fd bs w1 = Inr (r, w')" using 1(2) by (subst (asm) adb_write.simps) simp
    obtain cs es where "w1 = wr_done fd [] cs es w"
      using w1 by (auto simp: sys_write_def split: list.splits wr_event.splits)
    then show ?thesis using 1(1) [OF w1 refl refl refl a] by auto
  next
    case False
    then have s: "sys_write fd bs w = Inr (r, w')" using 1(2)
      by (subst (asm) adb_write.simps) (auto split: sum.splits prod.splits io_ret.splits errno.splits)
    then consider "w' = wr_done fd bs [length bs] [] w" "r = IoN (length bs)"
      | e es where "w' = wr_done fd [] [length bs] es w" "r = IoErr e"
      | n es where "w' = wr_done fd (take n bs) [length bs] es w" "r = IoN (min n (length bs))"
      by (auto simp: sys_write_def split: list.splits wr_event.splits)
    then show ?thesis
    proof cases
      case 1
      then show ?thesis by (intro exI [of _ "length bs"] exI) auto
    next
      case 2
      then show ?thesis by (intro exI [of _ 0] exI) auto
    next
      case (3 n es)
      then show ?thesis by (intro exI [of _ n] exI) (auto simp: min.commute)
    qed
  qed
qed

definition unsent :: "apacket \<Rightarrow> byte list" where
  "unsent p = take (pk_len p) (drop (pk_ptr p) (pk_data p))"

lemma unsent_advance:
  assumes "pk_ptr p + pk_len p \<le> length (pk_data p)" "n \<le> pk_len p"
  shows "unsent p = take n (unsent p) @ unsent (p\<lparr>pk_len := pk_len p - n, pk_ptr := pk_ptr p + n\<rparr>)"
proof -
  have "drop n (unsent p) = unsent (p\<lparr>pk_len := pk_len p - n, pk_ptr := pk_ptr p + n\<rparr>)"
    by (simp add: unsent_def drop_take add.commute)
  then show ?thesis by (metis append_take_drop_id)
qed

text \<open>The loop sends a prefix of what is left of the packet; the packet keeps exactly the rest.\<close>

lemma write_loop_spec:
  "write_loop b fd p w = Inr (r, p', w') \<Longrightarrow>
     \<exists>ds cs es. w' = wr_done fd ds cs es w \<and> unsent p = ds @ unsent p' \<and> (r = WDone \<longleftrightarrow> pk_len p' = 0)
       \<and> pk_data p' = pk_data p \<and> msg p' = msg p \<and> pk_ptr p' + pk_len p' = pk_ptr p + pk_len p
       \<and> (pk_len p' = 0 \<or> pk_ptr p' + pk_len p' \<le> length (pk_data p'))"
proof (induction b fd p w rule: write_loop.induct)
  case (1 b fd p w)
  consider (z) "pk_len p = 0" | (big) "pk_len p \<noteq> 0" "pk_ptr p + pk_len p > length (pk_data p)"
    | (w) "pk_len p \<noteq> 0" "\<not> pk_ptr p + pk_len p > length (pk_data p)" by blast
  then show ?case
  proof cases
    case z
    then show ?thesis using 1(3)
      by (subst (asm) write_loop.simps) (auto intro!: exI [of _ "[]"] exI [of _ "wr_ev w fd"] simp: wr_done_id)
  next
    case big
    then show ?thesis using 1(3) by (subst (asm) write_loop.simps) simp
  next
    case w
    obtain x w1 where a: "adb_write fd (unsent p) w = Inr (x, w1)"
      using 1(3) w by (subst (asm) write_loop.simps) (auto simp: unsent_def split: sum.splits)
    obtain n cs es where n: "w1 = wr_done fd (take n (unsent p)) cs es w" "\<forall>m. x = IoN m \<longrightarrow> m = length (take n (unsent p))" "\<forall>e. x = IoErr e \<longrightarrow> n = 0"
      using adb_write_spec [OF a] by blast
    have L: "length (unsent p) = pk_len p" using w by (simp add: unsent_def)
    note A = a [unfolded unsent_def]
    show ?thesis
    proof (cases x)
      case (IoN m)
      have m: "m = min n (pk_len p)" using n IoN by (simp add: L min.commute)
      show ?thesis
      proof (cases "m > 0")
        case True
        let ?p = "p\<lparr>pk_len := pk_len p - m, pk_ptr := pk_ptr p + m\<rparr>"
        have c: "write_loop b fd ?p w1 = Inr (r, p', w')"
          using 1(3) w A IoN True by (subst (asm) write_loop.simps) simp
        have t: "take n (unsent p) = take m (unsent p)" using m L by (simp add: min_def)
        have u: "unsent p = take m (unsent p) @ unsent ?p" using w m by (intro unsent_advance) auto
        from 1(1) [OF w A [unfolded IoN] refl refl True c] obtain ds cs' es' where d: "w' = wr_done fd ds cs' es' w1" "unsent ?p = ds @ unsent p'"
          "r = WDone \<longleftrightarrow> pk_len p' = 0" "pk_data p' = pk_data p" "msg p' = msg p" "pk_ptr p' + pk_len p' = pk_ptr p + pk_len p"
          "pk_len p' = 0 \<or> pk_ptr p' + pk_len p' \<le> length (pk_data p')"
          using m by (elim exE conjE) simp
        show ?thesis
          using d n(1) u t by (intro exI [of _ "take m (unsent p) @ ds"] exI) auto
      next
        case False
        then have "r = WFail" "p' = p" "w' = w1" using 1(3) w A IoN by (subst (asm) write_loop.simps, simp)+
        moreover have "take n (unsent p) = []" using m False w L by auto
        ultimately show ?thesis using n(1) w by (intro exI [of _ "[]"] exI) auto
      qed
    next
      case (IoErr e)
      have e: "e \<noteq> EINTR" using a IoErr adb_write_not_EINTR by blast
      then have "r = WFail \<or> r = WAgain" "p' = p" "w' = w1"
        using 1(3) w A IoErr by (subst (asm) write_loop.simps, simp split: if_splits)+
      then show ?thesis using n IoErr w by (intro exI [of _ "[]"] exI) auto
    qed
  qed
qed

lemma drain_queue_spec:
  "drain_queue fd q w = Inr (r, q', w') \<Longrightarrow>
     \<exists>ds cs es. w' = wr_done fd ds cs es w \<and> concat (map unsent q) = ds @ concat (map unsent q')
       \<and> (r = WDone \<longleftrightarrow> q' = [])"
proof (induction q arbitrary: w)
  case Nil
  then show ?case by (auto intro!: exI [of _ "[]"] exI [of _ "wr_ev w' fd"] simp: wr_done_id)
next
  case (Cons p q)
  obtain x p' w1 where a: "write_loop True fd p w = Inr (x, p', w1)"
    and c: "(case x of WDone \<Rightarrow> drain_queue fd q w1 | _ \<Rightarrow> Inr (x, p' # q, w1)) = Inr (r, q', w')"
    using Cons.prems by (auto simp: bindr_eq_Inr)
  obtain ds cs es where s: "w1 = wr_done fd ds cs es w" "unsent p = ds @ unsent p'" "x = WDone \<longleftrightarrow> pk_len p' = 0"
    using write_loop_spec [OF a] by (elim exE conjE)
  show ?case
  proof (cases "x = WDone")
    case True
    with c have "drain_queue fd q w1 = Inr (r, q', w')" by simp
    from Cons.IH [OF this] obtain ds' cs' es' where "w' = wr_done fd ds' cs' es' w1" "concat (map unsent q) = ds' @ concat (map unsent q')" "r = WDone \<longleftrightarrow> q' = []"
      by blast
    moreover have "unsent p' = []" using s(3) True by (simp add: unsent_def)
    ultimately show ?thesis using s by (intro exI [of _ "ds @ ds'"] exI) auto
  next
    case False
    then have "r = x" "q' = p' # q" "w' = w1" using c by (auto split: wr_result.splits)
    then show ?thesis using s False by (intro exI [of _ ds] exI) auto
  qed
qed


section \<open>The backlog of a local socket\<close>

definition backlog :: "asocket \<Rightarrow> byte list" where
  "backlog s = concat (map unsent (pkt_q s))"

definition payload :: "apacket \<Rightarrow> byte list" where
  "payload p = take (pk_len p) (pk_data p)"

lemma unsent_reset: "unsent (p\<lparr>pk_ptr := 0\<rparr>) = payload p"
  by (simp add: unsent_def payload_def)

definition wants_write :: "'a fdstate_scheme \<Rightarrow> addr \<Rightarrow> bool" where
  "wants_write st a \<longleftrightarrow> (\<exists>f. fdes st a = Some f \<and> has (fde_state f) FDE_WRITE)"

lemma fdevent_set_events:
  assumes ok: "fdevent_set a ev st = Inr st'"
  shows "\<exists>g. fdes st' a = Some g \<and> (\<forall>n<8. bit (fde_state g) n = bit ev n)"
proof -
  obtain f where f: "fdes st a = Some f" using ok by (auto simp: fdevent_set_def bindr_eq_Inr Let_def)
  let ?s = "(fde_state f AND FDE_STATEMASK) OR (ev AND FDE_EVENTMASK)"
  show ?thesis
  proof (cases "fde_state f AND FDE_EVENTMASK = ev AND FDE_EVENTMASK")
    case True
    have "bit (fde_state f) n = bit ev n" if "n < 8" for n
      using arg_cong [OF True, of "\<lambda>x. bit x n"] that by (simp add: bit_and_iff)
    then show ?thesis using ok f True by (auto simp: fdevent_set_def get_fde_def Let_def)
  next
    case False
    then obtain g where "fdes st' a = Some g" "fde_state g = ?s \<or> fde_state g = ?s AND NOT FDE_PENDING"
      using ok f by (auto simp: fdevent_set_def get_fde_def Let_def bindr_eq_Inr split: if_splits)
    moreover have "bit ?s n = bit ev n" "bit (?s AND NOT FDE_PENDING) n = bit ev n" if "n < 8" for n
    proof -
      have "\<not> bit FDE_PENDING n" using that unfolding flag_exp bit_exp_iff by simp
      then show "bit ?s n = bit ev n" "bit (?s AND NOT FDE_PENDING) n = bit ev n" using that by (auto simp: flag_bits)
    qed
    ultimately show ?thesis by auto
  qed
qed

lemma fdevent_add_wants:
  assumes "fdevent_add a FDE_WRITE st = Inr st'"
  shows "wants_write st' a"
proof -
  obtain f :: fdevent where "fdevent_set a (fde_state f AND FDE_EVENTMASK OR FDE_WRITE AND FDE_EVENTMASK) st = Inr st'"
    using assms by (auto simp: fdevent_add_def bindr_eq_Inr intro: that)
  moreover have "bit FDE_WRITE 1" unfolding flag_exp bit_exp_iff by simp
  ultimately show ?thesis using fdevent_set_events by (fastforce simp: wants_write_def flag_bits)
qed

lemma fd_frame_wr: "fd_frame st st' \<Longrightarrow> wr_out st' = wr_out st"
  by (simp add: fd_frame_def)

lemma enqueue_backlog:
  assumes s: "socks st a = Some s"
    and ok: "bindr (upd_sock a (\<lambda>s. s\<lparr>pkt_q := pkt_q s @ [p]\<rparr>) st) (\<lambda>st. bindr (fdevent_add a FDE_WRITE st) (\<lambda>st. Inr (1, st))) = Inr (r, st')"
  shows "r = (1 :: int) \<and> socks st' = (socks st)(a \<mapsto> s\<lparr>pkt_q := pkt_q s @ [p]\<rparr>) \<and> wr_out st' = wr_out st \<and> wants_write st' a"
proof -
  have f: "fdevent_add a FDE_WRITE (put_sock a (s\<lparr>pkt_q := pkt_q s @ [p]\<rparr>) st) = Inr st'" and r: "r = 1"
    using ok s by (auto simp: bindr_eq_Inr upd_sock_def get_sock_def)
  show ?thesis
    using r fdevent_add_wants [OF f] fd_frame_wr [OF fdevent_add_frame [OF f]] fd_frame_sstate(1) [OF fdevent_add_frame [OF f]]
    by (simp add: put_sock_def)
qed

section \<open>Every handler keeps the invariant\<close>

text \<open>
  The handlers of the sockets do not change the compile-time switch, add no records to the pending
  list, send no registration messages and activate no event record embedded in another object.
\<close>

definition calm :: "'a tstate_scheme \<Rightarrow> 'b tstate_scheme \<Rightarrow> bool" where
  "calm st st' \<longleftrightarrow> ADB_HOST st' = ADB_HOST st \<and> length (list_pending st') \<le> length (list_pending st)
     \<and> tmsgs st' = tmsgs st \<and> next_addr st \<le> next_addr st'
     \<and> (\<forall>a. \<not> 4 dvd a \<longrightarrow> act st' a = Some True \<longrightarrow> act st a = Some True)"

lemma calm_refl [simp]: "calm st st"
  by (simp add: calm_def)

lemma calm_trans [trans]: "calm st st' \<Longrightarrow> calm st' st'' \<Longrightarrow> calm st st''"
  by (simp add: calm_def)

lemma calm_simps [simp]:
  "calm st (rd_set fd rs st') = calm st st'" "calm st (wr_done fd bs cs es st') = calm st st'"
  "calm st (put_transport t tr st') = calm st st'"
  "calm st (st'\<lparr>pipe := x\<rparr>) = calm st st'"
  by (simp_all add: calm_def rd_set_def wr_done_def put_transport_def act_def)

lemma calm_sock_simps [simp]:
  "calm st (put_sock a s st') = calm st st'" "calm (put_sock a s st0) st = calm st0 st"
  "calm st st' \<Longrightarrow> calm st (free_sock a st')"
  by (auto simp: calm_def put_sock_def free_sock_def act_def)

lemma calm_lists [simp]:
  fixes st' :: "'b sstate_scheme"
  shows "calm st (st'\<lparr>local_socket_list := l\<rparr>) = calm st st'" "calm st (st'\<lparr>local_socket_closing_list := l\<rparr>) = calm st st'"
  "calm st (st'\<lparr>device_tracker_list := l\<rparr>) = calm st st'" "calm st (st'\<lparr>jdwp_trackers_list := l\<rparr>) = calm st st'"
  by (simp_all add: calm_def act_def)

lemma fd_frame_host: "fd_frame st st' \<Longrightarrow> ADB_HOST st' = ADB_HOST st"
  by (rule fd_frame_tstate)

lemma plist_remove_pending: "fdevent_plist_remove a st = Inr st' \<Longrightarrow> length (list_pending st') \<le> length (list_pending st)"
  by (auto simp: fdevent_plist_remove_def length_remove1 split: if_splits)

lemma fdevent_update_pending: "fdevent_update a ev st = Inr st' \<Longrightarrow> list_pending st' = list_pending st"
  by (auto simp: fdevent_update_def bindr_eq_Inr split: if_splits)

lemma disconnect_pending: "fdevent_disconnect a st = Inr st' \<Longrightarrow> list_pending st' = list_pending st"
  by (auto simp: fdevent_disconnect_def bindr_eq_Inr Let_def split: if_splits)

lemma unregister_pending: "fdevent_unregister a st = Inr st' \<Longrightarrow> list_pending st' = list_pending st"
  by (auto simp: fdevent_unregister_def bindr_eq_Inr Let_def adb_close_def split: if_splits)

lemma fd_frame_calm:
  assumes "fd_frame st st'" "length (list_pending st') \<le> length (list_pending st)"
    and "\<And>a. \<not> 4 dvd a \<Longrightarrow> act st' a = Some True \<Longrightarrow> act st a = Some True"
  shows "calm st st'"
  using assms(2,3) fd_frame_tstate [OF assms(1)] by (simp add: calm_def)

lemma fdevent_set_pend: "fdevent_set a ev st = Inr st' \<Longrightarrow> length (list_pending st') \<le> length (list_pending st)"
  by (auto simp: fdevent_set_def Let_def bindr_eq_Inr split: if_splits dest!: plist_remove_pending fdevent_update_pending)

lemma fdevent_set_calm: "fdevent_set a ev st = Inr st' \<Longrightarrow> calm st st'"
  by (rule fd_frame_calm [OF fdevent_set_frame]) (auto simp: fdevent_set_act dest: fdevent_set_pend)

lemma fdevent_add_calm: "fdevent_add a ev st = Inr st' \<Longrightarrow> calm st st'"
  by (auto simp: fdevent_add_def bindr_eq_Inr dest: fdevent_set_calm)

lemma fdevent_del_calm: "fdevent_del a ev st = Inr st' \<Longrightarrow> calm st st'"
  by (auto simp: fdevent_del_def bindr_eq_Inr dest: fdevent_set_calm)

lemma fdevent_remove_pend: "fdevent_remove a st = Inr st' \<Longrightarrow> length (list_pending st') \<le> length (list_pending st)"
  by (auto simp: fdevent_remove_def bindr_eq_Inr split: if_splits dest!: plist_remove_pending disconnect_pending unregister_pending)

lemma fdevent_remove_calm: "fdevent_remove a st = Inr st' \<Longrightarrow> calm st st'"
  by (rule fd_frame_calm [OF fdevent_remove_frame]) (auto simp: fdevent_remove_act dest: fdevent_remove_pend split: if_splits)

lemma remove_socket_calm: "remove_socket a st = Inr st' \<Longrightarrow> calm st st'"
  by (cases "socks st a") (simp_all add: remove_socket_def get_sock_def split: if_splits, (drule sym, simp)+)

lemma send_packet_calm: "send_packet p t st = Inr st' \<Longrightarrow> calm st st'"
  by (auto dest!: send_packet_frame)

lemma remove_disconnect_calm: "remove_transport_disconnect t d st = Inr st' \<Longrightarrow> calm st st'"
  by (auto simp: remove_transport_disconnect_def bindr_eq_Inr split: option.splits)

lemma sendfailmsg_calm: "sendfailmsg fd reason st = Inr (r, st') \<Longrightarrow> calm st st'"
  by (auto dest!: sendfailmsg_frame)

lemma local_close_tail_calm: "local_close_tail a st = Inr st' \<Longrightarrow> calm st st'"
  by (auto simp: local_close_tail_def local_socket_destroy_def bindr_eq_Inr Let_def split: if_splits
      dest!: remove_socket_calm fdevent_remove_calm fdevent_del_calm intro: calm_trans)

lemma close_tail_calm: "close_tail c a pid st = Inr st' \<Longrightarrow> calm st st'"
  by (cases c) (auto simp: close_tail_def bindr_eq_Inr upd_sock_eq
      dest!: local_close_tail_calm remove_socket_calm send_packet_calm remove_disconnect_calm intro: calm_trans)

lemma asocket_close_calm: "asocket_close a st = Inr st' \<Longrightarrow> calm st st'"
proof (induction a st arbitrary: st' rule: asocket_close.induct)
  case (1 a st)
  obtain s where s: "socks st a = Some s" using 1(3) by (subst (asm) asocket_close.simps) (auto simp: bindr_eq_Inr)
  show ?case
  proof (cases "s_close s = local_socket_close_notify_fn")
    case True
    let ?s = "s\<lparr>s_ready := local_socket_ready_fn, s_close := local_socket_close_fn\<rparr>"
    obtain r s1 where f: "sendfailmsg (s_fd s) ''closed'' (put_sock a ?s st) = Inr (r, s1)" and c: "asocket_close a s1 = Inr st'"
      using 1(3) s True by (subst (asm) asocket_close.simps) (auto simp: bindr_eq_Inr get_sock_def)
    have "calm st s1" using sendfailmsg_calm [OF f] by simp
    also have "calm s1 st'" using 1(1) [of s "(r, s1)" r s1 st'] s True f c by simp
    finally show ?thesis .
  next
    case False
    obtain s1 where s1: "(if s_close s = jdwp_socket_close_fn then remove_socket a st else Inr st) = Inr s1"
      and c: "(case peer s of None \<Rightarrow> close_tail (s_close s) a 0 s1
         | Some p \<Rightarrow> bindr (get_sock p s1) (\<lambda>ps.
             bindr (asocket_close p (put_sock p (ps\<lparr>peer := None\<rparr>) s1)) (close_tail (s_close s) a (s_id ps)))) = Inr st'"
      using 1(3) s False by (subst (asm) asocket_close.simps) (auto simp: bindr_eq_Inr)
    have "calm st s1" using s1 by (auto split: if_splits dest!: remove_socket_calm)
    also have "calm s1 st'"
      using c 1(2) [OF _ False s1] s
      by (fastforce simp: bindr_eq_Inr split: option.splits dest!: close_tail_calm intro: calm_trans)
    finally show ?thesis .
  qed
qed

text \<open>
  A transport whose registration is under way has no active event record yet, and is registered
  once; active embedded records belong to objects that have been allocated.
\<close>

definition reg_ok :: "'a tstate_scheme \<Rightarrow> bool" where
  "reg_ok st \<longleftrightarrow> distinct (filter (\<lambda>m. snd m \<noteq> 0) (tmsgs st))
     \<and> (\<forall>t n. (t, n) \<in> set (tmsgs st) \<longrightarrow> n \<noteq> 0 \<longrightarrow> n = 1 \<and> t < next_addr st \<and> act st (transport_fde t) \<noteq> Some True)
     \<and> (\<forall>a. \<not> 4 dvd a \<longrightarrow> act st a = Some True \<longrightarrow> a div 4 < next_addr st)"

lemma reg_ok_cong: "tmsgs st' = tmsgs st \<Longrightarrow> next_addr st' = next_addr st \<Longrightarrow> fdes st' = fdes st \<Longrightarrow> reg_ok st' = reg_ok st"
  by (simp add: reg_ok_def act_def)

lemma reg_ok_simps [simp]:
  "reg_ok (wr_done fd bs cs es st) = reg_ok st" "reg_ok (rd_set fd rs st) = reg_ok st" "reg_ok (put_transport t tr st) = reg_ok st"
  by (rule reg_ok_cong; simp add: wr_done_def rd_set_def put_transport_def)+

lemma reg_ok_sock_simps [simp]:
  "reg_ok (put_sock a s st) = reg_ok st" "reg_ok (st\<lparr>device_tracker_list := x\<rparr>) = reg_ok st"
  "reg_ok (st\<lparr>jdwp_trackers_list := x\<rparr>) = reg_ok st"
  by (rule reg_ok_cong; simp add: put_sock_def)+

lemma transport_fde_odd: "\<not> 4 dvd transport_fde t" "\<not> 4 dvd auth_fde t"
  unfolding transport_fde_def auth_fde_def by presburger+

lemma reg_ok_calm: "reg_ok st \<Longrightarrow> calm st st' \<Longrightarrow> reg_ok st'"
  unfolding reg_ok_def calm_def using transport_fde_odd(1) by (metis order.strict_trans2)

definition ginv :: "bool \<Rightarrow> nat \<Rightarrow> 'a sstate_scheme \<Rightarrow> bool" where
  "ginv h k st \<longleftrightarrow> sock_inv {} st \<and> ADB_HOST st = h \<and> length (list_pending st) \<le> k \<and> reg_ok st"

lemma pending_simps [simp]:
  "list_pending (put_sock a s st) = list_pending st" "ADB_HOST (put_sock a s st) = ADB_HOST st"
  "list_pending (rd_set fd rs st) = list_pending st" "ADB_HOST (rd_set fd rs st) = ADB_HOST st"
  "list_pending (wr_done fd bs cs es st) = list_pending st"
  "list_pending (put_transport t tr st) = list_pending st"
  by (simp_all add: put_sock_def rd_set_def wr_done_def put_transport_def)

lemma ginv_simps [simp]:
  "ginv h k (wr_done fd bs cs es st) = ginv h k st"
  "ginv h k (rd_set fd rs st) = ginv h k st"
  "ginv h k (put_transport t tr st) = ginv h k st"
  by (simp_all add: ginv_def)

lemma ensures_upd_sock [simp]:
  "ensures (upd_sock a f st) P \<longleftrightarrow> (\<forall>s. socks st a = Some s \<longrightarrow> P (put_sock a (f s) st))"
  by (auto simp: upd_sock_def get_sock_def from_opt_def split: option.splits)

lemma ensures_get_sock [simp]: "ensures (get_sock a st) P \<longleftrightarrow> (\<forall>s. socks st a = Some s \<longrightarrow> P s)"
  by (auto simp: get_sock_def from_opt_def split: option.splits)

lemma ensures_deref [simp]: "ensures (deref x) P \<longleftrightarrow> (\<forall>p. x = Some p \<longrightarrow> P p)"
  by (auto simp: deref_def from_opt_def split: option.splits)

lemma ginv_sock_inv: "ginv h k st \<Longrightarrow> sock_inv {} st"
  by (simp add: ginv_def)

lemma ginv_calm: "ginv h k st \<Longrightarrow> sock_inv {} st' \<Longrightarrow> calm st st' \<Longrightarrow> ginv h k st'"
  by (auto simp: ginv_def reg_ok_calm) (auto simp: calm_def)

lemma ginv_close: "ginv h k st \<Longrightarrow> ensures (asocket_close a st) (ginv h k)"
  by (rule ensuresI) (auto dest: ginv_sock_inv asocket_close_inv asocket_close_calm intro: ginv_calm)

lemma ginv_send: "ginv h k st \<Longrightarrow> ensures (send_packet p t st) (\<lambda>st'. ginv h k st' \<and> socks st' = socks st)"
  by (rule ensuresI) (auto dest: ginv_sock_inv send_packet_inv send_packet_calm intro: ginv_calm)

lemma ginv_fdevent_add: "ginv h k st \<Longrightarrow> ensures (fdevent_add a ev st) (ginv h k)"
  by (rule ensuresI) (auto dest: ginv_sock_inv fdevent_add_sock fdevent_add_calm intro: ginv_calm)

lemma ginv_fdevent_del: "ginv h k st \<Longrightarrow> ensures (fdevent_del a ev st) (\<lambda>st'. ginv h k st' \<and> socks st' = socks st)"
  by (rule ensuresI) (auto dest: ginv_sock_inv fdevent_del_sock fdevent_del_calm intro: ginv_calm)

lemma ginv_write_loop:
  assumes "ginv h k st"
  shows "ensures (write_loop b fd p st) (\<lambda>(r, p, st'). ginv h k st' \<and> socks st' = socks st)"
proof (rule ensuresI)
  fix x assume "write_loop b fd p st = Inr x"
  then obtain r p' w' where x: "x = (r, p', w')" and w: "write_loop b fd p st = Inr (r, p', w')" by (cases x) auto
  obtain ds cs es where "w' = wr_done fd ds cs es st" using write_loop_spec [OF w] by (elim exE conjE)
  then show "case x of (r, p, st') \<Rightarrow> ginv h k st' \<and> socks st' = socks st" using assms by (simp add: x)
qed

lemma ginv_put:
  assumes "ginv h k st" "socks st a = Some s" "peer s' = peer s" "is_local s \<longrightarrow> is_local s'" "linkable s \<longrightarrow> linkable s'" "closing s \<longrightarrow> closing s'"
  shows "ginv h k (put_sock a s' st)"
  using assms by (intro ginv_calm [OF assms(1)]) (auto dest: ginv_sock_inv intro: put_sock_inv)

lemma ginv_put_same:
  assumes "ginv h k st" "socks st a = Some s" "peer s' = peer s" "s_close s' = s_close s" "closing s' = closing s"
  shows "ginv h k (put_sock a s' st)"
  using assms by (intro ginv_put) (auto simp: is_local_def linkable_def)

lemma ginv_local_enqueue: "ginv h k st \<Longrightarrow> ensures (local_socket_enqueue a p st) (\<lambda>(r, st'). ginv h k st')"
proof -
  assume g: "ginv h k st"
  have b: "ensures (bindr (upd_sock a (\<lambda>s. s\<lparr>pkt_q := pkt_q s @ [p]\<rparr>) x) (\<lambda>st. bindr (fdevent_add a FDE_WRITE st) (\<lambda>st. Inr (1 :: int, st))))
       (\<lambda>(r, st'). ginv h k st')" if "ginv h k x" for x p
    using that by (auto intro!: ginv_fdevent_add [THEN ensures_mono] ginv_put_same)
  show ?thesis
    unfolding local_socket_enqueue_def Let_def
    using g b by (auto intro!: ginv_write_loop [OF g, THEN ensures_mono] ginv_close [THEN ensures_mono] split: wr_result.splits)
qed

lemma ginv_remote_enqueue: "ginv h k st \<Longrightarrow> ensures (remote_socket_enqueue a p st) (\<lambda>(r, st'). ginv h k st')"
  by (auto simp: remote_socket_enqueue_def Let_def intro!: ginv_send [THEN ensures_mono])

lemma ginv_remote_ready: "ginv h k st \<Longrightarrow> ensures (remote_socket_ready a st) (ginv h k)"
  by (auto simp: remote_socket_ready_def intro!: ginv_send [THEN ensures_mono])

lemma ginv_connect_to_remote: "ginv h k st \<Longrightarrow> ensures (connect_to_remote a d st) (ginv h k)"
  by (auto simp: connect_to_remote_def Let_def intro!: ginv_send [THEN ensures_mono])

lemma ginv_close_peer_of: "ginv h k st \<Longrightarrow> ensures (close_peer_of a st) (ginv h k)"
  by (auto simp: close_peer_of_def intro!: ginv_close)

lemma ginv_adb_write:
  "ginv h k st \<Longrightarrow> ensures (adb_write fd bs st) (\<lambda>(r, st'). ginv h k st' \<and> socks st' = socks st)"
  by (rule ensuresI) (auto dest!: adb_write_spec)

lemma ginv_sendfailmsg:
  "ginv h k st \<Longrightarrow> ensures (sendfailmsg fd reason st) (\<lambda>(r, st'). ginv h k st' \<and> socks st' = socks st)"
  by (rule ensuresI) (auto dest!: sendfailmsg_frame)


section \<open>What the read loop takes\<close>

text \<open>All bytes a reader can still get.\<close>

fun stream_bytes :: "rd_event list \<Rightarrow> byte list" where
  "stream_bytes [] = []"
| "stream_bytes (RdBytes bs # es) = bs @ stream_bytes es"
| "stream_bytes (RdErr e # es) = stream_bytes es"

lemma adb_read_spec:
  "adb_read fd len w = Inr (r, bs, w') \<Longrightarrow>
     \<exists>es. w' = rd_set fd es w \<and> stream_bytes (rd_ev w fd) = bs @ stream_bytes es \<and> length bs \<le> len
       \<and> (r = IoN (length bs) \<or> (\<exists>e. r = IoErr e \<and> bs = []))"
proof (induction fd len w rule: adb_read.induct)
  case (1 fd len w)
  show ?case
  proof (cases "\<exists>x w1. sys_read fd len w = Inr (IoErr EINTR, x, w1)")
    case True
    then obtain x w1 where w1: "sys_read fd len w = Inr (IoErr EINTR, x, w1)" by blast
    then have a: "adb_read fd len w1 = Inr (r, bs, w')" using 1(2) by (subst (asm) adb_read.simps) simp
    obtain es where e: "w1 = rd_set fd es w" "rd_ev w fd = RdErr EINTR # es"
      using w1 by (auto simp: sys_read_def split: list.splits rd_event.splits if_splits)
    obtain es' where "w' = rd_set fd es' w1" "stream_bytes (rd_ev w1 fd) = bs @ stream_bytes es'" "length bs \<le> len"
        "r = IoN (length bs) \<or> (\<exists>e. r = IoErr e \<and> bs = [])"
      using 1(1) [OF w1 refl refl refl refl a] by blast
    then show ?thesis using e by (intro exI [of _ es']) simp
  next
    case False
    then have s: "sys_read fd len w = Inr (r, bs, w')" using 1(2)
      by (subst (asm) adb_read.simps) (auto split: sum.splits prod.splits io_ret.splits errno.splits)
    then consider (n) "rd_ev w fd = []" "r = IoErr EAGAIN" "bs = []" "w' = w"
      | (e) e es where "rd_ev w fd = RdErr e # es" "r = IoErr e" "bs = []" "w' = rd_set fd es w"
      | (b) cs es where "rd_ev w fd = RdBytes cs # es" "r = IoN (length bs)" "bs = take len cs"
          "w' = rd_set fd (if drop len cs = [] then es else RdBytes (drop len cs) # es) w"
      by (auto simp: sys_read_def split: list.splits rd_event.splits if_splits)
    then show ?thesis
    proof cases
      case n
      then show ?thesis by (intro exI [of _ "[]"]) (simp add: rd_set_id)
    next
      case e
      then show ?thesis by (intro exI [of _ es]) simp
    next
      case b
      have "stream_bytes (if drop len cs = [] then es else RdBytes (drop len cs) # es) = drop len cs @ stream_bytes es" by simp
      then show ?thesis using b by (intro exI conjI) (assumption, simp_all)
    qed
  qed
qed

lemma read_loop_spec:
  "read_loop fd avail r w = Inr (ds, eof, r', w') \<Longrightarrow>
     \<exists>es. w' = rd_set fd es w \<and> stream_bytes (rd_ev w fd) = ds @ stream_bytes es \<and> length ds \<le> avail"
proof (induction fd avail r w arbitrary: ds rule: read_loop.induct)
  case (1 fd avail r w)
  show ?case
  proof (cases "avail = 0")
    case True
    then show ?thesis using 1(3)
      by (subst (asm) read_loop.simps) (auto intro: exI [of _ "rd_ev w' fd"])
  next
    case False
    obtain x bs w1 where a: "adb_read fd avail w = Inr (x, bs, w1)"
      using 1(3) False by (subst (asm) read_loop.simps) (auto split: sum.splits)
    obtain es where e: "w1 = rd_set fd es w" "stream_bytes (rd_ev w fd) = bs @ stream_bytes es" "length bs \<le> avail"
      "x = IoN (length bs) \<or> (\<exists>e. x = IoErr e \<and> bs = [])"
      using adb_read_spec [OF a] by (elim exE conjE)
    show ?thesis
    proof (cases x)
      case (IoN n)
      show ?thesis
      proof (cases "n > 0")
        case True
        obtain ds' where d: "read_loop fd (avail - n) (int n) w1 = Inr (ds', eof, r', w')" "ds = bs @ ds'"
          using 1(3) False a IoN True by (subst (asm) read_loop.simps) (auto simp: bindr_eq_Inr)
        from 1(1) [OF False a [unfolded IoN] refl refl refl True d(1)] obtain es' where
          "w' = rd_set fd es' w1" "stream_bytes (rd_ev w1 fd) = ds' @ stream_bytes es'" "length ds' \<le> avail - n"
          by (elim exE conjE)
        then show ?thesis using d e IoN by (intro exI [of _ es']) auto
      next
        case False
        then have "ds = []" "w' = w1" using 1(3) \<open>avail \<noteq> 0\<close> a IoN by (subst (asm) read_loop.simps, simp)+
        then show ?thesis using e IoN False by (intro exI [of _ es]) auto
      qed
    next
      case (IoErr e')
      have "e' \<noteq> EINTR" using a IoErr adb_read_not_EINTR by blast
      then have "ds = []" "w' = w1" using 1(3) False a IoErr by (subst (asm) read_loop.simps, simp split: if_splits)+
      then show ?thesis using e IoErr by (intro exI [of _ es]) auto
    qed
  qed
qed

lemma ginv_read_loop:
  assumes "ginv h k st"
  shows "ensures (read_loop fd n r st) (\<lambda>(ds, eof, r, st'). ginv h k st' \<and> socks st' = socks st)"
proof (rule ensuresI)
  fix x assume "read_loop fd n r st = Inr x"
  then obtain ds eof r' w' where x: "x = (ds, eof, r', w')" and w: "read_loop fd n r st = Inr (ds, eof, r', w')" by (cases x) auto
  obtain es where "w' = rd_set fd es st" using read_loop_spec [OF w] by (elim exE conjE)
  then show "case x of (ds, eof, r, st') \<Rightarrow> ginv h k st' \<and> socks st' = socks st" using assms by (simp add: x)
qed

text \<open>
  The sockets call each other through \<open>enqueue\<close> and \<open>ready\<close>; what the handlers need of the smart
  socket's enqueue function is that it keeps the invariant.
\<close>

locale smart_contract =
  fixes smart :: "'a sstate_scheme enqueue" and host :: bool
  assumes smart_keeps: "ginv host k st \<Longrightarrow> ensures (smart a p st) (\<lambda>(r, st'). ginv host k st')"
begin

lemma enqueue_keeps: "ginv host k st \<Longrightarrow> ensures (asocket_enqueue smart a p st) (\<lambda>(r, st'). ginv host k st')"
  by (auto simp: asocket_enqueue_def split: enqueue_fn.splits intro!: smart_keeps ginv_local_enqueue ginv_remote_enqueue
      ginv_close [THEN ensures_mono] ginv_close_peer_of [THEN ensures_mono])

lemma tracker_send_keeps: "ginv host k st \<Longrightarrow> ensures (device_tracker_send smart a txt st) (ginv host k)"
  by (auto simp: device_tracker_send_def intro!: enqueue_keeps [THEN ensures_mono])

lemma local_ready_keeps: "ginv h k st \<Longrightarrow> ensures (local_socket_ready a st) (ginv h k)"
  unfolding local_socket_ready_def by (rule ginv_fdevent_add)

lemma ready_notify_keeps: "ginv h k st \<Longrightarrow> ensures (local_socket_ready_notify a st) (ginv h k)"
  by (auto simp: local_socket_ready_notify_def is_local_def linkable_def
      intro!: ginv_adb_write [THEN ensures_mono] local_ready_keeps ginv_put)

lemma device_tracker_ready_keeps: "ginv host k st \<Longrightarrow> ensures (device_tracker_ready smart a st) (ginv host k)"
  by (auto simp: device_tracker_ready_def Let_def intro!: ensuresI [of "list_transports_msg n st" for n st] tracker_send_keeps ginv_put_same)

lemma jdwp_socket_ready_keeps: "ginv host k st \<Longrightarrow> ensures (jdwp_socket_ready smart a st) (ginv host k)"
  by (auto simp: jdwp_socket_ready_def Let_def intro!: ensuresI [of "jdwp_process_list n st" for n st]
      enqueue_keeps [THEN ensures_mono] ginv_put_same ginv_close)

lemma jdwp_tracker_ready_keeps: "ginv host k st \<Longrightarrow> ensures (jdwp_tracker_ready smart a st) (ginv host k)"
  by (auto simp: jdwp_tracker_ready_def Let_def intro!: ensuresI [of "jdwp_process_list_msg n st" for n st]
      enqueue_keeps [THEN ensures_mono] ginv_put_same)

lemma ready_keeps: "ginv host k st \<Longrightarrow> ensures (asocket_ready smart a st) (ginv host k)"
  by (auto simp: asocket_ready_def split: ready_fn.splits intro!: local_ready_keeps ready_notify_keeps ginv_remote_ready
      device_tracker_ready_keeps jdwp_socket_ready_keeps jdwp_tracker_ready_keeps)

lemma drain_queue_keeps:
  assumes "ginv h k st"
  shows "ensures (drain_queue fd q st) (\<lambda>(r, q', st'). ginv h k st' \<and> socks st' = socks st)"
proof (rule ensuresI)
  fix x assume "drain_queue fd q st = Inr x"
  then obtain r q' w' where x: "x = (r, q', w')" and w: "drain_queue fd q st = Inr (r, q', w')" by (cases x) auto
  obtain ds cs es where "w' = wr_done fd ds cs es st" using drain_queue_spec [OF w] by (elim exE conjE)
  then show "case x of (r, q', st') \<Rightarrow> ginv h k st' \<and> socks st' = socks st" using assms by (simp add: x)
qed

lemma write_event_keeps: "ginv host k st \<Longrightarrow> ensures (local_socket_write_event smart a fd st) (\<lambda>(go, st'). ginv host k st')"
  by (auto simp: local_socket_write_event_def Let_def split: wr_result.splits
      intro!: drain_queue_keeps [THEN ensures_mono] ginv_close [THEN ensures_mono] ginv_fdevent_del [THEN ensures_mono]
        ready_keeps [THEN ensures_mono] ginv_put_same)

lemma read_event_keeps: "ginv host k st \<Longrightarrow> ensures (local_socket_read_event smart a fd st) (ginv host k)"
  by (auto simp: local_socket_read_event_def get_fde_def from_opt_def split: option.splits
      intro!: ginv_read_loop [THEN ensures_mono] enqueue_keeps [THEN ensures_mono] ginv_fdevent_del [THEN ensures_mono] ginv_close)

lemma event_keeps: "ginv host k st \<Longrightarrow> ensures (local_socket_event smart a fd ev st) (ginv host k)"
  by (auto simp: local_socket_event_def intro!: write_event_keeps [THEN ensures_mono] read_event_keeps)

lemma send_trackers_keeps: "ginv host k st \<Longrightarrow> ensures (send_trackers smart txt as st) (ginv host k)"
  by (induction as arbitrary: st) (auto intro!: tracker_send_keeps [THEN ensures_mono])

lemma update_transports_keeps: "ginv host k st \<Longrightarrow> ensures (update_transports smart st) (ginv host k)"
  by (auto simp: update_transports_def intro!: ensuresI [of "list_transports_msg n st" for n st] send_trackers_keeps)

lemma send_jdwp_trackers_keeps: "ginv host k st \<Longrightarrow> ensures (send_jdwp_trackers smart txt as st) (ginv host k)"
  by (induction as arbitrary: st) (auto intro!: tracker_send_keeps [THEN ensures_mono])

lemma jdwp_process_list_updated_keeps: "ginv host k st \<Longrightarrow> ensures (jdwp_process_list_updated smart st) (ginv host k)"
  by (auto simp: jdwp_process_list_updated_def intro!: ensuresI [of "jdwp_process_list_msg n st" for n st] send_jdwp_trackers_keeps)

end

section \<open>The smart socket of the daemon\<close>

lemma ginv_smart_fail: "ginv h k st \<Longrightarrow> ensures (smart_fail a st) (\<lambda>(r, st'). ginv h k st')"
  by (auto simp: smart_fail_def intro!: ginv_close [THEN ensures_mono])

lemma ginv_smart_refuse: "ginv h k st \<Longrightarrow> ensures (smart_refuse a reason st) (\<lambda>(r, st'). ginv h k st')"
  by (auto simp: smart_refuse_def peer_fd_def intro!: ginv_sendfailmsg [THEN ensures_mono] ginv_smart_fail)

lemma ginv_smart_transport:
  "ginv h k st \<Longrightarrow> ensures (smart_transport a st) (\<lambda>(r, st'). ginv h k st')"
  by (auto simp: smart_transport_def intro!: ginv_put_same split: option.splits sum.splits)

text \<open>Handing the client's socket over to the device: the smart socket is detached and closed.\<close>

lemma ginv_hand_over:
  assumes g: "ginv h k st" and s: "socks st a = Some s" "peer s = Some p" "socks st p = Some ps"
    and ps': "peer ps' = None" "is_local ps'" "closing ps' = closing ps"
    and st': "sock_inv {a} (put_sock p ps' st) \<Longrightarrow> sock_inv {a} st'" "socks st' = (socks st)(p \<mapsto> ps')" "calm st st'"
  shows "ensures (bindr (upd_sock a (\<lambda>x. x\<lparr>peer := None\<rparr>) st') (\<lambda>st. bindr (asocket_close a st) (\<lambda>st. Inr (1 :: int, st)))) (\<lambda>(r, st'). ginv h k st')"
proof -
  have i: "sock_inv {} st" using g by (simp add: ginv_def)
  have d: "sock_inv {a} (put_sock p (ps\<lparr>peer := None\<rparr>) st)" "p \<noteq> a" "peer ps = Some a" using detach_inv [OF i s] by auto
  have "sock_inv {a} (put_sock p ps' (put_sock p (ps\<lparr>peer := None\<rparr>) st))"
    using ps' by (intro put_sock_inv [OF d(1), of p "ps\<lparr>peer := None\<rparr>"]) (auto simp: linkable_def is_local_def)
  then have "sock_inv {a} st'" using st'(1) by simp
  moreover have "alone {a} st' a"
    unfolding alone_def
  proof (intro allI impI notI)
    fix b t assume b: "socks st' b = Some t" "b \<notin> {a}" "b \<noteq> a" "peer t = Some a"
    then have "b \<noteq> p" using st'(2) ps'(1) by auto
    then have "socks st b = Some t" using b st'(2) by auto
    then show False using pairedD [OF i, of b t a] b s \<open>b \<noteq> p\<close> by auto
  qed
  ultimately have "ginv h k (put_sock a (s\<lparr>peer := None\<rparr>) st')"
    using clear_peer_inv [of "{a}" st' a s] s d(2) st'(2,3) by (intro ginv_calm [OF g]) auto
  then show ?thesis using s st'(2) d(2) by (auto intro!: ginv_close [THEN ensures_mono])
qed

lemma connect_to_remote_frame:
  "connect_to_remote a d st = Inr st' \<Longrightarrow> (sock_inv E st' = sock_inv E st) \<and> socks st' = socks st \<and> calm st st'"
  by (auto simp: connect_to_remote_def Let_def bindr_eq_Inr split: if_splits dest: send_packet_inv send_packet_calm)

lemma ginv_connect_hand_over:
  assumes g: "ginv h k st" and s: "socks st a = Some s" "peer s = Some p" "socks st p = Some ps"
  shows "ensures (connect_to_remote p service
       (put_sock p (ps\<lparr>s_ready := local_socket_ready_notify_fn, s_close := local_socket_close_notify_fn, peer := None, s_transport := t\<rparr>) st))
     (\<lambda>x. \<forall>s. socks x a = Some s \<longrightarrow> ensures (asocket_close a (put_sock a (s\<lparr>peer := None\<rparr>) x)) (ginv h k))"
proof (rule ensuresI)
  let ?ps = "ps\<lparr>s_ready := local_socket_ready_notify_fn, s_close := local_socket_close_notify_fn, peer := None, s_transport := t\<rparr>"
  fix x assume x: "connect_to_remote p service (put_sock p ?ps st) = Inr x"
  have "ensures (bindr (upd_sock a (\<lambda>x. x\<lparr>peer := None\<rparr>) x) (\<lambda>st. bindr (asocket_close a st) (\<lambda>st. Inr (1 :: int, st)))) (\<lambda>(r, st'). ginv h k st')"
    using connect_to_remote_frame [OF x] by (intro ginv_hand_over [OF g s, of ?ps]) (auto simp: is_local_def)
  then show "\<forall>s. socks x a = Some s \<longrightarrow> ensures (asocket_close a (put_sock a (s\<lparr>peer := None\<rparr>) x)) (ginv h k)" by simp
qed

lemma ginv_smart_connect: "ginv h k st \<Longrightarrow> ensures (smart_connect a service st) (\<lambda>(r, st'). ginv h k st')"
  unfolding smart_connect_def
  by (auto intro!: ginv_smart_transport [THEN ensures_mono] ginv_smart_refuse ginv_connect_hand_over
      ensuresI [of "case t of None \<Rightarrow> x | Some y \<Rightarrow> f y" for t x f] split: sum.splits)

lemma ginv_smart_socket_enqueue:
  assumes req: "\<And>st service. ginv h k st \<Longrightarrow> ensures (smart_request calls smart a service st) (\<lambda>(r, st'). ginv h k st')"
    and g: "ginv h k st"
  shows "ensures (smart_socket_enqueue calls smart a p st) (\<lambda>(r, st'). ginv h k st')"
  unfolding smart_socket_enqueue_def Let_def
  using g by (auto intro!: ensuresI [of "held_bytes q" for q] ensuresI [of "unhex bs n" for bs n]
      ensuresI [of "case q of [] \<Rightarrow> x | y # ys \<Rightarrow> f y" for q x f] ginv_smart_fail ginv_put_same req)

lemma daemon_smart_request: "ginv False k st \<Longrightarrow> ensures (smart_request calls smart a service st) (\<lambda>(r, st'). ginv False k st')"
  by (simp add: smart_request_def ginv_smart_connect) (simp add: ginv_def)

interpretation daemon: smart_contract "smart_enqueue calls" False for calls
  by unfold_locales (simp add: smart_enqueue_def numeral_2_eq_2 ginv_smart_socket_enqueue daemon_smart_request)

end
