(* ===== verification/SocketSteps.thy ===== *)
theory SocketSteps
  imports SocketFlow
begin

text \<open>
  Creating and connecting sockets, the reachable states of the socket layer, and the properties of
  the layer: connected pairs, closing, the byte streams, the smart socket's requests and the list
  of processes.
\<close>

section \<open>Creating sockets keeps the invariant\<close>

lemma fd_inv_more:
  "fd_inv (put_sock a s st) = fd_inv st" "fd_inv (st\<lparr>next_addr := n\<rparr>) = fd_inv st"
  "fd_inv (st\<lparr>local_socket_list := l\<rparr>) = fd_inv st" "fd_inv (st\<lparr>local_socket_next_id := i\<rparr>) = fd_inv st"
  by (rule fd_inv_cong; simp add: put_sock_def)+

lemma zero_fde_flags:
  "\<not> has (fde_state (zero_fde a)) m" "fde_events (zero_fde a) = 0"
  by (simp_all add: zero_fde_def has_def)

lemma alloc_sock_inv:
  assumes inv: "sock_inv {} st" and p: "peer s = None" and st': "alloc_sock s st = (a, st')"
  shows "sock_inv {} st' \<and> calm st st' \<and> unlisted st' a \<and> socks st a = None \<and> socks st' = (socks st)(a \<mapsto> s)
    \<and> act st' = (act st)(a \<mapsto> False) \<and> tbl_at st' = tbl_at st \<and> a = next_addr st"
proof -
  let ?s = "put_fde a (zero_fde a) (st\<lparr>next_addr := a + 4\<rparr>)"
  have e: "a = next_addr st" "st' = put_sock a s ?s"
    using st' by (auto simp: alloc_sock_def alloc_def Let_def)
  have n: "act st a = None" using inv e by (simp add: sock_inv_def fde_ok_def)
  have ns: "socks st a = None" using inv e unfolding sock_inv_def fde_ok_def by (metis less_irrefl option.exhaust)
  have "fd_inv ?s"
    using inv n by (intro fd_inv_put_inactive)
      (auto simp: sock_inv_def fd_inv_more act_inactive zero_fde_flags act_def inactive_def split: option.splits)
  then have "fd_inv st'" by (simp add: e(2) fd_inv_more)
  moreover have A: "act st' = (act st)(a \<mapsto> False)"
    by (simp add: e(2) zero_fde_flags) (simp add: act_def fun_eq_iff)
  moreover have S: "socks st' = (socks st)(a \<mapsto> s)" "next_addr st' = next_addr st + 4"
    "local_socket_list st' = local_socket_list st" "local_socket_closing_list st' = local_socket_closing_list st"
    by (simp_all add: e put_fde_def)
  moreover have "paired {} st'"
    using inv ns p unfolding sock_inv_def paired_def S(1) by (auto simp: fun_upd_def split: if_splits) (metis option.distinct(1))+
  moreover have "fde_ok st'" using inv A S e(1) by (auto simp: sock_inv_def fde_ok_def intro: trans_less_add1)
  moreover have "lists_ok st'" "unlisted st' a" using inv ns S by (auto simp: sock_inv_def lists_ok_def unlisted_def)
  moreover have "tmsgs st' = tmsgs st" "ADB_HOST st' = ADB_HOST st" "list_pending st' = list_pending st"
    by (simp_all add: e put_fde_def put_sock_def)
  then have "calm st st'" by (simp add: calm_def A S(2))
  moreover have "tbl_at st' = tbl_at st"
    by (simp add: e put_fde_def put_sock_def tbl_at_def fun_eq_iff)
  ultimately show ?thesis using ns e by (simp add: sock_inv_def)
qed

lemma install_local_socket_inv:
  assumes inv: "sock_inv {} st" and s: "socks st a = Some s" "linkable s" and u: "unlisted st a"
    and ok: "install_local_socket a st = Inr st'"
  shows "sock_inv {} st' \<and> calm st st' \<and> socks st' = (socks st)(a \<mapsto> s\<lparr>s_id := local_socket_next_id st\<rparr>)
    \<and> act st' = act st \<and> tbl_at st' = tbl_at st"
proof -
  let ?s = "s\<lparr>s_id := local_socket_next_id st\<rparr>"
  have e: "st' = (put_sock a ?s st)\<lparr>local_socket_next_id := local_socket_next_id st + 1, local_socket_list := local_socket_list st @ [a]\<rparr>"
    using ok s by (auto simp: install_local_socket_def upd_sock_def get_sock_def)
  have p: "sock_inv {} (put_sock a ?s st)" using s by (intro put_sock_inv [OF inv s(1)]) (auto simp: is_local_def linkable_def)
  have A: "act st' = act st" "tbl_at st' = tbl_at st"
    by (simp_all add: e act_def put_sock_def fun_eq_iff tbl_at_def)
  have "sock_inv {} st'"
    using p u s A unfolding e by (auto simp: sock_inv_def paired_def fde_ok_def lists_ok_def unlisted_def fd_inv_more linkable_def is_local_def)
  moreover have "calm st st'" using A by (simp add: calm_def) (simp add: e put_sock_def)
  ultimately show ?thesis using A by (simp add: e put_sock_def)
qed

lemma fdevent_install_sock:
  assumes inv: "sock_inv {} st" and s: "socks st a = Some s" "is_local s" and a: "act st a = Some False"
    and free: "tbl_at st (nat fd) = None" and ok: "fdevent_install a fd fn st = Inr st'"
  shows "sock_inv {} st' \<and> calm st st' \<and> socks st' = socks st"
proof -
  have i: "fd_inv st" using inv by (simp add: sock_inv_def)
  have "fd_inv st' \<and> list_pending st' = list_pending st"
    using fdevent_install_inv [OF i _ free ok] a by (simp add: act_inactive)
  moreover have "act st' = (act st)(a \<mapsto> True)" by (rule fdevent_install_act [OF i ok])
  moreover have "\<not> next_addr st \<le> a" using inv s by (auto simp: sock_inv_def fde_ok_def not_le)
  moreover have "4 dvd a" using inv s by (auto simp: sock_inv_def fde_ok_def)
  moreover note F = fd_frame_sstate [OF fdevent_install_frame [OF ok]] fd_frame_tstate [OF fdevent_install_frame [OF ok]]
  ultimately have "sock_inv {} st'" "calm st st'" using inv s by (auto simp: sock_inv_unfold) (auto simp: calm_def split: if_splits)
  then show ?thesis using F(1) by simp
qed

lemma create_local_socket_inv:
  assumes inv: "sock_inv {} st" and free: "tbl_at st (nat fd) = None" and ok: "create_local_socket fd st = Inr (a, st')"
  shows "sock_inv {} st' \<and> calm st st' \<and> a = next_addr st \<and> socks st a = None
    \<and> socks st' = (socks st)(a \<mapsto> (zero_sock local_socket_enqueue_fn local_socket_ready_fn local_socket_close_fn)
        \<lparr>s_fd := fd, s_id := local_socket_next_id st\<rparr>)"
proof -
  let ?s = "(zero_sock local_socket_enqueue_fn local_socket_ready_fn local_socket_close_fn)\<lparr>s_fd := fd\<rparr>"
  obtain s1 s2 where s1: "alloc_sock ?s st = (a, s1)" and s2: "install_local_socket a s1 = Inr s2"
    and s3: "fdevent_install a fd (local_socket_event_func a) s2 = Inr st'"
    using ok by (auto simp: create_local_socket_def bindr_eq_Inr split: prod.splits)
  have A: "sock_inv {} s1" "calm st s1" "unlisted s1 a" "socks st a = None" "socks s1 = (socks st)(a \<mapsto> ?s)" "act s1 = (act st)(a \<mapsto> False)"
    "tbl_at s1 = tbl_at st" "a = next_addr st"
    using alloc_sock_inv [OF inv _ s1] by (auto simp: zero_sock_def)
  have n: "local_socket_next_id s1 = local_socket_next_id st"
    using s1 by (auto simp: alloc_sock_def alloc_def Let_def put_fde_def)
  have B: "sock_inv {} s2" "calm s1 s2" "socks s2 = (socks s1)(a \<mapsto> ?s\<lparr>s_id := local_socket_next_id s1\<rparr>)" "act s2 = act s1" "tbl_at s2 = tbl_at s1"
    using install_local_socket_inv [OF A(1) _ _ A(3) s2, of ?s] A(5) by (auto simp: linkable_def is_local_def zero_sock_def)
  have C: "sock_inv {} st'" "calm s2 st'" "socks st' = socks s2"
    using fdevent_install_sock [OF B(1) _ _ _ _ s3, of "?s\<lparr>s_id := local_socket_next_id s1\<rparr>"] A B free
    by (auto simp: is_local_def zero_sock_def)
  have "calm st st'" using A(2) B(2) C(2) by (blast intro: calm_trans)
  then show ?thesis using A B C n by simp
qed

text \<open>Connecting two sockets that have no peer.\<close>

lemma connect_inv:
  assumes inv: "sock_inv {} st" and s: "socks st a = Some s" "peer s = None" "a \<notin> set (local_socket_closing_list st)"
    and t: "socks st b = Some t" "peer t = None" "b \<notin> set (local_socket_closing_list st)" and ab: "a \<noteq> b"
  shows "sock_inv {} (put_sock b (t\<lparr>peer := Some a\<rparr>) (put_sock a (s\<lparr>peer := Some b\<rparr>) st))" (is "sock_inv {} ?st")
proof -
  have "fd_inv ?st" using inv by (simp add: sock_inv_def fd_inv_more)
  moreover have "paired {} ?st"
    unfolding paired_def
  proof (intro allI impI)
    fix c x p assume c: "socks ?st c = Some x" "peer x = Some p"
    show "p \<noteq> c \<and> (\<exists>ps. socks ?st p = Some ps \<and> peer ps = Some c)"
    proof (cases "c = a \<or> c = b")
      case True
      then show ?thesis using c ab by auto
    next
      case False
      then obtain ps where "p \<noteq> c" "socks st p = Some ps" "peer ps = Some c" using c pairedD [OF inv, of c x p] by auto
      moreover then have "p \<noteq> a" "p \<noteq> b" using s t by auto
      ultimately show ?thesis by auto
    qed
  qed
  moreover have "fde_ok ?st" using inv s t by (auto simp: sock_inv_def fde_ok_def is_local_def)
  moreover have "lists_ok ?st" using inv s t by (fastforce simp: sock_inv_def lists_ok_def linkable_def is_local_def)
  ultimately show ?thesis by (simp add: sock_inv_def)
qed


lemma connect_pair_inv:
  assumes inv: "sock_inv {} st" and s: "socks st a = Some s" "peer s = None" "\<not> closing s"
    and t: "socks st b = Some t" "peer t = None" "\<not> closing t" and ab: "a \<noteq> b"
  shows "sock_inv {} (put_sock b (t\<lparr>peer := Some a\<rparr>) (put_sock a (s\<lparr>peer := Some b\<rparr>) st))"
  using inv s t by (intro connect_inv ab) (auto simp: sock_inv_def lists_ok_def)

lemma ginv_list_simps [simp]:
  "ginv h k (st\<lparr>device_tracker_list := x\<rparr>) = ginv h k st" "ginv h k (st\<lparr>jdwp_trackers_list := x\<rparr>) = ginv h k st"
  by (simp_all add: ginv_def)

lemma ginv_create_local:
  assumes g: "ginv h k st" and free: "tbl_at st (nat fd) = None"
  shows "ensures (create_local_socket fd st) (\<lambda>(a, st'). ginv h k st')"
  by (rule ensuresI) (use create_local_socket_inv [OF ginv_sock_inv [OF g] free] ginv_calm [OF g] in auto)

lemma create_remote_socket_inv:
  assumes inv: "sock_inv {} st" and ok: "create_remote_socket i t st = Inr (a, st')"
  shows "sock_inv {} st' \<and> calm st st' \<and> a = next_addr st \<and> socks st a = None
    \<and> socks st' = (socks st)(a \<mapsto> (zero_sock remote_socket_enqueue_fn remote_socket_ready_fn remote_socket_close_fn)
        \<lparr>s_id := i, s_transport := t\<rparr>)"
proof -
  let ?s = "(zero_sock remote_socket_enqueue_fn remote_socket_ready_fn remote_socket_close_fn)\<lparr>s_id := i, s_transport := t\<rparr>"
  obtain s1 where s1: "alloc_sock ?s st = (a, s1)" and s2: "add_transport_disconnect t (remote_socket_disconnect a) s1 = Inr st'"
    using ok by (auto simp: create_remote_socket_def bindr_eq_Inr split: prod.splits)
  have "(\<exists>x y. st' = put_transport x y s1)" using s2 by (auto simp: add_transport_disconnect_def bindr_eq_Inr split: option.splits)
  then show ?thesis using alloc_sock_inv [OF inv _ s1] by (auto simp: zero_sock_def)
qed

lemma ginv_create_remote: "ginv h k st \<Longrightarrow> ensures (create_remote_socket i t st) (\<lambda>(a, st'). ginv h k st')"
  by (rule ensuresI) (use create_remote_socket_inv ginv_sock_inv ginv_calm in fastforce)

lemma ginv_device_tracker: "ginv h k st \<Longrightarrow> create_device_tracker st = (a, st') \<Longrightarrow> ginv h k st'"
  using alloc_sock_inv [of st "(zero_sock device_tracker_enqueue_fn device_tracker_ready_fn device_tracker_close_fn)\<lparr>s_flag := 1\<rparr>"]
    ginv_sock_inv [of h k st] ginv_calm [of h k st]
  by (auto simp: create_device_tracker_def zero_sock_def split: prod.splits)

lemma ginv_create_jdwp:
  "ginv h k st \<Longrightarrow> ensures (create_jdwp_service_socket st) (\<lambda>(a, st'). ginv h k st')"
  "ginv h k st \<Longrightarrow> ensures (create_jdwp_tracker_service_socket st) (\<lambda>(a, st'). ginv h k st')"
proof -
  have I: "ensures (install_local_socket a s2) (ginv h k)"
    if "ginv h k st" "alloc_sock s st = (a, s1)" "peer s = None" "linkable s"
      "sock_inv {} s2 = sock_inv {} s1" "socks s2 = socks s1" "unlisted s2 = unlisted s1" "calm s1 s2" for s a s1 and s2 :: "'a sstate_scheme"
  proof (rule ensuresI)
    fix st' assume ok: "install_local_socket a s2 = Inr st'"
    have A: "sock_inv {} s2" "calm st s1" "unlisted s2 a" "socks s2 a = Some s"
      using alloc_sock_inv [OF ginv_sock_inv [OF that(1)] that(3,2)] that by auto
    have "sock_inv {} st'" "calm s2 st'" using install_local_socket_inv [OF A(1,4) that(4) A(3) ok] by auto
    then show "ginv h k st'" using A(2) that(8) ginv_calm [OF that(1)] by (blast intro: calm_trans)
  qed
  show "ginv h k st \<Longrightarrow> ensures (create_jdwp_service_socket st) (\<lambda>(a, st'). ginv h k st')"
    using I by (auto simp: create_jdwp_service_socket_def zero_sock_def linkable_def split: prod.splits intro!: ensures_mono [of "install_local_socket a s" for a s])
  show "ginv h k st \<Longrightarrow> ensures (create_jdwp_tracker_service_socket st) (\<lambda>(a, st'). ginv h k st')"
    using I by (auto simp: create_jdwp_tracker_service_socket_def zero_sock_def linkable_def split: prod.splits intro!: ensures_mono [of "install_local_socket a s" for a s])
qed

text \<open>The disconnect callback is registered for remote sockets only.\<close>

lemma ginv_disconnect_run:
  assumes g: "ginv h k st" and s: "socks st a = Some s" "s_close s = remote_socket_close_fn"
  shows "ensures (remote_socket_disconnect_run a st) (ginv h k)"
proof (rule ensuresI)
  fix st' assume ok: "remote_socket_disconnect_run a st = Inr st'"
  have i: "sock_inv {} st" using g by (rule ginv_sock_inv)
  have nl: "\<not> is_local s" "\<not> linkable s" using s by (auto simp: is_local_def linkable_def)
  obtain s1 s2 where s1: "(case peer s of None \<Rightarrow> Inr st
            | Some p \<Rightarrow> bindr (get_sock p st) (\<lambda>ps. asocket_close p (put_sock p (ps\<lparr>peer := None\<rparr>) st))) = Inr s1"
    and s2: "remove_transport_disconnect (s_transport s) (remote_socket_disconnect a) s1 = Inr s2" and st': "st' = free_sock a s2"
    using ok s by (auto simp: remote_socket_disconnect_run_def bindr_eq_Inr)
  have R: "sock_inv E s2 = sock_inv E s1" "socks s2 = socks s1" "unlisted s2 = unlisted s1" "calm s1 s2" for E
    using remove_disconnect_inv [OF s2] remove_disconnect_calm [OF s2] by auto
  have "\<exists>E. sock_inv E s1 \<and> alone E s1 a \<and> socks s1 a = Some s \<and> E - {a} = {} \<and> calm st s1"
  proof (cases "peer s")
    case None
    then show ?thesis using s1 i s alone_no_peer [OF i s(1) None] by (intro exI [of _ "{}"]) auto
  next
    case (Some p)
    obtain ps where c: "socks st p = Some ps" "asocket_close p (put_sock p (ps\<lparr>peer := None\<rparr>) st) = Inr s1"
      using s1 Some by (auto simp: bindr_eq_Inr)
    then show ?thesis using closed_pair_tail [OF i s(1) Some c] asocket_close_calm [OF c(2)] s
      by (intro exI [of _ "{a}"]) (auto simp: closed_def)
  qed
  then obtain E where E: "sock_inv E s2" "alone E s2 a" "socks s2 a = Some s" "E - {a} = {}" "calm st s2"
    using R by (auto simp: alone_def intro: calm_trans)
  from free_frame [OF E(1,3,2) nl(1) unlinkable_unlisted [OF E(1,3) nl(2)]] E show "ginv h k st'"
    by (intro ginv_calm [OF g]) (auto simp: st')
qed


context smart_contract
begin

lemma connect_to_smartsocket_keeps:
  assumes g: "ginv host k st" and s: "socks st a = Some s" "peer s = None" "\<not> closing s"
  shows "ensures (connect_to_smartsocket smart a st) (ginv host k)"
proof -
  let ?t = "zero_sock smart_socket_enqueue_fn smart_socket_ready_fn smart_socket_close_fn"
  obtain b s1 where b: "create_smart_socket st = (b, s1)" by (cases "create_smart_socket st")
  have A: "sock_inv {} s1" "calm st s1" "socks s1 = (socks st)(b \<mapsto> ?t)" "socks st b = None"
    using alloc_sock_inv [OF ginv_sock_inv [OF g] _ b [unfolded create_smart_socket_def]] by (auto simp: zero_sock_def)
  then have ab: "a \<noteq> b" using s by auto
  have "sock_inv {} (put_sock b (?t\<lparr>peer := Some a\<rparr>) (put_sock a (s\<lparr>peer := Some b\<rparr>) s1))"
    using A s ab by (intro connect_pair_inv) (auto simp: zero_sock_def)
  then have "ginv host k (put_sock b (?t\<lparr>peer := Some a\<rparr>) (put_sock a (s\<lparr>peer := Some b\<rparr>) s1))"
    using A(2) by (intro ginv_calm [OF g]) simp_all
  then show ?thesis using A s ab by (auto simp: connect_to_smartsocket_def b intro!: ready_keeps)
qed

end

lemma local_socket_close_locked_calm: "local_socket_close_locked a st = Inr st' \<Longrightarrow> calm st st'"
  by (auto simp: local_socket_close_locked_def bindr_eq_Inr split: option.splits dest!: close_tail_calm asocket_close_calm) (blast intro: calm_trans)

lemma close_matching_calm: "close_matching n t as st = Inr st' \<Longrightarrow> calm st st'"
proof (induction n t as st arbitrary: st' rule: close_matching.induct)
  case (2 n t a as st)
  from 2(3) obtain s b where sb: "get_sock a st = Inr s" "(case peer s of None \<Rightarrow> Inr False
            | Some p \<Rightarrow> bindr (get_sock p st) (\<lambda>ps. Inr (s_transport ps = Some t))) = Inr b"
    and c: "(if s_transport s = Some t \<or> b then case n of 0 \<Rightarrow> Inl TooDeep
         | Suc k \<Rightarrow> bindr (local_socket_close_locked a st) (\<lambda>st. close_matching k t (local_socket_list st) st)
       else close_matching n t as st) = Inr st'"
    by (auto simp: bindr_eq_Inr)
  show ?case
  proof (cases "s_transport s = Some t \<or> b")
    case False
    then show ?thesis using 2(2) [OF sb False] c by simp
  next
    case True
    then obtain m s1 where "n = Suc m" "local_socket_close_locked a st = Inr s1" "close_matching m t (local_socket_list s1) s1 = Inr st'"
      using c by (cases n) (auto simp: bindr_eq_Inr)
    then show ?thesis using 2(1) [OF sb True, of m s1 st'] local_socket_close_locked_calm calm_trans by blast
  qed
qed simp

lemma ginv_close_all: "ginv h k st \<Longrightarrow> ensures (close_all_sockets t st) (ginv h k)"
  by (rule ensuresI) (auto simp: close_all_sockets_def dest: close_matching_calm ginv_calm ginv_sock_inv close_matching_end)

section \<open>Reachable states of the socket layer\<close>

text \<open>
  The calls the other components make into the socket layer: new connections on a descriptor that
  is not registered, connecting two sockets, data and readiness from a transport, events on a
  descriptor, closing and disconnection.
\<close>

inductive sock_step :: "'a sstate_scheme enqueue \<Rightarrow> 'a sstate_scheme \<Rightarrow> 'a sstate_scheme \<Rightarrow> bool" for smart where
  new_local: "tbl_at st (nat fd) = None \<Longrightarrow> create_local_socket fd st = Inr (a, st') \<Longrightarrow> sock_step smart st st'"
| new_remote: "create_remote_socket i t st = Inr (a, st') \<Longrightarrow> sock_step smart st st'"
| new_tracker: "create_device_tracker st = (a, st') \<Longrightarrow> sock_step smart st st'"
| new_jdwp: "create_jdwp_service_socket st = Inr (a, st') \<Longrightarrow> sock_step smart st st'"
| new_jdwp_tracker: "create_jdwp_tracker_service_socket st = Inr (a, st') \<Longrightarrow> sock_step smart st st'"
| new_client: "socks st a = Some s \<Longrightarrow> peer s = None \<Longrightarrow> \<not> closing s \<Longrightarrow>
    connect_to_smartsocket smart a st = Inr st' \<Longrightarrow> sock_step smart st st'"
| pair: "socks st a = Some s \<Longrightarrow> socks st b = Some t \<Longrightarrow> peer s = None \<Longrightarrow> peer t = None \<Longrightarrow> \<not> closing s \<Longrightarrow> \<not> closing t \<Longrightarrow>
    a \<noteq> b \<Longrightarrow> sock_step smart st (put_sock b (t\<lparr>peer := Some a\<rparr>) (put_sock a (s\<lparr>peer := Some b\<rparr>) st))"
| enqueue: "asocket_enqueue smart a p st = Inr (r, st') \<Longrightarrow> sock_step smart st st'"
| ready: "asocket_ready smart a st = Inr st' \<Longrightarrow> sock_step smart st st'"
| event: "local_socket_event smart a fd ev st = Inr st' \<Longrightarrow> sock_step smart st st'"
| close: "asocket_close a st = Inr st' \<Longrightarrow> sock_step smart st st'"
| close_all: "close_all_sockets t st = Inr st' \<Longrightarrow> sock_step smart st st'"
| disconnect: "socks st a = Some s \<Longrightarrow> s_close s = remote_socket_close_fn \<Longrightarrow>
    remote_socket_disconnect_run a st = Inr st' \<Longrightarrow> sock_step smart st st'"
| track_devices: "update_transports smart st = Inr st' \<Longrightarrow> sock_step smart st st'"
| track_processes: "jdwp_process_list_updated smart st = Inr st' \<Longrightarrow> sock_step smart st st'"

context smart_contract
begin

lemma step_keeps:
  assumes "sock_step smart st st'" "ginv host k st"
  shows "ginv host k st'"
  using assms
proof (induction rule: sock_step.induct)
  case (pair st a s b t)
  then show ?case using connect_pair_inv [OF ginv_sock_inv] ginv_calm [of host k st] by (metis calm_refl calm_sock_simps(1))
qed (auto dest: ensuresD [OF ginv_create_local] ensuresD [OF ginv_create_remote] ginv_device_tracker ensuresD [OF ginv_create_jdwp(1)]
    ensuresD [OF ginv_create_jdwp(2)] ensuresD [OF connect_to_smartsocket_keeps] ensuresD [OF enqueue_keeps] ensuresD [OF ready_keeps]
    ensuresD [OF event_keeps] ensuresD [OF ginv_close] ensuresD [OF ginv_close_all] ensuresD [OF ginv_disconnect_run]
    ensuresD [OF update_transports_keeps] ensuresD [OF jdwp_process_list_updated_keeps])

lemma reachable_keeps: "(sock_step smart)\<^sup>*\<^sup>* st st' \<Longrightarrow> ginv host k st \<Longrightarrow> ginv host k st'"
  by (induction rule: rtranclp_induct) (auto dest: step_keeps)

end

text \<open>The socket layer before the first connection.\<close>

definition sock_start :: "'a sstate_scheme \<Rightarrow> bool" where
  "sock_start st \<longleftrightarrow> fd_start st \<and> 4 dvd next_addr st \<and> tmsgs st = [] \<and> socks st = (\<lambda>_. None) \<and> local_socket_list st = [] \<and> local_socket_closing_list st = []"

lemma sock_start_inv: "sock_start st \<Longrightarrow> ginv (ADB_HOST st) 0 st"
  by (auto simp: sock_start_def ginv_def sock_inv_unfold act_def fd_start_inv reg_ok_def) (simp_all add: fd_start_def)

definition ex_sstate :: sstate where
  "ex_sstate = tstate.extend (ex_tstate\<lparr>ADB_HOST := False, HOST := False\<rparr>) \<lparr>socks = (\<lambda>_. None), local_socket_list = [],
     local_socket_closing_list = [], local_socket_next_id = 1, device_tracker_list = [], jdwp_trackers_list = [],
     jdwp_procs = (\<lambda>_. None), jdwp_list = [], sent_fds = []\<rparr>"

lemmas ex_sstate_simps = ex_sstate_def ex_tstate_simps sstate.defs

lemma ex_sstate_start: "sock_start ex_sstate" "\<not> ADB_HOST ex_sstate"
  by (simp_all add: sock_start_def fd_start_def ex_sstate_simps)

lemma create_local_socket_ok:
  assumes "0 \<le> fd" "fd \<le> 32000"
  shows "\<exists>a st'. create_local_socket fd st = Inr (a, st')"
proof -
  obtain a s1 where s1: "alloc_sock ((zero_sock local_socket_enqueue_fn local_socket_ready_fn local_socket_close_fn)\<lparr>s_fd := fd\<rparr>) st = (a, s1)"
    by (cases "alloc_sock ((zero_sock local_socket_enqueue_fn local_socket_ready_fn local_socket_close_fn)\<lparr>s_fd := fd\<rparr>) st")
  then obtain s2 where "install_local_socket a s1 = Inr s2"
    by (auto simp: install_local_socket_def upd_sock_def get_sock_def alloc_sock_def Let_def split: prod.splits)
  then show ?thesis using s1 fdevent_install_ok [OF assms, of a "local_socket_event_func a" s2]
    by (auto simp: create_local_socket_def bindr_eq_Inr)
qed

lemma create_local_socket_world:
  assumes "create_local_socket fd st = Inr (a, st')"
  shows "wr_ev st' = wr_ev st" "wr_out st' = wr_out st" "rd_ev st' = rd_ev st"
proof -
  obtain s1 s2 where s1: "alloc_sock ((zero_sock local_socket_enqueue_fn local_socket_ready_fn local_socket_close_fn)\<lparr>s_fd := fd\<rparr>) st = (a, s1)"
    and s2: "install_local_socket a s1 = Inr s2" and s3: "fdevent_install a fd (local_socket_event_func a) s2 = Inr st'"
    using assms by (auto simp: create_local_socket_def bindr_eq_Inr split: prod.splits)
  have "wr_ev s2 = wr_ev st" "wr_out s2 = wr_out st" "rd_ev s2 = rd_ev st"
    using s1 s2 by (auto simp: alloc_sock_def alloc_def Let_def install_local_socket_def upd_sock_def bindr_eq_Inr put_sock_def put_fde_def)
  then show "wr_ev st' = wr_ev st" "wr_out st' = wr_out st" "rd_ev st' = rd_ev st"
    using fdevent_install_frame [OF s3] by (simp_all add: fd_frame_def)
qed

section \<open>What closing leaves behind\<close>

text \<open>
  What becomes of a socket that is closed: a local one with packets still queued, the first time it is
  closed, goes to the list of the closing ones with its queue; any other is freed.
\<close>

definition lingers :: "asocket \<Rightarrow> bool" where
  "lingers s \<longleftrightarrow> (s_close s = local_socket_close_fn \<or> s_close s = local_socket_close_notify_fn) \<and> \<not> closing s \<and> pkt_q s \<noteq> []"

definition ended :: "'a sstate_scheme \<Rightarrow> addr \<Rightarrow> asocket \<Rightarrow> bool" where
  "ended st b s \<longleftrightarrow> (if lingers s
     then b \<in> set (local_socket_closing_list st) \<and> (\<exists>s'. socks st b = Some s' \<and> peer s' = None \<and> closing s' \<and> pkt_q s' = pkt_q s)
     else socks st b = None)"

definition others_stay :: "addr \<Rightarrow> 'a sstate_scheme \<Rightarrow> 'a sstate_scheme \<Rightarrow> bool" where
  "others_stay a st st' \<longleftrightarrow> (\<forall>b. b \<noteq> a \<longrightarrow> socks st' b = socks st b)
     \<and> set (local_socket_closing_list st) - {a} \<subseteq> set (local_socket_closing_list st')"

lemma others_stay_trans: "others_stay a st st1 \<Longrightarrow> others_stay a st1 st2 \<Longrightarrow> others_stay a st st2"
  by (auto simp: others_stay_def)

lemma remove_socket_fate:
  assumes ok: "remove_socket a st = Inr st'" and s: "socks st a = Some s"
  shows "others_stay a st st' \<and> (\<exists>i. socks st' a = Some (s\<lparr>s_id := i\<rparr>))"
proof -
  have r: "x \<in> set (remove1 a xs)" if "x \<in> set xs" "x \<noteq> a" for x xs using that by (simp add: in_set_remove1)
  have "\<exists>i. s = s\<lparr>s_id := i\<rparr>" by (rule exI [of _ "s_id s"]) simp
  then show ?thesis using ok s
    by (auto simp: remove_socket_def get_sock_def others_stay_def split: if_splits intro: r exI [of _ 0])
qed

lemma local_close_tail_fate:
  assumes ok: "local_close_tail a st = Inr st'" and s: "socks st a = Some s" "peer s = None"
  shows "others_stay a st st' \<and>
    (if closing s \<or> pkt_q s = [] then socks st' a = None
     else a \<in> set (local_socket_closing_list st') \<and> (\<exists>s'. socks st' a = Some s' \<and> peer s' = None \<and> closing s' \<and> pkt_q s' = pkt_q s))"
proof (cases "closing s \<or> pkt_q s = []")
  case True
  obtain s1 s2 where "fdevent_remove a st = Inr s1" "remove_socket a s1 = Inr s2" "st' = free_sock a s2"
    using ok s True by (auto simp: local_close_tail_def local_socket_destroy_def bindr_eq_Inr get_sock_def Let_def split: if_splits)
  moreover have "socks s1 = socks st" "local_socket_closing_list s1 = local_socket_closing_list st"
    using fd_frame_sstate(1,3) [OF fdevent_remove_frame [OF calculation(1)]] by auto
  ultimately show ?thesis using True s remove_socket_fate [of a s1 s2 s] by (auto simp: others_stay_def)
next
  case False
  let ?st = "put_sock a (s\<lparr>closing := True\<rparr>) st"
  obtain s1 s2 where "fdevent_del a FDE_READ ?st = Inr s1" "remove_socket a s1 = Inr s2"
    "st' = s2\<lparr>local_socket_closing_list := local_socket_closing_list s2 @ [a]\<rparr>"
    using ok s False by (auto simp: local_close_tail_def bindr_eq_Inr get_sock_def)
  moreover have "socks s1 = socks ?st" "local_socket_closing_list s1 = local_socket_closing_list st"
    using fd_frame_sstate(1,3) [OF fdevent_del_frame [OF calculation(1)]] by auto
  ultimately show ?thesis using False s remove_socket_fate [of a s1 s2 "s\<lparr>closing := True\<rparr>"] by (auto simp: others_stay_def)
qed

lemma send_packet_closing:
  "send_packet p t st = Inr st' \<Longrightarrow> socks st' = socks st \<and> local_socket_closing_list st' = local_socket_closing_list st"
  by (auto dest!: send_packet_frame)

lemma remove_disconnect_closing:
  "remove_transport_disconnect t d st = Inr st' \<Longrightarrow> socks st' = socks st \<and> local_socket_closing_list st' = local_socket_closing_list st"
  by (auto simp: remove_transport_disconnect_def bindr_eq_Inr split: option.splits)

lemma close_tail_fate:
  assumes ok: "close_tail k a pid st = Inr st'" and s: "socks st a = Some s"
    and k: "s_close s \<noteq> local_socket_close_notify_fn \<and> k = s_close s"
  shows "others_stay a st st' \<and> ended st' a s"
proof (cases "k = local_socket_close_fn")
  case True
  then have "local_close_tail a (put_sock a (s\<lparr>peer := None\<rparr>) st) = Inr st'"
    using ok s by (simp add: close_tail_def upd_sock_def get_sock_def)
  from local_close_tail_fate [OF this, of "s\<lparr>peer := None\<rparr>"] True k show ?thesis by (auto simp: ended_def lingers_def others_stay_def)
next
  case False
  then show ?thesis using ok s k
    by (cases k) (auto simp: close_tail_def bindr_eq_Inr ended_def lingers_def get_sock_def others_stay_def
        dest!: send_packet_closing remove_disconnect_closing remove_socket_fate)
qed

text \<open>What the call does before it reaches the peer leaves the queue and the peer alone.\<close>

lemma asocket_close_start:
  assumes ok: "asocket_close a st = Inr st'" and s: "socks st a = Some s"
  obtains s1 s' where "others_stay a st s1" "socks s1 a = Some s'" "peer s' = peer s" "pkt_q s' = pkt_q s" "closing s' = closing s"
    "s_close s' = (if s_close s = local_socket_close_notify_fn then local_socket_close_fn else s_close s)"
    "case peer s of None \<Rightarrow> close_tail (s_close s') a 0 s1 = Inr st'
     | Some p \<Rightarrow> \<exists>ps s2. socks s1 p = Some ps \<and> asocket_close p (put_sock p (ps\<lparr>peer := None\<rparr>) s1) = Inr s2
         \<and> close_tail (s_close s') a (s_id ps) s2 = Inr st'"
proof -
  note result = that
  have step: thesis if x: "socks x a = Some t" "peer t = peer s" "pkt_q t = pkt_q s" "closing t = closing s"
      "s_close t = (if s_close s = local_socket_close_notify_fn then local_socket_close_fn else s_close s)"
      "\<forall>b. b \<noteq> a \<longrightarrow> socks x b = socks st b" "local_socket_closing_list x = local_socket_closing_list st"
      and c: "asocket_close a x = Inr st'" for x t
  proof -
    have n: "s_close t \<noteq> local_socket_close_notify_fn" using x(5) by simp
    obtain s1 where s1: "(if s_close t = jdwp_socket_close_fn then remove_socket a x else Inr x) = Inr s1"
      and d: "case peer t of None \<Rightarrow> close_tail (s_close t) a 0 s1 = Inr st'
         | Some p \<Rightarrow> \<exists>ps s2. socks s1 p = Some ps \<and> asocket_close p (put_sock p (ps\<lparr>peer := None\<rparr>) s1) = Inr s2
             \<and> close_tail (s_close t) a (s_id ps) s2 = Inr st'"
      using c x(1) n by (subst (asm) asocket_close.simps) (auto simp: bindr_eq_Inr split: option.splits)
    have "\<exists>i. t = t\<lparr>s_id := i\<rparr>" by (rule exI [of _ "s_id t"]) simp
    then have "others_stay a x s1 \<and> (\<exists>i. socks s1 a = Some (t\<lparr>s_id := i\<rparr>))"
      using s1 x(1) remove_socket_fate [of a x s1 t] by (auto simp: others_stay_def split: if_splits)
    then obtain i where i: "others_stay a x s1" "socks s1 a = Some (t\<lparr>s_id := i\<rparr>)" by blast
    show thesis using i d x by (intro result [of s1 "t\<lparr>s_id := i\<rparr>"]) (auto simp: others_stay_def split: option.splits)
  qed
  show thesis
  proof (cases "s_close s = local_socket_close_notify_fn")
    case False
    then show thesis using step [of st s] s ok by simp
  next
    case True
    let ?s = "s\<lparr>s_ready := local_socket_ready_fn, s_close := local_socket_close_fn\<rparr>"
    obtain r s1 where f: "sendfailmsg (s_fd s) ''closed'' (put_sock a ?s st) = Inr (r, s1)" and c: "asocket_close a s1 = Inr st'"
      using ok s True by (subst (asm) asocket_close.simps) (auto simp: bindr_eq_Inr get_sock_def)
    obtain ds cs es where "s1 = wr_done (s_fd s) ds cs es (put_sock a ?s st)" using sendfailmsg_frame [OF f] by (elim exE)
    then show thesis using step [of s1 ?s] True c by simp
  qed
qed

lemma ended_cong: "lingers t = lingers s \<Longrightarrow> pkt_q t = pkt_q s \<Longrightarrow> ended st b t = ended st b s"
  by (simp add: ended_def)

lemma close_alone_fate:
  assumes ok: "asocket_close a st = Inr st'" and s: "socks st a = Some s" "peer s = None"
  shows "others_stay a st st' \<and> ended st' a s"
proof -
  obtain s1 s' where c: "others_stay a st s1" "socks s1 a = Some s'" "peer s' = peer s" "pkt_q s' = pkt_q s" "closing s' = closing s"
    "s_close s' = (if s_close s = local_socket_close_notify_fn then local_socket_close_fn else s_close s)"
    "close_tail (s_close s') a 0 s1 = Inr st'"
    using s(2) by (rule_tac asocket_close_start [OF ok s(1)]) auto
  have "lingers s' = lingers s" using c by (auto simp: lingers_def)
  then show ?thesis using close_tail_fate [OF c(7), of s'] c(1,2,4,6) ended_cong [of s' s st' a] others_stay_trans [of a st s1 st'] by (auto split: if_splits)
qed

text \<open>Both ends of a pair are closed, the peer first.\<close>

lemma asocket_close_fate:
  assumes inv: "sock_inv {} st" and ok: "asocket_close a st = Inr st'" and s: "socks st a = Some s"
  shows "ended st' a s \<and> (\<forall>p ps. peer s = Some p \<longrightarrow> socks st p = Some ps \<longrightarrow> ended st' p ps)"
proof (cases "peer s")
  case None
  then show ?thesis using close_alone_fate [OF ok s] by simp
next
  case (Some p)
  obtain s1 s' ps s2 where c: "others_stay a st s1" "socks s1 a = Some s'" "peer s' = peer s" "pkt_q s' = pkt_q s" "closing s' = closing s"
    "s_close s' = (if s_close s = local_socket_close_notify_fn then local_socket_close_fn else s_close s)"
    "socks s1 p = Some ps" "asocket_close p (put_sock p (ps\<lparr>peer := None\<rparr>) s1) = Inr s2" "close_tail (s_close s') a (s_id ps) s2 = Inr st'"
    using Some by (rule_tac asocket_close_start [OF ok s]) auto
  have pa: "p \<noteq> a" using pairedD [OF inv s _ Some] by blast
  then have ps: "socks st p = Some ps" using c by (simp add: others_stay_def)
  have f: "others_stay p (put_sock p (ps\<lparr>peer := None\<rparr>) s1) s2" "ended s2 p (ps\<lparr>peer := None\<rparr>)"
    using close_alone_fate [OF c(8)] by auto
  have l: "lingers (ps\<lparr>peer := None\<rparr>) = lingers ps" "lingers s' = lingers s" using c by (auto simp: lingers_def)
  have "socks s2 a = Some s'" using c pa f(1) by (auto simp: others_stay_def)
  from close_tail_fate [OF c(9) this] c(6) have g: "others_stay a s2 st'" "ended st' a s'" by auto
  have "ended st' p ps" using f(2) g(1) pa ended_cong [OF l(1), of s2 p] by (auto simp: ended_def others_stay_def split: if_splits)
  then show ?thesis using g(2) Some ps ended_cong [OF l(2) c(4), of st' a] by simp
qed

text \<open>No call of the closing functions ends at the bound of the model; only the walk over the list counts restarts.\<close>

definition shallow :: "'a res \<Rightarrow> bool" where
  "shallow r \<longleftrightarrow> r \<noteq> Inl TooDeep"

lemma shallow_Inr [simp]: "shallow (Inr x)" by (simp add: shallow_def)

lemma shallow_Inl [simp]: "shallow (Inl e) \<longleftrightarrow> e \<noteq> TooDeep" by (simp add: shallow_def)

lemma shallow_bindr: "shallow m \<Longrightarrow> (\<And>x. m = Inr x \<Longrightarrow> shallow (f x)) \<Longrightarrow> shallow (bindr m f)"
  by (cases m) (simp_all add: shallow_def)

lemma shallow_from_opt [simp]: "e \<noteq> TooDeep \<Longrightarrow> shallow (from_opt e x)"
  by (cases x) (simp_all add: from_opt_def)

lemma shallow_fd:
  "shallow (get_fde a st)" "shallow (fdevent_plist_remove a st)" "shallow (fdevent_disconnect a st)" "shallow (fdevent_unregister a st)"
  "shallow (fdevent_update a ev st)"
  by (auto simp: get_fde_def fdevent_plist_remove_def fdevent_disconnect_def fdevent_unregister_def fdevent_update_def Let_def intro!: shallow_bindr)

lemma shallow_fd_ops: "shallow (fdevent_remove a st)" "shallow (fdevent_del a ev st)"
  by (auto simp: fdevent_remove_def fdevent_del_def fdevent_set_def Let_def shallow_fd intro!: shallow_bindr)

lemma shallow_adb_write: "shallow (adb_write fd bs w)"
proof (induction fd bs w rule: adb_write.induct)
  case (1 fd bs w)
  have "shallow (sys_write fd bs w)" by (auto simp: sys_write_def split: list.splits wr_event.splits)
  then show ?case using 1 by (subst adb_write.simps) (auto split: sum.splits prod.splits io_ret.splits errno.splits simp: shallow_def)
qed

lemma shallow_writex_rest: "shallow (writex_rest fd bs w)"
proof (induction fd bs w rule: writex_rest.induct)
  case (1 fd bs w)
  then show ?case using shallow_adb_write [of fd bs w]
    by (subst writex_rest.simps) (auto split: sum.splits prod.splits io_ret.splits)
qed

lemma shallow_sum_loop: "shallow (sum_loop n bs s)"
  by (induction n bs s rule: sum_loop.induct) (auto simp: sum_loop.simps)

lemma shallow_writex: "shallow (writex fd bs w)" "shallow (writex_rest fd bs w)"
proof -
  show "shallow (writex fd bs w)" using writex_spec [of fd bs w] by (auto simp: shallow_def)
qed (rule shallow_writex_rest)

lemma shallow_send_packet: "shallow (send_packet p t st)"
  by (auto simp: send_packet_def seal_packet_def get_transport_def write_packet_def Let_def shallow_writex shallow_sum_loop split: option.splits intro!: shallow_bindr)

lemma shallow_remove_disconnect: "shallow (remove_transport_disconnect t d st)"
  by (auto simp: remove_transport_disconnect_def get_transport_def split: option.splits intro!: shallow_bindr)

lemma shallow_sock: "shallow (get_sock a st)" "shallow (upd_sock a f st)" "shallow (remove_socket a st)"
  by (auto simp: get_sock_def upd_sock_def remove_socket_def intro!: shallow_bindr)

lemma shallow_local_tail: "shallow (local_close_tail a st)"
  by (auto simp: local_close_tail_def local_socket_destroy_def shallow_sock shallow_fd_ops Let_def intro!: shallow_bindr)

lemma shallow_close_tail: "shallow (close_tail k a pid st)"
  by (cases k) (auto simp: close_tail_def shallow_sock shallow_local_tail shallow_send_packet shallow_remove_disconnect intro!: shallow_bindr)

lemma shallow_asocket_close: "shallow (asocket_close a st)"
proof (induction a st rule: asocket_close.induct)
  case (1 a st)
  show ?case
    by (subst asocket_close.simps) (auto simp: shallow_sock shallow_close_tail sendfailmsg_def shallow_writex
        split: option.splits intro!: shallow_bindr 1)
qed

lemma shallow_close_locked: "shallow (local_socket_close_locked a st)"
  by (auto simp: local_socket_close_locked_def shallow_sock shallow_close_tail shallow_asocket_close split: option.splits intro!: shallow_bindr)

lemma close_matching_shallow:
  "sock_inv {} st \<Longrightarrow> set as \<subseteq> set (local_socket_list st) \<Longrightarrow> length (local_socket_list st) \<le> k \<Longrightarrow>
     shallow (close_matching k t as st)"
proof (induction k arbitrary: as st)
  case 0
  then show ?case by simp
next
  case (Suc k)
  note outer = Suc.IH
  show ?case using Suc.prems(2)
  proof (induction as)
    case (Cons a as)
    have a: "a \<in> set (local_socket_list st)" using Cons.prems by simp
    obtain s where s: "socks st a = Some s" "linkable s" using listed_linkable [OF Suc.prems(1) a] .
    have "shallow (close_matching k t (local_socket_list s1) s1)" if "local_socket_close_locked a st = Inr s1" for s1
    proof -
      have i: "sock_inv {} s1" "set (local_socket_list s1) \<subseteq> set (local_socket_list st) - {a}"
        using local_socket_close_locked_inv [OF Suc.prems(1) s that] local_socket_close_locked_list [OF Suc.prems(1) s that] by auto
      have d: "distinct (local_socket_list s1)" "distinct (local_socket_list st)"
        using i(1) Suc.prems(1) by (simp_all add: sock_inv_def lists_ok_def)
      have "card (set (local_socket_list s1)) \<le> card (set (local_socket_list st) - {a})"
        by (rule card_mono [OF _ i(2)]) simp
      also have "\<dots> < card (set (local_socket_list st))" using a by (intro card_Diff1_less) simp_all
      finally have "length (local_socket_list s1) \<le> k" using Suc.prems(3) by (simp add: distinct_card d)
      then show ?thesis using outer [OF i(1)] by simp
    qed
    then show ?case using close_matching_step [OF Suc.prems(1) a] Cons shallow_close_locked [of a st]
      by (auto intro!: shallow_bindr)
  qed simp
qed

section \<open>What a descriptor takes\<close>

text \<open>
  What a descriptor does with \<open>n\<close> bytes to write: how many it takes, why the loop stops, and the rest of
  its script. An interrupted call is repeated; a call that takes nothing, or fails other than by \<open>EAGAIN\<close>, is a failure.
\<close>

fun accepts :: "nat \<Rightarrow> wr_event list \<Rightarrow> nat \<times> wr_result \<times> wr_event list" where
  "accepts n [] = (n, WDone, [])"
| "accepts n (WrBlock # es) = (0, if n = 0 then WDone else WAgain, WrBlock # es)"
| "accepts n (WrErr e # es) =
     (if n = 0 then (0, WDone, WrErr e # es)
      else if e = EINTR then accepts n es
      else (0, if e = EAGAIN then WAgain else WFail, es))"
| "accepts n (WrAccept m # es) =
     (if n = 0 then (0, WDone, WrAccept m # es)
      else if m = 0 then (0, WFail, es)
      else (let (k, r, es') = accepts (n - m) es in (min n m + k, r, es')))"

lemma accepts_0 [simp]: "accepts 0 es = (0, WDone, es)"
  by (cases "(0 :: nat, es)" rule: accepts.cases) simp_all

lemma adb_write_accepts:
  "adb_write fd bs w = Inr (x, w') \<Longrightarrow> bs \<noteq> [] \<Longrightarrow>
     accepts (length bs) (wr_ev w fd) =
       (case x of
          IoErr e \<Rightarrow> (0, if e = EAGAIN then WAgain else WFail, wr_ev w' fd)
        | IoN m \<Rightarrow> if m = 0 then (0, WFail, wr_ev w' fd)
            else (let (k, r, es') = accepts (length bs - m) (wr_ev w' fd) in (m + k, r, es')))"
proof (induction fd bs w rule: adb_write.induct)
  case (1 fd bs w)
  show ?case
  proof (cases "wr_ev w fd")
    case Nil
    then show ?thesis using 1(2,3) by (subst (asm) adb_write.simps) (auto simp: sys_write_def wr_done_def)
  next
    case (Cons e es)
    show ?thesis
    proof (cases e)
      case (WrAccept m)
      then show ?thesis using 1(2,3) Cons
        by (subst (asm) adb_write.simps) (auto simp: sys_write_def wr_done_def min_def split: prod.splits)
    next
      case WrBlock
      then show ?thesis using 1(2) Cons by (subst (asm) adb_write.simps) (simp add: sys_write_def)
    next
      case (WrErr err)
      show ?thesis
      proof (cases "err = EINTR")
        case True
        then have s: "sys_write fd bs w = Inr (IoErr EINTR, wr_done fd [] [length bs] es w)" using Cons WrErr by (simp add: sys_write_def)
        have "adb_write fd bs (wr_done fd [] [length bs] es w) = Inr (x, w')" using 1(2) s by (subst (asm) adb_write.simps) simp
        from 1(1) [OF s refl refl refl this 1(3)] show ?thesis using Cons WrErr True 1(3) by (simp add: wr_done_def)
      next
        case False
        then have "adb_write fd bs w = Inr (IoErr err, wr_done fd [] [length bs] es w)"
          using Cons WrErr by (subst adb_write.simps) (auto simp: sys_write_def split: errno.splits)
        then show ?thesis using 1(2,3) Cons WrErr False by (auto simp: wr_done_def)
      qed
    qed
  qed
qed

lemma write_loop_accepts:
  "write_loop b fd p w = Inr (r, p', w') \<Longrightarrow>
     pk_len p' \<le> pk_len p \<and> accepts (pk_len p) (wr_ev w fd) = (pk_len p - pk_len p', r, wr_ev w' fd)"
proof (induction b fd p w rule: write_loop.induct)
  case (1 b fd p w)
  consider (z) "pk_len p = 0" | (big) "pk_len p \<noteq> 0" "pk_ptr p + pk_len p > length (pk_data p)"
    | (w) "pk_len p \<noteq> 0" "\<not> pk_ptr p + pk_len p > length (pk_data p)" by blast
  then show ?case
  proof cases
    case z
    then show ?thesis using 1(3) by (subst (asm) write_loop.simps) auto
  next
    case big
    then show ?thesis using 1(3) by (subst (asm) write_loop.simps) simp
  next
    case w
    let ?u = "take (pk_len p) (drop (pk_ptr p) (pk_data p))"
    obtain x w1 where a: "adb_write fd ?u w = Inr (x, w1)"
      using 1(3) w by (subst (asm) write_loop.simps) (auto split: sum.splits)
    have L: "length ?u = pk_len p" "?u \<noteq> []" using w by auto
    note acc = adb_write_accepts [OF a L(2), unfolded L(1)]
    show ?thesis
    proof (cases "\<exists>m. x = IoN m \<and> 0 < m")
      case True
      then obtain m where m: "x = IoN m" "0 < m" by blast
      have le: "m \<le> pk_len p" using adb_write_N [OF a [unfolded m(1)]] L(1) by simp
      have "write_loop b fd (p\<lparr>pk_len := pk_len p - m, pk_ptr := pk_ptr p + m\<rparr>) w1 = Inr (r, p', w')"
        using 1(3) w a m by (subst (asm) write_loop.simps) simp
      from 1(1) [OF w a [unfolded m(1)] refl refl m(2) this] show ?thesis using acc m le by auto
    next
      case False
      have "x \<noteq> IoErr EINTR" using adb_write_not_EINTR [of fd ?u w] a by auto
      then show ?thesis using 1(3) w a acc False by (subst (asm) write_loop.simps) (auto split: io_ret.splits if_splits)
    qed
  qed
qed

lemma write_loop_split:
  assumes "write_loop b fd p w = Inr (r, p', w')"
  shows "\<exists>ds cs. w' = wr_done fd ds cs (wr_ev w' fd) w \<and> unsent p = ds @ unsent p' \<and> accepts (pk_len p) (wr_ev w fd) = (length ds, r, wr_ev w' fd)
    \<and> (r = WDone \<longleftrightarrow> unsent p' = [])"
proof -
  obtain ds cs es where d: "w' = wr_done fd ds cs es w" "unsent p = ds @ unsent p'" "r = WDone \<longleftrightarrow> pk_len p' = 0"
    "pk_data p' = pk_data p" "pk_ptr p' + pk_len p' = pk_ptr p + pk_len p" "pk_len p' = 0 \<or> pk_ptr p' + pk_len p' \<le> length (pk_data p')"
    using write_loop_spec [OF assms] by (elim exE conjE)
  have "pk_len p = 0 \<or> pk_ptr p + pk_len p \<le> length (pk_data p)"
    using assms by (subst (asm) write_loop.simps) (auto split: if_splits)
  then have l: "length (unsent p) = pk_len p" "length (unsent p') = pk_len p'" using d(4,6) by (auto simp: unsent_def)
  then have "length ds = pk_len p - pk_len p'" using arg_cong [OF d(2), of length] by simp
  moreover have "es = wr_ev w' fd" by (simp add: d(1) wr_done_def)
  moreover have "unsent p' = [] \<longleftrightarrow> pk_len p' = 0" using l(2) by (metis length_0_conv)
  ultimately show ?thesis using write_loop_accepts [OF assms] d(1-3) by (intro exI [of _ ds] exI [of _ cs]) simp
qed

text \<open>The same for the packets of a queue, one after the other.\<close>

fun drains :: "nat list \<Rightarrow> wr_event list \<Rightarrow> nat \<times> wr_result \<times> wr_event list" where
  "drains [] es = (0, WDone, es)"
| "drains (n # ns) es =
     (let (k, r, es1) = accepts n es in
      if r = WDone then (let (k', r', es2) = drains ns es1 in (k + k', r', es2)) else (k, r, es1))"

lemma drain_queue_drains:
  "drain_queue fd q w = Inr (r, q', w') \<Longrightarrow>
     \<exists>ds cs. w' = wr_done fd ds cs (wr_ev w' fd) w \<and> concat (map unsent q) = ds @ concat (map unsent q')
       \<and> drains (map pk_len q) (wr_ev w fd) = (length ds, r, wr_ev w' fd) \<and> (r = WDone \<longleftrightarrow> q' = [])"
proof (induction q arbitrary: w)
  case Nil
  then show ?case by (auto intro!: exI [of _ "[]"] simp: wr_done_id)
next
  case (Cons p q)
  obtain x p' w1 where a: "write_loop True fd p w = Inr (x, p', w1)"
    and c: "(case x of WDone \<Rightarrow> drain_queue fd q w1 | _ \<Rightarrow> Inr (x, p' # q, w1)) = Inr (r, q', w')"
    using Cons.prems by (auto simp: bindr_eq_Inr)
  obtain ds cs where s: "w1 = wr_done fd ds cs (wr_ev w1 fd) w" "unsent p = ds @ unsent p'"
    "accepts (pk_len p) (wr_ev w fd) = (length ds, x, wr_ev w1 fd)" "x = WDone \<longleftrightarrow> unsent p' = []"
    using write_loop_split [OF a] by (elim exE conjE)
  show ?case
  proof (cases "x = WDone")
    case True
    with c have "drain_queue fd q w1 = Inr (r, q', w')" by simp
    from Cons.IH [OF this] obtain ds' cs' where i: "w' = wr_done fd ds' cs' (wr_ev w' fd) w1" "concat (map unsent q) = ds' @ concat (map unsent q')"
      "drains (map pk_len q) (wr_ev w1 fd) = (length ds', r, wr_ev w' fd)" "r = WDone \<longleftrightarrow> q' = []"
      by blast
    have "w' = wr_done fd (ds @ ds') (cs @ cs') (wr_ev w' fd) w" using i(1) s(1) by (metis wr_done_simps(7))
    then show ?thesis using s(2-4) i(2-4) True by (intro exI [of _ "ds @ ds'"] exI [of _ "cs @ cs'"]) simp
  next
    case False
    then have "r = x" "q' = p' # q" "w' = w1" using c by (auto split: wr_result.splits)
    then show ?thesis using s False by (intro exI [of _ ds] exI [of _ cs]) simp
  qed
qed

lemma enqueue_stream_exact:
  assumes s: "socks st a = Some s" and ok: "local_socket_enqueue a p st = Inr (r, st')"
  shows "if pkt_q s \<noteq> [] then r = 1 \<and> socks st' = (socks st)(a \<mapsto> s\<lparr>pkt_q := pkt_q s @ [p\<lparr>pk_ptr := 0\<rparr>]\<rparr>) \<and> wr_out st' = wr_out st \<and> wants_write st' a
    else \<exists>ds rest how es. accepts (pk_len p) (wr_ev st (s_fd s)) = (length ds, how, es) \<and> payload p = ds @ rest \<and>
     (case how of
        WDone \<Rightarrow> r = 0 \<and> rest = [] \<and> socks st' = socks st \<and> wr_out st' = (wr_out st)(s_fd s := wr_out st (s_fd s) @ ds)
      | WAgain \<Rightarrow> r = 1 \<and> rest \<noteq> [] \<and> (\<exists>q. unsent q = rest \<and> socks st' = (socks st)(a \<mapsto> s\<lparr>pkt_q := [q]\<rparr>))
          \<and> wr_out st' = (wr_out st)(s_fd s := wr_out st (s_fd s) @ ds) \<and> wants_write st' a
      | WFail \<Rightarrow> r = 1 \<and> rest \<noteq> [] \<and> (\<exists>cs. asocket_close a (wr_done (s_fd s) ds cs es st) = Inr st'))"
proof (cases "pkt_q s = []")
  case False
  then have "bindr (upd_sock a (\<lambda>s. s\<lparr>pkt_q := pkt_q s @ [p\<lparr>pk_ptr := 0\<rparr>]\<rparr>) st)
      (\<lambda>st. bindr (fdevent_add a FDE_WRITE st) (\<lambda>st. Inr (1, st))) = Inr (r, st')"
    using ok s by (simp add: local_socket_enqueue_def get_sock_def)
  from enqueue_backlog [OF s this] False show ?thesis by simp
next
  case True
  let ?p = "p\<lparr>pk_ptr := 0\<rparr>"
  obtain x p' w where w: "write_loop False (s_fd s) ?p st = Inr (x, p', w)"
    and c: "(case x of WFail \<Rightarrow> bindr (asocket_close a w) (\<lambda>st. Inr (1, st)) | WDone \<Rightarrow> Inr (0, w)
       | WAgain \<Rightarrow> bindr (upd_sock a (\<lambda>s. s\<lparr>pkt_q := pkt_q s @ [p']\<rparr>) w) (\<lambda>st. bindr (fdevent_add a FDE_WRITE st) (\<lambda>st. Inr (1, st))))
       = Inr (r, st')"
    using ok s True by (auto simp: local_socket_enqueue_def get_sock_def bindr_eq_Inr)
  obtain ds cs where d: "w = wr_done (s_fd s) ds cs (wr_ev w (s_fd s)) st" "payload p = ds @ unsent p'"
    "accepts (pk_len p) (wr_ev st (s_fd s)) = (length ds, x, wr_ev w (s_fd s))" "x = WDone \<longleftrightarrow> unsent p' = []"
    using write_loop_split [OF w] unsent_reset [of p] by (elim exE conjE) auto
  have sw: "socks w a = Some s" "wr_out w = (wr_out st)(s_fd s := wr_out st (s_fd s) @ ds)" "socks w = socks st"
    using s by (subst d(1), simp)+
  have b: "r = 1 \<and> socks st' = (socks w)(a \<mapsto> s\<lparr>pkt_q := pkt_q s @ [p']\<rparr>) \<and> wants_write st' a \<and> wr_out st' = wr_out w" if "x = WAgain"
    using c enqueue_backlog [OF sw(1), of p' r st'] that by auto
  have "\<exists>ds rest how es. accepts (pk_len p) (wr_ev st (s_fd s)) = (length ds, how, es) \<and> payload p = ds @ rest \<and>
     (case how of
        WDone \<Rightarrow> r = 0 \<and> rest = [] \<and> socks st' = socks st \<and> wr_out st' = (wr_out st)(s_fd s := wr_out st (s_fd s) @ ds)
      | WAgain \<Rightarrow> r = 1 \<and> rest \<noteq> [] \<and> (\<exists>q. unsent q = rest \<and> socks st' = (socks st)(a \<mapsto> s\<lparr>pkt_q := [q]\<rparr>))
          \<and> wr_out st' = (wr_out st)(s_fd s := wr_out st (s_fd s) @ ds) \<and> wants_write st' a
      | WFail \<Rightarrow> r = 1 \<and> rest \<noteq> [] \<and> (\<exists>cs. asocket_close a (wr_done (s_fd s) ds cs es st) = Inr st'))"
  proof (cases x)
    case WDone
    then show ?thesis using True c d(2-4) sw by (intro exI [of _ ds] exI [of _ "unsent p'"] exI [of _ x] exI [of _ "wr_ev w (s_fd s)"]; auto)
  next
    case WAgain
    then show ?thesis using True d(2-4) sw b by (intro exI [of _ ds] exI [of _ "unsent p'"] exI [of _ x] exI [of _ "wr_ev w (s_fd s)"]; auto)
  next
    case WFail
    then have "asocket_close a (wr_done (s_fd s) ds cs (wr_ev w (s_fd s)) st) = Inr st' \<and> r = 1"
      using c by (subst d(1) [symmetric]) (auto simp: bindr_eq_Inr)
    then show ?thesis using True d(2-4) WFail by (intro exI [of _ ds] exI [of _ "unsent p'"] exI [of _ x] exI [of _ "wr_ev w (s_fd s)"]; auto)
  qed
  then show ?thesis by (simp only: True refl not_True_eq_False if_False)
qed

section \<open>Properties\<close>

text \<open>
  The sockets of the daemon are always connected in pairs: in every state reached from the
  start by new connections, data, events, closes and disconnections, the peer of a socket exists
  and has this socket as its peer, every socket has its event record, the lists hold existing
  sockets, each once, and the event loop is consistent. No call ever follows a dangling peer.
\<close>

theorem sockets_stay_paired:
  assumes "sock_start st" "\<not> ADB_HOST st" "(sock_step (smart_enqueue calls))\<^sup>*\<^sup>* st st'"
  shows "sock_inv {} st' \<and> (\<forall>a s p. socks st' a = Some s \<longrightarrow> peer s = Some p \<longrightarrow>
    (\<exists>ps. socks st' p = Some ps \<and> peer ps = Some a))"
proof -
  have i: "sock_inv {} st'"
    using daemon.reachable_keeps [OF assms(3)] sock_start_inv [OF assms(1)] assms(2) by (simp add: ginv_def)
  moreover have "\<exists>ps. socks st' p = Some ps \<and> peer ps = Some a" if "socks st' a = Some s" "peer s = Some p" for a s p
    using pairedD [OF i that(1) _ that(2)] by auto
  ultimately show ?thesis by blast
qed

theorem sockets_stay_paired_witness:
  "\<exists>a st. create_local_socket 5 ex_sstate = Inr (a, st) \<and> sock_inv {} st"
proof -
  obtain a st where st: "create_local_socket 5 ex_sstate = Inr (a, st)" using create_local_socket_ok [of 5 ex_sstate] by auto
  have "sock_step (smart_enqueue \<lparr>handle_host_request_fn = (\<lambda>_ _ _ _ _ st. Inr (-1, st)),
      host_service_to_socket_fn = (\<lambda>_ _ st. Inr (None, st))\<rparr>) ex_sstate st"
    by (rule new_local [OF _ st]) (simp add: tbl_at_def ex_sstate_simps)
  then have "sock_inv {} st" using sockets_stay_paired [OF ex_sstate_start] by blast
  then show ?thesis using st by blast
qed

text \<open>
  Property C24. Closing a socket through its function pointer closes its peer too and keeps the invariant.
  Each of the two ends is freed, except a local socket with packets still queued: that one is left without a
  peer, marked as closing, with its whole queue, on the list of the closing sockets. No other socket changes.
\<close>

theorem asocket_close_closes_both:
  assumes "sock_inv {} st" "asocket_close a st = Inr st'" "socks st a = Some s"
  shows "sock_inv {} st' \<and> ended st' a s \<and> (\<forall>p. peer s = Some p \<longrightarrow> (\<exists>ps. socks st p = Some ps \<and> ended st' p ps))
    \<and> (\<forall>b. b \<noteq> a \<longrightarrow> peer s \<noteq> Some b \<longrightarrow> socks st' b = socks st b)"
proof -
  have p: "\<exists>ps. socks st p = Some ps" if "peer s = Some p" for p using pairedD [OF assms(1,3) _ that] by blast
  have "sock_inv {} st'" "both_closed a st st'" using asocket_close_inv [OF assms(1,2)] by auto
  moreover from this(2) have "\<forall>b. b \<noteq> a \<longrightarrow> peer s \<noteq> Some b \<longrightarrow> socks st' b = socks st b" using assms(3) by (simp add: both_closed_def)
  ultimately show ?thesis using asocket_close_fate [OF assms] p by metis
qed

text \<open>A local socket with a packet in its queue, connected to a tracker of devices.\<close>

definition ex_waiting :: asocket where
  "ex_waiting = (zero_sock local_socket_enqueue_fn local_socket_ready_fn local_socket_close_fn)
     \<lparr>s_fd := 5, pkt_q := [text_packet ''hi'']\<rparr>"

theorem asocket_close_closes_both_witness:
  "\<exists>st st' :: sstate. socks st 16 = Some (ex_waiting\<lparr>peer := Some 20\<rparr>) \<and> socks st 20 \<noteq> None \<and> asocket_close 20 st = Inr st'
     \<and> socks st' 20 = None \<and> local_socket_closing_list st' = [16] \<and> (\<exists>s'. socks st' 16 = Some s' \<and> closing s' \<and> pkt_q s' = [text_packet ''hi''])"
proof -
  obtain s1 where s1: "alloc_sock ex_waiting ex_sstate = (16, s1)" "next_addr s1 = 20" "fdes s1 16 = Some (zero_fde 16)"
    "local_socket_list s1 = []" "local_socket_closing_list s1 = []" "device_tracker_list s1 = []"
    by (simp add: alloc_sock_def alloc_def Let_def ex_sstate_simps put_sock_def put_fde_def)
  have i1: "sock_inv {} s1" "socks s1 16 = Some ex_waiting"
    using alloc_sock_inv [OF ginv_sock_inv [OF sock_start_inv [OF ex_sstate_start(1)]] _ s1(1)] by (auto simp: ex_waiting_def zero_sock_def)
  let ?t = "zero_sock device_tracker_enqueue_fn device_tracker_ready_fn device_tracker_close_fn"
  obtain s2 where s2: "alloc_sock ?t s1 = (20, s2)" "fdes s2 16 = Some (zero_fde 16)"
    "local_socket_list s2 = []" "local_socket_closing_list s2 = []" "device_tracker_list s2 = []"
    using s1 by (simp add: alloc_sock_def alloc_def Let_def) (simp add: put_sock_def put_fde_def)
  have i2: "sock_inv {} s2" "socks s2 = (socks s1)(20 \<mapsto> ?t)"
    using alloc_sock_inv [OF i1(1) _ s2(1)] by (auto simp: zero_sock_def)
  let ?st = "put_sock 20 (?t\<lparr>peer := Some 16\<rparr>) (put_sock 16 (ex_waiting\<lparr>peer := Some 20\<rparr>) s2)"
  have i: "sock_inv {} ?st"
    using i1(2) i2 by (intro connect_pair_inv [OF i2(1)]) (auto simp: ex_waiting_def zero_sock_def)
  have w: "s_close ex_waiting = local_socket_close_fn" "peer ex_waiting = None" "\<not> closing ex_waiting" "pkt_q ex_waiting = [text_packet ''hi'']"
    "ex_waiting\<lparr>peer := None\<rparr> = ex_waiting" "ex_waiting\<lparr>peer := None, closing := True\<rparr> = ex_waiting\<lparr>closing := True\<rparr>"
    by (simp_all add: ex_waiting_def zero_sock_def)
  let ?w = "put_sock 16 ex_waiting (put_sock 16 ex_waiting ?st)"
  have d: "fdevent_del 16 FDE_READ (put_sock 16 (ex_waiting\<lparr>closing := True\<rparr>) ?w) = Inr (put_sock 16 (ex_waiting\<lparr>closing := True\<rparr>) ?w)"
    using s2(2) by (simp add: fdevent_del_def fdevent_set_def get_fde_def put_sock_def zero_fde_def Let_def)
  have peer: "asocket_close 16 (put_sock 16 ex_waiting ?st) = Inr ((put_sock 16 (ex_waiting\<lparr>closing := True\<rparr>) ?w)\<lparr>local_socket_closing_list := [16]\<rparr>)"
    using s2(2-) w(1-4) d by (subst asocket_close.simps) (simp add: get_sock_def close_tail_def upd_sock_def local_close_tail_def remove_socket_def w(5,6))
  let ?r = "free_sock 20 (device_tracker_remove 20 ((put_sock 16 (ex_waiting\<lparr>closing := True\<rparr>) ?w)\<lparr>local_socket_closing_list := [16]\<rparr>))"
  have c: "asocket_close 20 ?st = Inr ?r" "local_socket_closing_list ?r = [16]"
    using peer by (subst asocket_close.simps) (simp_all add: get_sock_def close_tail_def zero_sock_def w(5))
  from asocket_close_closes_both [OF i c(1), of "?t\<lparr>peer := Some 16\<rparr>"] c show ?thesis
    by (intro exI [of _ ?st] exI [of _ ?r]) (auto simp: ended_def lingers_def ex_waiting_def zero_sock_def)
qed

text \<open>One socket on the list, which belongs to the transport \<open>8\<close>.\<close>

lemma ex_using_transport:
  "\<exists>(st :: sstate) st'. sock_inv {} st \<and> local_socket_list st = [16] \<and> uses_transport 8 st 16 \<and> close_all_sockets 8 st = Inr st'
     \<and> local_socket_list st' = []"
proof -
  let ?s = "(zero_sock jdwp_socket_enqueue_fn jdwp_socket_ready_fn jdwp_socket_close_fn)\<lparr>s_id := 1\<rparr>"
  obtain st where st: "create_jdwp_service_socket ex_sstate = Inr (16, st)" "local_socket_list st = [16]"
    "local_socket_closing_list st = []" "socks st 16 = Some ?s" "fdes st 16 = Some (zero_fde 16)"
    by (auto simp: create_jdwp_service_socket_def alloc_sock_def alloc_def install_local_socket_def upd_sock_def get_sock_def
        ex_sstate_simps put_sock_def put_fde_def)
  have i: "sock_inv {} st"
    using ensuresD [OF ginv_create_jdwp(1) [OF sock_start_inv [OF ex_sstate_start(1)]] st(1)] by (simp add: ginv_def)
  let ?st = "put_sock 16 (?s\<lparr>s_transport := Some 8\<rparr>) st"
  have i2: "sock_inv {} ?st" by (rule put_sock_inv [OF i st(4)]) (simp_all add: is_local_def linkable_def)
  have u: "uses_transport 8 ?st 16" by (simp add: uses_transport_def)
  have "fdes ?st 16 = Some (zero_fde 16)" using st by (simp add: put_sock_def)
  then obtain st' where c: "close_all_sockets 8 ?st = Inr st'" "local_socket_list st' = []"
    using st by (simp add: close_all_sockets_def get_sock_def zero_sock_def local_socket_close_locked_def close_tail_def upd_sock_def
        local_close_tail_def local_socket_destroy_def fdevent_remove_def get_fde_def zero_fde_flags remove_socket_def)
      (simp add: put_sock_def put_fde_def)
  show ?thesis using i2 st c u by (intro exI [of _ ?st] exI [of _ st']) simp
qed

text \<open>
  Property C25. \<open>close_all_sockets\<close> leaves no open socket that belongs to the transport, directly or
  through its peer, although every close may remove others from the list it walks.
\<close>

theorem close_all_sockets_complete:
  assumes "sock_inv {} st" "close_all_sockets t st = Inr st'"
  shows "sock_inv {} st' \<and> set (local_socket_list st') \<subseteq> set (local_socket_list st)
    \<and> (\<forall>a \<in> set (local_socket_list st'). \<not> uses_transport t st' a)"
  using close_matching_end [OF assms(1) order_refl _ assms(2) [unfolded close_all_sockets_def]] by simp

theorem close_all_sockets_complete_witness:
  "\<exists>(st :: sstate) st'. local_socket_list st = [16] \<and> uses_transport 8 st 16 \<and> close_all_sockets 8 st = Inr st'
     \<and> sock_inv {} st' \<and> local_socket_list st' = []"
  using ex_using_transport close_all_sockets_complete by (metis (no_types, lifting))

text \<open>
  Property C26. \<open>close_all_sockets\<close> ends: it starts over at most once per socket of the list. The bound of
  the model on the number of restarts, the number of listed sockets, is never reached, and any larger one gives the
  same result.
\<close>

theorem close_all_sockets_ends:
  assumes "sock_inv {} st"
  shows "close_all_sockets t st \<noteq> Inl TooDeep
    \<and> (\<forall>n. close_matching (n + length (local_socket_list st)) t (local_socket_list st) st = close_all_sockets t st)"
  using close_matching_shallow [OF assms order_refl order_refl] close_all_sockets_bound [OF assms]
  by (auto simp: close_all_sockets_def shallow_def)

theorem close_all_sockets_ends_witness:
  "\<exists>st :: sstate. local_socket_list st = [16] \<and> uses_transport 8 st 16 \<and> close_matching 0 8 [16] st = Inl TooDeep
     \<and> close_matching 1 8 [16] st \<noteq> Inl TooDeep \<and> close_matching (3 + 1) 8 [16] st = close_matching 1 8 [16] st"
proof -
  obtain st :: sstate where st: "sock_inv {} st" "local_socket_list st = [16]" "uses_transport 8 st 16"
    using ex_using_transport by blast
  have "close_matching 0 8 [16] st = Inl TooDeep" using close_matching_step [OF st(1), of 16 0 8 "[]"] st by simp
  moreover have "close_all_sockets 8 st = close_matching 1 8 [16] st" "length (local_socket_list st) = 1" by (simp_all only: close_all_sockets_def st(2)) simp_all
  ultimately show ?thesis using close_all_sockets_ends [OF st(1), of 8] st(2,3) by metis
qed

text \<open>
  Property C27. A packet given to a local socket is written in order and without loss. Behind a queue it is
  queued whole, and nothing is written. With an empty queue the descriptor decides: when it takes all of the packet
  0 is returned and no socket changes; when it would block after some bytes, exactly the rest is queued, the socket
  waits for the descriptor to become writable, and 1 is returned; only when the descriptor fails is
  the socket closed, and 1 is returned then too.
\<close>

theorem local_socket_enqueue_stream:
  assumes "socks st a = Some s" "local_socket_enqueue a p st = Inr (r, st')"
  shows "if pkt_q s \<noteq> [] then r = 1 \<and> socks st' = (socks st)(a \<mapsto> s\<lparr>pkt_q := pkt_q s @ [p\<lparr>pk_ptr := 0\<rparr>]\<rparr>) \<and> wr_out st' = wr_out st \<and> wants_write st' a
    else \<exists>ds rest how es. accepts (pk_len p) (wr_ev st (s_fd s)) = (length ds, how, es) \<and> payload p = ds @ rest \<and>
     (case how of
        WDone \<Rightarrow> r = 0 \<and> rest = [] \<and> socks st' = socks st \<and> wr_out st' = (wr_out st)(s_fd s := wr_out st (s_fd s) @ ds)
      | WAgain \<Rightarrow> r = 1 \<and> rest \<noteq> [] \<and> (\<exists>q. unsent q = rest \<and> socks st' = (socks st)(a \<mapsto> s\<lparr>pkt_q := [q]\<rparr>))
          \<and> wr_out st' = (wr_out st)(s_fd s := wr_out st (s_fd s) @ ds) \<and> wants_write st' a
      | WFail \<Rightarrow> r = 1 \<and> rest \<noteq> [] \<and> (\<exists>cs. asocket_close a (wr_done (s_fd s) ds cs es st) = Inr st'))"
  using assms by (rule enqueue_stream_exact)

lemma fdevent_add_zero: "fdes st a = Some (zero_fde b) \<Longrightarrow> \<exists>st'. fdevent_add a FDE_WRITE st = Inr st'"
  by (simp add: fdevent_add_def fdevent_set_def get_fde_def zero_fde_def Let_def has_def FDE_WRITE_def FDE_EVENTMASK_def
      FDE_STATEMASK_def FDE_ACTIVE_def FDE_PENDING_def)

text \<open>The descriptor takes one byte of two and would block then.\<close>

definition ex_open :: asocket where
  "ex_open = (zero_sock local_socket_enqueue_fn local_socket_ready_fn local_socket_close_fn)\<lparr>s_fd := 5\<rparr>"

theorem local_socket_enqueue_stream_witness:
  "\<exists>st st' q. socks st 16 = Some ex_open \<and> local_socket_enqueue 16 (text_packet ''hi'') (st :: sstate) = Inr (1, st')
     \<and> wr_out st' 5 = bytes_of ''h'' \<and> socks st' 16 = Some (ex_open\<lparr>pkt_q := [q]\<rparr>) \<and> unsent q = bytes_of ''i''"
proof -
  obtain s1 where s1: "alloc_sock ex_open ex_sstate = (16, s1)" "socks s1 16 = Some ex_open" "fdes s1 16 = Some (zero_fde 16)" "wr_out s1 5 = []"
    by (simp add: alloc_sock_def alloc_def Let_def ex_sstate_simps put_sock_def put_fde_def)
  let ?st = "s1\<lparr>wr_ev := (wr_ev s1)(5 := [WrAccept 1, WrErr EAGAIN])\<rparr>"
  let ?p = "(text_packet ''hi'')\<lparr>pk_len := 1, pk_ptr := 1\<rparr>"
  let ?w = "wr_done 5 (bytes_of ''h'') [2, 1] [] ?st"
  have p: "text_packet ''hi'' = get_apacket\<lparr>pk_data := bytes_of ''hi'', pk_len := 2\<rparr>" "payload (text_packet ''hi'') = bytes_of ''hi''" "pk_len (text_packet ''hi'') = 2"
    "(text_packet ''hi'')\<lparr>pk_ptr := 0\<rparr> = text_packet ''hi''"
    by (simp_all add: text_packet_def get_apacket_def bytes_of_def payload_def numeral_2_eq_2)
  have w: "write_loop False 5 (text_packet ''hi'') ?st = Inr (WAgain, ?p, ?w)"
    by (simp add: write_loop.simps adb_write_cases text_packet_def get_apacket_def bytes_of_def numeral_2_eq_2)
  have o: "pkt_q ex_open = []" "s_fd ex_open = 5" by (simp_all add: ex_open_def zero_sock_def)
  let ?q = "put_sock 16 (ex_open\<lparr>pkt_q := [?p]\<rparr>) ?w"
  have "fdes ?q 16 = Some (zero_fde 16)" using s1 by (simp add: put_sock_def wr_done_def)
  then obtain st' where f: "fdevent_add 16 FDE_WRITE ?q = Inr st'"
    using fdevent_add_zero by blast
  have ok: "local_socket_enqueue 16 (text_packet ''hi'') ?st = Inr (1, st')"
    using s1 w o f by (simp add: local_socket_enqueue_def get_sock_def p(4) upd_sock_def)
  have st: "socks ?st 16 = Some ex_open" "wr_out ?st 5 = []" "wr_ev ?st 5 = [WrAccept 1, WrErr EAGAIN]" using s1 by simp_all
  have acc: "accepts 2 [WrAccept 1, WrErr EAGAIN] = (1, WAgain, [])" by simp
  obtain ds rest q where q: "length ds = 1" "bytes_of ''hi'' = ds @ rest" "unsent q = rest" "socks st' 16 = Some (ex_open\<lparr>pkt_q := [q]\<rparr>)" "wr_out st' 5 = ds"
    using local_socket_enqueue_stream [OF st(1) ok] unfolding o p(2,3) st(2,3) acc by (auto simp: o st)
  then have "ds = bytes_of ''h'' \<and> rest = bytes_of ''i''" by (cases ds) (auto simp: bytes_of_def)
  then show ?thesis using st(1) ok q by blast
qed

text \<open>
  Property C28. When a local socket's descriptor becomes writable the queued packets are written in
  order. If the descriptor stops taking bytes, exactly the unwritten rest stays queued and nobody
  is told; the socket is closed early only when the descriptor fails. If all of them are written, the peer is told
  that it may send again, or the socket is closed if it was only waiting for that.
\<close>

theorem local_socket_write_event_stream:
  assumes s: "socks st a = Some s" and ok: "local_socket_write_event smart a fd st = Inr (go_on, st')"
  shows "\<exists>ds cs es q st1 how. drains (map pk_len (pkt_q s)) (wr_ev st fd) = (length ds, how, es)
    \<and> backlog s = ds @ concat (map unsent q) \<and> st1 = put_sock a (s\<lparr>pkt_q := q\<rparr>) (wr_done fd ds cs es st) \<and>
     (case how of
        WAgain \<Rightarrow> q \<noteq> [] \<and> \<not> go_on \<and> st' = st1
      | WFail \<Rightarrow> q \<noteq> [] \<and> \<not> go_on \<and> asocket_close a st1 = Inr st'
      | WDone \<Rightarrow> q = [] \<and> (if closing s then \<not> go_on \<and> asocket_close a st1 = Inr st'
          else go_on \<and> (\<exists>p st2. peer s = Some p \<and> fdevent_del a FDE_WRITE st1 = Inr st2 \<and> asocket_ready smart p st2 = Inr st')))"
proof -
  obtain r q w where d: "drain_queue fd (pkt_q s) st = Inr (r, q, w)"
    and c: "(case r of WAgain \<Rightarrow> Inr (False, put_sock a (s\<lparr>pkt_q := q\<rparr>) w)
       | WFail \<Rightarrow> bindr (asocket_close a (put_sock a (s\<lparr>pkt_q := q\<rparr>) w)) (\<lambda>st. Inr (False, st))
       | WDone \<Rightarrow> if closing s then bindr (asocket_close a (put_sock a (s\<lparr>pkt_q := q\<rparr>) w)) (\<lambda>st. Inr (False, st))
           else bindr (fdevent_del a FDE_WRITE (put_sock a (s\<lparr>pkt_q := q\<rparr>) w)) (\<lambda>st. bindr (deref (peer s)) (\<lambda>p.
             bindr (asocket_ready smart p st) (\<lambda>st. Inr (True, st))))) = Inr (go_on, st')"
    using ok s by (auto simp: local_socket_write_event_def Let_def bindr_eq_Inr)
  obtain ds cs where e: "w = wr_done fd ds cs (wr_ev w fd) st" "backlog s = ds @ concat (map unsent q)"
    "drains (map pk_len (pkt_q s)) (wr_ev st fd) = (length ds, r, wr_ev w fd)" "r = WDone \<longleftrightarrow> q = []"
    using drain_queue_drains [OF d] unfolding backlog_def by (elim exE conjE)
  show ?thesis
  proof (intro exI conjI)
    show "drains (map pk_len (pkt_q s)) (wr_ev st fd) = (length ds, r, wr_ev w fd)" by (rule e(3))
    show "backlog s = ds @ concat (map unsent q)" by (rule e(2))
    show "put_sock a (s\<lparr>pkt_q := q\<rparr>) w = put_sock a (s\<lparr>pkt_q := q\<rparr>) (wr_done fd ds cs (wr_ev w fd) st)" by (subst e(1) [symmetric]) (rule refl)
    show "case r of
        WAgain \<Rightarrow> q \<noteq> [] \<and> \<not> go_on \<and> st' = put_sock a (s\<lparr>pkt_q := q\<rparr>) w
      | WFail \<Rightarrow> q \<noteq> [] \<and> \<not> go_on \<and> asocket_close a (put_sock a (s\<lparr>pkt_q := q\<rparr>) w) = Inr st'
      | WDone \<Rightarrow> q = [] \<and> (if closing s then \<not> go_on \<and> asocket_close a (put_sock a (s\<lparr>pkt_q := q\<rparr>) w) = Inr st'
          else go_on \<and> (\<exists>p st2. peer s = Some p \<and> fdevent_del a FDE_WRITE (put_sock a (s\<lparr>pkt_q := q\<rparr>) w) = Inr st2
            \<and> asocket_ready smart p st2 = Inr st'))"
      using c e(4) by (cases r) (auto simp: bindr_eq_Inr deref_def split: if_splits)
  qed
qed

definition ex_closing :: asocket where
  "ex_closing = (zero_sock local_socket_enqueue_fn local_socket_ready_fn local_socket_close_fn)
     \<lparr>s_fd := 5, closing := True, pkt_q := [text_packet ''hi'']\<rparr>"

theorem local_socket_write_event_stream_witness:
  "\<exists>st st'. alloc_sock ex_closing ex_sstate = (16, st)
     \<and> local_socket_write_event (\<lambda>_ _ st. Inr (0, st)) 16 5 st = Inr (False, st') \<and> backlog ex_closing = bytes_of ''hi''
     \<and> asocket_close 16 (put_sock 16 (ex_closing\<lparr>pkt_q := []\<rparr>) (wr_done 5 (bytes_of ''hi'') [2] [] st)) = Inr st'"
proof -
  obtain st where st: "alloc_sock ex_closing ex_sstate = (16, st)" "socks st 16 = Some ex_closing" "fdes st 16 = Some (zero_fde 16)"
    "wr_ev st 5 = []" "local_socket_list st = []" "local_socket_closing_list st = []"
    by (simp add: alloc_sock_def alloc_def Let_def ex_sstate_simps put_sock_def put_fde_def)
  let ?p = "(text_packet ''hi'')\<lparr>pk_len := 0, pk_ptr := 2\<rparr>"
  let ?w = "wr_done 5 (bytes_of ''hi'') [2] [] st"
  have w: "drain_queue 5 (pkt_q ex_closing) st = Inr (WDone, [], ?w)"
    using st by (simp add: ex_closing_def write_loop.simps adb_write_cases text_packet_def get_apacket_def bytes_of_def numeral_2_eq_2)
  have "fdes (put_sock 16 (ex_closing\<lparr>pkt_q := []\<rparr>) ?w) 16 = Some (zero_fde 16)" using st by (simp add: put_sock_def wr_done_def)
  then obtain st' where c: "asocket_close 16 (put_sock 16 (ex_closing\<lparr>pkt_q := []\<rparr>) ?w) = Inr st'"
    using st by (simp add: asocket_close.simps get_sock_def ex_closing_def zero_sock_def close_tail_def upd_sock_def local_close_tail_def
        local_socket_destroy_def fdevent_remove_def get_fde_def zero_fde_flags remove_socket_def) (simp add: put_sock_def put_fde_def wr_done_def)
  have ok: "local_socket_write_event (\<lambda>_ _ st. Inr (0, st)) 16 5 st = Inr (False, st')"
    using st w c by (simp add: local_socket_write_event_def get_sock_def Let_def) (simp add: ex_closing_def)
  from local_socket_write_event_stream [OF st(2) ok] st ok c show ?thesis
    by (auto simp: backlog_def unsent_def ex_closing_def text_packet_def get_apacket_def bytes_of_def)
qed

text \<open>
  What a local socket reads goes to its peer exactly as it was read: at most
  \<open>MAX_PAYLOAD\<close> bytes are taken off the descriptor, they are enqueued at the peer as one packet, and
  the socket stops reading when the peer does not want more for the moment.
\<close>

theorem local_socket_read_event_forwards:
  assumes s: "socks st a = Some s" "peer s = Some p" and ok: "local_socket_read_event smart a fd st = Inr st'"
  shows "\<exists>ds es. stream_bytes (rd_ev st fd) = ds @ stream_bytes es \<and> length ds \<le> MAX_PAYLOAD \<and>
     (ds \<noteq> [] \<longrightarrow> (\<exists>r st1. asocket_enqueue smart p (get_apacket\<lparr>pk_len := length ds, pk_data := ds\<rparr>) (rd_set fd es st) = Inr (r, st1)
        \<and> (r < 0 \<longrightarrow> st' = st1)
        \<and> (r = 0 \<longrightarrow> st' = st1 \<or> asocket_close a st1 = Inr st')
        \<and> (r > 0 \<longrightarrow> (\<exists>st2. fdevent_del a FDE_READ st1 = Inr st2 \<and> (st' = st2 \<or> asocket_close a st2 = Inr st')))))"
proof -
  obtain ds eof r w where rl: "read_loop fd MAX_PAYLOAD 0 st = Inr (ds, eof, r, w)"
    and rest: "bindr (get_sock a w) (\<lambda>s.
     bindr (case peer s of
              None \<Rightarrow> Inr (Some r, w)
            | Some p \<Rightarrow>
                if ds = [] then Inr (Some r, w)
                else bindr (asocket_enqueue smart p (get_apacket\<lparr>pk_len := length ds, pk_data := ds\<rparr>) w) (\<lambda>(r, st).
                  if r < 0 then Inr (None, st)
                  else if r > 0 then bindr (fdevent_del a FDE_READ st) (\<lambda>st. Inr (Some r, st))
                  else Inr (Some r, st))) (\<lambda>(r, st).
       case r of
         None \<Rightarrow> Inr st
       | Some r \<Rightarrow> bindr (get_fde a st) (\<lambda>f.
           if force_eof f \<and> r = 0 \<or> eof then asocket_close a st else Inr st))) = Inr st'"
    using ok by (auto simp: local_socket_read_event_def bindr_eq_Inr)
  obtain es where e: "w = rd_set fd es st" "stream_bytes (rd_ev st fd) = ds @ stream_bytes es" "length ds \<le> MAX_PAYLOAD"
    using read_loop_spec [OF rl] by (elim exE conjE)
  have "\<exists>r1 st1. asocket_enqueue smart p (get_apacket\<lparr>pk_len := length ds, pk_data := ds\<rparr>) w = Inr (r1, st1)
        \<and> (r1 < 0 \<longrightarrow> st' = st1)
        \<and> (r1 = 0 \<longrightarrow> st' = st1 \<or> asocket_close a st1 = Inr st')
        \<and> (r1 > 0 \<longrightarrow> (\<exists>st2. fdevent_del a FDE_READ st1 = Inr st2 \<and> (st' = st2 \<or> asocket_close a st2 = Inr st')))" if ne: "ds \<noteq> []"
  proof -
    have sw: "socks w a = Some s" using s e(1) by simp
    obtain r1 st1 where "asocket_enqueue smart p (get_apacket\<lparr>pk_len := length ds, pk_data := ds\<rparr>) w = Inr (r1, st1)"
      using rest sw s(2) ne by (cases "asocket_enqueue smart p (get_apacket\<lparr>pk_len := length ds, pk_data := ds\<rparr>) w") (auto simp: get_sock_def)
    then show ?thesis using rest sw s(2) ne
      by (intro exI [of _ r1] exI [of _ st1]) (auto simp: bindr_eq_Inr get_sock_def split: if_splits)
  qed
  then show ?thesis using e by (intro exI [of _ ds] exI [of _ es]) simp
qed

definition ex_reader :: sstate where
  "ex_reader = ex_sstate\<lparr>rd_ev := (\<lambda>_. [])(5 := [RdBytes (bytes_of ''hi'')]), nonblock := (\<lambda>_. True), fdes := [16 \<mapsto> zero_fde 16],
     socks := [16 \<mapsto> (zero_sock local_socket_enqueue_fn local_socket_ready_fn local_socket_close_fn)\<lparr>s_fd := 5, peer := Some 20\<rparr>,
               20 \<mapsto> (zero_sock smart_socket_enqueue_fn smart_socket_ready_fn smart_socket_close_fn)\<lparr>peer := Some 16\<rparr>]\<rparr>"

theorem local_socket_read_event_forwards_witness:
  "\<exists>st'. local_socket_read_event (\<lambda>a p st. if payload p = bytes_of ''hi'' then Inr (0, st) else Inl MemFault) 16 5 ex_reader = Inr st'
     \<and> (\<exists>ds es. stream_bytes (rd_ev ex_reader 5) = ds @ stream_bytes es \<and> length ds \<le> MAX_PAYLOAD)"
proof -
  let ?smart = "\<lambda>a p st. if payload p = bytes_of ''hi'' then Inr (0, st) else Inl MemFault :: (int \<times> sstate) res"
  obtain s where s: "socks ex_reader 16 = Some s" "peer s = Some 20" by (auto simp: ex_reader_def)
  have b: "bytes_of ''hi'' \<noteq> []" "length (bytes_of ''hi'') = 2" by (simp_all add: bytes_of_def)
  have "read_loop 5 MAX_PAYLOAD 0 ex_reader = Inr (bytes_of ''hi'', False, -1, rd_set 5 [] ex_reader)"
    using b by (simp add: read_loop.simps adb_read_cases ex_reader_def MAX_PAYLOAD_def)
  then obtain st' where st': "local_socket_read_event ?smart 16 5 ex_reader = Inr st'"
    using b by (simp add: local_socket_read_event_def get_sock_def ex_reader_def asocket_enqueue_def zero_sock_def get_fde_def payload_def rd_set_def zero_fde_def)
  from local_socket_read_event_forwards [OF s st'] st' show ?thesis by blast
qed

text \<open>
  Property C29. A request for the smart socket may arrive in pieces: a packet that does not complete the
  request only adds to what is held, so that splitting a request over packets makes no difference.
\<close>

definition incomplete :: "byte list \<Rightarrow> bool" where
  "incomplete bs \<longleftrightarrow> length bs < 4 \<or> (\<exists>n. unhex bs 4 = Inr n \<and> 1 \<le> unat n \<and> unat n \<le> 1024 \<and> length bs < unat n + 4)"

theorem smart_request_in_pieces:
  assumes s: "socks st a = Some s" "pkt_q s = []" and p: "pk_len p = length (pk_data p)" "incomplete (pk_data p)"
    and q: "pk_len q = length (pk_data q)" and fits: "pk_len p + pk_len q \<le> MAX_PAYLOAD"
  shows "bindr (smart_socket_enqueue calls smart a p st) (\<lambda>(r, st). smart_socket_enqueue calls smart a q st)
    = smart_socket_enqueue calls smart a (p\<lparr>pk_len := pk_len p + pk_len q, pk_data := pk_data p @ pk_data q\<rparr>) st"
proof -
  let ?st = "put_sock a (s\<lparr>pkt_q := [p]\<rparr>) st"
  have h: "held_bytes p = Inr (pk_data p)" "held_bytes q = Inr (pk_data q)"
    "held_bytes (p\<lparr>pk_len := pk_len p + pk_len q, pk_data := pk_data p @ pk_data q\<rparr>) = Inr (pk_data p @ pk_data q)"
    using p q by (simp_all add: held_bytes_def)
  have same: "p\<lparr>pk_len := length (pk_data p), pk_data := pk_data p\<rparr> = p" using p(1) by simp
  have "smart_socket_enqueue calls smart a p st = Inr (0, ?st)"
    using s h(1) p(2) same by (auto simp: smart_socket_enqueue_def get_sock_def incomplete_def Let_def)
  then show ?thesis
    using s h p(1) q fits by (simp add: smart_socket_enqueue_def get_sock_def Let_def cong: if_cong)
qed

theorem smart_request_in_pieces_witness:
  "\<exists>st. create_smart_socket ex_sstate = (16, st) \<and>
     bindr (smart_at 2 \<lparr>handle_host_request_fn = (\<lambda>_ _ _ _ _ st. Inr (-1, st)), host_service_to_socket_fn = (\<lambda>_ _ st. Inr (None, st))\<rparr>
             16 (text_packet ''00'') st)
       (\<lambda>(r, st). smart_at 2 \<lparr>handle_host_request_fn = (\<lambda>_ _ _ _ _ st. Inr (-1, st)), host_service_to_socket_fn = (\<lambda>_ _ st. Inr (None, st))\<rparr>
             16 (text_packet ''0'') st)
     = smart_at 2 \<lparr>handle_host_request_fn = (\<lambda>_ _ _ _ _ st. Inr (-1, st)), host_service_to_socket_fn = (\<lambda>_ _ st. Inr (None, st))\<rparr>
             16 (text_packet ''000'') st"
proof -
  obtain st where st: "create_smart_socket ex_sstate = (16, st)"
    "socks st 16 = Some (zero_sock smart_socket_enqueue_fn smart_socket_ready_fn smart_socket_close_fn)"
    by (simp add: create_smart_socket_def alloc_sock_def alloc_def Let_def ex_sstate_simps put_sock_def put_fde_def)
  have q: "pkt_q (zero_sock smart_socket_enqueue_fn smart_socket_ready_fn smart_socket_close_fn) = []" by (simp add: zero_sock_def)
  have p: "(text_packet ''00'')\<lparr>pk_len := pk_len (text_packet ''00'') + pk_len (text_packet ''0''),
      pk_data := pk_data (text_packet ''00'') @ pk_data (text_packet ''0'')\<rparr> = text_packet ''000''"
    by (simp add: text_packet_def bytes_of_def)
  show ?thesis
    using smart_request_in_pieces [OF st(2) q, of "text_packet ''00''" "text_packet ''0''"] st(1)
    unfolding p by (simp add: numeral_2_eq_2 text_packet_def incomplete_def bytes_of_def MAX_PAYLOAD_def)
qed

text \<open>
  The list of debuggable processes never overruns its buffer: the text is shorter than the
  size it was asked for, and with the header in front of it a message for the trackers fits as well.
\<close>

theorem jdwp_process_list_fits:
  assumes "0 < n" "jdwp_process_list n st = Inr txt"
  shows "int (length txt) < n"
proof -
  have "int (length txt0) < n \<Longrightarrow> pid_lines n js txt0 st = Inr txt \<Longrightarrow> int (length txt) < n" for js txt0
  proof (induction js arbitrary: txt0)
    case (Cons j js)
    obtain x where x: "jdwp_procs st j = Some x" using Cons.prems by (auto simp: bindr_eq_Inr)
    show ?case
      using Cons.prems Cons.IH [of txt0] Cons.IH [of "txt0 @ fmt_d (j_pid x) @ [CHR 0x0a]"] x
      by (simp add: Let_def split: if_splits)
  qed simp
  from this [of "[]" "jdwp_list st"] show ?thesis using assms by (simp add: jdwp_process_list_def)
qed

theorem jdwp_process_list_fits_witness:
  "jdwp_process_list 4 (ex_sstate\<lparr>jdwp_procs := [3 \<mapsto> \<lparr>j_pid = 1234, j_socket = 5, j_fde = None, in_buff = [], out_fds = []\<rparr>,
      4 \<mapsto> \<lparr>j_pid = 7, j_socket = 6, j_fde = None, in_buff = [], out_fds = []\<rparr>], jdwp_list := [4, 3]\<rparr>) = Inr ''7\<newline>''
   \<and> int (length ''7\<newline>'') < 4"
proof -
  let ?st = "ex_sstate\<lparr>jdwp_procs := [3 \<mapsto> \<lparr>j_pid = 1234, j_socket = 5, j_fde = None, in_buff = [], out_fds = []\<rparr>,
      4 \<mapsto> \<lparr>j_pid = 7, j_socket = 6, j_fde = None, in_buff = [], out_fds = []\<rparr>], jdwp_list := [4, 3]\<rparr>"
  have "jdwp_process_list 4 ?st = Inr ''7\<newline>''" by code_simp
  with jdwp_process_list_fits [OF _ this] show ?thesis by simp
qed

end
