(* ===== verification/Jdwp.thy ===== *)
theory Jdwp
  imports SocketSteps
begin

text \<open>
  The processes that can be debugged, jdwp_service.c: connections of virtual machines to the
  control socket, the process id each sends, and the descriptors passed to it when a debugger
  connects. The sockets that list the processes are with the other sockets.
\<close>

section \<open>Reading the process id\<close>

definition MAX_OUT_FDS :: nat where "MAX_OUT_FDS = 4"

text \<open>
  \<open>sscanf\<close> with \<open>%04x\<close>: white space, then at most four characters, an optional sign, an optional
  \<open>0x\<close> and hexadecimal digits; a lone \<open>0x\<close> counts as 0. The number is stored through an \<open>int\<close>.
\<close>

definition is_space :: "byte \<Rightarrow> bool" where
  "is_space b \<longleftrightarrow> b = 0x20 \<or> (0x09 \<le> b \<and> b \<le> 0x0d)"

fun hex_run :: "byte list \<Rightarrow> u32 list" where
  "hex_run [] = []"
| "hex_run (b # bs) = (case unhex_digit b of None \<Rightarrow> [] | Some d \<Rightarrow> d # hex_run bs)"

definition hex_value :: "u32 list \<Rightarrow> u32" where
  "hex_value ds = foldl (\<lambda>n d. 16 * n + d) 0 ds"

definition scan_digits :: "byte list \<Rightarrow> u32 list" where
  "scan_digits s = (case s of
     z # x # s' \<Rightarrow> if z = 0x30 \<and> (x = 0x78 \<or> x = 0x58) then 0 # hex_run s' else hex_run s
   | _ \<Rightarrow> hex_run s)"

definition scan_hex :: "nat \<Rightarrow> byte list \<Rightarrow> int option" where
  "scan_hex width s =
     (let s = take width (dropWhile is_space (takeWhile (\<lambda>b. b \<noteq> 0) s));
          neg = (s \<noteq> [] \<and> hd s = 0x2d);
          s = (if s \<noteq> [] \<and> (hd s = 0x2d \<or> hd s = 0x2b) then tl s else s);
          ds = scan_digits s in
      if ds = [] then None
      else Some (sint (if neg then - hex_value ds else hex_value ds)))"

lemma adb_read_count:
  "adb_read fd len w = Inr (IoN n, bs, w') \<Longrightarrow> n = length bs \<and> n \<le> len \<and>
     length (stream_bytes (rd_ev w fd)) = n + length (stream_bytes (rd_ev w' fd))"
  by (auto dest!: adb_read_spec)

datatype recv_result = RvDone | RvAgain | RvClosed

text \<open>The loop that reads the four characters; what has arrived stays in \<open>in_buff\<close>.\<close>

function recv_pid :: "fdesc \<Rightarrow> byte list \<Rightarrow> 'a world_scheme \<Rightarrow> (recv_result \<times> byte list \<times> 'a world_scheme) res" where
  "recv_pid fd buf w =
     (if 4 \<le> length buf then Inr (RvDone, buf, w)
      else case adb_read fd (4 - length buf) w of
        Inl e \<Rightarrow> Inl e
      | Inr (IoErr e, bs, w') \<Rightarrow> Inr (if e = EAGAIN then RvAgain else RvClosed, buf, w')
      | Inr (IoN n, bs, w') \<Rightarrow>
          if n = 0 then Inr (RvClosed, buf, w') else recv_pid fd (buf @ bs) w')"
  by pat_completeness auto
termination
  by (relation "measure (\<lambda>(fd, buf, w). 4 - length buf)") (auto simp: not_le dest!: adb_read_count intro: diff_less_mono2)

declare recv_pid.simps [simp del]

lemma recv_pid_spec:
  "recv_pid fd buf w = Inr (r, buf', w') \<Longrightarrow> length buf \<le> 4 \<Longrightarrow>
     \<exists>ds es. w' = rd_set fd es w \<and> buf' = buf @ ds \<and> stream_bytes (rd_ev w fd) = ds @ stream_bytes es
       \<and> length buf' \<le> 4 \<and> (r = RvDone \<longleftrightarrow> length buf' = 4)"
proof (induction fd buf w rule: recv_pid.induct)
  case (1 fd buf w)
  show ?case
  proof (cases "4 \<le> length buf")
    case True
    then show ?thesis using 1(2,3) by (subst (asm) recv_pid.simps) (auto intro!: exI [of _ "rd_ev w' fd"])
  next
    case False
    obtain x bs w1 where a: "adb_read fd (4 - length buf) w = Inr (x, bs, w1)"
      using 1(2) False by (subst (asm) recv_pid.simps) (auto split: sum.splits)
    obtain es where e: "w1 = rd_set fd es w" "stream_bytes (rd_ev w fd) = bs @ stream_bytes es" "length bs \<le> 4 - length buf"
      "x = IoN (length bs) \<or> (\<exists>e. x = IoErr e \<and> bs = [])"
      using adb_read_spec [OF a] by (elim exE conjE)
    show ?thesis
    proof (cases "\<exists>n. x = IoN n \<and> n \<noteq> 0")
      case True
      then have n: "x = IoN (length bs)" "length bs \<noteq> 0" using e(4) by auto
      have c: "recv_pid fd (buf @ bs) w1 = Inr (r, buf', w')"
        using 1(2) False a n by (subst (asm) recv_pid.simps) simp
      have "length (buf @ bs) \<le> 4" using e(3) False by simp
      from 1(1) [OF False a [unfolded n(1)] refl refl refl n(2) c this] obtain ds es' where
        "w' = rd_set fd es' w1" "buf' = (buf @ bs) @ ds" "stream_bytes (rd_ev w1 fd) = ds @ stream_bytes es'"
        "length buf' \<le> 4" "r = RvDone \<longleftrightarrow> length buf' = 4" by (elim exE conjE)
      then show ?thesis using e by (intro exI [of _ "bs @ ds"] exI [of _ es']) auto
    next
      case stop: False
      then consider "x = IoN 0" | e' where "x = IoErr e'" using e(4) by (cases x) auto
      then have "r \<noteq> RvDone \<and> buf' = buf \<and> w' = w1"
        using 1(2) False a by cases (subst (asm) recv_pid.simps, simp split: if_splits)+
      moreover have "bs = []" using e(4) stop by (cases bs) auto
      ultimately show ?thesis using e(1,2) False by (intro exI [of _ "[]"] exI [of _ es]) simp
    qed
  qed
qed

lemma recv_pid_frame: "recv_pid fd buf w = Inr (r, buf', w') \<Longrightarrow> \<exists>es. w' = rd_set fd es w"
proof (cases "length buf \<le> 4")
  case False
  moreover assume "recv_pid fd buf w = Inr (r, buf', w')"
  ultimately show ?thesis by (subst (asm) recv_pid.simps) (auto intro: exI [of _ "rd_ev w fd"])
qed (auto dest: recv_pid_spec)

text \<open>Once the process id is known nothing more is expected; input is skipped until the end.\<close>

function recv_skip :: "fdesc \<Rightarrow> 'a world_scheme \<Rightarrow> (bool \<times> 'a world_scheme) res" where
  "recv_skip fd w =
     (case adb_read fd 32 w of
        Inl e \<Rightarrow> Inl e
      | Inr (IoErr e, bs, w') \<Rightarrow> Inr (e \<noteq> EAGAIN, w')
      | Inr (IoN n, bs, w') \<Rightarrow> if n = 0 then Inr (True, w') else recv_skip fd w')"
  by pat_completeness auto
termination
  by (relation "measure (\<lambda>(fd, w). length (stream_bytes (rd_ev w fd)))") (auto dest!: adb_read_count)

declare recv_skip.simps [simp del]

lemma recv_skip_frame: "recv_skip fd w = Inr (r, w') \<Longrightarrow> \<exists>es. w' = rd_set fd es w"
proof (induction fd w rule: recv_skip.induct)
  case (1 fd w)
  obtain x bs w1 where a: "adb_read fd 32 w = Inr (x, bs, w1)"
    using 1(2) by (subst (asm) recv_skip.simps) (auto split: sum.splits)
  obtain es where e: "w1 = rd_set fd es w" using adb_read_spec [OF a] by (elim exE conjE)
  show ?case
  proof (cases "\<exists>n. x = IoN n \<and> n \<noteq> 0")
    case True
    then obtain n where n: "x = IoN n" "n \<noteq> 0" by blast
    have "recv_skip fd w1 = Inr (r, w')" using 1(2) a n by (subst (asm) recv_skip.simps) simp
    from 1(1) [OF a [unfolded n(1)] refl refl refl n(2) this] show ?thesis using e by auto
  next
    case False
    then have "w' = w1" using 1(2) a by (subst (asm) recv_skip.simps) (auto split: io_ret.splits if_splits)
    then show ?thesis using e by blast
  qed
qed

section \<open>Processes\<close>

definition get_proc :: "addr \<Rightarrow> 'a sstate_scheme \<Rightarrow> jdwp_process res" where
  "get_proc j st = from_opt MemFault (jdwp_procs st j)"

definition put_proc :: "addr \<Rightarrow> jdwp_process \<Rightarrow> 'a sstate_scheme \<Rightarrow> 'a sstate_scheme" where
  "put_proc j p st = st\<lparr>jdwp_procs := (jdwp_procs st)(j \<mapsto> p)\<rparr>"

fun close_fds :: "int list \<Rightarrow> 'a world_scheme \<Rightarrow> 'a world_scheme" where
  "close_fds [] w = w"
| "close_fds (fd # fds) w = close_fds fds (adb_close fd w)"

definition jdwp_process_free :: "'a sstate_scheme enqueue \<Rightarrow> addr \<Rightarrow> 'a sstate_scheme \<Rightarrow> 'a sstate_scheme res" where
  "jdwp_process_free smart j st = bindr (get_proc j st) (\<lambda>p.
     let st = st\<lparr>jdwp_list := remove1 j (jdwp_list st)\<rparr>;
         st = (if 0 \<le> j_socket p then adb_close (j_socket p) st else st) in
     bindr (fdevent_destroy (j_fde p) st) (\<lambda>st.
       let st = close_fds (out_fds p) st in
       jdwp_process_list_updated smart (st\<lparr>jdwp_procs := (jdwp_procs st)(j := None)\<rparr>)))"

definition jdwp_process_alloc :: "int \<Rightarrow> 'a sstate_scheme \<Rightarrow> 'a sstate_scheme res" where
  "jdwp_process_alloc socket st =
     (let (j, st) = alloc st in
      bindr (fdevent_create j socket (jdwp_process_event j) st) (\<lambda>st.
      bindr (get_fde j st) (\<lambda>f.
        let st = put_fde j (f\<lparr>fde_state := fde_state f OR FDE_DONT_CLOSE\<rparr>) st;
            st = put_proc j \<lparr>j_pid = -1, j_socket = socket, j_fde = Some j, in_buff = [], out_fds = []\<rparr> st in
        fdevent_add j FDE_READ (st\<lparr>jdwp_list := jdwp_list st @ [j]\<rparr>))))"

text \<open>\<open>True\<close> in the result means that the process has been freed or that the handler returns at once.\<close>

definition jdwp_read_event :: "'a sstate_scheme enqueue \<Rightarrow> addr \<Rightarrow> int \<Rightarrow> 'a sstate_scheme \<Rightarrow> (bool \<times> 'a sstate_scheme) res" where
  "jdwp_read_event smart j fd st = bindr (get_proc j st) (\<lambda>p.
     if j_pid p < 0 then
       bindr (recv_pid fd (in_buff p) st) (\<lambda>(r, buf, st).
         let st = put_proc j (p\<lparr>in_buff := buf\<rparr>) st in
         case r of
           RvAgain \<Rightarrow> Inr (True, st)
         | RvClosed \<Rightarrow> bindr (jdwp_process_free smart j st) (\<lambda>st. Inr (True, st))
         | RvDone \<Rightarrow>
             (case scan_hex 4 (take 4 buf) of
                None \<Rightarrow> bindr (jdwp_process_free smart j st) (\<lambda>st. Inr (True, st))
              | Some pid \<Rightarrow>
                  bindr (jdwp_process_list_updated smart (put_proc j (p\<lparr>in_buff := buf, j_pid := pid\<rparr>) st))
                    (\<lambda>st. Inr (False, st))))
     else
       bindr (recv_skip fd st) (\<lambda>(ended, st).
         if ended then bindr (jdwp_process_free smart j st) (\<lambda>st. Inr (True, st)) else Inr (True, st)))"

text \<open>How the calls around \<open>sendmsg\<close> fare: reading and clearing the flags, sending, restoring the flags.\<close>

record send_env =
  getfl_ok :: bool
  clear_ok :: bool
  send_ok :: bool
  restore_ok :: bool

definition jdwp_write_event :: "send_env \<Rightarrow> 'a sstate_scheme enqueue \<Rightarrow> addr \<Rightarrow> 'a sstate_scheme \<Rightarrow> 'a sstate_scheme res" where
  "jdwp_write_event env smart j st = bindr (get_proc j st) (\<lambda>p.
     case out_fds p of
       [] \<Rightarrow> Inr st
     | fd # fds \<Rightarrow>
         if \<not> getfl_ok env \<or> \<not> clear_ok env then jdwp_process_free smart j st
         else
           let flag = nonblock st (j_socket p);
               st = st\<lparr>nonblock := (nonblock st)(j_socket p := False)\<rparr> in
           if \<not> send_ok env then jdwp_process_free smart j st
           else
             let st = adb_close fd (wr_done (j_socket p) (bytes_of ''!'') [1] (wr_ev st (j_socket p)) st);
                 st = st\<lparr>sent_fds := sent_fds st @ [(j_socket p, fd)]\<rparr>;
                 shifted = (if fds = [] then [fd] else fds @ [last fds]) in
             if \<not> restore_ok env then jdwp_process_free smart j (put_proc j (p\<lparr>out_fds := shifted\<rparr>) st)
             else
               let st = put_proc j (p\<lparr>out_fds := fds\<rparr>) (st\<lparr>nonblock := (nonblock st)(j_socket p := flag)\<rparr>) in
               if fds = [] then bindr (deref (j_fde p)) (\<lambda>f. fdevent_del f FDE_WRITE st) else Inr st)"

definition jdwp_process_event_run :: "send_env \<Rightarrow> 'a sstate_scheme enqueue \<Rightarrow> addr \<Rightarrow> int \<Rightarrow> u16 \<Rightarrow> 'a sstate_scheme \<Rightarrow> 'a sstate_scheme res" where
  "jdwp_process_event_run env smart j fd ev st =
     bindr (if has ev FDE_READ then jdwp_read_event smart j fd st else Inr (False, st)) (\<lambda>(done, st).
       if \<not> done \<and> has ev FDE_WRITE then jdwp_write_event env smart j st else Inr st)"

text \<open>A debugger's connection to a process: one end of a pair is kept, the other waits to be passed on.\<close>

fun find_pid :: "int \<Rightarrow> addr list \<Rightarrow> 'a sstate_scheme \<Rightarrow> addr option res" where
  "find_pid pid [] st = Inr None"
| "find_pid pid (j # js) st = bindr (get_proc j st) (\<lambda>p. if j_pid p = pid then Inr (Some j) else find_pid pid js st)"

definition create_jdwp_connection_fd :: "int \<Rightarrow> (int \<times> int) option \<Rightarrow> 'a sstate_scheme \<Rightarrow> (int \<times> 'a sstate_scheme) res" where
  "create_jdwp_connection_fd pid fds st = bindr (find_pid pid (jdwp_list st) st) (\<lambda>r.
     case r of
       None \<Rightarrow> Inr (-1, st)
     | Some j \<Rightarrow> bindr (get_proc j st) (\<lambda>p.
         if MAX_OUT_FDS \<le> length (out_fds p) then Inr (-1, st)
         else case fds of
           None \<Rightarrow> Inr (-1, st)
         | Some (s0, s1) \<Rightarrow>
             let st = put_proc j (p\<lparr>out_fds := out_fds p @ [s1]\<rparr>) st in
             if out_fds p = [] then bindr (deref (j_fde p)) (\<lambda>f. bindr (fdevent_add f FDE_WRITE st) (\<lambda>st. Inr (s0, st)))
             else Inr (s0, st)))"

section \<open>The control socket\<close>

text \<open>\<open>s\<close> is the descriptor \<open>accept\<close> has returned, negative on failure.\<close>

definition jdwp_control_event_run :: "int \<Rightarrow> u16 \<Rightarrow> 'a sstate_scheme \<Rightarrow> 'a sstate_scheme res" where
  "jdwp_control_event_run s ev st =
     (if has ev FDE_READ then if s < 0 then Inr st else jdwp_process_alloc s st else Inr st)"

definition JDWP_CONTROL_NAME_LEN :: nat where "JDWP_CONTROL_NAME_LEN = 13"

text \<open>The size of \<open>sun_path\<close>, the descriptor \<open>socket\<close> returns, and whether \<open>bind\<close> and \<open>listen\<close> succeed.\<close>

definition jdwp_control_init :: "nat \<Rightarrow> nat \<Rightarrow> int \<Rightarrow> bool \<Rightarrow> bool \<Rightarrow> 'a sstate_scheme \<Rightarrow> (int \<times> 'a sstate_scheme) res" where
  "jdwp_control_init maxpath socknamelen s bind_ok listen_ok st =
     (if maxpath \<le> socknamelen then Inr (-1, st)
      else if s < 0 then Inr (-1, st)
      else if \<not> bind_ok \<or> \<not> listen_ok then Inr (-1, adb_close s st)
      else
        let (a, st) = alloc st in
        bindr (fdevent_create a s jdwp_control_event st) (\<lambda>st.
        bindr (fdevent_add a FDE_READ st) (\<lambda>st. Inr (0, st))))"

definition init_jdwp :: "int \<Rightarrow> bool \<Rightarrow> bool \<Rightarrow> 'a sstate_scheme \<Rightarrow> (int \<times> 'a sstate_scheme) res" where
  "init_jdwp s bind_ok listen_ok st =
     jdwp_control_init 108 JDWP_CONTROL_NAME_LEN s bind_ok listen_ok (st\<lparr>jdwp_list := [], jdwp_trackers_list := []\<rparr>)"

section \<open>The handlers keep the invariant of the sockets\<close>

lemma sock_inv_env [simp]:
  "sock_inv E (adb_close fd st) = sock_inv E st"
  "sock_inv E (st\<lparr>nonblock := x\<rparr>) = sock_inv E st"
  "sock_inv E (st\<lparr>jdwp_list := js\<rparr>) = sock_inv E st"
  "sock_inv E (st\<lparr>jdwp_procs := ps\<rparr>) = sock_inv E st"
  "sock_inv E (st\<lparr>sent_fds := ss\<rparr>) = sock_inv E st"
  "sock_inv E (put_proc j p st) = sock_inv E st"
  by (simp_all add: sock_inv_unfold act_def adb_close_def fd_inv_unfold put_proc_def)

lemma pending_env [simp]:
  "list_pending (adb_close fd st) = list_pending st" "list_pending (put_proc j p sst) = list_pending sst"
  "ADB_HOST (put_proc j p sst) = ADB_HOST sst"
  by (simp_all add: adb_close_def put_proc_def)

lemma reg_ok_env [simp]:
  "reg_ok (adb_close fd tst) = reg_ok tst" "reg_ok (tst\<lparr>nonblock := x\<rparr>) = reg_ok tst"
  "reg_ok (sst\<lparr>jdwp_list := js\<rparr>) = reg_ok sst" "reg_ok (sst\<lparr>jdwp_procs := ps\<rparr>) = reg_ok sst"
  "reg_ok (sst\<lparr>sent_fds := ss\<rparr>) = reg_ok sst" "reg_ok (put_proc j p sst) = reg_ok sst"
  by (rule reg_ok_cong; simp add: adb_close_def put_proc_def)+

lemma ginv_env [simp]:
  "ginv h k (adb_close fd st) = ginv h k st"
  "ginv h k (st\<lparr>nonblock := x\<rparr>) = ginv h k st"
  "ginv h k (st\<lparr>jdwp_list := js\<rparr>) = ginv h k st"
  "ginv h k (st\<lparr>jdwp_procs := ps\<rparr>) = ginv h k st"
  "ginv h k (st\<lparr>sent_fds := ss\<rparr>) = ginv h k st"
  "ginv h k (put_proc j p st) = ginv h k st"
  by (simp_all add: ginv_def)

lemma ginv_close_fds [simp]: "ginv h k (close_fds fds st) = ginv h k st"
  by (induction fds arbitrary: st) simp_all

lemma ensures_get_proc [simp]: "ensures (get_proc j st) P \<longleftrightarrow> (\<forall>p. jdwp_procs st j = Some p \<longrightarrow> P p)"
  by (auto simp: get_proc_def from_opt_def split: option.splits)

lemma ginv_fdevent_remove: "ginv h k st \<Longrightarrow> ensures (fdevent_remove a st) (ginv h k)"
  by (rule ensuresI) (auto dest: ginv_sock_inv fdevent_remove_sock fdevent_remove_calm intro: ginv_calm)

lemma ginv_fdevent_destroy: "ginv h k st \<Longrightarrow> ensures (fdevent_destroy f st) (ginv h k)"
  by (auto simp: fdevent_destroy_def get_fde_def from_opt_def split: option.splits intro!: ginv_fdevent_remove)

text \<open>A new event record that belongs to no socket.\<close>

lemma fdevent_create_calm:
  assumes inv: "sock_inv {} st" and a: "socks st a = None" "act st a = None" "a < next_addr st" "4 dvd a" and free: "tbl_at st (nat fd) = None"
    and ok: "fdevent_create a fd fn st = Inr st'"
  shows "sock_inv {} st' \<and> calm st st' \<and> socks st' = socks st \<and> (\<exists>f. fdes st' a = Some f \<and> has (fde_state f) FDE_ACTIVE)"
proof -
  have i: "fd_inv st" using inv by (simp add: sock_inv_def)
  obtain s f where s: "fdevent_install a fd fn st = Inr s" and f: "fdes s a = Some f"
    and st': "st' = put_fde a (f\<lparr>fde_state := fde_state f OR FDE_CREATED\<rparr>) s"
    using ok by (auto simp: fdevent_create_def bindr_eq_Inr)
  have "fd_inv st' \<and> list_pending st' = list_pending st"
    using fdevent_create_inv [OF i _ free ok] a(2) by (simp add: act_inactive)
  moreover have t: "has (fde_state f OR FDE_CREATED) FDE_ACTIVE"
    using fdevent_install_result [OF i s] f by (auto simp: flag_bits)
  then have "act st' = (act st)(a \<mapsto> True)" by (simp add: st' fdevent_install_act [OF i s])
  moreover note fd_frame_sstate [OF fdevent_install_frame [OF s]] fd_frame_tstate [OF fdevent_install_frame [OF s]]
  moreover have "\<not> next_addr st \<le> a" using a(3) by simp
  ultimately have "sock_inv {} st'" "calm st st'" "socks st' = socks st"
    using inv a by (auto simp: sock_inv_unfold put_fde_def st') (auto simp: st' calm_def put_fde_def split: if_splits)
  then show ?thesis using t by (simp add: st')
qed

lemma alloc_inv:
  assumes inv: "sock_inv {} st" and al: "alloc st = (a, st')"
  shows "sock_inv {} st' \<and> calm st st' \<and> socks st' a = None \<and> act st' a = None \<and> a < next_addr st' \<and> 4 dvd a \<and> tbl_at st' = tbl_at st
    \<and> jdwp_list st' = jdwp_list st \<and> jdwp_procs st' = jdwp_procs st"
proof -
  have e: "a = next_addr st" "st' = st\<lparr>next_addr := next_addr st + 4\<rparr>" using al by (auto simp: alloc_def)
  have n: "act st a = None" using inv e by (simp add: sock_inv_def fde_ok_def)
  have ns: "socks st a = None" using inv e unfolding sock_inv_def fde_ok_def by (metis less_irrefl option.exhaust)
  have A: "act st' = act st" by (simp add: e act_def fun_eq_iff)
  have "sock_inv {} st'"
    using inv unfolding sock_inv_def paired_def fde_ok_def lists_ok_def A by (auto simp: e fd_inv_more intro: trans_less_add1)
  moreover have "4 dvd a" using inv e by (simp add: sock_inv_def fde_ok_def)
  moreover have "calm st st'" using A by (simp add: calm_def) (simp add: e)
  ultimately show ?thesis using n ns A by (simp add: e tbl_at_def fun_eq_iff)
qed

lemma fd_inv_same_flags:
  assumes f: "fdes st a = Some f" and g: "fde_fd g = fde_fd f" "fde_events g = fde_events f"
    and b: "has (fde_state g) FDE_ACTIVE = has (fde_state f) FDE_ACTIVE" "has (fde_state g) FDE_PENDING = has (fde_state f) FDE_PENDING"
      "has (fde_state g) FDE_READ = has (fde_state f) FDE_READ" "has (fde_state g) FDE_WRITE = has (fde_state f) FDE_WRITE"
      "has (fde_state g) FDE_ERROR = has (fde_state f) FDE_ERROR"
  shows "fd_inv (put_fde a g st) = fd_inv st"
proof -
  have ex: "(\<exists>h. ((fdes st)(a \<mapsto> g)) x = Some h \<and> R h) = (\<exists>h. fdes st x = Some h \<and> R h)" if "R g = R f" for R x
    using that f by auto
  have al: "(\<forall>h. ((fdes st)(a \<mapsto> g)) x = Some h \<longrightarrow> R h) = (\<forall>h. fdes st x = Some h \<longrightarrow> R h)" if "R g = R f" for R x
    using that f by auto
  show ?thesis unfolding fd_inv_def watches_def put_fde_simps tbl_at_put_fde
    by (simp only: ex [of "\<lambda>h. has (fde_state h) FDE_PENDING"] al [of "\<lambda>h. (fde_events h \<noteq> 0) = has (fde_state h) FDE_PENDING"]
        al [of "\<lambda>h. has (fde_state h) FDE_PENDING \<longrightarrow> has (fde_state h) FDE_ACTIVE"] al [of "\<lambda>h. has (fde_state h) FDE_ACTIVE \<longrightarrow> 0 \<le> fde_fd h"]
        ex [of "\<lambda>h. has (fde_state h) FDE_ACTIVE \<and> fde_fd h = int i" for i]
        ex [of "\<lambda>h. has (fde_state h) FDE_ACTIVE \<and> fde_fd h = int i \<and> has (fde_state h) ev" for i ev] g b)
qed

lemma fde_flag_inv:
  assumes inv: "sock_inv E st" and f: "fdes st a = Some f"
  shows "sock_inv E (put_fde a (f\<lparr>fde_state := fde_state f OR FDE_DONT_CLOSE\<rparr>) st) \<and>
    calm st (put_fde a (f\<lparr>fde_state := fde_state f OR FDE_DONT_CLOSE\<rparr>) st)"
proof -
  let ?g = "f\<lparr>fde_state := fde_state f OR FDE_DONT_CLOSE\<rparr>"
  have n: "\<not> bit FDE_DONT_CLOSE 0" "\<not> bit FDE_DONT_CLOSE 1" "\<not> bit FDE_DONT_CLOSE 2" "\<not> bit FDE_DONT_CLOSE 8" "\<not> bit FDE_DONT_CLOSE 9"
    unfolding FDE_DONT_CLOSE_def by simp_all
  have "fd_inv (put_fde a ?g st) = fd_inv st" using f n by (intro fd_inv_same_flags) (auto simp: flag_bits)
  moreover have "act (put_fde a ?g st) = act st" using f n by (auto simp: act_def flag_bits fun_eq_iff)
  moreover have "calm st (put_fde a ?g st)" unfolding calm_def calculation(2) by (simp add: put_fde_def)
  ultimately show ?thesis using inv by (simp add: sock_inv_unfold put_fde_def)
qed

lemma ginv_jdwp_alloc:
  assumes g: "ginv h k st" and free: "tbl_at st (nat fd) = None"
  shows "ensures (jdwp_process_alloc fd st) (ginv h k)"
proof (rule ensuresI)
  fix st' assume ok: "jdwp_process_alloc fd st = Inr st'"
  obtain j s1 where s1: "alloc st = (j, s1)" by (cases "alloc st")
  note A = alloc_inv [OF ginv_sock_inv [OF g] s1]
  let ?p = "\<lparr>j_pid = -1, j_socket = fd, j_fde = Some j, in_buff = [], out_fds = []\<rparr>"
  obtain s2 f where s2: "fdevent_create j fd (jdwp_process_event j) s1 = Inr s2" "fdes s2 j = Some f"
    and s3: "fdevent_add j FDE_READ ((put_proc j ?p (put_fde j (f\<lparr>fde_state := fde_state f OR FDE_DONT_CLOSE\<rparr>) s2))\<lparr>jdwp_list := jdwp_list s2 @ [j]\<rparr>) = Inr st'"
    using ok s1 by (auto simp: jdwp_process_alloc_def Let_def bindr_eq_Inr put_proc_def put_fde_def)
  have B: "sock_inv {} s2" "calm s1 s2" using fdevent_create_calm [OF _ _ _ _ _ _ s2(1)] A free by auto
  have "calm st s2" using A B(2) by (blast intro: calm_trans)
  then have "ginv h k ((put_proc j ?p (put_fde j (f\<lparr>fde_state := fde_state f OR FDE_DONT_CLOSE\<rparr>) s2))\<lparr>jdwp_list := jdwp_list s2 @ [j]\<rparr>)"
    using fde_flag_inv [OF B(1) s2(2)] ginv_calm [OF g] by (auto intro: calm_trans)
  from ensuresD [OF ginv_fdevent_add [OF this] s3] show "ginv h k st'" .
qed

lemma ginv_recv_pid:
  "ginv h k st \<Longrightarrow> ensures (recv_pid fd buf st) (\<lambda>(r, buf, st'). ginv h k st')"
  by (rule ensuresI) (auto dest!: recv_pid_frame)

lemma ginv_recv_skip: "ginv h k st \<Longrightarrow> ensures (recv_skip fd st) (\<lambda>(r, st'). ginv h k st')"
  by (rule ensuresI) (auto dest!: recv_skip_frame)

context smart_contract
begin

lemma process_free_keeps: "ginv host k st \<Longrightarrow> ensures (jdwp_process_free smart j st) (ginv host k)"
  by (auto simp: jdwp_process_free_def Let_def intro!: ginv_fdevent_destroy [THEN ensures_mono] jdwp_process_list_updated_keeps)

lemma jdwp_read_event_keeps: "ginv host k st \<Longrightarrow> ensures (jdwp_read_event smart j fd st) (\<lambda>(r, st'). ginv host k st')"
  by (auto simp: jdwp_read_event_def Let_def split: recv_result.splits option.splits
      intro!: ginv_recv_pid [THEN ensures_mono] ginv_recv_skip [THEN ensures_mono] process_free_keeps [THEN ensures_mono]
        jdwp_process_list_updated_keeps [THEN ensures_mono])

lemma jdwp_write_event_keeps: "ginv host k st \<Longrightarrow> ensures (jdwp_write_event env smart j st) (ginv host k)"
  by (auto simp: jdwp_write_event_def Let_def split: list.splits
      intro!: process_free_keeps ginv_fdevent_del [THEN ensures_mono])

lemma jdwp_process_event_keeps: "ginv host k st \<Longrightarrow> ensures (jdwp_process_event_run env smart j fd ev st) (ginv host k)"
  by (auto simp: jdwp_process_event_run_def intro!: jdwp_read_event_keeps [THEN ensures_mono] jdwp_write_event_keeps)

end

lemma ginv_jdwp_connection: "ginv h k st \<Longrightarrow> ensures (create_jdwp_connection_fd pid fds st) (\<lambda>(r, st'). ginv h k st')"
  by (auto simp: create_jdwp_connection_fd_def Let_def split: option.splits
      intro!: ensuresI [of "find_pid pid js st" for js st] ginv_fdevent_add [THEN ensures_mono])

lemma ginv_jdwp_control:
  "ginv h k st \<Longrightarrow> tbl_at st (nat s) = None \<Longrightarrow> ensures (jdwp_control_event_run s ev st) (ginv h k)"
  by (auto simp: jdwp_control_event_run_def intro: ginv_jdwp_alloc)

section \<open>Properties\<close>

lemma space_no_digit:
  assumes "is_space b"
  shows "unhex_digit b = None"
proof (cases "b = 0x20")
  case False
  then have b: "b \<le> 0x0d" using assms by (simp add: is_space_def)
  have "\<not> 0x30 \<le> b" "\<not> 0x61 \<le> b" "\<not> 0x41 \<le> b"
    using order.trans [OF _ b, of "0x30"] order.trans [OF _ b, of "0x61"] order.trans [OF _ b, of "0x41"] by auto
  then show ?thesis by (simp add: unhex_digit_def)
qed (simp add: unhex_digit_def)

lemma sint_of_nat_u32: "n < 65536 \<Longrightarrow> sint (of_nat n :: u32) = int n"
  by (simp add: signed_of_nat signed_take_bit_int_eq_self)

text \<open>The number a process sends with \<open>%04x\<close> is the number read.\<close>

lemma scan_hex_fmt:
  assumes "n < 65536"
  shows "scan_hex 4 (bytes_of (fmt_04x n)) = Some (int n)"
proof -
  let ?b = "\<lambda>d. byte_of (hex_digit d)"
  have c: "?b d \<noteq> x" if "unhex_digit x = None" for d x using that unhex_hex_digit [of d] by auto
  have s: "\<not> is_space (?b d)" for d using unhex_hex_digit [of d] space_no_digit [of "?b d"] by auto
  have "unhex_digit 0 = None" "unhex_digit 0x2d = None" "unhex_digit 0x2b = None" "unhex_digit 0x78 = None" "unhex_digit 0x58 = None"
    by code_simp+
  note c = this [THEN c] s
  have v: "16 * (16 * (16 * (n div 4096 mod 16) + n div 256 mod 16) + n div 16 mod 16) + n mod 16 = n" using hex_parts [OF assms] .
  have "hex_value [of_nat (n div 4096 mod 16), of_nat (n div 256 mod 16), of_nat (n div 16 mod 16), of_nat (n mod 16)]
      = of_nat (16 * (16 * (16 * (n div 4096 mod 16) + n div 256 mod 16) + n div 16 mod 16) + n mod 16)"
    by (simp add: hex_value_def algebra_simps)
  then have "hex_value [of_nat (n div 4096 mod 16), of_nat (n div 256 mod 16), of_nat (n div 16 mod 16), of_nat (n mod 16)] = of_nat n"
    by (simp only: v)
  moreover have "sint (of_nat n :: u32) = int n" using assms by (simp add: sint_of_nat_u32)
  ultimately show ?thesis
    using c by (simp add: scan_hex_def fmt_04x_digits [OF assms] bytes_of_def scan_digits_def unhex_hex_digit Let_def)
qed

lemma length_fmt: "n < 65536 \<Longrightarrow> length (bytes_of (fmt_04x n)) = 4"
  by (simp add: bytes_of_def fmt_04x_digits)

lemma fd_frame_jdwp:
  assumes "fd_frame st st'"
  shows "jdwp_procs st' = jdwp_procs st" "jdwp_trackers_list st' = jdwp_trackers_list st"
  using assms by (cases st; cases st'; simp add: fd_frame_def)+

lemma fdevent_destroy_frame: "fdevent_destroy a st = Inr st' \<Longrightarrow> fd_frame st st'"
  by (auto simp: fdevent_destroy_def bindr_eq_Inr split: option.splits if_splits dest: fdevent_remove_frame)

text \<open>
  What the script of a descriptor delivers to a reader that wants \<open>n\<close> bytes: an interrupted call is
  repeated, an empty script or a would-block leaves the reader waiting, the end of the stream or another
  error ends it.
\<close>

fun arrives :: "nat \<Rightarrow> rd_event list \<Rightarrow> byte list \<times> recv_result" where
  "arrives n [] = ([], if n = 0 then RvDone else RvAgain)"
| "arrives n (RdErr e # es) =
     (if n = 0 then ([], RvDone)
      else if e = EINTR then arrives n es
      else ([], if e = EAGAIN then RvAgain else RvClosed))"
| "arrives n (RdBytes bs # es) =
     (if n = 0 then ([], RvDone)
      else if bs = [] then ([], RvClosed)
      else (take n bs @ fst (arrives (n - length bs) es), snd (arrives (n - length bs) es)))"

lemma arrives_0 [simp]: "arrives 0 es = ([], RvDone)"
  by (cases "(0 :: nat, es)" rule: arrives.cases) simp_all

lemma adb_read_arrives:
  "adb_read fd n w = Inr (x, bs, w') \<Longrightarrow> 0 < n \<Longrightarrow>
     arrives n (rd_ev w fd) =
       (case x of
          IoErr e \<Rightarrow> ([], if e = EAGAIN then RvAgain else RvClosed)
        | IoN k \<Rightarrow> if k = 0 then ([], RvClosed)
            else (bs @ fst (arrives (n - length bs) (rd_ev w' fd)), snd (arrives (n - length bs) (rd_ev w' fd))))"
proof (induction fd n w rule: adb_read.induct)
  case (1 fd n w)
  show ?case
  proof (cases "rd_ev w fd")
    case Nil
    then show ?thesis using 1(2,3) by (auto simp: adb_read_cases split: if_splits)
  next
    case (Cons e es)
    show ?thesis
    proof (cases e)
      case (RdErr err)
      show ?thesis
      proof (cases "err = EINTR")
        case True
        then have s: "sys_read fd n w = Inr (IoErr EINTR, [], rd_set fd es w)" using Cons RdErr by (simp add: sys_read_def)
        have "adb_read fd n (rd_set fd es w) = Inr (x, bs, w')" using 1(2) s by (subst (asm) adb_read.simps) simp
        from 1(1) [OF s refl refl refl refl this 1(3)] show ?thesis using Cons RdErr True 1(3) by simp
      next
        case False
        then have "adb_read fd n w = Inr (IoErr err, [], rd_set fd es w)"
          using Cons RdErr by (subst adb_read.simps) (auto simp: sys_read_def split: errno.splits)
        then show ?thesis using 1(2,3) Cons RdErr False by auto
      qed
    next
      case (RdBytes cs)
      have "adb_read fd n w = Inr (IoN (length (take n cs)), take n cs, rd_set fd (if drop n cs = [] then es else RdBytes (drop n cs) # es) w)"
        using Cons RdBytes by (subst adb_read.simps) (simp add: sys_read_def)
      then show ?thesis using 1(2,3) Cons RdBytes by (auto simp: min_def split: if_splits)
    qed
  qed
qed

lemma recv_pid_arrives:
  "recv_pid fd buf w = Inr (r, buf', w') \<Longrightarrow> length buf \<le> 4 \<Longrightarrow>
     buf' = buf @ fst (arrives (4 - length buf) (rd_ev w fd)) \<and> r = snd (arrives (4 - length buf) (rd_ev w fd))"
proof (induction fd buf w rule: recv_pid.induct)
  case (1 fd buf w)
  show ?case
  proof (cases "4 \<le> length buf")
    case True
    then show ?thesis using 1(2,3) by (subst (asm) recv_pid.simps) auto
  next
    case False
    obtain x bs w1 where a: "adb_read fd (4 - length buf) w = Inr (x, bs, w1)"
      using 1(2) False by (subst (asm) recv_pid.simps) (auto split: sum.splits)
    note arr = adb_read_arrives [OF a]
    show ?thesis
    proof (cases "\<exists>n. x = IoN n \<and> n \<noteq> 0")
      case True
      then obtain n where n: "x = IoN n" "n \<noteq> 0" by blast
      have c: "recv_pid fd (buf @ bs) w1 = Inr (r, buf', w')"
        using 1(2) False a n by (subst (asm) recv_pid.simps) simp
      have l: "length (buf @ bs) \<le> 4" using adb_read_count [OF a [unfolded n(1)]] False by (simp add: not_le) linarith
      from 1(1) [OF False a [unfolded n(1)] refl refl refl n(2) c l] show ?thesis using arr n False by simp
    next
      case stop: False
      then consider "x = IoN 0" | e' where "x = IoErr e'" by (cases x) auto
      then show ?thesis using 1(2) False a arr by cases (subst (asm) recv_pid.simps; auto split: if_splits)+
    qed
  qed
qed

text \<open>
  Property C30. A process is listed under the id it sends, however its four characters are split.
  When the call would block before there are four, the characters that have arrived stay buffered and
  the process waits for the rest; it is dropped only when the stream ends or fails before; and once
  there are four it has the number they denote and the trackers are told.
\<close>

theorem jdwp_pid_in_pieces:
  assumes p: "jdwp_procs st j = Some p" "j_pid p < 0" "length (in_buff p) \<le> 4"
    and n: "n < 65536" "in_buff p @ stream_bytes (rd_ev st fd) = bytes_of (fmt_04x n) @ rest"
    and ok: "jdwp_read_event smart j fd st = Inr (b, st')"
  shows "\<exists>ds es how. arrives (4 - length (in_buff p)) (rd_ev st fd) = (ds, how)
    \<and> stream_bytes (rd_ev st fd) = ds @ stream_bytes es \<and>
    (let buf = in_buff p @ ds; st1 = put_proc j (p\<lparr>in_buff := buf\<rparr>) (rd_set fd es st) in
     case how of
       RvAgain \<Rightarrow> length buf < 4 \<and> b \<and> st' = st1
     | RvClosed \<Rightarrow> length buf < 4 \<and> b \<and> jdwp_process_free smart j st1 = Inr st'
     | RvDone \<Rightarrow> buf = bytes_of (fmt_04x n) \<and> \<not> b
        \<and> jdwp_process_list_updated smart (put_proc j (p\<lparr>in_buff := buf, j_pid := int n\<rparr>) st1) = Inr st')"
proof -
  obtain r buf w where r: "recv_pid fd (in_buff p) st = Inr (r, buf, w)"
    and c: "(case r of RvAgain \<Rightarrow> Inr (True, put_proc j (p\<lparr>in_buff := buf\<rparr>) w)
         | RvClosed \<Rightarrow> bindr (jdwp_process_free smart j (put_proc j (p\<lparr>in_buff := buf\<rparr>) w)) (\<lambda>st. Inr (True, st))
         | RvDone \<Rightarrow> (case scan_hex 4 (take 4 buf) of
                None \<Rightarrow> bindr (jdwp_process_free smart j (put_proc j (p\<lparr>in_buff := buf\<rparr>) w)) (\<lambda>st. Inr (True, st))
              | Some pid \<Rightarrow> bindr (jdwp_process_list_updated smart (put_proc j (p\<lparr>in_buff := buf, j_pid := pid\<rparr>) (put_proc j (p\<lparr>in_buff := buf\<rparr>) w)))
                    (\<lambda>st. Inr (False, st)))) = Inr (b, st')"
    using ok p by (auto simp: jdwp_read_event_def get_proc_def bindr_eq_Inr Let_def)
  obtain ds es where e: "w = rd_set fd es st" "buf = in_buff p @ ds" "stream_bytes (rd_ev st fd) = ds @ stream_bytes es"
    "length buf \<le> 4" "r = RvDone \<longleftrightarrow> length buf = 4"
    using recv_pid_spec [OF r p(3)] by (elim exE conjE)
  have arr: "arrives (4 - length (in_buff p)) (rd_ev st fd) = (ds, r)"
    using recv_pid_arrives [OF r p(3)] e(2) by (simp add: prod_eq_iff)
  have d: "buf = bytes_of (fmt_04x n)" if "r = RvDone"
  proof -
    have "buf @ stream_bytes es = bytes_of (fmt_04x n) @ rest" using e n(2) by simp
    then show ?thesis using that e(5) length_fmt [OF n(1)] by (simp add: append_eq_append_conv)
  qed
  have t4: "scan_hex 4 (take 4 buf) = Some (int n)" if "r = RvDone"
    using d [OF that] e(5) that scan_hex_fmt [OF n(1)] by simp
  show ?thesis
    unfolding Let_def
    using c d t4 e(1,3,4,5) arr unfolding e(2)
    by (intro exI [of _ ds] exI [of _ es] exI [of _ r]) (cases r; auto simp: bindr_eq_Inr le_less)
qed

lemma process_list_updated_none:
  "jdwp_trackers_list st = [] \<Longrightarrow> jdwp_process_list_updated smart st = Inr st' \<Longrightarrow> st' = st"
  by (auto simp: jdwp_process_list_updated_def bindr_eq_Inr)

definition ex_jdwp :: "int list \<Rightarrow> sstate" where
  "ex_jdwp fds = ex_sstate\<lparr>jdwp_procs := [3 \<mapsto> \<lparr>j_pid = -1, j_socket = 7, j_fde = None, in_buff = bytes_of ''00'', out_fds = fds\<rparr>],
     jdwp_list := [3], rd_ev := (\<lambda>_. [])(7 := [RdBytes (bytes_of ''2''), RdBytes (bytes_of ''a'')])\<rparr>"

theorem jdwp_pid_in_pieces_witness:
  "\<exists>st'. jdwp_read_event (\<lambda>_ _ st. Inr (0, st)) 3 7 (ex_jdwp []) = Inr (False, st') \<and> map_option j_pid (jdwp_procs st' 3) = Some 42"
proof -
  let ?p = "\<lparr>j_pid = -1, j_socket = 7, j_fde = None, in_buff = bytes_of ''00'', out_fds = []\<rparr>"
  let ?smart = "\<lambda>_ _ st. Inr (0, st) :: (int \<times> sstate) res"
  have p: "jdwp_procs (ex_jdwp []) 3 = Some ?p" by (simp add: ex_jdwp_def)
  have f: "bytes_of (fmt_04x 42) = bytes_of ''002a''" by code_simp
  have b: "length (bytes_of s) = length s" "bytes_of (s @ t) = bytes_of s @ bytes_of t" for s t by (simp_all add: bytes_of_def)
  have r: "recv_pid 7 (bytes_of ''00'') (ex_jdwp []) = Inr (RvDone, bytes_of ''002a'', rd_set 7 [] (ex_jdwp []))"
    by (simp add: recv_pid.simps adb_read_cases b ex_jdwp_def bytes_of_def)
  have h: "scan_hex 4 (take 4 (bytes_of ''002a'')) = Some 42" using scan_hex_fmt [of 42] by (simp add: f b)
  let ?st = "put_proc 3 (?p\<lparr>in_buff := bytes_of ''002a'', j_pid := 42\<rparr>) (rd_set 7 [] (ex_jdwp []))"
  have u: "jdwp_process_list_updated ?smart ?st = Inr ?st"
    by (simp add: jdwp_process_list_updated_def jdwp_process_list_msg_def jdwp_process_list_def put_proc_def rd_set_def ex_jdwp_def ex_sstate_simps Let_def)
  have ok: "jdwp_read_event ?smart 3 7 (ex_jdwp []) = Inr (False, ?st)"
    using r h u by (simp add: jdwp_read_event_def get_proc_def p Let_def put_proc_def)
  have i: "in_buff ?p @ stream_bytes (rd_ev (ex_jdwp []) 7) = bytes_of (fmt_04x 42) @ []"
    by (simp add: f) (simp add: ex_jdwp_def bytes_of_def)
  have arr: "arrives (4 - length (in_buff ?p)) (rd_ev (ex_jdwp []) 7) = (bytes_of ''2a'', RvDone)"
    by (simp add: ex_jdwp_def b) (simp add: bytes_of_def)
  obtain ds es where "jdwp_process_list_updated ?smart (put_proc 3 (?p\<lparr>in_buff := in_buff ?p @ ds, j_pid := 42\<rparr>)
      (put_proc 3 (?p\<lparr>in_buff := in_buff ?p @ ds\<rparr>) (rd_set 7 es (ex_jdwp [])))) = Inr ?st"
    using jdwp_pid_in_pieces [OF p _ _ _ i ok] arr by (auto simp: Let_def b)
  note process_list_updated_none [OF _ this]
  moreover have "jdwp_trackers_list (ex_jdwp []) = []" by (simp add: ex_jdwp_def ex_sstate_simps)
  ultimately have "map_option j_pid (jdwp_procs ?st 3) = Some 42" by (simp add: put_proc_def)
  then show ?thesis using ok by blast
qed

text \<open>
  A debugger's connection is refused when four connections are waiting for the process
  already, so that the array of descriptors never overflows; otherwise its descriptor waits behind
  the earlier ones, and the socket of the process is watched for writing as soon as there is one.
\<close>

theorem jdwp_connection_queued:
  assumes p: "find_pid pid (jdwp_list st) st = Inr (Some j)" "jdwp_procs st j = Some p" "length (out_fds p) \<le> MAX_OUT_FDS"
    and ok: "create_jdwp_connection_fd pid (Some (s0, s1)) st = Inr (r, st')"
  shows "if length (out_fds p) = MAX_OUT_FDS then r = -1 \<and> st' = st
    else r = s0 \<and> jdwp_procs st' = (jdwp_procs st)(j \<mapsto> p\<lparr>out_fds := out_fds p @ [s1]\<rparr>) \<and> length (out_fds p @ [s1]) \<le> MAX_OUT_FDS
      \<and> (out_fds p = [] \<longrightarrow> (\<exists>f. j_fde p = Some f \<and> wants_write st' f))"
proof (cases "length (out_fds p) = MAX_OUT_FDS")
  case True
  then show ?thesis using ok p by (simp add: create_jdwp_connection_fd_def get_proc_def)
next
  case False
  let ?st = "put_proc j (p\<lparr>out_fds := out_fds p @ [s1]\<rparr>) st"
  have c: "(if out_fds p = [] then bindr (deref (j_fde p)) (\<lambda>f. bindr (fdevent_add f FDE_WRITE ?st) (\<lambda>st. Inr (s0, st))) else Inr (s0, ?st)) = Inr (r, st')"
    using ok p False by (simp add: create_jdwp_connection_fd_def get_proc_def Let_def)
  show ?thesis
  proof (cases "out_fds p = []")
    case True
    then obtain f where f: "j_fde p = Some f" "fdevent_add f FDE_WRITE ?st = Inr st'" "r = s0"
      using c by (auto simp: bindr_eq_Inr deref_def)
    have "jdwp_procs st' = jdwp_procs ?st" by (rule fd_frame_jdwp [OF fdevent_add_frame [OF f(2)]])
    then show ?thesis using f fdevent_add_wants [OF f(2)] False p(3) True by (simp add: put_proc_def)
  next
    case more: False
    then show ?thesis using c False p(3) by (auto simp: put_proc_def)
  qed
qed

theorem jdwp_connection_queued_witness:
  "create_jdwp_connection_fd (-1) (Some (21, 22)) (ex_jdwp [11, 12, 13, 14]) = Inr (-1, ex_jdwp [11, 12, 13, 14])"
proof -
  have p: "find_pid (-1) (jdwp_list (ex_jdwp [11, 12, 13, 14])) (ex_jdwp [11, 12, 13, 14]) = Inr (Some 3)"
    by (simp add: ex_jdwp_def get_proc_def)
  obtain q where q: "jdwp_procs (ex_jdwp [11, 12, 13, 14]) 3 = Some q" "out_fds q = [11, 12, 13, 14]" by (simp add: ex_jdwp_def)
  obtain r st' where ok: "create_jdwp_connection_fd (-1) (Some (21, 22)) (ex_jdwp [11, 12, 13, 14]) = Inr (r, st')"
    using p q by (simp add: create_jdwp_connection_fd_def get_proc_def MAX_OUT_FDS_def)
  from jdwp_connection_queued [OF p q(1) _ ok] q(2) ok show ?thesis by (simp add: MAX_OUT_FDS_def)
qed

lemma close_fds_world [simp]:
  "closed_fds (close_fds fds w) = closed_fds w @ fds" "jdwp_trackers_list (close_fds fds st) = jdwp_trackers_list st"
proof -
  show "closed_fds (close_fds fds w) = closed_fds w @ fds" by (induction fds arbitrary: w) (simp_all add: adb_close_def)
  show "jdwp_trackers_list (close_fds fds st) = jdwp_trackers_list st" by (induction fds arbitrary: st) (simp_all add: adb_close_def)
qed

lemma jdwp_process_free_closes:
  assumes fr: "jdwp_process_free smart j t = Inr st'" and p: "jdwp_procs t j = Some p" "jdwp_trackers_list t = []"
  shows "\<exists>ys. closed_fds st' = closed_fds t @ ys @ out_fds p"
proof -
  let ?u = "t\<lparr>jdwp_list := remove1 j (jdwp_list t)\<rparr>"
  let ?v = "if 0 \<le> j_socket p then adb_close (j_socket p) ?u else ?u"
  obtain s1 where d: "fdevent_destroy (j_fde p) ?v = Inr s1"
    and u: "jdwp_process_list_updated smart ((close_fds (out_fds p) s1)\<lparr>jdwp_procs := (jdwp_procs (close_fds (out_fds p) s1))(j := None)\<rparr>) = Inr st'"
    using fr p(1) by (auto simp: jdwp_process_free_def get_proc_def Let_def bindr_eq_Inr)
  have F: "fd_frame ?v s1" by (rule fdevent_destroy_frame [OF d])
  then have t: "jdwp_trackers_list s1 = []" using p(2) fd_frame_jdwp(2) [OF F] by (simp add: adb_close_def split: if_splits)
  have "st' = (close_fds (out_fds p) s1)\<lparr>jdwp_procs := (jdwp_procs (close_fds (out_fds p) s1))(j := None)\<rparr>"
    by (rule process_list_updated_none [OF _ u]) (simp add: t)
  then have "closed_fds st' = closed_fds s1 @ out_fds p" by simp
  moreover obtain ys where "closed_fds s1 = closed_fds ?v @ ys" using F by (auto simp: fd_frame_def)
  moreover have "\<exists>zs. closed_fds ?v = closed_fds t @ zs" by (auto simp: adb_close_def)
  ultimately show ?thesis by auto
qed

text \<open>
  When the flags of the process's socket cannot be restored after a descriptor has been
  passed on, the descriptor is closed a second time: it is closed after \<open>sendmsg\<close>, and it is still in
  the array when the process is freed.
\<close>

theorem jdwp_fd_closed_twice:
  assumes p: "jdwp_procs st j = Some p" "out_fds p = [fd]" "jdwp_trackers_list st = []"
    and ok: "jdwp_write_event \<lparr>getfl_ok = True, clear_ok = True, send_ok = True, restore_ok = False\<rparr> smart j st = Inr st'"
  shows "\<exists>ys. closed_fds st' = closed_fds st @ [fd] @ ys @ [fd]"
proof -
  obtain t where fr: "jdwp_process_free smart j t = Inr st'" and t: "jdwp_procs t j = Some p" "jdwp_trackers_list t = []"
      "closed_fds t = closed_fds st @ [fd]"
    using ok p by (auto simp: jdwp_write_event_def get_proc_def Let_def put_proc_def adb_close_def wr_done_def)
  from jdwp_process_free_closes [OF fr t(1,2)] show ?thesis using p(2) t(3) by auto
qed

theorem jdwp_fd_closed_twice_witness:
  "\<exists>st' ys. jdwp_write_event \<lparr>getfl_ok = True, clear_ok = True, send_ok = True, restore_ok = False\<rparr> (\<lambda>_ _ st. Inr (0, st)) 3 (ex_jdwp [11]) = Inr st'
     \<and> closed_fds st' = 11 # ys @ [11]"
proof -
  obtain p where p: "jdwp_procs (ex_jdwp [11]) 3 = Some p" "out_fds p = [11]" "jdwp_trackers_list (ex_jdwp [11]) = []" "closed_fds (ex_jdwp [11]) = []"
    by (simp add: ex_jdwp_def ex_sstate_simps)
  obtain st' where ok: "jdwp_write_event \<lparr>getfl_ok = True, clear_ok = True, send_ok = True, restore_ok = False\<rparr> (\<lambda>_ _ st. Inr (0, st)) 3 (ex_jdwp [11]) = Inr st'"
    by (simp add: jdwp_write_event_def get_proc_def jdwp_process_free_def fdevent_destroy_def ex_jdwp_def jdwp_process_list_updated_def
        jdwp_process_list_msg_def jdwp_process_list_def put_proc_def adb_close_def wr_done_def ex_sstate_simps Let_def)
  from jdwp_fd_closed_twice [OF p(1-3) ok] ok p(4) show ?thesis by auto
qed

end
