(* ===== verification/Listeners.thy ===== *)
theory Listeners
  imports Jdwp
begin

text \<open>
  The listening sockets of adb.c: port forwarding set up with \<open>forward\<close> requests, the smart socket
  of the server, and \<open>handle_host_request\<close>, which answers the requests to the server itself.
\<close>

section \<open>Data\<close>

record alistener =
  l_fd :: int
  local_name :: string
  connect_to :: string
  l_transport :: "addr option"

record pstate = sstate +
  listeners :: "addr \<rightharpoonup> alistener"
  listener_list :: "addr list"
  auth_enabled :: bool
  usb_transport :: "addr option"
  framework_fd :: int
  needs_retry :: bool
  urandom :: "byte list option list"    \<comment> \<open>what successive reads of \<open>/dev/urandom\<close> yield; none when it cannot be opened\<close>
  key_list :: "addr list"               \<comment> \<open>the private keys of the host\<close>

text \<open>The event record embedded in a listener.\<close>

definition listener_fde :: "addr \<Rightarrow> addr" where "listener_fde l = 4 * l + 3"

datatype install_status = INSTALL_STATUS_OK | INSTALL_STATUS_INTERNAL_ERROR | INSTALL_STATUS_CANNOT_BIND | INSTALL_STATUS_CANNOT_REBIND

definition get_listener :: "addr \<Rightarrow> 'a pstate_scheme \<Rightarrow> alistener res" where
  "get_listener l st = from_opt MemFault (listeners st l)"

definition put_listener :: "addr \<Rightarrow> alistener \<Rightarrow> 'a pstate_scheme \<Rightarrow> 'a pstate_scheme" where
  "put_listener l x st = st\<lparr>listeners := (listeners st)(l \<mapsto> x)\<rparr>"

section \<open>Server sockets\<close>

text \<open>\<open>atoi\<close>; the result for numbers beyond \<open>int\<close> is not defined by the standard.\<close>

fun digits_value :: "string \<Rightarrow> int \<Rightarrow> int" where
  "digits_value [] n = n"
| "digits_value (c # cs) n = (if isdigit c then digits_value cs (10 * n + int (of_char c) - 48) else n)"

definition atoi :: "string \<Rightarrow> int" where
  "atoi s =
     (let s = dropWhile (\<lambda>c. is_space (byte_of c)) s in
      case s of
        [] \<Rightarrow> 0
      | c # cs \<Rightarrow> if c = CHR ''-'' then - digits_value cs 0 else if c = CHR ''+'' then digits_value cs 0 else digits_value s 0)"

datatype socket_namespace = ANDROID_SOCKET_NAMESPACE_ABSTRACT | ANDROID_SOCKET_NAMESPACE_FILESYSTEM

text \<open>The functions of libcutils that open server sockets, and the flag that selects between two of them.\<close>

record server_env =
  gListenAll :: int
  socket_inaddr_any_server :: "int \<Rightarrow> int"
  socket_loopback_server :: "int \<Rightarrow> int"
  socket_local_server :: "string \<Rightarrow> socket_namespace \<Rightarrow> int"

definition local_name_to_fd :: "server_env \<Rightarrow> string \<Rightarrow> int" where
  "local_name_to_fd env name =
     (if has_prefix name ''tcp:'' then
        let port = atoi (drop 4 name) in
        if gListenAll env > 0 then socket_inaddr_any_server env port else socket_loopback_server env port
      else if has_prefix name ''local:'' then socket_local_server env (drop 6 name) ANDROID_SOCKET_NAMESPACE_ABSTRACT
      else if has_prefix name ''localabstract:'' then socket_local_server env (drop 14 name) ANDROID_SOCKET_NAMESPACE_ABSTRACT
      else if has_prefix name ''localfilesystem:'' then socket_local_server env (drop 16 name) ANDROID_SOCKET_NAMESPACE_FILESYSTEM
      else -1)"

definition build_local_name :: "nat \<Rightarrow> int \<Rightarrow> string" where
  "build_local_name tsize server_port = take (tsize - 1) (''tcp:'' @ fmt_d server_port)"

section \<open>Listeners\<close>

definition free_listener :: "addr \<Rightarrow> 'a pstate_scheme \<Rightarrow> 'a pstate_scheme res" where
  "free_listener l st = bindr (get_listener l st) (\<lambda>x.
     bindr (fdevent_remove (listener_fde l) (st\<lparr>listener_list := remove1 l (listener_list st)\<rparr>)) (\<lambda>st.
     bindr (case l_transport x of None \<Rightarrow> Inr st
            | Some t \<Rightarrow> remove_transport_disconnect (Some t) (listener_disconnect l) st) (\<lambda>st.
       Inr (st\<lparr>listeners := (listeners st)(l := None), fdes := (fdes st)(listener_fde l := None)\<rparr>))))"

definition listener_disconnect_run :: "addr \<Rightarrow> 'a pstate_scheme \<Rightarrow> 'a pstate_scheme res" where
  "listener_disconnect_run l st = free_listener l st"

fun find_listener :: "string \<Rightarrow> addr list \<Rightarrow> 'a pstate_scheme \<Rightarrow> addr option res" where
  "find_listener name [] st = Inr None"
| "find_listener name (l # ls) st = bindr (get_listener l st) (\<lambda>x.
     if local_name x = name then Inr (Some l) else find_listener name ls st)"

definition remove_listener :: "string \<Rightarrow> 'a pstate_scheme \<Rightarrow> (int \<times> 'a pstate_scheme) res" where
  "remove_listener name st = bindr (find_listener name (listener_list st) st) (\<lambda>r.
     case r of
       None \<Rightarrow> Inr (-1, st)
     | Some l \<Rightarrow> bindr (listener_disconnect_run l st) (\<lambda>st. Inr (0, st)))"

text \<open>A listener whose target starts with \<open>*\<close> is one of the server's own.\<close>

definition special :: "alistener \<Rightarrow> bool" where
  "special x = (case connect_to x of [] \<Rightarrow> False | c # cs \<Rightarrow> c = CHR ''*'')"

fun remove_listeners :: "addr list \<Rightarrow> 'a pstate_scheme \<Rightarrow> 'a pstate_scheme res" where
  "remove_listeners [] st = Inr st"
| "remove_listeners (l # ls) st = bindr (get_listener l st) (\<lambda>x.
     if special x then remove_listeners ls st else bindr (listener_disconnect_run l st) (remove_listeners ls))"

definition remove_all_listeners :: "'a pstate_scheme \<Rightarrow> 'a pstate_scheme res" where
  "remove_all_listeners st = remove_listeners (listener_list st) st"

definition install_listener :: "server_env \<Rightarrow> string \<Rightarrow> string \<Rightarrow> addr option \<Rightarrow> bool \<Rightarrow> 'a pstate_scheme
    \<Rightarrow> (install_status \<times> 'a pstate_scheme) res" where
  "install_listener env name target t no_rebind st = bindr (find_listener name (listener_list st) st) (\<lambda>r.
     case r of
       Some l \<Rightarrow> bindr (get_listener l st) (\<lambda>x.
         if special x then Inr (INSTALL_STATUS_INTERNAL_ERROR, st)
         else if no_rebind then Inr (INSTALL_STATUS_CANNOT_REBIND, st)
         else
           let st = put_listener l (x\<lparr>connect_to := target\<rparr>) st in
           if l_transport x \<noteq> t then
             bindr (remove_transport_disconnect (l_transport x) (listener_disconnect l) st) (\<lambda>st.
             bindr (add_transport_disconnect t (listener_disconnect l)
                     (put_listener l (x\<lparr>connect_to := target, l_transport := t\<rparr>) st)) (\<lambda>st.
               Inr (INSTALL_STATUS_OK, st)))
           else Inr (INSTALL_STATUS_OK, st))
     | None \<Rightarrow>
         let (l, st) = alloc st; fd = local_name_to_fd env name in
         if fd < 0 then Inr (INSTALL_STATUS_CANNOT_BIND, st)
         else
           bindr (fdevent_install (listener_fde l) fd (if target = ''*smartsocket*'' then ss_listener_event_func l else listener_event_func l) st) (\<lambda>st.
           bindr (fdevent_set (listener_fde l) FDE_READ st) (\<lambda>st.
             let st = put_listener l \<lparr>l_fd = fd, local_name = name, connect_to = target, l_transport = t\<rparr> st;
                 st = st\<lparr>listener_list := listener_list st @ [l]\<rparr> in
             bindr (case t of None \<Rightarrow> Inr st | Some a \<Rightarrow> add_transport_disconnect (Some a) (listener_disconnect l) st) (\<lambda>st.
               Inr (INSTALL_STATUS_OK, st)))))"

text \<open>A new connection; \<open>fd\<close> is what \<open>accept\<close> returns.\<close>

definition ss_listener_event :: "'a pstate_scheme enqueue \<Rightarrow> int \<Rightarrow> u16 \<Rightarrow> 'a pstate_scheme \<Rightarrow> 'a pstate_scheme res" where
  "ss_listener_event smart fd ev st =
     (if has ev FDE_READ \<and> 0 \<le> fd then bindr (create_local_socket fd st) (\<lambda>(a, st). connect_to_smartsocket smart a st)
      else Inr st)"

definition listener_event :: "addr \<Rightarrow> int \<Rightarrow> u16 \<Rightarrow> 'a pstate_scheme \<Rightarrow> 'a pstate_scheme res" where
  "listener_event l fd ev st =
     (if has ev FDE_READ \<and> 0 \<le> fd then
        bindr (create_local_socket fd st) (\<lambda>(a, st).
        bindr (get_listener l st) (\<lambda>x.
        bindr (upd_sock a (\<lambda>s. s\<lparr>s_transport := l_transport x\<rparr>) st) (connect_to_remote a (connect_to x))))
      else Inr st)"

section \<open>The list of forwarded ports\<close>

definition format_listener :: "alistener \<Rightarrow> 'a pstate_scheme \<Rightarrow> string res" where
  "format_listener x st = bindr (deref (l_transport x)) (\<lambda>t. bindr (get_transport t st) (\<lambda>tr.
     bindr (from_opt MemFault (serial tr)) (\<lambda>ser.
       Inr (ser @ '' '' @ local_name x @ '' '' @ connect_to x @ [CHR 0x0a]))))"

text \<open>
  With a buffer, a line is written as far as it fits, and the remaining size is reduced by the
  length of the whole line: it wraps around if the line did not fit, and the next write then lands
  behind the buffer. The result is the text in the buffer and the value returned.
\<close>

fun format_loop :: "int option \<Rightarrow> addr list \<Rightarrow> 'a pstate_scheme \<Rightarrow> (string \<times> nat) res" where
  "format_loop buflen [] st = Inr ([], 0)"
| "format_loop buflen (l # ls) st = bindr (get_listener l st) (\<lambda>x.
     if special x then format_loop buflen ls st
     else bindr (format_listener x st) (\<lambda>line.
       case buflen of
         None \<Rightarrow> bindr (format_loop None ls st) (\<lambda>(txt, n). Inr ([], length line + n))
       | Some room \<Rightarrow>
           if room < 0 then Inl MemFault
           else if room - int (length line) = 0 then Inr (take (nat room - 1) line, length line)
           else bindr (format_loop (Some (room - int (length line))) ls st) (\<lambda>(txt, n).
             Inr (take (nat room - 1) line @ txt, length line + n))))"

definition format_listeners :: "int option \<Rightarrow> 'a pstate_scheme \<Rightarrow> (string \<times> nat) res" where
  "format_listeners buflen st = format_loop buflen (listener_list st) st"

section \<open>Requests to the server\<close>

definition connection_state_name :: "addr option \<Rightarrow> 'a pstate_scheme \<Rightarrow> string res" where
  "connection_state_name t st =
     (case t of None \<Rightarrow> Inr ''unknown''
      | Some a \<Rightarrow> bindr (get_transport a st) (\<lambda>tr.
          let c = connection_state tr in
          Inr (if c = CS_BOOTLOADER then ''bootloader''
               else if c = CS_DEVICE then ''device''
               else if c = CS_RECOVERY then ''recovery''
               else if c = CS_SIDELOAD then ''sideload''
               else if c = CS_OFFLINE then ''offline''
               else if c = CS_UNAUTHORIZED then ''unauthorized''
               else ''unknown'')))"

text \<open>An acquisition that accepts any state does not wait.\<close>

definition acquire_any :: "transport_type \<Rightarrow> string option \<Rightarrow> 'a pstate_scheme \<Rightarrow> (string + addr) res" where
  "acquire_any ttype ser st = (case acquire_one_transport CS_ANY ttype ser [st] of None \<Rightarrow> Inl Blocks | Some r \<Rightarrow> r)"

text \<open>\<open>snprintf\<close> into a buffer of 4096 characters, with the length of the text in front.\<close>

definition okay_text :: "string \<Rightarrow> string" where
  "okay_text txt = take 4095 (''OKAY'' @ fmt_04x (length txt) @ txt)"

definition write_text :: "fdesc \<Rightarrow> string \<Rightarrow> 'a world_scheme \<Rightarrow> 'a world_scheme res" where
  "write_text fd txt w = bindr (writex fd (bytes_of txt) w) (\<lambda>(r, w). Inr w)"

definition reply_fail :: "fdesc \<Rightarrow> string \<Rightarrow> 'a world_scheme \<Rightarrow> 'a world_scheme res" where
  "reply_fail fd reason w = bindr (sendfailmsg fd reason w) (\<lambda>(r, w). Inr w)"

text \<open>What the requests need of the environment: server sockets, connections to an emulator's port, names of transports.\<close>

record host_env =
  servers :: server_env
  connect_port :: "int \<Rightarrow> int"
  t_name :: "addr \<Rightarrow> string"

definition local_connect :: "host_env \<Rightarrow> int \<Rightarrow> 'a pstate_scheme \<Rightarrow> (int \<times> 'a pstate_scheme) res" where
  "local_connect env port st =
     (let fd = connect_port env port in
      if 0 \<le> fd then
        bindr (register_socket_transport (t_name env) fd (Some (take 63 (''emulator-'' @ fmt_d (port - 1)))) port True st) (\<lambda>(r, st). Inr (0, st))
      else Inr (-1, st))"

definition host_transport :: "string \<Rightarrow> string option \<Rightarrow> int \<Rightarrow> addr \<Rightarrow> 'a pstate_scheme \<Rightarrow> (int \<times> 'a pstate_scheme) res" where
  "host_transport service ser reply_fd s st =
     (let (type, ser) =
        (if has_prefix service ''transport-usb'' then (kTransportUsb, ser)
         else if has_prefix service ''transport-local'' then (kTransportLocal, ser)
         else if has_prefix service ''transport-any'' then (kTransportAny, ser)
         else if has_prefix service ''transport:'' then (kTransportAny, Some (drop 10 service))
         else (kTransportAny, ser)) in
      bindr (acquire_any type ser st) (\<lambda>r.
        case r of
          Inr t \<Rightarrow> bindr (upd_sock s (\<lambda>x. x\<lparr>s_transport := Some t\<rparr>) st) (\<lambda>st.
            bindr (adb_write reply_fd (bytes_of ''OKAY'') st) (\<lambda>(n, st). Inr (1, st)))
        | Inl err \<Rightarrow> bindr (reply_fail reply_fd err st) (\<lambda>st. Inr (1, st))))"

definition host_disconnect :: "string \<Rightarrow> int \<Rightarrow> 'a pstate_scheme \<Rightarrow> (int \<times> 'a pstate_scheme) res" where
  "host_disconnect ser reply_fd st =
     bindr
       (if ser = [] then bindr (unregister_all_tcp_transports st) (\<lambda>st. Inr ('''', st))
        else
          let ser = (if strchr ser CHR '':'' = None then take 98 (ser @ '':5555'') else ser) in
          bindr (find_transport ser st) (\<lambda>t.
            case t of
              Some a \<Rightarrow> bindr (unregister_transport a st) (\<lambda>st. Inr ('''', st))
            | None \<Rightarrow> Inr (take 4095 (''No such device '' @ ser), st)))
       (\<lambda>(buffer, st). bindr (write_text reply_fd (okay_text buffer) st) (\<lambda>st. Inr (0, st)))"

definition transport_attr :: "(atransport \<Rightarrow> string option) \<Rightarrow> transport_type \<Rightarrow> string option \<Rightarrow> 'a pstate_scheme \<Rightarrow> string res" where
  "transport_attr attr ttype ser st = bindr (acquire_any ttype ser st) (\<lambda>r.
     case r of
       Inl err \<Rightarrow> Inr ''unknown''
     | Inr t \<Rightarrow> bindr (get_transport t st) (\<lambda>tr. Inr (case attr tr of None \<Rightarrow> ''unknown'' | Some x \<Rightarrow> x)))"

definition reply_text :: "string \<Rightarrow> int \<Rightarrow> 'a pstate_scheme \<Rightarrow> (int \<times> 'a pstate_scheme) res" where
  "reply_text txt reply_fd st = bindr (write_text reply_fd (okay_text txt) st) (\<lambda>st. Inr (0, st))"

definition install_message :: "install_status \<Rightarrow> string" where
  "install_message r =
     (case r of INSTALL_STATUS_CANNOT_BIND \<Rightarrow> ''cannot bind to socket''
      | INSTALL_STATUS_CANNOT_REBIND \<Rightarrow> ''cannot rebind existing socket''
      | _ \<Rightarrow> ''internal error'')"

text \<open>The arguments of a forward request: the local name, the target and whether an existing one may be replaced.\<close>

definition forward_args :: "string \<Rightarrow> (string \<times> string \<times> bool) option" where
  "forward_args local =
     (let no_rebind = has_prefix local ''norebind:''; local = (if no_rebind then drop 9 local else local) in
      case strchr local CHR '';'' of
        None \<Rightarrow> None
      | Some i \<Rightarrow>
          let remote = drop (Suc i) local; local = take i local in
          if local = [] \<or> remote = [] \<or> hd remote = CHR ''*'' then None else Some (local, remote, no_rebind))"

definition host_forward :: "host_env \<Rightarrow> string \<Rightarrow> transport_type \<Rightarrow> string option \<Rightarrow> int \<Rightarrow> 'a pstate_scheme \<Rightarrow> (int \<times> 'a pstate_scheme) res" where
  "host_forward env service ttype ser reply_fd st =
     (let create = \<not> has_prefix service ''kill''; local = drop (if create then 8 else 12) service;
          refuse = (\<lambda>reason st. bindr (reply_fail reply_fd reason st) (\<lambda>st. Inr (0, st)));
          okay = (\<lambda>st. bindr (write_text reply_fd ''OKAYOKAY'' st) (\<lambda>st. Inr (0, st))) in
      if (if create then forward_args local = None else local = []) then refuse ''malformed forward spec'' st
      else bindr (acquire_any ttype ser st) (\<lambda>r.
        case r of
          Inl err \<Rightarrow> refuse err st
        | Inr t \<Rightarrow>
            if create then
              (case the (forward_args local) of (local, remote, no_rebind) \<Rightarrow>
                 bindr (install_listener (servers env) local remote (Some t) no_rebind st) (\<lambda>(r, st).
                   if r = INSTALL_STATUS_OK then okay st else refuse (install_message r) st))
            else bindr (remove_listener local st) (\<lambda>(r, st).
              if r = 0 then okay st else refuse ''cannot remove listener'' st)))"

definition host_list_forward :: "int \<Rightarrow> 'a pstate_scheme \<Rightarrow> (int \<times> 'a pstate_scheme) res" where
  "host_list_forward reply_fd st =
     bindr (format_listeners None st) (\<lambda>(_, buffer_size).
     bindr (format_listeners (Some (int buffer_size + 1)) st) (\<lambda>(buffer, _).
     bindr (write_text reply_fd (take 8 (''OKAY'' @ fmt_04x buffer_size)) st) (\<lambda>st.
       if length buffer < buffer_size then Inl MemFault
       else bindr (write_text reply_fd (take buffer_size buffer) st) (\<lambda>st. Inr (0, st)))))"

definition ADB_SERVER_VERSION :: nat where "ADB_SERVER_VERSION = 31"

definition handle_host_request :: "host_env \<Rightarrow> string \<Rightarrow> transport_type \<Rightarrow> string option \<Rightarrow> int \<Rightarrow> addr
    \<Rightarrow> 'a pstate_scheme \<Rightarrow> (int \<times> 'a pstate_scheme) res" where
  "handle_host_request env service ttype ser reply_fd s st =
     (if service = ''kill'' then bindr (adb_write reply_fd (bytes_of ''OKAY'') st) (\<lambda>r. Inl (ExitWith 0))
      else if ADB_HOST st \<and> has_prefix service ''transport'' then host_transport service ser reply_fd s st
      else if ADB_HOST st \<and> (service = ''devices'' \<or> service = ''devices-l'') then
        bindr (list_transports 4096 (service = ''devices-l'') st) (\<lambda>txt. reply_text txt reply_fd st)
      else if ADB_HOST st \<and> has_prefix service ''disconnect:'' then host_disconnect (drop 11 service) reply_fd st
      else if ADB_HOST st \<and> service = ''version'' then reply_text (fmt_04x ADB_SERVER_VERSION) reply_fd st
      else if ADB_HOST st \<and> has_prefix service ''get-serialno'' then
        bindr (transport_attr serial ttype ser st) (\<lambda>txt. reply_text txt reply_fd st)
      else if ADB_HOST st \<and> has_prefix service ''get-devpath'' then
        bindr (transport_attr devpath ttype ser st) (\<lambda>txt. reply_text txt reply_fd st)
      else if ADB_HOST st \<and> has_prefix service ''emulator:'' then
        bindr (local_connect env (atoi (drop 9 service)) st) (\<lambda>(r, st). Inr (0, st))
      else if service = ''list-forward'' then host_list_forward reply_fd st
      else if service = ''killforward-all'' then
        bindr (remove_all_listeners st) (\<lambda>st. bindr (adb_write reply_fd (bytes_of ''OKAYOKAY'') st) (\<lambda>(r, st). Inr (0, st)))
      else if has_prefix service ''forward:'' \<or> has_prefix service ''killforward:'' then host_forward env service ttype ser reply_fd st
      else if has_prefix service ''get-state'' then
        bindr (acquire_any ttype ser st) (\<lambda>r.
        bindr (connection_state_name (case r of Inl e \<Rightarrow> None | Inr t \<Rightarrow> Some t) st) (\<lambda>txt. reply_text txt reply_fd st))
      else Inr (-1, st))"


section \<open>Listeners keep the invariant of the sockets\<close>

lemma get_listener_eq [simp]: "get_listener l st = Inr x \<longleftrightarrow> listeners st l = Some x"
  by (simp add: get_listener_def)

lemma put_listener_simps [simp]:
  "listeners (put_listener l x st) = (listeners st)(l \<mapsto> x)" "listener_list (put_listener l x st) = listener_list st"
  "next_addr (put_listener l x st) = next_addr st" "transports (put_listener l x st) = transports st"
  by (simp_all add: put_listener_def)

lemma sock_inv_lst [simp]:
  "sock_inv E (st\<lparr>listeners := x\<rparr>) = sock_inv E st" "sock_inv E (st\<lparr>listener_list := y\<rparr>) = sock_inv E st"
  "sock_inv E (put_listener l z st) = sock_inv E st"
  by (simp_all add: sock_inv_unfold act_def fd_inv_unfold put_listener_def)

lemma ginv_lst [simp]:
  "ginv h k (st\<lparr>listeners := x\<rparr>) = ginv h k st" "ginv h k (st\<lparr>listener_list := y\<rparr>) = ginv h k st"
  "ginv h k (put_listener l z st) = ginv h k st"
  by (simp_all add: ginv_def reg_ok_def act_def) (simp_all add: put_listener_def)

text \<open>Installing an event record that is embedded in an object, and freeing it.\<close>

lemma ginv_embedded_install:
  assumes g: "ginv h k st" and a: "\<not> 4 dvd a" "act st a \<noteq> Some True" "a div 4 < next_addr st"
    and pend: "\<And>t n. (t, n) \<in> set (tmsgs st) \<Longrightarrow> n \<noteq> 0 \<Longrightarrow> transport_fde t \<noteq> a"
    and free: "tbl_at st (nat fd) = None" and ok: "fdevent_install a fd fn st = Inr st'"
  shows "ginv h k st' \<and> socks st' = socks st"
proof -
  have i: "sock_inv {} st" "fd_inv st" "reg_ok st" using g by (simp_all add: ginv_def sock_inv_def)
  note F = fd_frame_sstate [OF fdevent_install_frame [OF ok]] fd_frame_tstate [OF fdevent_install_frame [OF ok]]
  have I: "fd_inv st'" "list_pending st' = list_pending st"
    using fdevent_install_inv [OF i(2) _ free ok] a(2) by (simp_all add: act_inactive)
  have A: "act st' = (act st)(a \<mapsto> True)" by (rule fdevent_install_act [OF i(2) ok])
  have "\<And>b s. socks st b = Some s \<Longrightarrow> b \<noteq> a" using i(1) a(1) by (auto simp: sock_inv_def fde_ok_def)
  then have "sock_inv {} st'" using i(1) I(1) F a(1) A by (auto simp: sock_inv_unfold)
  moreover have "reg_ok st'" using i(3) F A a(3) pend by (auto simp: reg_ok_def)
  ultimately show ?thesis using g I F by (simp add: ginv_def)
qed

lemma ginv_embedded_free:
  assumes g: "ginv h k st" and a: "\<not> 4 dvd a" "act st a \<noteq> Some True"
  shows "ginv h k (st\<lparr>fdes := (fdes st)(a := None)\<rparr>)"
proof (rule ginv_calm [OF g])
  let ?st = "st\<lparr>fdes := (fdes st)(a := None)\<rparr>"
  have i: "sock_inv {} st" using g by (rule ginv_sock_inv)
  have A: "act ?st = (act st)(a := None)" by (simp add: act_def fun_eq_iff)
  have "fd_inv ?st" using fd_inv_free [of st a] i a(2) by (simp add: sock_inv_def)
  moreover have "\<And>b s. socks st b = Some s \<Longrightarrow> b \<noteq> a" using i a(1) by (auto simp: sock_inv_def fde_ok_def)
  ultimately show "sock_inv {} ?st" using i A by (auto simp: sock_inv_unfold)
  show "calm st ?st" by (simp add: calm_def A)
qed

lemma fdevent_set_sock:
  assumes inv: "sock_inv E st" and ok: "fdevent_set a ev st = Inr st'"
  shows "sock_inv E st' \<and> socks st' = socks st \<and> unlisted st' = unlisted st"
  using fdevent_set_inv [OF _ ok] inv
  by (intro sock_inv_fd_op [OF inv fdevent_set_frame [OF ok] _ fdevent_set_act [OF ok]]) (simp add: sock_inv_def)

lemma listener_fde_odd: "\<not> 4 dvd listener_fde l" "listener_fde l div 4 = l" "listener_fde l \<noteq> transport_fde t"
  unfolding listener_fde_def transport_fde_def by presburger+

lemma ginv_add_disconnect: "ginv h k st \<Longrightarrow> ensures (add_transport_disconnect t d st) (ginv h k)"
  by (auto simp: add_transport_disconnect_def get_transport_def from_opt_def split: option.splits)

lemma ginv_remove_disconnect: "ginv h k st \<Longrightarrow> ensures (remove_transport_disconnect t d st) (ginv h k)"
  by (auto simp: remove_transport_disconnect_def get_transport_def from_opt_def split: option.splits)

lemma act_put_transport: "act (put_transport t tr st) = act st"
  by (simp add: act_def put_transport_def fun_eq_iff)

lemma free_listenerE:
  assumes "free_listener l st = Inr st'"
  obtains x s1 s2 where "listeners st l = Some x"
    "fdevent_remove (listener_fde l) (st\<lparr>listener_list := remove1 l (listener_list st)\<rparr>) = Inr s1"
    "(case l_transport x of None \<Rightarrow> Inr s1 | Some t \<Rightarrow> remove_transport_disconnect (Some t) (listener_disconnect l) s1) = Inr s2"
    "st' = s2\<lparr>listeners := (listeners s2)(l := None), fdes := (fdes s2)(listener_fde l := None)\<rparr>"
proof -
  have "\<exists>x s1 s2. listeners st l = Some x \<and>
    fdevent_remove (listener_fde l) (st\<lparr>listener_list := remove1 l (listener_list st)\<rparr>) = Inr s1 \<and>
    (case l_transport x of None \<Rightarrow> Inr s1 | Some t \<Rightarrow> remove_transport_disconnect (Some t) (listener_disconnect l) s1) = Inr s2 \<and>
    s2\<lparr>listeners := (listeners s2)(l := None), fdes := (fdes s2)(listener_fde l := None)\<rparr> = st'"
    using assms by (simp add: free_listener_def bindr_eq_Inr)
  then show thesis using that by blast
qed

lemma ginv_free_listener: "ginv h k st \<Longrightarrow> ensures (free_listener l st) (ginv h k)"
proof (rule ensuresI)
  fix st' assume g: "ginv h k st" and ok: "free_listener l st = Inr st'"
  from free_listenerE [OF ok] obtain x s1 s2 where x: "listeners st l = Some x"
    and s1: "fdevent_remove (listener_fde l) (st\<lparr>listener_list := remove1 l (listener_list st)\<rparr>) = Inr s1"
    and s2: "(case l_transport x of None \<Rightarrow> Inr s1 | Some t \<Rightarrow> remove_transport_disconnect (Some t) (listener_disconnect l) s1) = Inr s2"
    and st': "st' = s2\<lparr>listeners := (listeners s2)(l := None), fdes := (fdes s2)(listener_fde l := None)\<rparr>" .
  have g1: "ginv h k s1" using ensuresD [OF ginv_fdevent_remove s1] g by simp
  have "act s1 (listener_fde l) = Some False" using fdevent_remove_sock [OF _ s1] ginv_sock_inv [OF g] by auto
  moreover have s2': "s2 = s1 \<or> (\<exists>t tr. s2 = put_transport t tr s1)"
    using s2 by (auto simp: remove_transport_disconnect_def bindr_eq_Inr split: option.splits)
  ultimately have "act s2 (listener_fde l) = Some False" "ginv h k s2" using g1 by (auto simp: act_put_transport)
  then show "ginv h k st'" using ginv_embedded_free [of h k "s2\<lparr>listeners := (listeners s2)(l := None)\<rparr>" "listener_fde l"]
    by (auto simp: st' listener_fde_odd act_def)
qed

lemma ginv_install_listener:
  assumes g: "ginv h k st" and free: "tbl_at st (nat (local_name_to_fd env name)) = None"
  shows "ensures (install_listener env name target t no_rebind st) (\<lambda>(r, st'). ginv h k st')"
proof -
  have new: "ginv h k s3" if al: "alloc st = (l, s1)" and s2: "fdevent_install (listener_fde l) (local_name_to_fd env name) fn s1 = Inr s2"
    and s3: "fdevent_set (listener_fde l) FDE_READ s2 = Inr s3" for l s1 fn s2 s3
  proof -
    note A = alloc_inv [OF ginv_sock_inv [OF g] al]
    have e: "l = next_addr st" "act s1 = act st" using al by (auto simp: alloc_def act_def fun_eq_iff)
    have "reg_ok st" using g by (simp add: ginv_def)
    then have "act s1 (listener_fde l) \<noteq> Some True" using e listener_fde_odd(1,2) unfolding reg_ok_def by (metis less_irrefl)
    moreover have "ginv h k s1" using ginv_calm [OF g] A by blast
    ultimately have "ginv h k s2"
      using ginv_embedded_install [OF _ listener_fde_odd(1) _ _ _ _ s2, of h k] A free listener_fde_odd(2) listener_fde_odd(3) [symmetric] by simp
    then show ?thesis using ginv_calm fdevent_set_sock [OF _ s3] fdevent_set_calm [OF s3] ginv_sock_inv by blast
  qed
  have "ensures (case t of None \<Rightarrow> Inr s | Some a \<Rightarrow> add_transport_disconnect (Some a) d s) (ginv h k)" if "ginv h k s" for s :: "'a pstate_scheme" and d
    using that by (auto intro: ginv_add_disconnect split: option.splits)
  note n = this [THEN ensures_mono]
  have old: "ensures (bindr (remove_transport_disconnect u d st1) (\<lambda>st.
      bindr (add_transport_disconnect t d (put_listener l y st)) (\<lambda>st. Inr (INSTALL_STATUS_OK, st)))) (\<lambda>(r, st'). ginv h k st')"
    if "ginv h k st1" for u d l y and st1 :: "'a pstate_scheme"
    using that by (auto intro!: ginv_remove_disconnect [THEN ensures_mono] ginv_add_disconnect [THEN ensures_mono])
  show ?thesis
  proof (rule ensuresI)
    fix y assume ok: "install_listener env name target t no_rebind st = Inr y"
    then obtain r where r: "find_listener name (listener_list st) st = Inr r" by (auto simp: install_listener_def bindr_eq_Inr)
    show "case y of (r, st') \<Rightarrow> ginv h k st'"
    proof (cases r)
      case (Some l)
      then have "ensures (install_listener env name target t no_rebind st) (\<lambda>(r, st'). ginv h k st')"
        using g r old by (auto simp: install_listener_def get_listener_def from_opt_def Let_def split: option.splits)
      then show ?thesis using ok by simp
    next
      case None
      obtain l s1 where al: "alloc st = (l, s1)" by (cases "alloc st")
      have "ginv h k s1" using ginv_calm [OF g] alloc_inv [OF ginv_sock_inv [OF g] al] by blast
      then have "ensures (install_listener env name target t no_rebind st) (\<lambda>(r, st'). ginv h k st')"
        using r None al n new [OF al] by (auto simp: install_listener_def Let_def intro!: ensuresI [of "fdevent_install a fd fn s" for a fd fn s]
            ensuresI [of "fdevent_set a ev s" for a ev s])
      then show ?thesis using ok by simp
    qed
  qed
qed

section \<open>Forwarding as a finite map\<close>

text \<open>The listeners as a map from local names to the target and the transport.\<close>

definition forwards :: "'a pstate_scheme \<Rightarrow> string \<rightharpoonup> string \<times> addr option" where
  "forwards st = map_of (map (\<lambda>l. let x = the (listeners st l) in (local_name x, connect_to x, l_transport x)) (listener_list st))"

definition lst_ok :: "'a pstate_scheme \<Rightarrow> bool" where
  "lst_ok st \<longleftrightarrow> distinct (listener_list st) \<and> (\<forall>l \<in> set (listener_list st). l < next_addr st \<and> listeners st l \<noteq> None)
     \<and> distinct (map (\<lambda>l. local_name (the (listeners st l))) (listener_list st))"

lemma fd_frame_pstate:
  assumes "fd_frame st st'"
  shows "listeners st' = listeners st" "listener_list st' = listener_list st"
  using assms by (cases st; cases st'; simp add: fd_frame_def)+

lemma disconnect_lst:
  "add_transport_disconnect t d st = Inr st' \<Longrightarrow> listeners st' = listeners st \<and> listener_list st' = listener_list st \<and> next_addr st' = next_addr st"
  "remove_transport_disconnect t d st = Inr st' \<Longrightarrow> listeners st' = listeners st \<and> listener_list st' = listener_list st \<and> next_addr st' = next_addr st"
  by (auto simp: add_transport_disconnect_def remove_transport_disconnect_def bindr_eq_Inr put_transport_def split: option.splits)

lemma find_listener_spec:
  "\<forall>l \<in> set ls. listeners st l \<noteq> None \<Longrightarrow>
     find_listener name ls st = Inr (List.find (\<lambda>l. local_name (the (listeners st l)) = name) ls)"
  by (induction ls) (auto simp: get_listener_def)

lemma forwards_find:
  "map_of (map (\<lambda>l. let x = f l in (local_name x, connect_to x, l_transport x)) ls) name =
     map_option (\<lambda>l. (connect_to (f l), l_transport (f l))) (List.find (\<lambda>l. local_name (f l) = name) ls)"
  by (induction ls) (auto simp: Let_def)

text \<open>Replacing the entry of one name, and removing it.\<close>

lemma free_listener_lst:
  assumes "free_listener l st = Inr st'"
  shows "listeners st' = (listeners st)(l := None) \<and> listener_list st' = remove1 l (listener_list st) \<and> next_addr st' = next_addr st"
proof -
  from free_listenerE [OF assms] obtain x s1 s2 where "listeners st l = Some x" and
    s1: "fdevent_remove (listener_fde l) (st\<lparr>listener_list := remove1 l (listener_list st)\<rparr>) = Inr s1"
    and s2: "(case l_transport x of None \<Rightarrow> Inr s1 | Some t \<Rightarrow> remove_transport_disconnect (Some t) (listener_disconnect l) s1) = Inr s2"
    and st': "st' = s2\<lparr>listeners := (listeners s2)(l := None), fdes := (fdes s2)(listener_fde l := None)\<rparr>" .
  have "listeners s2 = listeners s1 \<and> listener_list s2 = listener_list s1 \<and> next_addr s2 = next_addr s1"
    using s2 by (auto split: option.splits dest: disconnect_lst)
  then show ?thesis using fd_frame_pstate [OF fdevent_remove_frame [OF s1]] fd_frame_tstate(9) [OF fdevent_remove_frame [OF s1]] by (simp add: st')
qed

lemma map_of_middle: "name \<notin> fst ` set A \<Longrightarrow> map_of (A @ (name, v) # B) = (map_of (A @ B))(name \<mapsto> v)"
  by (induction A) (auto simp: fun_upd_twist)

definition entry :: "'a pstate_scheme \<Rightarrow> addr \<Rightarrow> string \<times> string \<times> addr option" where
  "entry st l = (let x = the (listeners st l) in (local_name x, connect_to x, l_transport x))"

lemma forwards_entries: "forwards st = map_of (map (entry st) (listener_list st))"
  unfolding forwards_def entry_def ..

text \<open>The entry of a name in the list of listeners.\<close>

lemma split_listeners:
  assumes ok: "lst_ok st" and f: "find_listener name (listener_list st) st = Inr (Some l)"
  obtains xs ys x where "listener_list st = xs @ l # ys" "l \<notin> set xs" "l \<notin> set ys" "listeners st l = Some x" "local_name x = name"
    "name \<notin> fst ` set (map (entry st) (xs @ ys))"
proof -
  have "List.find (\<lambda>l. local_name (the (listeners st l)) = name) (listener_list st) = Some l"
    using f ok find_listener_spec [of "listener_list st" st name] by (simp add: lst_ok_def)
  then have l: "l \<in> set (listener_list st)" "local_name (the (listeners st l)) = name" by (auto dest: find_Some_in_set)
  then obtain xs ys x where s: "listener_list st = xs @ l # ys" "listeners st l = Some x"
    using ok by (auto simp: lst_ok_def dest!: split_list)
  then have "name \<notin> fst ` set (map (entry st) (xs @ ys))" "l \<notin> set xs" "l \<notin> set ys"
    using ok l(2) by (auto simp: lst_ok_def entry_def Let_def image_iff)
  then show thesis using that s l(2) by simp
qed

lemma no_listener:
  assumes ok: "lst_ok st" and f: "find_listener name (listener_list st) st = Inr None"
  shows "name \<notin> fst ` set (map (entry st) (listener_list st))"
proof -
  have "List.find (\<lambda>l. local_name (the (listeners st l)) = name) (listener_list st) = None"
    using f ok find_listener_spec [of "listener_list st" st name] by (simp add: lst_ok_def)
  then show ?thesis by (auto simp: find_None_iff entry_def Let_def)
qed

lemma map_of_absent: "name \<notin> fst ` set A \<Longrightarrow> map_of A name = None"
  by (simp add: map_of_eq_None_iff)

lemma entry_cong: "listeners st' l = listeners st l \<Longrightarrow> entry st' l = entry st l"
  by (simp add: entry_def)

lemma forwards_middle:
  assumes "listener_list st = xs @ l # ys" "listeners st l = Some x" "local_name x = name" "name \<notin> fst ` set (map (entry st) (xs @ ys))"
  shows "forwards st = (map_of (map (entry st) (xs @ ys)))(name \<mapsto> (connect_to x, l_transport x))"
proof -
  have "entry st l = (name, connect_to x, l_transport x)" using assms by (simp add: entry_def)
  moreover have "name \<notin> fst ` set (map (entry st) xs)" using assms(4) by auto
  ultimately show ?thesis using map_of_middle [of name "map (entry st) xs" "(connect_to x, l_transport x)" "map (entry st) ys"]
    by (simp add: forwards_entries assms(1))
qed

lemma remove_listener_cases:
  assumes ok: "lst_ok st" and r: "remove_listener name st = Inr (r, st')"
  shows "lst_ok st' \<and> forwards st' = (forwards st)(name := None) \<and> (r = 0 \<longleftrightarrow> name \<in> dom (forwards st)) \<and> (r \<noteq> 0 \<longrightarrow> st' = st)"
proof -
  obtain f where f: "find_listener name (listener_list st) st = Inr f" using r by (auto simp: remove_listener_def bindr_eq_Inr)
  show ?thesis
  proof (cases f)
    case None
    then have "st' = st" "r = -1" "forwards st name = None" using r f map_of_absent [OF no_listener [OF ok]]
      by (auto simp: remove_listener_def forwards_entries)
    then show ?thesis using ok by (auto simp: fun_eq_iff)
  next
    case (Some l)
    obtain xs ys x where l: "listener_list st = xs @ l # ys" "l \<notin> set xs" "l \<notin> set ys" "listeners st l = Some x" "local_name x = name"
      and n: "name \<notin> fst ` set (map (entry st) (xs @ ys))" using split_listeners [OF ok] f Some by blast
    have fr: "free_listener l st = Inr st'" "r = 0" using r f Some by (auto simp: remove_listener_def listener_disconnect_run_def bindr_eq_Inr)
    have s: "listeners st' = (listeners st)(l := None)" "listener_list st' = xs @ ys" "next_addr st' = next_addr st"
      using free_listener_lst [OF fr(1)] l by (auto simp: remove1_append)
    have m: "map (entry st') (xs @ ys) = map (entry st) (xs @ ys)" using s l(2,3) by (auto intro!: entry_cong)
    have "forwards st = (map_of (map (entry st) (xs @ ys)))(name \<mapsto> (connect_to x, l_transport x))"
      using forwards_middle [OF l(1,4,5) n] .
    then have "name \<in> dom (forwards st)" "(forwards st)(name := None) = map_of (map (entry st) (xs @ ys))"
      using map_of_absent [OF n] by (auto simp: fun_upd_idem)
    moreover have "forwards st' = map_of (map (entry st) (xs @ ys))" unfolding forwards_entries s(2) m ..
    ultimately have "forwards st' = (forwards st)(name := None)" "name \<in> dom (forwards st)" by simp_all
    moreover have nm: "map (\<lambda>l. local_name (the (listeners st' l))) (xs @ ys) = map (\<lambda>l. local_name (the (listeners st l))) (xs @ ys)"
      using s l by auto
    have "distinct (map (\<lambda>l. local_name (the (listeners st l))) (xs @ ys))" using ok unfolding lst_ok_def l(1) by auto
    then have "distinct (map (\<lambda>l. local_name (the (listeners st' l))) (listener_list st'))" unfolding s(2) nm .
    then have "lst_ok st'" using ok s l unfolding lst_ok_def by auto
    ultimately show ?thesis using fr(2) by simp
  qed
qed

lemma rebound_listener:
  assumes ok: "lst_ok st" and f: "find_listener name (listener_list st) st = Inr (Some l)" and y: "local_name y = name"
    and st': "listeners st' = (listeners st)(l \<mapsto> y)" "listener_list st' = listener_list st" "next_addr st' = next_addr st"
  shows "lst_ok st' \<and> forwards st' = (forwards st)(name \<mapsto> (connect_to y, l_transport y))"
proof -
  obtain xs ys x where l: "listener_list st = xs @ l # ys" "l \<notin> set xs" "l \<notin> set ys" "listeners st l = Some x" "local_name x = name"
    and n: "name \<notin> fst ` set (map (entry st) (xs @ ys))" using split_listeners [OF ok f] by blast
  have m: "map (entry st') (xs @ ys) = map (entry st) (xs @ ys)" using st' l(2,3) by (auto intro!: entry_cong)
  have "forwards st' = (map_of (map (entry st') (xs @ ys)))(name \<mapsto> (connect_to y, l_transport y))"
    using forwards_middle [of st' xs l ys y name] n st'(1,2) l(1) y unfolding m by simp
  moreover have "map (\<lambda>l. local_name (the (listeners st' l))) (listener_list st') = map (\<lambda>l. local_name (the (listeners st l))) (listener_list st)"
    using l y st' by auto
  then have "distinct (map (\<lambda>l. local_name (the (listeners st' l))) (listener_list st'))" using ok unfolding lst_ok_def by argo
  then have "lst_ok st'" using ok st' unfolding lst_ok_def by auto
  ultimately show ?thesis unfolding m forwards_middle [OF l(1,4,5) n] by simp
qed

lemma new_listener:
  assumes ok: "lst_ok st" and f: "find_listener name (listener_list st) st = Inr None" and y: "local_name y = name"
    and st': "listeners st' = (listeners st)(next_addr st \<mapsto> y)" "listener_list st' = listener_list st @ [next_addr st]" "next_addr st < next_addr st'"
  shows "lst_ok st' \<and> forwards st' = (forwards st)(name \<mapsto> (connect_to y, l_transport y))"
proof -
  let ?l = "next_addr st"
  have l: "?l \<notin> set (listener_list st)" using ok by (auto simp: lst_ok_def)
  note n = no_listener [OF ok f]
  have m: "map (entry st') (listener_list st) = map (entry st) (listener_list st)" using st' l by (auto intro!: entry_cong)
  have "forwards st' = (map_of (map (entry st') (listener_list st @ [])))(name \<mapsto> (connect_to y, l_transport y))"
    using forwards_middle [of st' "listener_list st" ?l "[]" y name] n y st' unfolding append_Nil2 m by simp
  then have "forwards st' = (forwards st)(name \<mapsto> (connect_to y, l_transport y))" unfolding append_Nil2 m by (simp add: forwards_entries)
  moreover have "map (\<lambda>l. local_name (the (listeners st' l))) (listener_list st) = map (\<lambda>l. local_name (the (listeners st l))) (listener_list st)"
    using l st' by auto
  then have "distinct (map (\<lambda>l. local_name (the (listeners st' l))) (listener_list st))" using ok unfolding lst_ok_def by argo
  then have "lst_ok st'" using ok st' n l y unfolding lst_ok_def by (auto simp: entry_def Let_def image_iff less_trans)
  ultimately show ?thesis by simp
qed

lemma install_listener_cases:
  assumes ok: "lst_ok st" and r: "install_listener env name target t no_rebind st = Inr (r, st')"
  shows "lst_ok st' \<and> (if r = INSTALL_STATUS_OK then forwards st' = (forwards st)(name \<mapsto> (target, t)) else forwards st' = forwards st)"
proof -
  obtain f where f: "find_listener name (listener_list st) st = Inr f" using r by (auto simp: install_listener_def bindr_eq_Inr)
  show ?thesis
  proof (cases f)
    case (Some l)
    obtain x where x: "listeners st l = Some x" "local_name x = name" using split_listeners [OF ok] f Some by blast
    show ?thesis
    proof (cases "r = INSTALL_STATUS_OK")
      case True
      then have "listeners st' = (listeners st)(l \<mapsto> x\<lparr>connect_to := target, l_transport := t\<rparr>) \<and> listener_list st' = listener_list st \<and> next_addr st' = next_addr st"
        using r f Some x by (auto simp: install_listener_def get_listener_def bindr_eq_Inr Let_def split: if_splits dest!: disconnect_lst)
      then show ?thesis using rebound_listener [OF ok, of name l "x\<lparr>connect_to := target, l_transport := t\<rparr>" st'] f Some x True by simp
    next
      case False
      then have "st' = st" using r f Some x by (auto simp: install_listener_def get_listener_def bindr_eq_Inr Let_def split: if_splits)
      then show ?thesis using ok False by simp
    qed
  next
    case None
    show ?thesis
    proof (cases "r = INSTALL_STATUS_OK")
      case True
      let ?y = "\<lparr>l_fd = local_name_to_fd env name, local_name = name, connect_to = target, l_transport = t\<rparr>"
      obtain s1 s2 fn where s1: "fdevent_install (listener_fde (next_addr st)) (local_name_to_fd env name) fn (st\<lparr>next_addr := next_addr st + 4\<rparr>) = Inr s1"
        "fdevent_set (listener_fde (next_addr st)) FDE_READ s1 = Inr s2"
        and s3: "(case t of None \<Rightarrow> Inr ((put_listener (next_addr st) ?y s2)\<lparr>listener_list := listener_list s2 @ [next_addr st]\<rparr>)
            | Some a \<Rightarrow> add_transport_disconnect (Some a) (listener_disconnect (next_addr st)) ((put_listener (next_addr st) ?y s2)\<lparr>listener_list := listener_list s2 @ [next_addr st]\<rparr>)) = Inr st'"
        using r f None True by (auto simp: install_listener_def alloc_def put_listener_def bindr_eq_Inr Let_def split: if_splits cong: option.case_cong)
      have "fd_frame (st\<lparr>next_addr := next_addr st + 4\<rparr>) s2"
        using fdevent_install_frame [OF s1(1)] fdevent_set_frame [OF s1(2)] by (rule fd_frame_trans)
      from fd_frame_pstate [OF this] fd_frame_tstate(9) [OF this]
      have "listeners st' = (listeners st)(next_addr st \<mapsto> ?y)" "listener_list st' = listener_list st @ [next_addr st]" "next_addr st < next_addr st'"
        using s3 by (auto split: option.splits dest!: disconnect_lst)
      then show ?thesis using new_listener [OF ok, of name ?y st'] f None True by simp
    next
      case False
      then have "st' = st\<lparr>next_addr := next_addr st + 4\<rparr>"
        using r f None by (auto simp: install_listener_def alloc_def bindr_eq_Inr Let_def split: if_splits)
      then show ?thesis using ok False by (auto simp: lst_ok_def forwards_def)
    qed
  qed
qed

text \<open>Binding a new name succeeds when the descriptor fits the sets of \<open>select\<close>.\<close>

lemma install_set_ok:
  assumes "fd_inv st" "0 \<le> fd" "fd < int FD_SETSIZE"
  obtains s1 s2 where "fdevent_install a fd fn st = Inr s1" "fdevent_set a FDE_READ s1 = Inr s2"
proof -
  obtain s1 where s1: "fdevent_install a fd fn st = Inr s1" using fdevent_install_ok [of fd a fn st] assms by (auto simp: FD_SETSIZE_def)
  have e: "FDE_ACTIVE AND FDE_EVENTMASK \<noteq> FDE_READ AND FDE_EVENTMASK"
    "\<not> has (FDE_ACTIVE AND FDE_STATEMASK OR FDE_READ AND FDE_EVENTMASK) FDE_PENDING"
    by (simp_all add: has_def flag_exp FDE_EVENTMASK_def FDE_STATEMASK_def)
  have "\<exists>s2. fdevent_set a FDE_READ s1 = Inr s2"
    using fdevent_install_result [OF assms(1) s1] assms(2,3) e by (auto simp: fdevent_set_def fdevent_update_def get_fde_def Let_def)
  then show thesis using that s1 by blast
qed

lemma new_forward_ok:
  assumes ok: "lst_ok st" and i: "fd_inv st" and n: "name \<notin> dom (forwards st)" and t: "transports st t \<noteq> None"
    and fd: "0 \<le> local_name_to_fd env name" "local_name_to_fd env name < int FD_SETSIZE"
  shows "\<exists>st'. install_listener env name target (Some t) no_rebind st = Inr (INSTALL_STATUS_OK, st')"
proof -
  have f: "find_listener name (listener_list st) st = Inr None"
    using ok n find_listener_spec [of "listener_list st" st name] forwards_find [of "\<lambda>l. the (listeners st l)" "listener_list st" name]
    by (auto simp: lst_ok_def forwards_def)
  let ?l = "next_addr st" and ?fn = "if target = ''*smartsocket*'' then ss_listener_event_func (next_addr st) else listener_event_func (next_addr st)"
  have "fd_inv (st\<lparr>next_addr := next_addr st + 4\<rparr>)" using i fd_inv_cong [of "st\<lparr>next_addr := next_addr st + 4\<rparr>" st] by simp
  then obtain s1 s2 where s: "fdevent_install (listener_fde ?l) (local_name_to_fd env name) ?fn (st\<lparr>next_addr := next_addr st + 4\<rparr>) = Inr s1"
    "fdevent_set (listener_fde ?l) FDE_READ s1 = Inr s2" using install_set_ok [OF _ fd] by metis
  have "transports s2 t \<noteq> None"
    using fd_frame_tstate [OF fdevent_install_frame [OF s(1)]] fd_frame_tstate [OF fdevent_set_frame [OF s(2)]] t by simp
  then show ?thesis using s f fd(1) by (auto simp: install_listener_def alloc_def Let_def add_transport_disconnect_def get_transport_def)
qed

section \<open>Properties\<close>

text \<open>
  Property C9. Refinement: the listeners implement a finite map from local names to a target and a
  transport. Binding a free name to a live transport succeeds when the server socket opens; a
  successful \<open>install_listener\<close> is an update of the map and a failed one leaves it
  alone; \<open>remove_listener\<close> deletes the entry and reports whether there was one. No name is ever listed twice.
\<close>

theorem listeners_implement_map:
  assumes "lst_ok st"
  shows "(fd_inv st \<and> name \<notin> dom (forwards st) \<and> transports st t \<noteq> None \<and> 0 \<le> local_name_to_fd env name
        \<and> local_name_to_fd env name < int FD_SETSIZE \<longrightarrow>
        (\<exists>st'. install_listener env name target (Some t) no_rebind st = Inr (INSTALL_STATUS_OK, st')))
    \<and> (\<forall>u r st'. install_listener env name target u no_rebind st = Inr (r, st') \<longrightarrow> lst_ok st' \<and>
        forwards st' = (if r = INSTALL_STATUS_OK then (forwards st)(name \<mapsto> (target, u)) else forwards st))
    \<and> (\<forall>r st'. remove_listener name st = Inr (r, st') \<longrightarrow> lst_ok st' \<and> forwards st' = (forwards st)(name := None)
        \<and> (r = 0 \<longleftrightarrow> name \<in> dom (forwards st)))"
  using new_forward_ok [OF assms] install_listener_cases [OF assms] remove_listener_cases [OF assms] by (auto split: if_splits)

definition ex_servers :: server_env where
  "ex_servers = \<lparr>gListenAll = 0, socket_inaddr_any_server = (\<lambda>_. -1), socket_loopback_server = (\<lambda>_. 9),
     socket_local_server = (\<lambda>_ _. -1)\<rparr>"

definition ex_pstate :: pstate where
  "ex_pstate = sstate.extend ex_sstate \<lparr>listeners = (\<lambda>_. None), listener_list = [], auth_enabled = True, usb_transport = None,
     framework_fd = -1, needs_retry = False, urandom = [], key_list = []\<rparr>"

lemmas ex_pstate_simps = ex_pstate_def ex_sstate_simps pstate.defs

theorem listeners_implement_map_witness:
  "\<exists>st. install_listener ex_servers ''tcp:5000'' ''tcp:80'' (Some 8) False (ex_pstate\<lparr>transports := [8 \<mapsto> zero_transport], next_addr := 12\<rparr>)
      = Inr (INSTALL_STATUS_OK, st) \<and> forwards st = [''tcp:5000'' \<mapsto> (''tcp:80'', Some 8)]"
proof -
  let ?st = "ex_pstate\<lparr>transports := [8 \<mapsto> zero_transport], next_addr := 12\<rparr>"
  have ok: "lst_ok ?st" by (simp add: lst_ok_def ex_pstate_simps)
  have "fd_inv ?st" "forwards ?st = Map.empty" "local_name_to_fd ex_servers ''tcp:5000'' = 9"
    using fd_start_inv [of ?st] by (simp_all add: fd_start_def forwards_def ex_pstate_simps local_name_to_fd_def ex_servers_def has_prefix_def strncmp_eq_def)
  then show ?thesis using listeners_implement_map [OF ok, of "''tcp:5000''" 8 ex_servers "''tcp:80''" False]
    by (auto simp: FD_SETSIZE_def)
qed

lemma format_loop_fits:
  "format_loop None ls st = Inr (t, n) \<Longrightarrow> int n < room \<Longrightarrow>
     \<exists>txt. format_loop (Some room) ls st = Inr (txt, n) \<and> length txt = n
       \<and> txt = concat (map (\<lambda>l. case format_listener (the (listeners st l)) st of Inr s \<Rightarrow> s | Inl _ \<Rightarrow> [])
           (filter (\<lambda>l. \<not> special (the (listeners st l))) ls))"
proof (induction ls arbitrary: t n room)
  case (Cons l ls)
  then obtain x where x: "listeners st l = Some x" by (auto simp: bindr_eq_Inr)
  show ?case
  proof (cases "special x")
    case True
    then show ?thesis using Cons x by (simp add: get_listener_def)
  next
    case False
    then obtain line t' m where m: "format_listener x st = Inr line" "format_loop None ls st = Inr (t', m)" "n = length line + m"
      using Cons.prems(1) x by (auto simp: bindr_eq_Inr)
    then show ?thesis using Cons.IH [OF m(2), of "room - int (length line)"] Cons.prems(2) x False by (auto simp: get_listener_def)
  qed
qed simp

text \<open>
  The answer to \<open>list-forward\<close>: the size computed without a buffer is enough for the pass with
  the buffer, which does not fail, never runs out of room and yields exactly the lines of the forwarded ports, without the
  special listeners and with the announced length.
\<close>

theorem format_listeners_fits:
  assumes "format_listeners None st = Inr (t, n)"
  shows "\<exists>txt. format_listeners (Some (int n + 1)) st = Inr (txt, n) \<and> length txt = n
    \<and> txt = concat (map (\<lambda>l. case format_listener (the (listeners st l)) st of Inr s \<Rightarrow> s | Inl _ \<Rightarrow> [])
        (filter (\<lambda>l. \<not> special (the (listeners st l))) (listener_list st)))"
  using format_loop_fits [OF assms [unfolded format_listeners_def], of "int n + 1"] by (simp add: format_listeners_def)

theorem format_listeners_fits_witness:
  "format_listeners (Some 18) (ex_pstate\<lparr>transports := [8 \<mapsto> zero_transport\<lparr>serial := Some ''abc''\<rparr>], listener_list := [12, 16],
     listeners := [12 \<mapsto> \<lparr>l_fd = 5, local_name = ''tcp:5037'', connect_to = ''*smartsocket*'', l_transport = None\<rparr>,
       16 \<mapsto> \<lparr>l_fd = 6, local_name = ''tcp:1'', connect_to = ''tcp:22'', l_transport = Some 8\<rparr>]\<rparr>)
   = Inr (''abc tcp:1 tcp:22'' @ [CHR 0x0a], 17)"
proof -
  let ?st = "ex_pstate\<lparr>transports := [8 \<mapsto> zero_transport\<lparr>serial := Some ''abc''\<rparr>], listener_list := [12, 16],
     listeners := [12 \<mapsto> \<lparr>l_fd = 5, local_name = ''tcp:5037'', connect_to = ''*smartsocket*'', l_transport = None\<rparr>,
       16 \<mapsto> \<lparr>l_fd = 6, local_name = ''tcp:1'', connect_to = ''tcp:22'', l_transport = Some 8\<rparr>]\<rparr>"
  have "format_listeners None ?st = Inr ([], 17)"
    by (simp add: format_listeners_def get_listener_def special_def format_listener_def get_transport_def deref_def)
  from format_listeners_fits [OF this] show ?thesis
    by (auto simp: get_listener_def special_def format_listener_def get_transport_def deref_def)
qed

end
