(* ===== verification/Base64.thy ===== *)
theory Base64
  imports Jdwp
begin

text \<open>
  The base64 coder of bionic (base64.c), which the daemon uses to read the public keys it trusts.
\<close>

section \<open>The coder\<close>

definition Base64_alphabet :: string where
  "Base64_alphabet = ''ABCDEFGHIJKLMNOPQRSTUVWXYZabcdefghijklmnopqrstuvwxyz0123456789+/''"

definition Pad64 :: char where "Pad64 = CHR ''=''"

definition b64_char :: "byte \<Rightarrow> char" where
  "b64_char v = Base64_alphabet ! unat v"

text \<open>The four 6-bit groups of three bytes.\<close>

definition b64_split :: "byte \<Rightarrow> byte \<Rightarrow> byte \<Rightarrow> byte list" where
  "b64_split a b c = [drop_bit 2 a, push_bit 4 (a AND 0x03) + drop_bit 4 b, push_bit 2 (b AND 0x0f) + drop_bit 6 c, c AND 0x3f]"

text \<open>
  The target is what has been written to it so far; \<open>None\<close> stands for the result \<open>-1\<close>. The
  terminating zero is not part of the result.
\<close>

fun b64_ntop_loop :: "byte list \<Rightarrow> nat \<Rightarrow> string \<Rightarrow> string option" where
  "b64_ntop_loop (a # b # c # src) targsize out =
     (if length out + 4 > targsize then None
      else b64_ntop_loop src targsize (out @ map b64_char (b64_split a b c)))"
| "b64_ntop_loop [a, b] targsize out =
     (if length out + 4 > targsize then None
      else b64_ntop_loop [] targsize (out @ map b64_char (take 3 (b64_split a b 0)) @ [Pad64]))"
| "b64_ntop_loop [a] targsize out =
     (if length out + 4 > targsize then None
      else b64_ntop_loop [] targsize (out @ map b64_char (take 2 (b64_split a 0 0)) @ [Pad64, Pad64]))"
| "b64_ntop_loop [] targsize out = (if length out \<ge> targsize then None else Some out)"

definition b64_ntop :: "byte list \<Rightarrow> nat \<Rightarrow> string option" where
  "b64_ntop src targsize = b64_ntop_loop src targsize []"

definition isspace_char :: "char \<Rightarrow> bool" where
  "isspace_char c = is_space (byte_of c)"

text \<open>
  The decoding loop, with the state of the automaton, \<open>tarindex\<close> and the target. It ends with the
  rest of the string behind a pad character, or at the end of the string.
\<close>

fun b64_pton_loop :: "string \<Rightarrow> nat \<Rightarrow> nat \<Rightarrow> byte list \<Rightarrow> (string option \<times> nat \<times> nat \<times> byte list) option" where
  "b64_pton_loop [] state i target = Some (None, state, i, target)"
| "b64_pton_loop (ch # src) state i target =
     (if isspace_char ch then b64_pton_loop src state i target
      else if ch = Pad64 then Some (Some src, state, i, target)
      else case strchr Base64_alphabet ch of
        None \<Rightarrow> None
      | Some p \<Rightarrow>
          let v = of_nat p in
          if state = 0 then
            if i \<ge> length target then None
            else b64_pton_loop src 1 i (target[i := push_bit 2 v])
          else if state = 1 then
            if i + 1 \<ge> length target then None
            else b64_pton_loop src 2 (i + 1) (target[i := target ! i OR drop_bit 4 v, i + 1 := push_bit 4 (v AND 0x0f)])
          else if state = 2 then
            if i + 1 \<ge> length target then None
            else b64_pton_loop src 3 (i + 1) (target[i := target ! i OR drop_bit 2 v, i + 1 := push_bit 6 (v AND 0x03)])
          else
            if i \<ge> length target then None
            else b64_pton_loop src 0 (i + 1) (target[i := target ! i OR v]))"

text \<open>What may follow the last group: the result is whether the padding is in order.\<close>

definition b64_padding :: "nat \<Rightarrow> string \<Rightarrow> bool" where
  "b64_padding state src =
     (if state < 2 then False
      else if state = 2 then
        (case dropWhile isspace_char src of
           [] \<Rightarrow> False
         | ch # src \<Rightarrow> ch = Pad64 \<and> list_all isspace_char src)
      else list_all isspace_char src)"

definition b64_pton :: "string \<Rightarrow> byte list \<Rightarrow> int \<times> byte list" where
  "b64_pton src target =
     (case b64_pton_loop src 0 0 target of
        None \<Rightarrow> (-1, target)
      | Some (None, state, i, t) \<Rightarrow> (if state \<noteq> 0 then -1 else int i, t)
      | Some (Some rest, state, i, t) \<Rightarrow> (if b64_padding state rest \<and> t ! i = 0 then int i else -1, t))"

section \<open>Round trip\<close>

lemma b64_index: "k < 64 \<Longrightarrow> strchr Base64_alphabet (Base64_alphabet ! k) = Some k"
proof -
  have "\<forall>k \<in> set [0..<64]. strchr Base64_alphabet (Base64_alphabet ! k) = Some k" by code_simp
  then show "k < 64 \<Longrightarrow> ?thesis" by simp
qed

lemma b64_plain: "\<forall>c \<in> set Base64_alphabet. \<not> isspace_char c \<and> c \<noteq> Pad64"
  by code_simp

text \<open>The text without the bound on its size.\<close>

fun b64_encode :: "byte list \<Rightarrow> string" where
  "b64_encode (a # b # c # src) = map b64_char (b64_split a b c) @ b64_encode src"
| "b64_encode [a, b] = map b64_char (take 3 (b64_split a b 0)) @ [Pad64]"
| "b64_encode [a] = map b64_char (take 2 (b64_split a 0 0)) @ [Pad64, Pad64]"
| "b64_encode [] = []"

lemma b64_ntop_loop_encode:
  "b64_ntop_loop src targsize out = (if length out + length (b64_encode src) < targsize then Some (out @ b64_encode src) else None)"
  by (induction src targsize out rule: b64_ntop_loop.induct) (auto simp: b64_split_def)

lemma b64_ntop_encode: "b64_ntop src targsize = (if length (b64_encode src) < targsize then Some (b64_encode src) else None)"
  by (simp add: b64_ntop_def b64_ntop_loop_encode)

lemma byte_eqI: "(\<And>n. n < 8 \<Longrightarrow> bit (a :: byte) n = bit b n) \<Longrightarrow> a = b"
  by (rule bit_word_eqI) simp

lemma less_8: "n < (8 :: nat) \<longleftrightarrow> n = 0 \<or> n = 1 \<or> n = 2 \<or> n = 3 \<or> n = 4 \<or> n = 5 \<or> n = 6 \<or> n = 7"
  by auto

lemma byte_masks: "(0x03 :: byte) = mask 2" "(0x0f :: byte) = mask 4" "(0x3f :: byte) = mask 6"
  by (simp_all add: mask_eq_exp_minus_1)

lemma b64_or:
  "push_bit 4 (a AND 0x03) + drop_bit 4 (b :: byte) = push_bit 4 (a AND 0x03) OR drop_bit 4 b"
  "push_bit 2 (b AND 0x0f) + drop_bit 6 (c :: byte) = push_bit 2 (b AND 0x0f) OR drop_bit 6 c"
  unfolding byte_masks by (rule disjunctive_add; auto simp: bit_simps dest: bit_imp_le_length)+

lemmas b64_bits = bit_or_iff bit_and_iff bit_push_bit_iff bit_drop_bit_eq bit_mask_iff

lemma b64_join:
  "push_bit 2 (drop_bit 2 a) OR drop_bit 4 (push_bit 4 (a AND 0x03) + drop_bit 4 b) = (a :: byte)" (is ?A)
  "push_bit 4 ((push_bit 4 (a AND 0x03) + drop_bit 4 b) AND 0x0f) OR drop_bit 2 (push_bit 2 (b AND 0x0f) + drop_bit 6 c) = (b :: byte)" (is ?B)
  "push_bit 6 ((push_bit 2 (b AND 0x0f) + drop_bit 6 c) AND 0x03) OR (c AND 0x3f) = (c :: byte)" (is ?C)
proof -
  have high: "\<not> bit (x :: byte) n" if "8 \<le> n" for x n using that bit_imp_le_length [of x n] by auto
  show ?A unfolding b64_or unfolding byte_masks
  proof (rule byte_eqI)
    fix n :: nat assume "n < 8"
    then show "bit (push_bit 2 (drop_bit 2 a) OR drop_bit 4 (push_bit 4 (a AND mask 2) OR drop_bit 4 b)) n = bit a n"
      by (cases "n < 2") (simp_all add: b64_bits high del: add_2_eq_Suc)
  qed
  show ?B unfolding b64_or unfolding byte_masks
  proof (rule byte_eqI)
    fix n :: nat assume n: "n < 8"
    then have "n - 4 < 4" "n - 4 < 8" by linarith+
    with n show "bit (push_bit 4 ((push_bit 4 (a AND mask 2) OR drop_bit 4 b) AND mask 4) OR drop_bit 2 (push_bit 2 (b AND mask 4) OR drop_bit 6 c)) n = bit b n"
      by (cases "n < 4") (simp_all add: b64_bits high del: add_2_eq_Suc)
  qed
  show ?C unfolding b64_or unfolding byte_masks
  proof (rule byte_eqI)
    fix n :: nat assume n: "n < 8"
    then have "n - 6 < 2" "n - 6 < 8" by linarith+
    with n show "bit (push_bit 6 ((push_bit 2 (b AND mask 4) OR drop_bit 6 c) AND mask 2) OR c AND mask 6) n = bit c n"
      by (cases "n < 6") (simp_all add: b64_bits high del: add_2_eq_Suc)
  qed
qed

lemma b64_split_less: "v \<in> set (b64_split a b c) \<Longrightarrow> v < 64"
proof -
  have six: "v < 64" if "\<And>n. 6 \<le> n \<Longrightarrow> \<not> bit (v :: byte) n" for v
  proof -
    have "take_bit 6 v = v" using that by (intro bit_word_eqI) (metis bit_take_bit_iff not_less)
    then have "v = v AND mask 6" by (simp add: take_bit_eq_mask)
    then show ?thesis using and_mask_less' [of 6 v] by simp
  qed
  have high: "\<not> bit (x :: byte) n" if "8 \<le> n" for x n using that bit_imp_le_length [of x n] by auto
  have "drop_bit 2 a < 64" "push_bit 4 (a AND 0x03) + drop_bit 4 b < 64" "push_bit 2 (b AND 0x0f) + drop_bit 6 c < 64" "c AND 0x3f < 64"
    unfolding b64_or unfolding byte_masks by (rule six; simp add: b64_bits high; linarith?)+
  then show "v \<in> set (b64_split a b c) \<Longrightarrow> v < 64" by (auto simp: b64_split_def)
qed

lemma b64_char_decodes:
  assumes "v < 64"
  shows "\<not> isspace_char (b64_char v)" "b64_char v \<noteq> Pad64" "strchr Base64_alphabet (b64_char v) = Some (unat v)"
proof -
  have v: "unat v < 64" using assms by (simp add: word_less_nat_alt)
  have "length Base64_alphabet = 64" by code_simp
  then have "b64_char v \<in> set Base64_alphabet" using v by (simp add: b64_char_def)
  then show "\<not> isspace_char (b64_char v)" "b64_char v \<noteq> Pad64" using b64_plain by auto
  show "strchr Base64_alphabet (b64_char v) = Some (unat v)" using b64_index [OF v] by (simp add: b64_char_def)
qed

lemma b64_pton_step:
  assumes "v < 64"
  shows "b64_pton_loop (b64_char v # src) 0 i t = (if i \<ge> length t then None else b64_pton_loop src 1 i (t[i := push_bit 2 v]))"
    "b64_pton_loop (b64_char v # src) 1 i t = (if i + 1 \<ge> length t then None
       else b64_pton_loop src 2 (i + 1) (t[i := t ! i OR drop_bit 4 v, i + 1 := push_bit 4 (v AND 0x0f)]))"
    "b64_pton_loop (b64_char v # src) 2 i t = (if i + 1 \<ge> length t then None
       else b64_pton_loop src 3 (i + 1) (t[i := t ! i OR drop_bit 2 v, i + 1 := push_bit 6 (v AND 0x03)]))"
    "b64_pton_loop (b64_char v # src) 3 i t = (if i \<ge> length t then None else b64_pton_loop src 0 (i + 1) (t[i := t ! i OR v]))"
  using b64_char_decodes [OF assms] by simp_all

lemma add_3_eq_Suc: "i + 3 = Suc (Suc (Suc i))"
  by simp

lemma b64_pton_group:
  assumes "i + 2 < length t"
  shows "b64_pton_loop (map b64_char (b64_split a b c) @ src) 0 i t = b64_pton_loop src 0 (i + 3) (t[i := a, i + 1 := b, i + 2 := c])"
proof -
  define v0 v1 v2 v3 where v: "v0 = drop_bit 2 a" "v1 = push_bit 4 (a AND 0x03) + drop_bit 4 b" "v2 = push_bit 2 (b AND 0x0f) + drop_bit 6 c" "v3 = c AND 0x3f"
  have e: "b64_split a b c = [v0, v1, v2, v3]" by (simp add: b64_split_def v)
  then have l: "v0 < 64" "v1 < 64" "v2 < 64" "v3 < 64" using b64_split_less [of _ a b c] by auto
  have j: "push_bit 2 v0 OR drop_bit 4 v1 = a" "push_bit 4 (v1 AND 0x0f) OR drop_bit 2 v2 = b" "push_bit 6 (v2 AND 0x03) OR v3 = c"
    unfolding v by (rule b64_join)+
  show ?thesis using assms l j by (simp add: e b64_pton_step [unfolded One_nat_def] add_3_eq_Suc list_update_swap del: b64_pton_loop.simps)
qed

text \<open>The incomplete last groups: their superfluous bits are zero.\<close>

lemma b64_pton_two:
  assumes "i + 2 < length t"
  shows "b64_pton_loop (map b64_char (take 3 (b64_split a b 0)) @ Pad64 # src) 0 i t = Some (Some src, 3, i + 2, t[i := a, i + 1 := b, i + 2 := 0])"
proof -
  define v0 v1 v2 where v: "v0 = drop_bit 2 a" "v1 = push_bit 4 (a AND 0x03) + drop_bit 4 b" "v2 = push_bit 2 (b AND 0x0f) + drop_bit 6 (0 :: byte)"
  have e: "take 3 (b64_split a b 0) = [v0, v1, v2]" by (simp add: b64_split_def v)
  then have l: "v0 < 64" "v1 < 64" "v2 < 64" using b64_split_less [of _ a b 0] set_take_subset [of 3 "b64_split a b 0"] by auto
  have j: "push_bit 2 v0 OR drop_bit 4 v1 = a" "push_bit 4 (v1 AND 0x0f) OR drop_bit 2 v2 = b" "push_bit 6 (v2 AND 0x03) OR (0 AND 0x3f) = 0"
    unfolding v by (rule b64_join)+
  have p: "\<not> isspace_char Pad64" by code_simp
  show ?thesis using assms l j p by (simp add: e b64_pton_step [unfolded One_nat_def] list_update_swap b64_pton_loop.simps(2) [of Pad64] del: b64_pton_loop.simps)
qed

lemma b64_pton_one:
  assumes "i + 1 < length t"
  shows "b64_pton_loop (map b64_char (take 2 (b64_split a 0 0)) @ Pad64 # src) 0 i t = Some (Some src, 2, i + 1, t[i := a, i + 1 := 0])"
proof -
  define v0 v1 where v: "v0 = drop_bit 2 a" "v1 = push_bit 4 (a AND 0x03) + drop_bit 4 (0 :: byte)"
  have e: "take 2 (b64_split a 0 0) = [v0, v1]" by (simp add: b64_split_def v)
  then have l: "v0 < 64" "v1 < 64" using b64_split_less [of _ a 0 0] set_take_subset [of 2 "b64_split a 0 0"] by auto
  have j: "push_bit 2 v0 OR drop_bit 4 v1 = a" "push_bit 4 (v1 AND 0x0f) OR drop_bit 2 (push_bit 2 (0 AND 0x0f) + drop_bit 6 0) = 0"
    unfolding v by (rule b64_join)+
  have p: "\<not> isspace_char Pad64" by code_simp
  show ?thesis using assms l j p by (simp add: e b64_pton_step [unfolded One_nat_def] list_update_swap b64_pton_loop.simps(2) [of Pad64] del: b64_pton_loop.simps)
qed

lemma b64_pton_encode:
  assumes "i + length bs < length t"
  shows "\<exists>rest state j t'. b64_pton_loop (b64_encode bs) 0 i t = Some (rest, state, j, t') \<and> j = i + length bs \<and> length t' = length t
    \<and> take j t' = take i t @ bs \<and> (case rest of None \<Rightarrow> state = 0 | Some r \<Rightarrow> b64_padding state r \<and> t' ! j = 0)"
  using assms
proof (induction bs arbitrary: i t rule: b64_encode.induct)
  case (1 a b c src)
  let ?t = "t[i := a, i + 1 := b, i + 2 := c]"
  have t: "take (i + 3) ?t = take i t @ [a, b, c]"
    using "1.prems" by (intro nth_equalityI) (auto simp: nth_append nth_list_update nth_Cons' less_Suc_eq)
  have "b64_pton_loop (b64_encode (a # b # c # src)) 0 i t = b64_pton_loop (b64_encode src) 0 (i + 3) ?t"
    using "1.prems" b64_pton_group [of i t a b c "b64_encode src"] by simp
  then show ?case using "1.IH" [of "i + 3" ?t] "1.prems" t by (auto simp: add_3_eq_Suc)
next
  case (2 a b)
  have "take (i + 2) (t[i := a, i + 1 := b, i + 2 := 0]) = take i t @ [a, b]"
    using "2.prems" by (intro nth_equalityI) (auto simp: nth_append nth_list_update nth_Cons' less_Suc_eq)
  then show ?case using "2.prems" b64_pton_two [of i t a b "[]"] by (simp add: b64_padding_def)
next
  case (3 a)
  have "take (i + 1) (t[i := a, i + 1 := 0]) = take i t @ [a]"
    using "3.prems" by (intro nth_equalityI) (auto simp: nth_append nth_list_update nth_Cons' less_Suc_eq)
  moreover have "b64_padding 2 [Pad64]" by code_simp
  ultimately show ?case using "3.prems" b64_pton_one [of i t a "[Pad64]"] by simp
qed simp

lemma b64_pton_encoded:
  assumes "length bs < length t"
  shows "\<exists>t'. b64_pton (b64_encode bs) t = (int (length bs), t') \<and> length t' = length t \<and> take (length bs) t' = bs"
  using b64_pton_encode [of 0 bs t] assms by (auto simp: b64_pton_def split: option.splits)

lemma b64_encode_length: "length (b64_encode bs) = 4 * ((length bs + 2) div 3)"
proof (induction bs rule: b64_encode.induct)
  case (1 a b c src)
  then show ?case using div_add_self1 [of 3 "Suc (Suc (length src))"] by (simp add: b64_split_def add.commute)
qed (simp_all add: b64_split_def)

text \<open>
  Property C32. What \<open>b64_ntop\<close> encodes, \<open>b64_pton\<close> decodes to the same bytes; \<open>b64_ntop\<close> fails exactly when the
  text, of four characters for each three bytes begun, and its terminating zero do not fit the target, and
  what it writes has that length.
\<close>

theorem b64_roundtrip:
  assumes "length bs < length t"
  shows "(case b64_ntop bs targsize of
      Some txt \<Rightarrow> (\<exists>t'. b64_pton txt t = (int (length bs), t') \<and> take (length bs) t' = bs)
        \<and> length txt = 4 * ((length bs + 2) div 3) \<and> length txt + 1 \<le> targsize
    | None \<Rightarrow> targsize < 4 * ((length bs + 2) div 3) + 1)"
  using b64_pton_encoded [OF assms] b64_encode_length [of bs] by (auto simp: b64_ntop_encode)

theorem b64_roundtrip_witness:
  "b64_ntop [0x66, 0x6f, 0x6f, 0x62] 9 = Some ''Zm9vYg=='' \<and> (\<exists>t. b64_pton ''Zm9vYg=='' (replicate 5 7) = (4, t) \<and> take 4 t = [0x66, 0x6f, 0x6f, 0x62])"
proof -
  have e: "b64_ntop [0x66, 0x6f, 0x6f, 0x62] 9 = Some ''Zm9vYg==''" by code_simp
  have n: "length [0x66 :: byte, 0x6f, 0x6f, 0x62] = 4" by simp
  show ?thesis using e b64_roundtrip [of "[0x66, 0x6f, 0x6f, 0x62]" "replicate 5 7" 9] unfolding e n by simp
qed

end
