(* ===== verification/Sha.thy ===== *)
theory Sha
  imports Prelude
begin

text \<open>
  The hash functions of libmincrypt, sha.c and sha256.c. Both keep a block buffer, a byte count
  and a few state words, and differ only in the transformation of a block and the constants.
\<close>

section \<open>The context\<close>

record HASH_CTX =
  h_count :: "64 word"
  h_buf :: "byte list"
  h_state :: "u32 list"

definition SHA_DIGEST_SIZE :: nat where "SHA_DIGEST_SIZE = 20"
definition SHA256_DIGEST_SIZE :: nat where "SHA256_DIGEST_SIZE = 32"

definition rol :: "nat \<Rightarrow> u32 \<Rightarrow> u32" where
  "rol bits value = push_bit bits value OR drop_bit (32 - bits) value"

definition ror :: "u32 \<Rightarrow> nat \<Rightarrow> u32" where
  "ror value bits = drop_bit bits value OR push_bit (32 - bits) value"

definition shr :: "u32 \<Rightarrow> nat \<Rightarrow> u32" where
  "shr value bits = drop_bit bits value"

text \<open>The block as big-endian words.\<close>

fun load_words :: "byte list \<Rightarrow> u32 list" where
  "load_words (b0 # b1 # b2 # b3 # bs) =
     (push_bit 24 (ucast b0) OR push_bit 16 (ucast b1) OR push_bit 8 (ucast b2) OR ucast b3) # load_words bs"
| "load_words bs = []"

definition store_word :: "u32 \<Rightarrow> byte list" where
  "store_word tmp = [ucast (drop_bit 24 tmp), ucast (drop_bit 16 tmp), ucast (drop_bit 8 tmp), ucast tmp]"

section \<open>SHA-1\<close>

fun sha1_schedule :: "nat \<Rightarrow> nat \<Rightarrow> u32 list \<Rightarrow> u32 list" where
  "sha1_schedule 0 t W = W"
| "sha1_schedule (Suc k) t W =
     sha1_schedule k (Suc t) (W @ [rol 1 (W ! (t - 3) XOR W ! (t - 8) XOR W ! (t - 14) XOR W ! (t - 16))])"

definition sha1_round :: "nat \<Rightarrow> u32 \<Rightarrow> u32 \<times> u32 \<times> u32 \<times> u32 \<times> u32 \<Rightarrow> u32 \<times> u32 \<times> u32 \<times> u32 \<times> u32" where
  "sha1_round t w ABCDE =
     (let (A, B, C, D, E) = ABCDE;
          tmp = rol 5 A + E + w;
          tmp = (if t < 20 then tmp + ((D XOR (B AND (C XOR D))) + 0x5A827999)
                 else if t < 40 then tmp + ((B XOR C XOR D) + 0x6ED9EBA1)
                 else if t < 60 then tmp + (((B AND C) OR (D AND (B OR C))) + 0x8F1BBCDC)
                 else tmp + ((B XOR C XOR D) + 0xCA62C1D6)) in
      (tmp, A, rol 30 B, C, D))"

fun sha1_rounds :: "nat \<Rightarrow> u32 list \<Rightarrow> u32 \<times> u32 \<times> u32 \<times> u32 \<times> u32 \<Rightarrow> u32 \<times> u32 \<times> u32 \<times> u32 \<times> u32" where
  "sha1_rounds t [] s = s"
| "sha1_rounds t (w # ws) s = sha1_rounds (Suc t) ws (sha1_round t w s)"

definition SHA1_Transform :: "HASH_CTX \<Rightarrow> HASH_CTX" where
  "SHA1_Transform ctx =
     (let W = sha1_schedule 64 16 (load_words (h_buf ctx)); s = h_state ctx;
          (A, B, C, D, E) = sha1_rounds 0 W (s ! 0, s ! 1, s ! 2, s ! 3, s ! 4) in
      ctx\<lparr>h_state := [s ! 0 + A, s ! 1 + B, s ! 2 + C, s ! 3 + D, s ! 4 + E]\<rparr>)"

section \<open>SHA-256\<close>

text \<open>The table, in the rows of the source.\<close>

definition K :: "u32 list" where
  "K = concat [
    [0x428a2f98, 0x71374491, 0xb5c0fbcf, 0xe9b5dba5],
    [0x3956c25b, 0x59f111f1, 0x923f82a4, 0xab1c5ed5],
    [0xd807aa98, 0x12835b01, 0x243185be, 0x550c7dc3],
    [0x72be5d74, 0x80deb1fe, 0x9bdc06a7, 0xc19bf174],
    [0xe49b69c1, 0xefbe4786, 0x0fc19dc6, 0x240ca1cc],
    [0x2de92c6f, 0x4a7484aa, 0x5cb0a9dc, 0x76f988da],
    [0x983e5152, 0xa831c66d, 0xb00327c8, 0xbf597fc7],
    [0xc6e00bf3, 0xd5a79147, 0x06ca6351, 0x14292967],
    [0x27b70a85, 0x2e1b2138, 0x4d2c6dfc, 0x53380d13],
    [0x650a7354, 0x766a0abb, 0x81c2c92e, 0x92722c85],
    [0xa2bfe8a1, 0xa81a664b, 0xc24b8b70, 0xc76c51a3],
    [0xd192e819, 0xd6990624, 0xf40e3585, 0x106aa070],
    [0x19a4c116, 0x1e376c08, 0x2748774c, 0x34b0bcb5],
    [0x391c0cb3, 0x4ed8aa4a, 0x5b9cca4f, 0x682e6ff3],
    [0x748f82ee, 0x78a5636f, 0x84c87814, 0x8cc70208],
    [0x90befffa, 0xa4506ceb, 0xbef9a3f7, 0xc67178f2]]"

fun sha256_schedule :: "nat \<Rightarrow> nat \<Rightarrow> u32 list \<Rightarrow> u32 list" where
  "sha256_schedule 0 t W = W"
| "sha256_schedule (Suc k) t W =
     (let s0 = ror (W ! (t - 15)) 7 XOR ror (W ! (t - 15)) 18 XOR shr (W ! (t - 15)) 3;
          s1 = ror (W ! (t - 2)) 17 XOR ror (W ! (t - 2)) 19 XOR shr (W ! (t - 2)) 10 in
      sha256_schedule k (Suc t) (W @ [W ! (t - 16) + s0 + W ! (t - 7) + s1]))"

type_synonym sha256_vars = "u32 \<times> u32 \<times> u32 \<times> u32 \<times> u32 \<times> u32 \<times> u32 \<times> u32"

definition sha256_round :: "u32 \<Rightarrow> u32 \<Rightarrow> sha256_vars \<Rightarrow> sha256_vars" where
  "sha256_round k w v =
     (let (A, B, C, D, E, F, G, H) = v;
          s0 = ror A 2 XOR ror A 13 XOR ror A 22;
          maj = (A AND B) XOR (A AND C) XOR (B AND C);
          t2 = s0 + maj;
          s1 = ror E 6 XOR ror E 11 XOR ror E 25;
          ch = (E AND F) XOR ((NOT E) AND G);
          t1 = H + s1 + ch + k + w in
      (t1 + t2, A, B, C, D + t1, E, F, G))"

fun sha256_rounds :: "u32 list \<Rightarrow> u32 list \<Rightarrow> sha256_vars \<Rightarrow> sha256_vars" where
  "sha256_rounds (k # ks) (w # ws) v = sha256_rounds ks ws (sha256_round k w v)"
| "sha256_rounds ks ws v = v"

definition SHA256_Transform :: "HASH_CTX \<Rightarrow> HASH_CTX" where
  "SHA256_Transform ctx =
     (let W = sha256_schedule 48 16 (load_words (h_buf ctx)); s = h_state ctx;
          (A, B, C, D, E, F, G, H) = sha256_rounds K W (s ! 0, s ! 1, s ! 2, s ! 3, s ! 4, s ! 5, s ! 6, s ! 7) in
      ctx\<lparr>h_state := [s ! 0 + A, s ! 1 + B, s ! 2 + C, s ! 3 + D, s ! 4 + E, s ! 5 + F, s ! 6 + G, s ! 7 + H]\<rparr>)"

section \<open>Updating and finishing\<close>

text \<open>The loops are the same for both functions; \<open>transform\<close> is the one or the other.\<close>

fun update_loop :: "(HASH_CTX \<Rightarrow> HASH_CTX) \<Rightarrow> nat \<Rightarrow> byte list \<Rightarrow> HASH_CTX \<Rightarrow> HASH_CTX" where
  "update_loop transform i [] ctx = ctx"
| "update_loop transform i (b # bs) ctx =
     (let ctx = ctx\<lparr>h_buf := (h_buf ctx)[i := b]\<rparr> in
      if Suc i = 64 then update_loop transform 0 bs (transform ctx)
      else update_loop transform (Suc i) bs ctx)"

definition hash_update :: "(HASH_CTX \<Rightarrow> HASH_CTX) \<Rightarrow> HASH_CTX \<Rightarrow> byte list \<Rightarrow> HASH_CTX" where
  "hash_update transform ctx data =
     update_loop transform (unat (h_count ctx AND 63)) data (ctx\<lparr>h_count := h_count ctx + of_nat (length data)\<rparr>)"

text \<open>The loop that pads with zero bytes; the bound \<open>k\<close> is never reached (\<open>pad_loop_ends\<close>).\<close>

fun pad_loop :: "(HASH_CTX \<Rightarrow> HASH_CTX) \<Rightarrow> nat \<Rightarrow> HASH_CTX \<Rightarrow> HASH_CTX option" where
  "pad_loop transform 0 ctx = None"
| "pad_loop transform (Suc k) ctx =
     (if h_count ctx AND 63 \<noteq> 56 then pad_loop transform k (hash_update transform ctx [0]) else Some ctx)"

fun length_loop :: "(HASH_CTX \<Rightarrow> HASH_CTX) \<Rightarrow> 64 word \<Rightarrow> nat list \<Rightarrow> HASH_CTX \<Rightarrow> HASH_CTX" where
  "length_loop transform cnt [] ctx = ctx"
| "length_loop transform cnt (i # is) ctx =
     length_loop transform cnt is (hash_update transform ctx [ucast (drop_bit ((7 - i) * 8) cnt)])"

definition hash_final :: "(HASH_CTX \<Rightarrow> HASH_CTX) \<Rightarrow> HASH_CTX \<Rightarrow> byte list option" where
  "hash_final transform ctx =
     (let cnt = h_count ctx * 8 in
      map_option (\<lambda>ctx. concat (map store_word (h_state (length_loop transform cnt [0..<8] ctx))))
        (pad_loop transform 64 (hash_update transform ctx [0x80])))"

text \<open>\<open>buf\<close> is what the context's buffer holds before it is initialised.\<close>

definition SHA_init :: "byte list \<Rightarrow> HASH_CTX" where
  "SHA_init buf = \<lparr>h_count = 0, h_buf = buf, h_state = [0x67452301, 0xEFCDAB89, 0x98BADCFE, 0x10325476, 0xC3D2E1F0]\<rparr>"

definition SHA_update :: "HASH_CTX \<Rightarrow> byte list \<Rightarrow> HASH_CTX" where "SHA_update = hash_update SHA1_Transform"
definition SHA_final :: "HASH_CTX \<Rightarrow> byte list option" where "SHA_final = hash_final SHA1_Transform"

definition SHA_hash :: "byte list \<Rightarrow> byte list \<Rightarrow> byte list option" where
  "SHA_hash buf data = map_option (take SHA_DIGEST_SIZE) (SHA_final (SHA_update (SHA_init buf) data))"

definition SHA256_init :: "byte list \<Rightarrow> HASH_CTX" where
  "SHA256_init buf = \<lparr>h_count = 0, h_buf = buf, h_state = [0x6a09e667, 0xbb67ae85, 0x3c6ef372, 0xa54ff53a,
     0x510e527f, 0x9b05688c, 0x1f83d9ab, 0x5be0cd19]\<rparr>"

definition SHA256_update :: "HASH_CTX \<Rightarrow> byte list \<Rightarrow> HASH_CTX" where "SHA256_update = hash_update SHA256_Transform"
definition SHA256_final :: "HASH_CTX \<Rightarrow> byte list option" where "SHA256_final = hash_final SHA256_Transform"

definition SHA256_hash :: "byte list \<Rightarrow> byte list \<Rightarrow> byte list option" where
  "SHA256_hash buf data = map_option (take SHA256_DIGEST_SIZE) (SHA256_final (SHA256_update (SHA256_init buf) data))"

section \<open>The construction behind both functions\<close>

text \<open>The blocks of a padded message, folded over the state.\<close>

function md :: "('s \<Rightarrow> byte list \<Rightarrow> 's) \<Rightarrow> 's \<Rightarrow> byte list \<Rightarrow> 's" where
  "md compress s m = (if length m < 64 then s else md compress (compress s (take 64 m)) (drop 64 m))"
  by pat_completeness auto
termination by (relation "measure (\<lambda>(c, s, m). length m)") auto

declare md.simps [simp del]

definition be64 :: "64 word \<Rightarrow> byte list" where
  "be64 n = map (\<lambda>i. ucast (drop_bit ((7 - i) * 8) n)) [0..<8]"

definition pad :: "byte list \<Rightarrow> byte list" where
  "pad m = m @ [0x80] @ replicate ((119 - length m mod 64) mod 64) 0 @ be64 (of_nat (length m) * 8)"

lemma md_short: "length m < 64 \<Longrightarrow> md compress s m = s"
  by (simp add: md.simps)

lemma md_append_block:
  "64 dvd length m \<Longrightarrow> length b = 64 \<Longrightarrow> md compress s (m @ b) = compress (md compress s m) b"
proof (induction compress s m rule: md.induct)
  case (1 compress s m)
  show ?case
  proof (cases "length m < 64")
    case True
    then have "m = []" using 1(2) by (cases "length m = 0") (auto dest: dvd_imp_le)
    then show ?thesis using 1(3) by (simp add: md.simps [of _ _ b] md_short)
  next
    case False
    have "64 dvd length (drop 64 m)" using 1(2) by (simp add: dvd_diff_nat)
    from 1(1) [OF False this 1(3)] show ?thesis
      using False by (simp add: md.simps [of compress s "m @ b"] md.simps [of compress s m])
  qed
qed

lemma count_index: "unat (of_nat n AND 63 :: 64 word) = n mod 64"
proof -
  have "of_nat n AND (63 :: 64 word) = take_bit 6 (of_nat n)" by (simp add: take_bit_eq_mask mask_eq_exp_minus_1)
  then have "unat (of_nat n AND 63 :: 64 word) = take_bit 6 (take_bit 64 n)" by (simp add: unsigned_take_bit_eq unsigned_of_nat)
  also have "\<dots> = take_bit 6 n" by simp
  finally show ?thesis by (simp add: take_bit_eq_mod)
qed

lemma pad_step: "r < 64 \<Longrightarrow> r \<noteq> 56 \<Longrightarrow> (120 - r) mod 64 = Suc ((120 - Suc r mod 64) mod 64)" for r :: nat
  by (cases "r < 56"; cases "r = 63") (simp_all add: le_mod_geq)

lemma length_pad: "length (pad m) mod 64 = 0"
proof -
  let ?n = "length m" and ?r = "length m mod 64"
  have r: "?r < 64" "?n = 64 * (?n div 64) + ?r" by simp_all
  have "length (pad m) = 64 * (?n div 64) + ?r + 9 + (119 - ?r) mod 64" using r(2) by (simp add: pad_def be64_def)
  moreover have "?r + 9 + (119 - ?r) mod 64 = (if ?r < 56 then 64 else 128)" using r(1) by (simp add: le_mod_geq)
  ultimately have "length (pad m) = 64 * (?n div 64) + (if ?r < 56 then 64 else 128)" by linarith
  then show ?thesis by simp
qed

text \<open>
  A transformation of the context that replaces the state by \<open>compress\<close> of the state and the
  block in the buffer.
\<close>

locale block_hash =
  fixes transform :: "HASH_CTX \<Rightarrow> HASH_CTX" and compress :: "u32 list \<Rightarrow> byte list \<Rightarrow> u32 list"
  assumes transform_state: "length (h_buf ctx) = 64 \<Longrightarrow> h_state (transform ctx) = compress (h_state ctx) (h_buf ctx)"
    and transform_count: "h_count (transform ctx) = h_count ctx"
    and transform_buf: "h_buf (transform ctx) = h_buf ctx"
begin

text \<open>The context after the message \<open>m\<close> has been added to the initial state \<open>s\<close>.\<close>

definition holds :: "u32 list \<Rightarrow> byte list \<Rightarrow> HASH_CTX \<Rightarrow> bool" where
  "holds s m ctx \<longleftrightarrow> length (h_buf ctx) = 64 \<and> take (length m mod 64) (h_buf ctx) = drop (length m - length m mod 64) m
     \<and> h_state ctx = md compress s (take (length m - length m mod 64) m)"

lemma loop_holds:
  "holds s m ctx \<Longrightarrow> holds s (m @ data) (update_loop transform (length m mod 64) data ctx)
     \<and> h_count (update_loop transform (length m mod 64) data ctx) = h_count ctx"
proof (induction data arbitrary: m ctx)
  case (Cons b bs)
  let ?i = "length m mod 64" and ?c = "ctx\<lparr>h_buf := (h_buf ctx)[length m mod 64 := b]\<rparr>"
  let ?k = "length m - ?i"
  have k: "64 dvd length (take ?k m)" by (simp add: dvd_minus_mod)
  have i: "?i < 64" "?k + ?i = length m" by simp_all
  have h: "length (h_buf ctx) = 64" "take ?i (h_buf ctx) = drop ?k m" "h_state ctx = md compress s (take ?k m)"
    using Cons.prems by (simp_all add: holds_def)
  have buf: "take (Suc ?i) (h_buf ?c) = drop ?k (m @ [b])" using h(1,2) i by (simp add: take_Suc_conv_app_nth)
  show ?case
  proof (cases "Suc ?i = 64")
    case True
    then have len: "length (m @ [b]) mod 64 = 0" by (simp add: mod_Suc)
    have e: "h_buf ?c = drop ?k (m @ [b])" using buf True h(1) by simp
    have "h_state (transform ?c) = compress (h_state ctx) (h_buf ?c)" using transform_state [of ?c] h(1) by simp
    then have "h_state (transform ?c) = compress (md compress s (take ?k m)) (drop ?k (m @ [b]))" unfolding e h(3) .
    also have "\<dots> = md compress s (take ?k m @ drop ?k (m @ [b]))"
      by (rule md_append_block [OF k, symmetric]) (use True i in simp)
    also have "take ?k m @ drop ?k (m @ [b]) = m @ [b]" by simp
    finally have "holds s (m @ [b]) (transform ?c)" using len h(1) by (simp add: holds_def transform_buf)
    from Cons.IH [OF this] show ?thesis using True len by (simp add: transform_count)
  next
    case False
    then have s: "length (m @ [b]) mod 64 = Suc ?i" by (simp add: mod_Suc)
    have "holds s (m @ [b]) ?c" using buf h(1,3) i s unfolding holds_def by (simp only: s) simp
    from Cons.IH [OF this] s show ?thesis using False by simp
  qed
qed simp

text \<open>With the count of the bytes added.\<close>

definition absorbed :: "u32 list \<Rightarrow> byte list \<Rightarrow> HASH_CTX \<Rightarrow> bool" where
  "absorbed s m ctx \<longleftrightarrow> holds s m ctx \<and> h_count ctx = of_nat (length m)"

lemma update_absorbs: "absorbed s m ctx \<Longrightarrow> absorbed s (m @ data) (hash_update transform ctx data)"
  using loop_holds [of s m "ctx\<lparr>h_count := h_count ctx + of_nat (length data)\<rparr>" data]
  by (simp add: absorbed_def hash_update_def count_index holds_def)

lemma pad_loop_ends:
  "absorbed s m ctx \<Longrightarrow> z = (120 - length m mod 64) mod 64 \<Longrightarrow> z < k \<Longrightarrow>
     \<exists>ctx'. pad_loop transform k ctx = Some ctx' \<and> absorbed s (m @ replicate z 0) ctx'"
proof (induction k arbitrary: m ctx z)
  case (Suc k)
  have c: "unat (h_count ctx AND 63) = length m mod 64" using Suc.prems(1) by (simp add: absorbed_def count_index)
  have e: "h_count ctx AND 63 = 56 \<longleftrightarrow> length m mod 64 = 56" using c by (auto simp: word_unat_eq_iff)
  show ?case
  proof (cases "length m mod 64 = 56")
    case True
    then show ?thesis using Suc.prems e by simp
  next
    case False
    let ?z = "(120 - length (m @ [0 :: byte]) mod 64) mod 64"
    have z: "z = Suc ?z" using Suc.prems(2) False pad_step [of "length m mod 64"] by (simp add: mod_Suc_eq)
    from Suc.IH [OF update_absorbs [OF Suc.prems(1), of "[0]"] refl] z Suc.prems(3) obtain ctx' where
      "pad_loop transform k (hash_update transform ctx [0]) = Some ctx'" "absorbed s ((m @ [0]) @ replicate ?z 0) ctx'" by auto
    then show ?thesis using False e z by simp
  qed
qed simp

lemma length_loop_absorbs:
  "absorbed s m ctx \<Longrightarrow> absorbed s (m @ map (\<lambda>i. ucast (drop_bit ((7 - i) * 8) cnt)) is) (length_loop transform cnt is ctx)"
proof (induction "is" arbitrary: m ctx)
  case (Cons i "is")
  from Cons.IH [OF update_absorbs [OF Cons.prems, of "[ucast (drop_bit ((7 - i) * 8) cnt)]"]] show ?case by simp
qed simp

lemma final_md:
  assumes "absorbed s m ctx"
  shows "hash_final transform ctx = Some (concat (map store_word (md compress s (pad m))))"
proof -
  let ?z = "(119 - length m mod 64) mod 64" and ?m = "m @ [0x80]"
  have z: "?z = (120 - length ?m mod 64) mod 64" by (simp add: mod_Suc)
  obtain ctx' where p: "pad_loop transform 64 (hash_update transform ctx [0x80]) = Some ctx'" "absorbed s (?m @ replicate ?z 0) ctx'"
    using pad_loop_ends [OF update_absorbs [OF assms, of "[0x80]"] z, of 64] by auto
  have "absorbed s (pad m) (length_loop transform (of_nat (length m) * 8) [0..<8] ctx')"
    using length_loop_absorbs [OF p(2), of "of_nat (length m) * 8" "[0..<8]"] by (simp add: pad_def be64_def)
  moreover have "length (pad m) mod 64 = 0" by (simp add: length_pad)
  ultimately show ?thesis using assms p(1) by (simp add: hash_final_def absorbed_def holds_def Let_def)
qed

lemma init_absorbed: "length (h_buf ctx) = 64 \<Longrightarrow> h_count ctx = 0 \<Longrightarrow> absorbed (h_state ctx) [] ctx"
  by (simp add: absorbed_def holds_def md_short)

end

section \<open>SHA-1 as the standard defines it\<close>

text \<open>FIPS 180: the message schedule as a recursion, the round functions and constants.\<close>

fun fips_W :: "u32 list \<Rightarrow> nat \<Rightarrow> u32" where
  "fips_W M t = (if t < 16 then M ! t
     else rol 1 (fips_W M (t - 3) XOR fips_W M (t - 8) XOR fips_W M (t - 14) XOR fips_W M (t - 16)))"

declare fips_W.simps [simp del]

definition fips_f :: "nat \<Rightarrow> u32 \<Rightarrow> u32 \<Rightarrow> u32 \<Rightarrow> u32" where
  "fips_f t x y z =
     (if t < 20 then (x AND y) XOR (NOT x AND z)
      else if 40 \<le> t \<and> t < 60 then (x AND y) XOR (x AND z) XOR (y AND z)
      else x XOR y XOR z)"

definition fips_K :: "nat \<Rightarrow> u32" where
  "fips_K t = (if t < 20 then 0x5a827999 else if t < 40 then 0x6ed9eba1 else if t < 60 then 0x8f1bbcdc else 0xca62c1d6)"

definition fips_round :: "u32 list \<Rightarrow> nat \<Rightarrow> u32 \<times> u32 \<times> u32 \<times> u32 \<times> u32 \<Rightarrow> u32 \<times> u32 \<times> u32 \<times> u32 \<times> u32" where
  "fips_round M t = (\<lambda>(a, b, c, d, e). (rol 5 a + fips_f t b c d + e + fips_K t + fips_W M t, a, rol 30 b, c, d))"

definition fips_compress :: "u32 list \<Rightarrow> byte list \<Rightarrow> u32 list" where
  "fips_compress H blk =
     (let (a, b, c, d, e) = fold (fips_round (load_words blk)) [0..<80] (H ! 0, H ! 1, H ! 2, H ! 3, H ! 4) in
      [H ! 0 + a, H ! 1 + b, H ! 2 + c, H ! 3 + d, H ! 4 + e])"

definition sha1_spec :: "byte list \<Rightarrow> byte list" where
  "sha1_spec m = concat (map store_word (md fips_compress [0x67452301, 0xefcdab89, 0x98badcfe, 0x10325476, 0xc3d2e1f0] (pad m)))"

text \<open>The code's formulas for the choice and majority functions.\<close>

lemma ch_eq: "D XOR (B AND (C XOR D)) = (B AND C) XOR (NOT B AND D)" for B C D :: u32
  by (rule bit_word_eqI) (auto simp: bit_simps)

lemma maj_eq: "(B AND C) OR (D AND (B OR C)) = (B AND C) XOR (B AND D) XOR (C AND D)" for B C D :: u32
  by (rule bit_word_eqI) (auto simp: bit_simps)

lemma sha1_round_fips: "sha1_round t (fips_W M t) s = fips_round M t s"
  by (cases s) (simp add: sha1_round_def fips_round_def fips_f_def fips_K_def ch_eq maj_eq Let_def ac_simps)

lemma sha1_rounds_fold:
  "sha1_rounds t (map (fips_W M) [t..<t + k]) s = fold (fips_round M) [t..<t + k] s"
proof (induction k arbitrary: t s)
  case (Suc k)
  have "[t..<t + Suc k] = t # [Suc t..<Suc t + k]" by (simp add: upt_conv_Cons)
  then show ?case using Suc [of "Suc t"] by (simp add: sha1_round_fips)
qed simp

lemma sha1_schedule_map:
  "16 \<le> t \<Longrightarrow> sha1_schedule k t (map (fips_W M) [0..<t]) = map (fips_W M) [0..<t + k]"
proof (induction k arbitrary: t)
  case (Suc k)
  have "map (fips_W M) [0..<t] @ [rol 1 (fips_W M (t - 3) XOR fips_W M (t - 8) XOR fips_W M (t - 14) XOR fips_W M (t - 16))]
      = map (fips_W M) [0..<Suc t]"
    using Suc.prems by (simp add: fips_W.simps [of M t])
  then show ?case using Suc.IH [of "Suc t"] Suc.prems by simp
qed simp

lemma load_words_fips: "length M = 16 \<Longrightarrow> M = map (fips_W M) [0..<16]"
  by (rule nth_equalityI) (simp_all add: fips_W.simps)

lemma length_load_words: "length (load_words bs) = length bs div 4"
  by (induction bs rule: load_words.induct) auto

lemma SHA1_Transform_fips:
  assumes "length (h_buf ctx) = 64"
  shows "SHA1_Transform ctx = ctx\<lparr>h_state := fips_compress (h_state ctx) (h_buf ctx)\<rparr>"
proof -
  let ?M = "load_words (h_buf ctx)"
  have "sha1_schedule 64 16 ?M = map (fips_W ?M) [0..<80]"
    using load_words_fips [of ?M] sha1_schedule_map [of 16 64 ?M] assms by (simp add: length_load_words)
  then show ?thesis using sha1_rounds_fold [of 0 ?M 80]
    by (simp add: SHA1_Transform_def fips_compress_def Let_def split: prod.splits)
qed

lemma SHA256_Transform_frame:
  "h_count (SHA256_Transform ctx) = h_count ctx" "h_buf (SHA256_Transform ctx) = h_buf ctx"
  "h_state (SHA256_Transform ctx) = h_state (SHA256_Transform \<lparr>h_count = 0, h_buf = h_buf ctx, h_state = h_state ctx\<rparr>)"
  by (simp_all add: SHA256_Transform_def Let_def split: prod.splits)

lemma SHA1_Transform_frame: "h_count (SHA1_Transform ctx) = h_count ctx" "h_buf (SHA1_Transform ctx) = h_buf ctx"
  by (simp_all add: SHA1_Transform_def Let_def split: prod.splits)

definition sha256_compress :: "u32 list \<Rightarrow> byte list \<Rightarrow> u32 list" where
  "sha256_compress s blk = h_state (SHA256_Transform \<lparr>h_count = 0, h_buf = blk, h_state = s\<rparr>)"

interpretation sha1: block_hash SHA1_Transform fips_compress
  by unfold_locales (simp_all add: SHA1_Transform_fips SHA1_Transform_frame)

interpretation sha256: block_hash SHA256_Transform sha256_compress
  by (unfold_locales, unfold sha256_compress_def) (rule SHA256_Transform_frame)+

lemma md_length:
  "(\<And>s b. length (compress s b) = n) \<Longrightarrow> length s = n \<Longrightarrow> length (md compress s m) = n"
proof (induction compress s m rule: md.induct)
  case (1 compress s m)
  then show ?case by (subst md.simps) simp
qed

lemma fips_length: "length (fips_compress s b) = 5" and sha256_length: "length (sha256_compress s b) = 8"
  by (simp_all add: fips_compress_def sha256_compress_def SHA256_Transform_def Let_def split: prod.splits)

lemma length_stored: "length (concat (map store_word ws)) = 4 * length ws"
  by (induction ws) (simp_all add: store_word_def)

lemma sha1_spec_length: "length (sha1_spec m) = SHA_DIGEST_SIZE"
proof -
  have "length (md fips_compress [0x67452301, 0xefcdab89, 0x98badcfe, 0x10325476, 0xc3d2e1f0] (pad m)) = 5"
    by (rule md_length) (simp_all add: fips_length)
  then show ?thesis by (simp add: sha1_spec_def length_stored SHA_DIGEST_SIZE_def)
qed

lemma SHA_hash_spec:
  assumes "length buf = 64"
  shows "SHA_hash buf data = Some (sha1_spec data)"
proof -
  have "sha1.absorbed (h_state (SHA_init buf)) data (SHA_update (SHA_init buf) data)"
    using sha1.update_absorbs [OF sha1.init_absorbed, of "SHA_init buf" data] assms by (simp add: SHA_update_def SHA_init_def)
  from sha1.final_md [OF this] have f: "SHA_final (SHA_update (SHA_init buf) data) = Some (sha1_spec data)"
    by (simp add: SHA_final_def sha1_spec_def SHA_init_def)
  then show ?thesis using sha1_spec_length [of data] by (simp add: SHA_hash_def)
qed

section \<open>Properties\<close>

text \<open>
  Property C31. \<open>SHA_hash\<close> computes SHA-1 as FIPS 180 defines it, for every message and whatever the
  context's buffer held before: the message is padded, split into blocks, and each block is folded
  into the state with the standard's schedule, round functions and constants. In particular the
  padding loop ends.
\<close>

theorem SHA_hash_is_sha1:
  assumes "length buf = 64"
  shows "SHA_hash buf data = Some (sha1_spec data)"
  by (rule SHA_hash_spec [OF assms])

theorem SHA_hash_is_sha1_witness:
  "SHA_hash (replicate 64 7) [0x61, 0x62, 0x63] = Some (sha1_spec [0x61, 0x62, 0x63])
     \<and> SHA_hash (replicate 64 7) [] = SHA_hash (replicate 64 0) []"
  using SHA_hash_is_sha1 [of "replicate 64 7"] SHA_hash_is_sha1 [of "replicate 64 0"] by simp

text \<open>
  Feeding a message to either hash function in pieces gives the same digest as feeding it
  at once, however it is cut.
\<close>

theorem hash_in_pieces:
  assumes "length buf = 64"
  shows "SHA_final (SHA_update (SHA_update (SHA_init buf) xs) ys) = SHA_final (SHA_update (SHA_init buf) (xs @ ys))
    \<and> SHA256_final (SHA256_update (SHA256_update (SHA256_init buf) xs) ys) = SHA256_final (SHA256_update (SHA256_init buf) (xs @ ys))"
proof
  have i: "sha1.absorbed (h_state (SHA_init buf)) [] (SHA_init buf)"
    using assms by (intro sha1.init_absorbed) (simp_all add: SHA_init_def)
  note u = sha1.update_absorbs [OF i]
  show "SHA_final (SHA_update (SHA_update (SHA_init buf) xs) ys) = SHA_final (SHA_update (SHA_init buf) (xs @ ys))"
    using sha1.final_md [OF sha1.update_absorbs [OF u [of xs]], of ys] sha1.final_md [OF u [of "xs @ ys"]]
    by (simp add: SHA_final_def SHA_update_def)
  have i: "sha256.absorbed (h_state (SHA256_init buf)) [] (SHA256_init buf)"
    using assms by (intro sha256.init_absorbed) (simp_all add: SHA256_init_def)
  note u = sha256.update_absorbs [OF i]
  show "SHA256_final (SHA256_update (SHA256_update (SHA256_init buf) xs) ys) = SHA256_final (SHA256_update (SHA256_init buf) (xs @ ys))"
    using sha256.final_md [OF sha256.update_absorbs [OF u [of xs]], of ys] sha256.final_md [OF u [of "xs @ ys"]]
    by (simp add: SHA256_final_def SHA256_update_def)
qed

theorem hash_in_pieces_witness:
  "SHA_final (SHA_update (SHA_update (SHA_init (replicate 64 0)) [1, 2]) [3]) = SHA_final (SHA_update (SHA_init (replicate 64 0)) [1, 2, 3])"
  using hash_in_pieces [of "replicate 64 0" "[1, 2]" "[3]"] by simp

end
