(* ===== verification/Rsa.thy ===== *)
theory Rsa
  imports Sha
begin

text \<open>
  Verification of RSA signatures in libmincrypt, rsa.c, which the daemon uses to check the answer
  to its authentication token: Montgomery multiplication on arrays of 32-bit words, modular
  exponentiation with the exponents 3 and 65537, and the comparison of the padded hash.
  Arrays are lists of words, the least significant word first.
\<close>

section \<open>Words\<close>

type_synonym u64 = "64 word"

definition RSANUMBYTES :: nat where "RSANUMBYTES = 256"
definition RSANUMWORDS :: nat where "RSANUMWORDS = RSANUMBYTES div 4"

record RSAPublicKey =
  rsa_len :: int
  n0inv :: u32
  rsa_n :: "u32 list"
  rsa_rr :: "u32 list"
  rsa_exponent :: int

definition lo :: "u64 \<Rightarrow> u32" where "lo A = ucast A"
definition hi :: "u64 \<Rightarrow> u64" where "hi A = drop_bit 32 A"

section \<open>Subtraction and comparison\<close>

text \<open>\<open>A\<close> is a signed 64-bit number: the shift keeps its sign.\<close>

fun sub_words :: "u64 \<Rightarrow> u32 list \<Rightarrow> u32 list \<Rightarrow> u32 list" where
  "sub_words A (a # as) (n # ns) =
     (let A = A + (ucast a - ucast n) in lo A # sub_words (signed_drop_bit 32 A) as ns)"
| "sub_words A as ns = []"

definition subM :: "RSAPublicKey \<Rightarrow> u32 list \<Rightarrow> u32 list" where
  "subM key a = sub_words 0 a (rsa_n key)"

text \<open>The comparison starts at the most significant word.\<close>

fun ge_words :: "u32 list \<Rightarrow> u32 list \<Rightarrow> bool" where
  "ge_words (a # as) (n # ns) = (if a < n then False else if n < a then True else ge_words as ns)"
| "ge_words as ns = True"

definition geM :: "RSAPublicKey \<Rightarrow> u32 list \<Rightarrow> bool" where
  "geM key a = ge_words (rev a) (rev (rsa_n key))"

section \<open>Montgomery multiplication\<close>

text \<open>The loop from the second word on: the words stored, and the two accumulators at the end.\<close>

fun mont_loop :: "u32 \<Rightarrow> u32 \<Rightarrow> u64 \<Rightarrow> u64 \<Rightarrow> u32 list \<Rightarrow> u32 list \<Rightarrow> u32 list \<Rightarrow> u32 list \<times> u64 \<times> u64" where
  "mont_loop a d0 A B (b # bs) (c # cs) (n # ns) =
     (let A = hi A + ucast a * ucast b + ucast c;
          B = hi B + ucast d0 * ucast n + ucast (lo A);
          (ws, A', B') = mont_loop a d0 A B bs cs ns in
      (lo B # ws, A', B'))"
| "mont_loop a d0 A B bs cs ns = ([], A, B)"

definition montMulAdd :: "RSAPublicKey \<Rightarrow> u32 list \<Rightarrow> u32 \<Rightarrow> u32 list \<Rightarrow> u32 list" where
  "montMulAdd key c a b =
     (let A = ucast a * ucast (hd b) + ucast (hd c);
          d0 = lo A * n0inv key;
          B = ucast d0 * ucast (hd (rsa_n key)) + ucast (lo A);
          (ws, A, B) = mont_loop a d0 A B (tl b) (tl c) (tl (rsa_n key));
          A = hi A + hi B;
          c = ws @ [lo A] in
      if hi A \<noteq> 0 then subM key c else c)"

definition montMul :: "RSAPublicKey \<Rightarrow> u32 list \<Rightarrow> u32 list \<Rightarrow> u32 list" where
  "montMul key a b = foldl (\<lambda>c x. montMulAdd key c x b) (replicate (nat (rsa_len key)) 0) a"

section \<open>Exponentiation\<close>

fun square_loop :: "nat \<Rightarrow> RSAPublicKey \<Rightarrow> u32 list \<Rightarrow> u32 list" where
  "square_loop 0 key aR = aR"
| "square_loop (Suc k) key aR = (let aaR = montMul key aR aR in square_loop k key (montMul key aaR aaR))"

text \<open>The result of \<open>modpow\<close> is a fault for other exponents: \<open>aaa\<close> is NULL then.\<close>

definition modpow :: "RSAPublicKey \<Rightarrow> byte list \<Rightarrow> byte list res" where
  "modpow key inout =
     (let a = rev (load_words inout); aR = montMul key a (rsa_rr key) in
      bindr (if rsa_exponent key = 65537 then Inr (montMul key (square_loop 8 key aR) a)
             else if rsa_exponent key = 3 then Inr (montMul key (montMul key aR aR) a)
             else Inl MemFault) (\<lambda>aaa.
        Inr (concat (map store_word (rev (if geM key aaa then subM key aaa else aaa))))))"

section \<open>Verification\<close>

definition kExpectedPadShaRsa2048 :: "byte list" where
  "kExpectedPadShaRsa2048 = [0xdc, 0xbd, 0xbe, 0x42, 0xd5, 0xf5, 0xa7, 0x2e, 0x6e, 0xfc, 0xf5, 0x5d, 0xaf, 0x9d, 0xea, 0x68,
     0x7c, 0xfb, 0xf1, 0x67]"

definition kExpectedPadSha256Rsa2048 :: "byte list" where
  "kExpectedPadSha256Rsa2048 = [0xab, 0x28, 0x8d, 0x8a, 0xd7, 0xd9, 0x59, 0x92, 0xba, 0xcc, 0xf8, 0x67, 0x20, 0xe1, 0x15, 0x2e,
     0x39, 0x8d, 0x80, 0x36, 0xd6, 0x6f, 0xf0, 0xfd, 0x90, 0xe8, 0x7d, 0x8b, 0xe1, 0x7c, 0x87, 0x59]"

text \<open>\<open>stack\<close> is what the hash context's buffer holds before it is initialised.\<close>

definition RSA_verify :: "byte list \<Rightarrow> RSAPublicKey \<Rightarrow> byte list \<Rightarrow> int \<Rightarrow> byte list \<Rightarrow> int \<Rightarrow> bool res" where
  "RSA_verify stack key signature len hash hash_len =
     (if rsa_len key \<noteq> int RSANUMWORDS then Inr False
      else if len \<noteq> int RSANUMBYTES then Inr False
      else if hash_len \<noteq> int SHA_DIGEST_SIZE \<and> hash_len \<noteq> int SHA256_DIGEST_SIZE then Inr False
      else if rsa_exponent key \<noteq> 3 \<and> rsa_exponent key \<noteq> 65537 then Inr False
      else if length signature < RSANUMBYTES \<or> length hash < nat hash_len then Inl MemFault
      else bindr (modpow key (take RSANUMBYTES signature)) (\<lambda>buf.
        let k = nat (len - hash_len);
            buf = take k buf @ map2 (XOR) (drop k buf) hash in
        if hash_len = int SHA_DIGEST_SIZE
        then bindr (from_opt TooDeep (SHA_hash stack buf)) (\<lambda>d. Inr (take SHA_DIGEST_SIZE d = kExpectedPadShaRsa2048))
        else bindr (from_opt TooDeep (SHA256_hash stack buf)) (\<lambda>d. Inr (take SHA256_DIGEST_SIZE d = kExpectedPadSha256Rsa2048))))"

section \<open>The numbers the arrays denote\<close>

fun val :: "u32 list \<Rightarrow> nat" where
  "val [] = 0"
| "val (x # xs) = unat x + 2 ^ 32 * val xs"

lemma val_less: "val xs < 2 ^ (32 * length xs)"
proof (induction xs)
  case (Cons x xs)
  have "unat x < 2 ^ 32" using unsigned_less [of x] by simp
  moreover have "val xs + 1 \<le> 2 ^ (32 * length xs)" using Cons by simp
  then have "2 ^ 32 * (val xs + 1) \<le> 2 ^ 32 * 2 ^ (32 * length xs)" by (rule mult_le_mono2)
  ultimately show ?case by (simp add: power_add)
qed simp

lemma val_append: "val (xs @ ys) = val xs + 2 ^ (32 * length xs) * val ys"
  by (induction xs) (simp_all add: power_add algebra_simps)

lemma val_replicate [simp]: "val (replicate k 0) = 0"
  by (induction k) simp_all

lemma unat_lo: "unat (lo A) = unat A mod 2 ^ 32"
  by (simp add: lo_def unsigned_ucast_eq take_bit_eq_mod)

lemma unat_hi: "unat (hi A) = unat A div 2 ^ 32"
  by (simp add: hi_def drop_bit_eq_div unat_div)

lemma lo_hi: "unat (lo A) + 2 ^ 32 * unat (hi A) = unat A"
  by (simp add: unat_lo unat_hi)

text \<open>A product of two words and two more words fit 64 bits.\<close>

lemma unat_u32_le: "unat (x :: u32) \<le> 2 ^ 32 - 1"
  using unsigned_less [of x, where 'a = nat] by simp

lemma mult_add_bound:
  assumes "a \<le> m" "b \<le> m" "c \<le> m" "d \<le> (m :: nat)"
  shows "d + a * b + c < (m + 1) * (m + 1)"
proof -
  have "a * b \<le> m * m" using assms by (simp add: mult_le_mono)
  then show ?thesis using assms by (simp add: algebra_simps)
qed

lemma unat_fma:
  assumes "unat (D :: u64) < 2 ^ 32"
  shows "unat (D + ucast (a :: u32) * ucast (b :: u32) + ucast (c :: u32) :: u64) = unat D + unat a * unat b + unat c"
proof -
  have b: "unat D + unat a * unat b + unat c < 2 ^ 64"
    using mult_add_bound [OF unat_u32_le [of a] unat_u32_le [of b] unat_u32_le [of c], of "unat D"] assms by simp
  have "unat (D + ucast a * ucast b + ucast c :: u64) = (unat D + unat a * unat b + unat c) mod 2 ^ 64"
    by (simp add: unat_word_ariths unsigned_ucast_eq take_bit_eq_mod mod_simps)
  then show ?thesis using b by simp
qed


lemma hi_less: "unat (hi A) < 2 ^ 32"
  using unsigned_less [of A, where 'a = nat] by (simp add: unat_hi)

text \<open>One pass of the loop adds \<open>a * b\<close> and \<open>d0 * n\<close>, word by word.\<close>

lemma mont_loop_val:
  "length bs = length cs \<Longrightarrow> length ns = length cs \<Longrightarrow> mont_loop a d0 A B bs cs ns = (ws, A', B') \<Longrightarrow>
     length ws = length cs \<and>
     val ws + 2 ^ (32 * length cs) * (unat (hi A') + unat (hi B'))
       = unat (hi A) + unat (hi B) + val cs + unat a * val bs + unat d0 * val ns"
proof (induction cs arbitrary: A B bs ns ws)
  case Nil
  then show ?case by simp
next
  case (Cons c cs)
  obtain b bs' where b: "bs = b # bs'" using Cons.prems(1) by (cases bs) auto
  obtain n ns' where n: "ns = n # ns'" using Cons.prems(2) by (cases ns) auto
  let ?A = "hi A + ucast a * ucast b + ucast c"
  let ?B = "hi B + ucast d0 * ucast n + ucast (lo ?A)"
  obtain vs where vs: "mont_loop a d0 ?A ?B bs' cs ns' = (vs, A', B')" "ws = lo ?B # vs"
    using Cons.prems(3) b n by (auto simp: Let_def split: prod.splits)
  have A: "unat ?A = unat (hi A) + unat a * unat b + unat c" by (rule unat_fma [OF hi_less])
  have B: "unat ?B = unat (hi B) + unat d0 * unat n + unat (lo ?A)" by (rule unat_fma [OF hi_less])
  from Cons.IH [OF _ _ vs(1)] Cons.prems b n have I: "length vs = length cs"
    "val vs + 2 ^ (32 * length cs) * (unat (hi A') + unat (hi B')) = unat (hi ?A) + unat (hi ?B) + val cs + unat a * val bs' + unat d0 * val ns'"
    by auto
  have "val ws + 2 ^ (32 * length (c # cs)) * (unat (hi A') + unat (hi B'))
      = unat (lo ?B) + 2 ^ 32 * (val vs + 2 ^ (32 * length cs) * (unat (hi A') + unat (hi B')))"
    by (simp add: vs(2) power_add algebra_simps)
  also have "\<dots> = (unat (lo ?B) + 2 ^ 32 * unat (hi ?B)) + 2 ^ 32 * unat (hi ?A) + 2 ^ 32 * (val cs + unat a * val bs' + unat d0 * val ns')"
    unfolding I(2) by (simp add: algebra_simps)
  also have "\<dots> = unat (hi B) + unat d0 * unat n + (unat (lo ?A) + 2 ^ 32 * unat (hi ?A)) + 2 ^ 32 * (val cs + unat a * val bs' + unat d0 * val ns')"
    using lo_hi [of ?B] B by linarith
  also have "\<dots> = unat (hi A) + unat (hi B) + val (c # cs) + unat a * val bs + unat d0 * val ns"
    unfolding lo_hi A b n by (simp add: algebra_simps)
  finally show ?case using I(1) vs(2) by simp
qed

text \<open>Subtraction is exact modulo the size of the array; the carry is 0 or -1.\<close>

lemma sint_of_int_u64: "- (2 ^ 32) \<le> x \<Longrightarrow> x < 2 ^ 32 \<Longrightarrow> sint (of_int x :: u64) = x"
  by (simp add: signed_of_int signed_take_bit_int_eq_self)

lemma uint_lo_of_int: "uint (lo (of_int x)) = x mod 2 ^ 32"
proof -
  have "uint (lo (of_int x)) = (x mod 2 ^ 64) mod 2 ^ 32"
    by (simp add: lo_def unsigned_ucast_eq unsigned_of_int take_bit_eq_mod)
  also have "\<dots> = x mod 2 ^ 32" by (rule mod_mod_cancel) simp
  finally show ?thesis .
qed

lemma sub_step:
  fixes a n :: u32 and A X :: u64
  assumes "A = 0 \<or> A = - 1" and X_def: "X = A + (ucast a - ucast n)"
  shows "(signed_drop_bit 32 X = 0 \<or> signed_drop_bit 32 X = - 1) \<and>
    int (unat (lo X)) + 2 ^ 32 * sint (signed_drop_bit 32 X) = sint A + int (unat a) - int (unat n)"
proof -
  let ?x = "sint A + uint a - uint n"
  have u: "0 \<le> uint a" "uint a < 2 ^ 32" "0 \<le> uint n" "uint n < 2 ^ 32"
    using unsigned_less [of a, where 'a = int] unsigned_less [of n, where 'a = int] by simp_all
  have "sint A = 0 \<or> sint A = - 1" using assms(1) by auto
  then have b: "- (2 ^ 32) \<le> ?x" "?x < 2 ^ 32" using u by linarith+
  have X: "X = of_int ?x" unfolding X_def of_int_add of_int_diff of_int_sint ucast_eq scast_id by (rule add_diff_eq)
  have s: "sint X = ?x" unfolding X by (rule sint_of_int_u64 [OF b])
  have d: "sint (signed_drop_bit 32 X) = ?x div 2 ^ 32" by (simp add: sint_signed_drop_bit_eq s drop_bit_eq_div)
  have "?x div 2 ^ 32 = 0 \<or> ?x div 2 ^ 32 = -1" using b by auto
  then have "sint (signed_drop_bit 32 X) = sint (0 :: u64) \<or> sint (signed_drop_bit 32 X) = sint (- 1 :: u64)" by (simp add: d)
  then have "signed_drop_bit 32 X = 0 \<or> signed_drop_bit 32 X = - 1" by (metis signed_word_eqI)
  moreover have "uint (lo X) = ?x mod 2 ^ 32" unfolding X by (rule uint_lo_of_int)
  ultimately show ?thesis using d by simp
qed

lemma sub_words_val:
  "length as = length ns \<Longrightarrow> A = 0 \<or> A = - 1 \<Longrightarrow>
     \<exists>k. length (sub_words A as ns) = length as \<and>
       int (val (sub_words A as ns)) = int (val as) - int (val ns) + sint A + 2 ^ (32 * length as) * k"
proof (induction A as ns rule: sub_words.induct)
  case (1 A a as n ns)
  let ?X = "A + (ucast a - ucast n)"
  from sub_step [OF 1(3) refl, of a n] have s: "signed_drop_bit 32 ?X = 0 \<or> signed_drop_bit 32 ?X = - 1"
    "int (unat (lo ?X)) + 2 ^ 32 * sint (signed_drop_bit 32 ?X) = sint A + int (unat a) - int (unat n)" by auto
  from 1(1) [OF refl _ s(1)] 1(2) obtain k where k: "length (sub_words (signed_drop_bit 32 ?X) as ns) = length as"
    "int (val (sub_words (signed_drop_bit 32 ?X) as ns)) = int (val as) - int (val ns) + sint (signed_drop_bit 32 ?X) + 2 ^ (32 * length as) * k"
    by auto
  show ?case using k s(2) by (intro exI [of _ k]) (simp add: Let_def power_add algebra_simps)
qed auto

lemma subM_val:
  assumes "length a = length (rsa_n key)"
  shows "length (subM key a) = length a" "int (val (subM key a)) = (int (val a) - int (val (rsa_n key))) mod 2 ^ (32 * length a)"
proof -
  let ?R = "2 ^ (32 * length a) :: int"
  obtain k where k: "length (subM key a) = length a"
    "int (val (subM key a)) = int (val a) - int (val (rsa_n key)) + ?R * k"
    using sub_words_val [OF assms, of 0] by (auto simp: subM_def)
  have "int (val (subM key a)) < ?R" using val_less [of "subM key a"] k(1) by (metis of_nat_less_iff of_nat_numeral of_nat_power)
  then have "int (val (subM key a)) mod ?R = int (val (subM key a))" by simp
  then show "int (val (subM key a)) = (int (val a) - int (val (rsa_n key))) mod ?R" unfolding k(2) by simp
qed (use sub_words_val [OF assms, of 0] in \<open>auto simp: subM_def\<close>)

lemma subM_exact:
  assumes len: "length a = length (rsa_n key)" and ge: "val (rsa_n key) \<le> val a"
  shows "val (subM key a) = val a - val (rsa_n key)"
proof -
  let ?R = "2 ^ (32 * length a) :: nat"
  have "int (val (subM key a)) = (int (val a) - int (val (rsa_n key))) mod int ?R" using subM_val(2) [OF len] by simp
  also have "\<dots> = int (val a) - int (val (rsa_n key))" using ge val_less [of a] by (intro mod_pos_pos_trivial) linarith+
  finally show ?thesis by linarith
qed

lemma val_eq_less:
  assumes "length xs = length ys" "x < y"
  shows "val (xs @ [x]) < val (ys @ [y])"
proof -
  let ?R = "2 ^ (32 * length ys) :: nat"
  have "val xs < ?R" using val_less [of xs] assms(1) by simp
  moreover have "unat x + 1 \<le> unat y" using assms(2) by (simp add: word_less_nat_alt)
  then have "?R * (unat x + 1) \<le> ?R * unat y" by (rule mult_le_mono2)
  ultimately show ?thesis using assms(1) by (simp add: val_append)
qed

lemma ge_words_val: "length as = length ns \<Longrightarrow> ge_words as ns \<longleftrightarrow> val (rev ns) \<le> val (rev as)"
proof (induction as ns rule: ge_words.induct)
  case (1 a as n ns)
  then show ?case using val_eq_less [of "rev as" "rev ns" a n] val_eq_less [of "rev ns" "rev as" n a]
    by (auto simp: val_append)
qed auto

lemma geM_val: "length a = length (rsa_n key) \<Longrightarrow> geM key a \<longleftrightarrow> val (rsa_n key) \<le> val a"
  by (simp add: geM_def ge_words_val)


text \<open>What the comments in the header say of the precomputed fields.\<close>

definition key_ok :: "RSAPublicKey \<Rightarrow> bool" where
  "key_ok key \<longleftrightarrow> rsa_n key \<noteq> [] \<and> rsa_len key = int (length (rsa_n key)) \<and> length (rsa_rr key) = length (rsa_n key)
     \<and> hd (rsa_n key) * n0inv key = - 1
     \<and> val (rsa_rr key) mod val (rsa_n key) = (2 ^ (32 * length (rsa_n key))) ^ 2 mod val (rsa_n key)"

text \<open>The first word of the sum vanishes.\<close>

lemma first_word_zero:
  assumes "n0 * ninv = (- 1 :: u32)" "unat B = unat (x * ninv) * unat n0 + unat x"
  shows "unat B = 2 ^ 32 * unat (hi B)"
proof -
  have "x * ninv * n0 + x = x * (n0 * ninv) + x" by (simp add: ac_simps)
  then have "x * ninv * n0 + x = 0" by (simp only: assms(1)) simp
  then have "unat (x * ninv * n0 + x) = 0" by simp
  moreover have "unat (x * ninv * n0 + x) = (unat (x * ninv) * unat n0 + unat x) mod 2 ^ 32"
    unfolding unat_word_ariths(1) [of "x * ninv * n0" x] unat_word_ariths(2) [of "x * ninv" n0] by (simp add: mod_add_left_eq)
  ultimately have "unat B mod 2 ^ 32 = 0" unfolding assms(2) by simp
  then show ?thesis by (simp add: unat_hi mult_div_mod_eq [symmetric] dvd_eq_mod_eq_0)
qed

text \<open>The sum of one round, before the last subtraction.\<close>

lemma montMulAdd_sum:
  assumes key: "key_ok key" and len: "length c = length (rsa_n key)" "length b = length (rsa_n key)"
  shows "\<exists>d T ws h. d < 2 ^ 32 \<and> 2 ^ 32 * T = val c + unat a * val b + d * val (rsa_n key)
    \<and> T = val ws + 2 ^ (32 * length ws) * h \<and> length ws = length (rsa_n key)
    \<and> montMulAdd key c a b = (if h \<noteq> 0 then subM key ws else ws)"
proof -
  obtain c0 cs where c: "c = c0 # cs" using key len by (cases c) (auto simp: key_ok_def)
  obtain b0 bs where b: "b = b0 # bs" using key len by (cases b) (auto simp: key_ok_def)
  obtain n0 ns where n: "rsa_n key = n0 # ns" using key by (cases "rsa_n key") (auto simp: key_ok_def)
  define A where "A = (ucast a * ucast b0 + ucast c0 :: u64)"
  define d where "d = lo A * n0inv key"
  define B where "B = (ucast d * ucast n0 + ucast (lo A) :: u64)"
  obtain ws A' B' where l: "mont_loop a d A B bs cs ns = (ws, A', B')" by (metis prod_cases3)
  define A'' where "A'' = hi A' + hi B'"
  have A: "unat A = unat a * unat b0 + unat c0" using unat_fma [of 0 a b0 c0] by (simp add: A_def)
  have B: "unat B = unat d * unat n0 + unat (lo A)" using unat_fma [of 0 d n0 "lo A"] by (simp add: B_def)
  have B0: "unat B = 2 ^ 32 * unat (hi B)"
    using first_word_zero [of n0 "n0inv key" B "lo A"] key n B by (simp add: key_ok_def d_def)
  have l': "length bs = length cs" "length ns = length cs" using len c b n by simp_all
  have L: "length ws = length cs" "val ws + 2 ^ (32 * length cs) * (unat (hi A') + unat (hi B'))
      = unat (hi A) + unat (hi B) + val cs + unat a * val bs + unat d * val ns"
    using mont_loop_val [OF l'(1,2) l] by (rule conjunct1, rule conjunct2)
  have "unat A'' = (unat (hi A') + unat (hi B')) mod 2 ^ 64" by (simp add: A''_def unat_word_ariths)
  then have A'': "unat A'' = unat (hi A') + unat (hi B')" using hi_less [of A'] hi_less [of B'] by simp
  define T where "T = val ws + 2 ^ (32 * length cs) * unat A''"
  have "2 ^ 32 * T = 2 ^ 32 * unat (hi A) + unat B + 2 ^ 32 * (val cs + unat a * val bs + unat d * val ns)"
    using L(2) B0 by (simp add: T_def A'' algebra_simps)
  also have "\<dots> = unat A + unat d * unat n0 + 2 ^ 32 * (val cs + unat a * val bs + unat d * val ns)"
    using lo_hi [of A] B by linarith
  finally have S: "2 ^ 32 * T = val c + unat a * val b + unat d * val (rsa_n key)"
    by (simp add: A c b n algebra_simps)
  have "T = val ws + 2 ^ (32 * length cs) * (unat (lo A'') + 2 ^ 32 * unat (hi A''))" unfolding T_def lo_hi ..
  then have "T = val (ws @ [lo A'']) + 2 ^ (32 * length (ws @ [lo A''])) * unat (hi A'')"
    by (simp add: val_append L(1) power_add distrib_left)
  moreover have "montMulAdd key c a b = (if unat (hi A'') \<noteq> 0 then subM key (ws @ [lo A'']) else ws @ [lo A''])"
    using l by (simp add: montMulAdd_def c b n Let_def A_def [symmetric] d_def [symmetric] B_def [symmetric] A''_def unat_eq_0)
  moreover have "unat d < 2 ^ 32" using unsigned_less [of d, where 'a = nat] by simp
  moreover have "length (ws @ [lo A'']) = length (rsa_n key)" using L(1) len c by simp
  ultimately show ?thesis using S by blast
qed


lemma modulus_odd: "key_ok key \<Longrightarrow> odd (val (rsa_n key))"
proof -
  assume key: "key_ok key"
  then obtain n0 ns where n: "rsa_n key = n0 # ns" by (cases "rsa_n key") (auto simp: key_ok_def)
  have "odd (n0 * n0inv key)" using key n by (simp add: key_ok_def)
  then have "odd n0" by auto
  then have "odd (unat n0)" by (simp add: bit_unsigned_iff flip: bit_0)
  then show ?thesis by (simp add: n)
qed

lemma montMulAdd_val:
  assumes key: "key_ok key" and len: "length c = length (rsa_n key)" "length b = length (rsa_n key)"
    and small: "val c < val b + val (rsa_n key)"
  shows "length (montMulAdd key c a b) = length (rsa_n key)"
    "2 ^ 32 * val (montMulAdd key c a b) mod val (rsa_n key) = (val c + unat a * val b) mod val (rsa_n key)"
    "val (montMulAdd key c a b) < val b + val (rsa_n key)"
proof -
  let ?N = "val (rsa_n key)"
  obtain d T ws h where d: "d < 2 ^ 32" "2 ^ 32 * T = val c + unat a * val b + d * ?N"
    and T: "T = val ws + 2 ^ (32 * length ws) * h" "length ws = length (rsa_n key)"
    and m: "montMulAdd key c a b = (if h \<noteq> 0 then subM key ws else ws)"
    using montMulAdd_sum [OF key len] by blast
  let ?R = "2 ^ (32 * length ws) :: nat"
  have "unat a * val b \<le> 4294967295 * val b" "d * ?N \<le> 4294967295 * ?N"
    using unat_u32_le [of a] d(1) by (auto intro!: mult_le_mono1)
  moreover have "4294967296 * T = val c + unat a * val b + d * ?N" using d(2) by simp
  ultimately have t: "T < val b + ?N" using small by linarith
  have r: "val b < ?R" "?N < ?R" using val_less [of b] val_less [of "rsa_n key"] len T(2) by simp_all
  have S: "2 ^ 32 * T mod ?N = (val c + unat a * val b) mod ?N" unfolding d(2) by simp
  have v: "val (montMulAdd key c a b) = T \<or> val (montMulAdd key c a b) + ?N = T"
  proof (cases "h = 0")
    case False
    then have "?R \<le> T" by (cases h) (simp_all add: T(1))
    have "int (val (subM key ws)) = (int (val ws) - int ?N) mod int ?R" using subM_val(2) [OF T(2)] by simp
    also have "\<dots> = (int (val ws) - int ?N + int ?R * int h) mod int ?R" by simp
    also have "int (val ws) - int ?N + int ?R * int h = int T - int ?N" by (simp add: T(1))
    also have "(int T - int ?N) mod int ?R = int T - int ?N" using t r \<open>?R \<le> T\<close> by (intro mod_pos_pos_trivial) linarith+
    finally show ?thesis using False m by simp
  qed (use m T(1) in simp)
  show "val (montMulAdd key c a b) < val b + ?N" using v t by auto
  show "2 ^ 32 * val (montMulAdd key c a b) mod ?N = (val c + unat a * val b) mod ?N"
  proof (rule disjE [OF v])
    assume "val (montMulAdd key c a b) + ?N = T"
    then have "2 ^ 32 * T = 2 ^ 32 * val (montMulAdd key c a b) + 2 ^ 32 * ?N" by (simp add: distrib_left [symmetric])
    then show ?thesis using S by simp
  qed (use S in simp)
  show "length (montMulAdd key c a b) = length (rsa_n key)" using m T(2) subM_val(1) [OF T(2)] by simp
qed

lemma mont_fold_val:
  assumes key: "key_ok key" and b: "length b = length (rsa_n key)"
  shows "length c = length (rsa_n key) \<Longrightarrow> val c < val b + val (rsa_n key) \<Longrightarrow>
    (let r = foldl (\<lambda>c x. montMulAdd key c x b) c a in
     length r = length (rsa_n key) \<and> val r < val b + val (rsa_n key)
     \<and> 2 ^ (32 * length a) * val r mod val (rsa_n key) = (val c + val a * val b) mod val (rsa_n key))"
proof (induction a arbitrary: c)
  case (Cons x xs)
  let ?N = "val (rsa_n key)" and ?c = "montMulAdd key c x b"
  note m = montMulAdd_val [OF key Cons.prems(1) b Cons.prems(2), of x]
  let ?r = "foldl (\<lambda>c x. montMulAdd key c x b) ?c xs"
  have I: "length ?r = length (rsa_n key)" "val ?r < val b + ?N" "2 ^ (32 * length xs) * val ?r mod ?N = (val ?c + val xs * val b) mod ?N"
    using Cons.IH [OF m(1,3)] by (simp_all add: Let_def)
  have "2 ^ (32 * length (x # xs)) * val ?r mod ?N = 2 ^ 32 * (2 ^ (32 * length xs) * val ?r) mod ?N"
    by (simp add: power_add mult.assoc)
  also have "\<dots> = 2 ^ 32 * (val ?c + val xs * val b) mod ?N" using I(3) by (metis mod_mult_right_eq)
  also have "\<dots> = (2 ^ 32 * val ?c + 2 ^ 32 * val xs * val b) mod ?N" by (simp add: algebra_simps)
  also have "\<dots> = (val c + unat x * val b + 2 ^ 32 * val xs * val b) mod ?N" using m(2) by (metis mod_add_left_eq)
  also have "\<dots> = (val c + val (x # xs) * val b) mod ?N" by (simp add: algebra_simps)
  finally show ?case using I by (simp add: Let_def)
qed (simp add: Let_def)

lemma montMul_val:
  assumes key: "key_ok key" and len: "length a = length (rsa_n key)" "length b = length (rsa_n key)"
  shows "length (montMul key a b) = length (rsa_n key)" "val (montMul key a b) < val b + val (rsa_n key)"
    "2 ^ (32 * length (rsa_n key)) * val (montMul key a b) mod val (rsa_n key) = val a * val b mod val (rsa_n key)"
proof -
  have "0 < val (rsa_n key)" using modulus_odd [OF key] by (cases "val (rsa_n key)") auto
  moreover have "montMul key a b = foldl (\<lambda>c x. montMulAdd key c x b) (replicate (length (rsa_n key)) 0) a"
    using key by (simp only: montMul_def key_ok_def nat_int)
  ultimately show "length (montMul key a b) = length (rsa_n key)" "val (montMul key a b) < val b + val (rsa_n key)"
    "2 ^ (32 * length (rsa_n key)) * val (montMul key a b) mod val (rsa_n key) = val a * val b mod val (rsa_n key)"
    using mont_fold_val [OF key len(2), of "replicate (length (rsa_n key)) 0" a] len(1) by (simp_all add: Let_def)
qed

lemma mod_cancel_left:
  assumes "coprime r (n :: nat)" "r * x mod n = r * y mod n"
  shows "x mod n = y mod n"
proof -
  have "int (r * x) mod int n = int (r * y) mod int n" using assms(2) by (simp only: of_nat_mod [symmetric])
  then have "int n dvd int r * (int x - int y)" by (simp add: mod_eq_dvd_iff right_diff_distrib)
  then have "int n dvd int x - int y" using assms(1) by (simp add: coprime_dvd_mult_right_iff coprime_commute)
  then have "int x mod int n = int y mod int n" by (simp only: mod_eq_dvd_iff)
  then show ?thesis by (simp only: of_nat_mod [symmetric] of_nat_eq_iff)
qed


section \<open>Exponentiation is correct\<close>

lemma mont_form:
  assumes key: "key_ok key" and len: "length x = length (rsa_n key)" "length y = length (rsa_n key)"
    and e: "val x mod val (rsa_n key) = p * 2 ^ (32 * length (rsa_n key)) mod val (rsa_n key)"
      "val y mod val (rsa_n key) = q mod val (rsa_n key)"
  shows "val (montMul key x y) mod val (rsa_n key) = p * q mod val (rsa_n key)"
proof (rule mod_cancel_left)
  let ?N = "val (rsa_n key)" and ?R = "2 ^ (32 * length (rsa_n key)) :: nat"
  show "coprime ?R ?N" using modulus_odd [OF key] by simp
  have "?R * val (montMul key x y) mod ?N = val x * val y mod ?N" by (rule montMul_val(3) [OF key len])
  also have "\<dots> = p * ?R * q mod ?N" using e by (metis mod_mult_cong)
  finally show "?R * val (montMul key x y) mod ?N = ?R * (p * q) mod ?N" by (simp add: ac_simps)
qed

lemma mont_square:
  assumes key: "key_ok key" and len: "length x = length (rsa_n key)"
    and e: "val x mod val (rsa_n key) = p * 2 ^ (32 * length (rsa_n key)) mod val (rsa_n key)"
  shows "length (montMul key x x) = length (rsa_n key)"
    "val (montMul key x x) mod val (rsa_n key) = p ^ 2 * 2 ^ (32 * length (rsa_n key)) mod val (rsa_n key)"
  using mont_form [OF key len len e, of "p * 2 ^ (32 * length (rsa_n key))"] e montMul_val(1) [OF key len len]
  by (simp_all add: power2_eq_square mult.assoc)

lemma square_loop_val:
  assumes key: "key_ok key"
  shows "length x = length (rsa_n key) \<Longrightarrow> val x mod val (rsa_n key) = p * 2 ^ (32 * length (rsa_n key)) mod val (rsa_n key) \<Longrightarrow>
    length (square_loop k key x) = length (rsa_n key) \<and>
    val (square_loop k key x) mod val (rsa_n key) = p ^ (4 ^ k) * 2 ^ (32 * length (rsa_n key)) mod val (rsa_n key)"
proof (induction k arbitrary: x p)
  case (Suc k)
  note s = mont_square [OF key Suc.prems]
  note t = mont_square [OF key s]
  have "(p ^ 2) ^ 2 = p ^ 4" by simp
  then have "((p ^ 2) ^ 2) ^ (4 ^ k) = p ^ (4 ^ Suc k)" by (simp add: power_mult [symmetric])
  with Suc.IH [OF t] show ?case by (simp add: Let_def)
qed simp

fun be_val :: "byte list \<Rightarrow> nat" where
  "be_val [] = 0"
| "be_val (b # bs) = unat b * 256 ^ length bs + be_val bs"

lemma be_val_append: "be_val (xs @ ys) = be_val xs * 256 ^ length ys + be_val ys"
  by (induction xs) (simp_all add: power_add algebra_simps)

lemma byte_bits: "bit (ucast (b :: byte) :: u32) n \<Longrightarrow> n < 8"
  by (auto simp: bit_simps dest: bit_imp_le_length)

lemma unat_be_word: "unat (push_bit 24 (ucast b0) OR push_bit 16 (ucast b1) OR push_bit 8 (ucast b2) OR ucast b3 :: u32) = be_val [b0, b1, b2, b3]"
proof -
  let ?u = "\<lambda>b. ucast (b :: byte) :: u32"
  have "push_bit 24 (?u b0) OR push_bit 16 (?u b1) = push_bit 24 (?u b0) + push_bit 16 (?u b1)"
    by (rule disjunctive_add [symmetric]) (auto simp: bit_push_bit_iff dest: byte_bits)
  moreover have "push_bit 24 (?u b0) OR push_bit 16 (?u b1) OR push_bit 8 (?u b2) = (push_bit 24 (?u b0) OR push_bit 16 (?u b1)) + push_bit 8 (?u b2)"
    by (subst disjunctive_add) (auto simp: bit_push_bit_iff bit_or_iff or.assoc dest!: byte_bits)
  moreover have "push_bit 24 (?u b0) OR push_bit 16 (?u b1) OR push_bit 8 (?u b2) OR ?u b3
      = (push_bit 24 (?u b0) OR push_bit 16 (?u b1) OR push_bit 8 (?u b2)) + ?u b3"
    by (subst disjunctive_add) (auto simp: bit_push_bit_iff bit_or_iff or.assoc dest!: byte_bits)
  ultimately have "push_bit 24 (?u b0) OR push_bit 16 (?u b1) OR push_bit 8 (?u b2) OR ?u b3 = of_nat (be_val [b0, b1, b2, b3])"
    by (simp add: push_bit_eq_mult ac_simps)
  moreover have "be_val [b0, b1, b2, b3] < 2 ^ 32"
    using unat_byte_less [of b0] unat_byte_less [of b1] unat_byte_less [of b2] unat_byte_less [of b3] by simp
  ultimately show ?thesis by (simp only: unat_u32_of_nat)
qed

lemma be_val_store_word: "be_val (store_word w) = unat w"
proof -
  let ?x = "unat w"
  have b: "unat (ucast (drop_bit k w) :: byte) = ?x div 2 ^ k mod 256" if "k \<in> {8, 16, 24}" for k
    using that by (auto simp: unsigned_ucast_eq take_bit_eq_mod drop_bit_eq_div unat_div)
  have "unat (ucast w :: byte) = ?x mod 256" by (simp add: unsigned_ucast_eq take_bit_eq_mod)
  then have "be_val (store_word w) = ?x div 16777216 mod 256 * 16777216 + ?x div 65536 mod 256 * 65536 + ?x div 256 mod 256 * 256 + ?x mod 256"
    by (simp add: store_word_def b)
  moreover have "?x div 16777216 mod 256 = ?x div 16777216" using unsigned_less [of w, where 'a = nat] by simp
  moreover have "?x = 256 * (?x div 256) + ?x mod 256" "?x div 256 = 256 * (?x div 65536) + ?x div 256 mod 256"
    "?x div 65536 = 256 * (?x div 16777216) + ?x div 65536 mod 256"
    using mult_div_mod_eq [of 256 ?x] mult_div_mod_eq [of 256 "?x div 256"] mult_div_mod_eq [of 256 "?x div 65536"]
    by (simp_all add: div_mult2_eq [symmetric])
  ultimately show ?thesis by linarith
qed

lemma be_load_words:
  "4 dvd length bs \<Longrightarrow> val (rev (load_words bs)) = be_val bs \<and> length (load_words bs) = length bs div 4"
proof (induction bs rule: load_words.induct)
  case (1 b0 b1 b2 b3 bs)
  have d: "4 dvd length bs" using 1(2) by simp presburger
  with 1(1) have I: "val (rev (load_words bs)) = be_val bs" "length (load_words bs) = length bs div 4" by simp_all
  have p: "(2 :: nat) ^ (32 * length (load_words bs)) = 256 ^ length bs"
  proof -
    have "(2 :: nat) ^ (32 * length (load_words bs)) = (2 ^ 8) ^ (4 * (length bs div 4))" unfolding power_mult [symmetric] by (simp add: I(2))
    also have "4 * (length bs div 4) = length bs" using d by simp
    finally show ?thesis by simp
  qed
  have "be_val (b0 # b1 # b2 # b3 # bs) = be_val [b0, b1, b2, b3] * 256 ^ length bs + be_val bs"
    using be_val_append [of "[b0, b1, b2, b3]" bs] by simp
  then show ?case using I p by (simp add: val_append unat_be_word del: be_val.simps)
qed (auto, presburger+)

lemma be_val_words: "be_val (concat (map store_word (rev ws))) = val ws"
proof (induction ws)
  case (Cons w ws)
  then show ?case by (simp add: be_val_append be_val_store_word) (simp add: store_word_def)
qed simp


lemma modpow_val:
  assumes key: "key_ok key" and e: "rsa_exponent key = 3 \<or> rsa_exponent key = 65537"
    and len: "length sig = 4 * length (rsa_n key)"
    and range: "be_val sig < val (rsa_n key) \<or> 2 ^ (32 * length (rsa_n key)) \<le> 2 * val (rsa_n key)"
  shows "\<exists>out. modpow key sig = Inr out \<and> length out = length sig
    \<and> be_val out = be_val sig ^ nat (rsa_exponent key) mod val (rsa_n key)"
proof -
  let ?N = "val (rsa_n key)" and ?R = "2 ^ (32 * length (rsa_n key)) :: nat" and ?x = "be_val sig"
  define a where "a = rev (load_words sig)"
  have a: "val a = ?x" "length a = length (rsa_n key)" using be_load_words [of sig] len by (simp_all add: a_def)
  have rr: "length (rsa_rr key) = length (rsa_n key)" "val (rsa_rr key) mod ?N = ?R ^ 2 mod ?N" using key by (simp_all add: key_ok_def)
  define aR where "aR = montMul key a (rsa_rr key)"
  have l: "length aR = length (rsa_n key)" using montMul_val(1) [OF key a(2) rr(1)] by (simp add: aR_def)
  have "val aR mod ?N = ?x * ?R mod ?N"
  proof (rule mod_cancel_left)
    show "coprime ?R ?N" using modulus_odd [OF key] by simp
    have "?R * val aR mod ?N = ?x * val (rsa_rr key) mod ?N" using montMul_val(3) [OF key a(2) rr(1)] by (simp add: aR_def a(1))
    also have "\<dots> = ?x * ?R ^ 2 mod ?N" using rr(2) by (metis mod_mult_right_eq)
    finally show "?R * val aR mod ?N = ?R * (?x * ?R) mod ?N" by (simp add: power2_eq_square ac_simps)
  qed
  note s = square_loop_val [OF key l this, of 8] and q = mont_square [OF key l this]
  define y where "y = (if rsa_exponent key = 65537 then square_loop 8 key aR else montMul key aR aR)"
  define m where "m = montMul key y a"
  have y: "length y = length (rsa_n key)" "val y mod ?N = ?x ^ (nat (rsa_exponent key) - 1) * ?R mod ?N"
    using s q e by (auto simp: y_def)
  have m: "length m = length (rsa_n key)" "val m < ?x + ?N" "val m mod ?N = ?x ^ nat (rsa_exponent key) mod ?N"
    using montMul_val(1,2) [OF key y(1) a(2)] mont_form [OF key y(1) a(2) y(2), of ?x] power_minus_mult [of "nat (rsa_exponent key)" ?x] e
    by (simp_all only: m_def a(1)) auto
  have two: "val m < 2 * ?N" using range m(1,2) val_less [of m] by auto
  let ?r = "if geM key m then subM key m else m"
  have "val ?r = val m mod ?N" using two by (simp add: geM_val [OF m(1)] subM_exact [OF m(1)] le_mod_geq not_le)
  moreover have "length ?r = length (rsa_n key)" using m(1) subM_val(1) [OF m(1)] by simp
  moreover have "modpow key sig = Inr (concat (map store_word (rev ?r)))"
    using e by (auto simp: modpow_def a_def [symmetric] aR_def [symmetric] y_def m_def Let_def)
  moreover have "length (concat (map store_word (rev ws))) = 4 * length ws" for ws by (induction ws) (simp_all add: store_word_def)
  ultimately show ?thesis using m(3) len by (simp add: be_val_words)
qed

section \<open>Properties\<close>

text \<open>
  Property C7. \<open>modpow\<close> computes the signature's power modulo the public modulus: for a key whose precomputed fields
  are right, either exponent, and a signature below the modulus or a modulus of full length, the
  bytes left in the buffer are those of \<open>a ^ e mod n\<close>.
\<close>

theorem modpow_correct:
  assumes key: "key_ok key" and e: "rsa_exponent key = 3 \<or> rsa_exponent key = 65537"
    and len: "length sig = 4 * length (rsa_n key)"
    and range: "be_val sig < val (rsa_n key) \<or> 2 ^ (32 * length (rsa_n key)) \<le> 2 * val (rsa_n key)"
  shows "\<exists>out. modpow key sig = Inr out \<and> length out = length sig
    \<and> be_val out = be_val sig ^ nat (rsa_exponent key) mod val (rsa_n key)"
  by (rule modpow_val [OF assms])

definition ex_key :: "nat \<Rightarrow> RSAPublicKey" where
  "ex_key k = \<lparr>rsa_len = int k, n0inv = 1, rsa_n = replicate k (- 1), rsa_rr = 1 # replicate (k - 1) 0, rsa_exponent = 3\<rparr>"

lemma val_ones: "val (replicate k (- 1)) + 1 = 2 ^ (32 * k)"
proof (induction k)
  case (Suc k)
  have "val (replicate (Suc k) (- 1)) + 1 = 2 ^ 32 * (val (replicate k (- 1)) + 1)" by (simp add: unsigned_minus_1_eq_mask mask_eq_exp_minus_1)
  also have "\<dots> = 2 ^ (32 * Suc k)" unfolding Suc by (simp add: power_add)
  finally show ?case .
qed simp

lemma ex_key_ok: "0 < k \<Longrightarrow> key_ok (ex_key k)"
proof -
  assume k: "0 < k"
  let ?N = "val (replicate k (- 1 :: u32))"
  have R: "2 ^ (32 * k) = ?N + 1" by (simp only: val_ones)
  have "(2 ^ (32 * k)) ^ 2 mod ?N = (?N + 1) ^ 2 mod ?N" unfolding R ..
  also have "(?N + 1) ^ 2 = 1 + ?N * (?N + 2)" by (simp add: power2_eq_square)
  also have "\<dots> mod ?N = 1 mod ?N" by (rule mod_mult_self2)
  finally show ?thesis using k by (simp add: key_ok_def ex_key_def hd_replicate)
qed

theorem modpow_correct_witness:
  "\<exists>out. modpow (ex_key 1) [0, 0, 1, 2] = Inr out \<and> be_val out = 258 ^ 3"
proof -
  have "val (rsa_n (ex_key 1)) = 2 ^ 32 - 1" using val_ones [of 1] by (simp add: ex_key_def)
  then show ?thesis using modpow_correct [OF ex_key_ok [of 1], of "[0, 0, 1, 2]"] by (simp add: ex_key_def) blast
qed

lemma RSA_verify_spec:
  assumes key: "key_ok key" "length (rsa_n key) = RSANUMWORDS" and e: "rsa_exponent key = 3 \<or> rsa_exponent key = 65537"
    and range: "be_val sig < val (rsa_n key) \<or> 2 ^ (32 * RSANUMWORDS) \<le> 2 * val (rsa_n key)"
    and len: "length sig = RSANUMBYTES" "length hash = SHA_DIGEST_SIZE" "length stack = 64"
  shows "\<exists>em. length em = RSANUMBYTES \<and> be_val em = be_val sig ^ nat (rsa_exponent key) mod val (rsa_n key)
    \<and> RSA_verify stack key sig (int RSANUMBYTES) hash (int SHA_DIGEST_SIZE)
      = Inr (sha1_spec (take 236 em @ map2 (XOR) (drop 236 em) hash) = kExpectedPadShaRsa2048)"
proof -
  have w: "RSANUMBYTES = 4 * RSANUMWORDS" "RSANUMBYTES = 256" "SHA_DIGEST_SIZE = 20" by (simp_all add: RSANUMWORDS_def RSANUMBYTES_def SHA_DIGEST_SIZE_def)
  obtain em where em: "modpow key sig = Inr em" "length em = length sig" "be_val em = be_val sig ^ nat (rsa_exponent key) mod val (rsa_n key)"
    using modpow_val [OF key(1) e, of sig] range len(1) key(2) w by auto
  have "rsa_len key = int RSANUMWORDS" using key by (simp add: key_ok_def)
  then have "RSA_verify stack key sig (int RSANUMBYTES) hash (int SHA_DIGEST_SIZE)
      = Inr (sha1_spec (take 236 em @ map2 (XOR) (drop 236 em) hash) = kExpectedPadShaRsa2048)"
    using e len em(1) by (auto simp: RSA_verify_def SHA_hash_spec w(2,3) Let_def sha1_spec_length)
  then show ?thesis using em len(1) by auto
qed

text \<open>
  Property C12. \<open>RSA_verify\<close> with a SHA-1 hash accepts a signature exactly when the signature's power modulo the
  modulus, with the hash taken out of its last twenty bytes, has the SHA-1 value of the padding;
  the answer does not depend on what is left on the stack.
\<close>

theorem RSA_verify_exact:
  assumes key: "key_ok key" "length (rsa_n key) = RSANUMWORDS" and e: "rsa_exponent key = 3 \<or> rsa_exponent key = 65537"
    and range: "be_val sig < val (rsa_n key) \<or> 2 ^ (32 * RSANUMWORDS) \<le> 2 * val (rsa_n key)"
    and len: "length sig = RSANUMBYTES" "length hash = SHA_DIGEST_SIZE" "length stack = 64"
  shows "\<exists>em. length em = RSANUMBYTES \<and> be_val em = be_val sig ^ nat (rsa_exponent key) mod val (rsa_n key)
    \<and> RSA_verify stack key sig (int RSANUMBYTES) hash (int SHA_DIGEST_SIZE)
      = Inr (sha1_spec (take 236 em @ map2 (XOR) (drop 236 em) hash) = kExpectedPadShaRsa2048)"
  by (rule RSA_verify_spec [OF assms])

theorem RSA_verify_exact_witness:
  "\<exists>em. be_val em = be_val (replicate 256 1) ^ 3 mod (2 ^ 2048 - 1)
    \<and> RSA_verify (replicate 64 5) (ex_key 64) (replicate 256 1) 256 (replicate 20 2) 20
      = Inr (sha1_spec (take 236 em @ map2 (XOR) (drop 236 em) (replicate 20 2)) = kExpectedPadShaRsa2048)"
proof -
  have n: "val (rsa_n (ex_key 64)) = 2 ^ 2048 - 1" using val_ones [of 64] by (simp add: ex_key_def)
  have "2 ^ (32 * RSANUMWORDS) \<le> 2 * val (rsa_n (ex_key 64))" unfolding n by (simp add: RSANUMWORDS_def RSANUMBYTES_def)
  then show ?thesis
    using RSA_verify_exact [OF ex_key_ok [of 64], of "replicate 256 1" "replicate 20 2" "replicate 64 5"] n
    by (auto simp: ex_key_def RSANUMWORDS_def RSANUMBYTES_def SHA_DIGEST_SIZE_def)
qed

end
