(* ===== verification/AuthKeys.thy ===== *)
theory AuthKeys
  imports Listeners Base64 Rsa
begin

text \<open>
  The keys of the authentication. The host converts its RSA key to the precomputed form the daemon
  works with and writes it to a file (adb_auth_host.c); the daemon reads the keys it trusts and
  checks signatures with them (adb_auth_client.c).
\<close>

section \<open>Strings\<close>

text \<open>The tokens \<open>strtok_r\<close> yields one after the other, for a single separator.\<close>

function strtok_tokens :: "char \<Rightarrow> string \<Rightarrow> string list" where
  "strtok_tokens sep s =
     (let s = dropWhile (\<lambda>c. c = sep) s in
      if s = [] then [] else takeWhile (\<lambda>c. c \<noteq> sep) s # strtok_tokens sep (dropWhile (\<lambda>c. c \<noteq> sep) s))"
  by pat_completeness auto
termination
proof (relation "measure (\<lambda>(sep, s). length s)")
  fix sep :: char and s x :: string assume x: "x = dropWhile (\<lambda>c. c = sep) s" "x \<noteq> []"
  obtain c cs where c: "x = c # cs" using x(2) by (cases x) simp_all
  have "c \<noteq> sep" using hd_dropWhile [of "\<lambda>c. c = sep" s] x(2) unfolding x(1) [symmetric] c by simp
  then have "length (dropWhile (\<lambda>c. c \<noteq> sep) x) \<le> length cs" using length_dropWhile_le [of _ cs] by (simp add: c)
  moreover have "length x \<le> length s" using x(1) length_dropWhile_le by simp
  ultimately show "((sep, dropWhile (\<lambda>c. c \<noteq> sep) x), sep, s) \<in> measure (\<lambda>(sep, s). length s)" by (simp add: c)
qed simp

declare strtok_tokens.simps [simp del]

text \<open>\<open>fgets\<close>: at most \<open>n - 1\<close> bytes, up to and including a newline; and the rest of the file.\<close>

fun fgets_take :: "nat \<Rightarrow> byte list \<Rightarrow> byte list \<times> byte list" where
  "fgets_take (Suc n) (c # cs) = (if c = 0x0a then ([c], cs) else let (line, rest) = fgets_take n cs in (c # line, rest))"
| "fgets_take n cs = ([], cs)"

section \<open>The keys the daemon trusts\<close>

text \<open>The structure as an array of words in memory; \<open>sizeof(RSAPublicKey)\<close> is 131 words.\<close>

fun mem_words :: "bool \<Rightarrow> byte list \<Rightarrow> u32 list" where
  "mem_words be (a # b # c # d # bs) = mem_word be [a, b, c, d] # mem_words be bs"
| "mem_words be bs = []"

definition sizeof_RSAPublicKey :: nat where "sizeof_RSAPublicKey = 4 * (2 * RSANUMWORDS + 3)"

definition RSAPublicKey_of_bytes :: "bool \<Rightarrow> byte list \<Rightarrow> RSAPublicKey" where
  "RSAPublicKey_of_bytes be bs =
     (let ws = mem_words be bs in
      \<lparr>rsa_len = sint (ws ! 0), n0inv = ws ! 1, rsa_n = take RSANUMWORDS (drop 2 ws),
       rsa_rr = take RSANUMWORDS (drop (2 + RSANUMWORDS) ws), rsa_exponent = sint (ws ! (2 + 2 * RSANUMWORDS))\<rparr>)"

definition RSAPublicKey_bytes :: "bool \<Rightarrow> RSAPublicKey \<Rightarrow> byte list" where
  "RSAPublicKey_bytes be key =
     concat (map (mem_bytes be) (of_int (rsa_len key) # n0inv key # rsa_n key @ rsa_rr key @ [of_int (rsa_exponent key)]))"

text \<open>One line of a key file: the base64 text up to a space or tab.\<close>

definition parse_key :: "bool \<Rightarrow> byte list \<Rightarrow> RSAPublicKey option" where
  "parse_key be line =
     (let buf = takeWhile (\<lambda>c. c \<noteq> CHR '' '' \<and> c \<noteq> CHR 0x09) (cstr line);
          (ret, key) = b64_pton buf (replicate (sizeof_RSAPublicKey + 4) 0) in
      if ret \<noteq> int sizeof_RSAPublicKey then None
      else
        let key = RSAPublicKey_of_bytes be (take sizeof_RSAPublicKey key) in
        if rsa_len key \<noteq> int RSANUMWORDS then None else Some key)"

lemma fgets_take_length: "fgets_take n cs = (line, rest) \<Longrightarrow> length cs = length line + length rest"
  by (induction n cs arbitrary: line rest rule: fgets_take.induct) (auto split: if_splits prod.splits)

lemma fgets_take_Nil: "fgets_take n cs = ([], rest) \<Longrightarrow> n = 0 \<or> cs = []"
  by (cases "(n, cs)" rule: fgets_take.cases) (auto split: if_splits prod.splits)

function read_lines :: "bool \<Rightarrow> byte list \<Rightarrow> RSAPublicKey list" where
  "read_lines be f =
     (if f = [] then []
      else let (line, rest) = fgets_take (MAX_PAYLOAD - 1) f in
        case parse_key be line of None \<Rightarrow> read_lines be rest | Some key \<Rightarrow> key # read_lines be rest)"
  by pat_completeness auto
termination
proof (relation "measure (\<lambda>(be, f). length f)")
  fix f :: "byte list" and x line rest
  assume "f \<noteq> []" and x: "x = fgets_take (MAX_PAYLOAD - 1) f" "(line, rest) = x"
  then have "length f = length line + length rest" "line \<noteq> []"
    using fgets_take_length [of "MAX_PAYLOAD - 1" f line rest] fgets_take_Nil [of "MAX_PAYLOAD - 1" f rest] by (auto simp: MAX_PAYLOAD_def)
  then show "((be, rest), be, f) \<in> measure (\<lambda>(be, f). length f)" "((be, rest), be, f) \<in> measure (\<lambda>(be, f). length f)" for be by auto
qed simp

declare read_lines.simps [simp del]

text \<open>The files: whether \<open>stat\<close> finds one, and its contents if it can be opened.\<close>

record key_files =
  file_exists :: "string \<Rightarrow> bool"
  file_bytes :: "string \<Rightarrow> byte list option"

definition key_paths :: "string list" where
  "key_paths = [''/adb_keys'', ''/data/misc/adb/adb_keys'']"

definition read_keys :: "bool \<Rightarrow> key_files \<Rightarrow> string \<Rightarrow> RSAPublicKey list" where
  "read_keys be files path = (case file_bytes files path of None \<Rightarrow> [] | Some f \<Rightarrow> read_lines be f)"

definition load_keys :: "bool \<Rightarrow> key_files \<Rightarrow> RSAPublicKey list" where
  "load_keys be files = concat (map (\<lambda>path. if file_exists files path then read_keys be files path else []) key_paths)"

text \<open>The loop over the keys, until one accepts the signature.\<close>

fun verify_keys :: "byte list \<Rightarrow> RSAPublicKey list \<Rightarrow> byte list \<Rightarrow> byte list \<Rightarrow> int \<Rightarrow> bool res" where
  "verify_keys stack [] tok sig siglen = Inr False"
| "verify_keys stack (key # keys) tok sig siglen =
     bindr (RSA_verify stack key sig siglen tok (int SHA_DIGEST_SIZE)) (\<lambda>ret.
       if ret then Inr True else verify_keys stack keys tok sig siglen)"

definition adb_auth_verify :: "byte list \<Rightarrow> bool \<Rightarrow> key_files \<Rightarrow> byte list \<Rightarrow> byte list \<Rightarrow> int \<Rightarrow> bool res" where
  "adb_auth_verify stack be files tok sig siglen =
     (if siglen \<noteq> int RSANUMBYTES then Inr False
      else verify_keys stack (load_keys be files) tok sig siglen)"

section \<open>The key of the host\<close>

text \<open>
  The numbers of OpenSSL are natural numbers here. An even modulus has no inverse modulo
  \<open>2 ^ 32\<close>; the number is 0 then.
\<close>

fun BN_num_bits :: "nat \<Rightarrow> nat" where
  "BN_num_bits n = (if n = 0 then 0 else Suc (BN_num_bits (n div 2)))"

declare BN_num_bits.simps [simp del]

definition RSA_size :: "nat \<Rightarrow> nat" where "RSA_size n = (BN_num_bits n + 7) div 8"

definition BN_mod_inverse :: "nat \<Rightarrow> nat \<Rightarrow> nat" where
  "BN_mod_inverse a m = (if coprime a m then nat (fst (bezw a m) mod int m) else 0)"

text \<open>The loop that divides by \<open>2 ^ 32\<close> and keeps the remainders.\<close>

fun BN_words :: "nat \<Rightarrow> nat \<Rightarrow> u32 list" where
  "BN_words 0 x = []"
| "BN_words (Suc k) x = of_nat (x mod 2 ^ 32) # BN_words k (x div 2 ^ 32)"

definition RSA_to_RSAPublicKey :: "nat \<Rightarrow> nat \<Rightarrow> RSAPublicKey option" where
  "RSA_to_RSAPublicKey n e =
     (if RSA_size n \<noteq> RSANUMBYTES then None
      else
        let r = 2 ^ (RSANUMWORDS * 32); rr = r ^ 2 mod n; inv = BN_mod_inverse (n mod 2 ^ 32) (2 ^ 32) in
        Some \<lparr>rsa_len = int RSANUMWORDS, n0inv = 0 - of_nat inv, rsa_n = BN_words RSANUMWORDS n,
          rsa_rr = BN_words RSANUMWORDS rr, rsa_exponent = sint (of_nat e :: u32)\<rparr>)"

definition PATH_MAX :: nat where "PATH_MAX = 4096"

definition get_user_info :: "string option \<Rightarrow> string option \<Rightarrow> nat \<Rightarrow> string" where
  "get_user_info hostname username len =
     take (len - 1) ('' '' @ (case username of None \<Rightarrow> ''unknown'' | Some u \<Rightarrow> u) @ ''@'' @ (case hostname of None \<Rightarrow> ''unknown'' | Some h \<Rightarrow> h))"

text \<open>
  The path and the contents of the file with the public key, if it is written. \<open>enc\<close> is OpenSSL's
  base64 filter without newlines, \<open>can_open\<close> tells whether the file can be opened.
\<close>

definition write_public_keyfile :: "(byte list \<Rightarrow> string) \<Rightarrow> bool \<Rightarrow> (string \<Rightarrow> bool) \<Rightarrow> string option \<Rightarrow> string option
    \<Rightarrow> nat \<Rightarrow> nat \<Rightarrow> string \<Rightarrow> (string \<times> byte list) option" where
  "write_public_keyfile enc be can_open hostname username n e private_key_path =
     (let path = private_key_path @ ''.pub'' in
      if length path \<ge> PATH_MAX then None
      else case RSA_to_RSAPublicKey n e of
        None \<Rightarrow> None
      | Some pkey \<Rightarrow>
          if \<not> can_open path then None
          else Some (path, bytes_of (enc (RSAPublicKey_bytes be pkey) @ get_user_info hostname username MAX_PAYLOAD)))"

text \<open>The user's files and environment.\<close>

record user_env =
  HOME :: "string option"
  ADB_VENDOR_KEYS :: "string option"
  path_exists :: "string \<Rightarrow> bool"
  can_mkdir :: "string \<Rightarrow> bool"
  load_file :: "string \<Rightarrow> byte list option"
  can_generate :: "string \<Rightarrow> bool"     \<comment> \<open>whether \<open>generate_key\<close> succeeds\<close>
  can_read_key :: "string \<Rightarrow> bool"     \<comment> \<open>whether the file opens and \<open>PEM_read_RSAPrivateKey\<close> accepts it\<close>

definition get_user_keyfilepath :: "user_env \<Rightarrow> nat \<Rightarrow> (int \<times> string)" where
  "get_user_keyfilepath env len =
     (case HOME env of
        None \<Rightarrow> (-1, [])
      | Some home \<Rightarrow>
          let android_dir = home @ ''/'' @ ''.android'' in
          if length android_dir \<ge> PATH_MAX then (-1, [])
          else if \<not> path_exists env android_dir \<and> \<not> can_mkdir env android_dir then (-1, [])
          else let filename = android_dir @ ''/'' @ ''adbkey'' in (int (length filename), take (len - 1) filename))"

text \<open>The file with the public key and a terminating zero, if it fits.\<close>

definition adb_auth_get_userkey :: "user_env \<Rightarrow> nat \<Rightarrow> byte list option" where
  "adb_auth_get_userkey env len =
     (let (ret, path) = get_user_keyfilepath env (PATH_MAX - 4) in
      if ret < 0 \<or> ret \<ge> int (PATH_MAX - 4) then None
      else case load_file env (path @ ''.pub'') of
        None \<Rightarrow> None
      | Some file \<Rightarrow> if len < length file + 1 then None else Some (file @ [0]))"

definition read_key :: "user_env \<Rightarrow> string \<Rightarrow> 'a pstate_scheme \<Rightarrow> int \<times> 'a pstate_scheme" where
  "read_key env file st =
     (if can_read_key env file then let (a, st) = alloc st in (1, st\<lparr>key_list := key_list st @ [a]\<rparr>) else (0, st))"

definition get_user_key :: "user_env \<Rightarrow> 'a pstate_scheme \<Rightarrow> int \<times> 'a pstate_scheme" where
  "get_user_key env st =
     (let (ret, path) = get_user_keyfilepath env PATH_MAX in
      if ret < 0 \<or> ret \<ge> int PATH_MAX then (0, st)
      else if \<not> path_exists env path \<and> \<not> can_generate env path then (0, st)
      else read_key env path st)"

text \<open>\<open>strncpy\<close> leaves the copy without a terminating zero if the list of paths is too long.\<close>

definition get_vendor_keys :: "user_env \<Rightarrow> 'a pstate_scheme \<Rightarrow> 'a pstate_scheme res" where
  "get_vendor_keys env st =
     (case ADB_VENDOR_KEYS env of
        None \<Rightarrow> Inr st
      | Some keys \<Rightarrow>
          if length keys \<ge> MAX_PAYLOAD then Inl MemFault
          else Inr (foldl (\<lambda>st path. if path_exists env path then snd (read_key env path st) else st) st (strtok_tokens CHR '':'' keys)))"

definition adb_auth_init_host :: "user_env \<Rightarrow> 'a pstate_scheme \<Rightarrow> 'a pstate_scheme res" where
  "adb_auth_init_host env st =
     (let (ret, st) = get_user_key env (st\<lparr>key_list := []\<rparr>) in
      if ret = 0 then Inr st else get_vendor_keys env st)"

text \<open>The key behind \<open>current\<close>, or the first one.\<close>

fun next_in :: "addr \<Rightarrow> addr list \<Rightarrow> addr option" where
  "next_in current [] = None"
| "next_in current (item # items) =
     (if item = current then (case items of [] \<Rightarrow> None | k # ks \<Rightarrow> Some k) else next_in current items)"

definition adb_auth_nextkey :: "addr list \<Rightarrow> addr option \<Rightarrow> addr option" where
  "adb_auth_nextkey keys current =
     (case keys of [] \<Rightarrow> None | k # ks \<Rightarrow> (case current of None \<Rightarrow> Some k | Some c \<Rightarrow> next_in c keys))"

section \<open>The converted key\<close>

lemma BN_num_bits_less: "n < 2 ^ BN_num_bits n"
proof (induction n rule: BN_num_bits.induct)
  case (1 n)
  show ?case
  proof (cases "n = 0")
    case False
    then have "n div 2 < 2 ^ BN_num_bits (n div 2)" using 1 by simp
    then show ?thesis using False by (subst BN_num_bits.simps) (simp; linarith)
  qed (simp add: BN_num_bits.simps)
qed

lemma RSA_size_less: "RSA_size n = RSANUMBYTES \<Longrightarrow> n < 2 ^ 2048"
proof -
  assume "RSA_size n = RSANUMBYTES"
  then have "BN_num_bits n \<le> 2048" by (simp add: RSA_size_def RSANUMBYTES_def)
  then have "(2 :: nat) ^ BN_num_bits n \<le> 2 ^ 2048" by (intro power_increasing) simp_all
  then show ?thesis using BN_num_bits_less [of n] by linarith
qed

lemma BN_words_length [simp]: "length (BN_words k x) = k"
  by (induction k arbitrary: x) simp_all

lemma BN_words_val: "val (BN_words k x) = x mod 2 ^ (32 * k)"
proof (induction k arbitrary: x)
  case (Suc k)
  have "unat (of_nat (x mod 2 ^ 32) :: u32) = x mod 2 ^ 32" by (simp add: unsigned_of_nat take_bit_eq_mod)
  then show ?case using Suc by (simp add: power_add mod_mult2_eq)
qed simp

lemma BN_mod_inverse_mult:
  assumes "coprime a m" "1 < m"
  shows "a * BN_mod_inverse a m mod m = 1"
proof -
  have "int (a * BN_mod_inverse a m) mod int m = (int a * (fst (bezw a m) mod int m)) mod int m"
    using assms by (simp add: BN_mod_inverse_def)
  also have "\<dots> = (fst (bezw a m) * int a + snd (bezw a m) * int m) mod int m" by (simp add: mod_mult_right_eq mult.commute)
  also have "\<dots> = int (gcd a m) mod int m" by (simp only: bezw_aux)
  also have "\<dots> = 1 mod int m" using assms(1) by (simp add: coprime_iff_gcd_eq_1)
  also have "\<dots> = 1" using assms(2) by simp
  finally have "int (a * BN_mod_inverse a m mod m) = 1" by (simp add: zmod_int)
  then show ?thesis by simp
qed

lemma RSAPublicKey_ok:
  assumes n: "odd n" and k: "RSA_to_RSAPublicKey n e = Some key"
  shows "key_ok key \<and> length (rsa_n key) = RSANUMWORDS \<and> length (rsa_rr key) = RSANUMWORDS \<and> val (rsa_n key) = n
    \<and> rsa_len key = int RSANUMWORDS \<and> rsa_exponent key = sint (of_nat e :: u32)"
proof -
  let ?r = "2 ^ (RSANUMWORDS * 32) :: nat" and ?w = "n mod 2 ^ 32" and ?i = "BN_mod_inverse (n mod 2 ^ 32) (2 ^ 32)"
  have size: "RSA_size n = RSANUMBYTES" and key: "key = \<lparr>rsa_len = int RSANUMWORDS, n0inv = 0 - of_nat ?i,
      rsa_n = BN_words RSANUMWORDS n, rsa_rr = BN_words RSANUMWORDS (?r ^ 2 mod n), rsa_exponent = sint (of_nat e :: u32)\<rparr>"
    using k by (auto simp: RSA_to_RSAPublicKey_def Let_def split: if_splits)
  have w: "RSANUMWORDS = Suc 63" by (simp add: RSANUMWORDS_def RSANUMBYTES_def)
  have lt: "n < 2 ^ (32 * RSANUMWORDS)" using RSA_size_less [OF size] by (simp add: RSANUMWORDS_def RSANUMBYTES_def)
  have "n \<noteq> 0" using n by (cases n) auto
  then have rr: "?r ^ 2 mod n < 2 ^ (32 * RSANUMWORDS)" using lt mod_less_divisor [of n "?r ^ 2"] by linarith
  have "coprime ?w (2 ^ 32)" using n coprime_power_right_iff [of ?w 2 32] by (simp add: coprime_right_2_iff_odd odd_iff_mod_2_eq_one mod_mod_cancel del: coprime_power_right_iff)
  then have "?w * ?i mod 2 ^ 32 = 1" by (rule BN_mod_inverse_mult) simp
  then have "(of_nat (?w * ?i) :: u32) = of_nat 1" by (subst word_of_nat_eq_iff) (simp add: take_bit_eq_mod)
  then have "(of_nat ?w :: u32) * (0 - of_nat ?i) = - 1" by simp
  moreover have "hd (BN_words RSANUMWORDS n) = of_nat ?w" unfolding w by (simp only: BN_words.simps list.sel)
  ultimately have "hd (rsa_n key) * n0inv key = - 1" by (simp add: key)
  moreover have "0 < length (BN_words RSANUMWORDS n)" by (simp add: RSANUMWORDS_def RSANUMBYTES_def)
  then have "BN_words RSANUMWORDS n \<noteq> []" by (rule length_greater_0_conv [THEN iffD1])
  ultimately have "key_ok key" using lt rr by (simp add: key_ok_def key BN_words_val mult.commute)
  then show ?thesis using lt by (simp add: key BN_words_val)
qed

section \<open>The structure in memory and in a file\<close>

lemma mem_bytes_length: "\<exists>a b c d. mem_bytes be x = [a, b, c, d]"
  by (simp add: mem_bytes_def le_bytes_def)

lemma mem_words_concat: "mem_words be (concat (map (mem_bytes be) ws)) = ws"
proof (induction ws)
  case (Cons w ws)
  obtain a b c d where m: "mem_bytes be w = [a, b, c, d]" using mem_bytes_length by blast
  then show ?case using Cons mem_word_bytes [of be w] by simp
qed simp

lemma RSAPublicKey_bytes_length: "length (RSAPublicKey_bytes be key) = 4 * (3 + length (rsa_n key) + length (rsa_rr key))"
proof -
  have "length (mem_bytes be x) = 4" for x using mem_bytes_length [of be x] by auto
  then show ?thesis by (simp add: RSAPublicKey_bytes_def length_concat comp_def sum_list_triv)
qed

lemma RSAPublicKey_in_memory:
  assumes "length (rsa_n key) = RSANUMWORDS" "length (rsa_rr key) = RSANUMWORDS" "rsa_len key = int RSANUMWORDS"
    "rsa_exponent key = sint (x :: u32)"
  shows "RSAPublicKey_of_bytes be (RSAPublicKey_bytes be key) = key"
proof -
  have "sint (of_int (int RSANUMWORDS) :: u32) = int RSANUMWORDS" by (simp add: RSANUMWORDS_def RSANUMBYTES_def)
  then show ?thesis using assms unfolding RSAPublicKey_of_bytes_def RSAPublicKey_bytes_def mem_words_concat
    by (cases key) (simp add: nth_append)
qed

text \<open>The encoded key survives the cut at the first space.\<close>

definition plain :: "char \<Rightarrow> bool" where
  "plain c \<longleftrightarrow> c \<noteq> CHR '' '' \<and> c \<noteq> CHR 0x09 \<and> c \<noteq> CHR 0x0a \<and> c \<noteq> CHR 0x00"

lemma b64_encode_plain: "\<forall>c \<in> set (b64_encode bs). plain c"
proof -
  have "\<forall>k \<in> set [0..<64]. plain (Base64_alphabet ! k)" "plain Pad64" by code_simp+
  then have c: "plain Pad64" "\<And>v. v < 64 \<Longrightarrow> plain (b64_char v)" by (simp_all add: b64_char_def word_less_nat_alt)
  then have s: "\<forall>c \<in> b64_char ` set (b64_split a b d). plain c" for a b d using b64_split_less by auto
  show ?thesis
  proof (induction bs rule: b64_encode.induct)
    case (2 a b)
    then show ?case using c(1) s [of a b 0] set_take_subset [of 3 "b64_split a b 0"] by auto
  next
    case (3 a)
    then show ?case using c(1) s [of a 0 0] set_take_subset [of 2 "b64_split a 0 0"] by auto
  qed (use s in auto)
qed

lemma cstr_cut:
  assumes "\<forall>c \<in> set w. plain c"
  shows "takeWhile (\<lambda>c. c \<noteq> CHR '' '' \<and> c \<noteq> CHR 0x09) (cstr (bytes_of (w @ CHR '' '' # info))) = w"
proof -
  have z: "byte_of CHR '' '' \<noteq> 0" by (simp add: byte_of_eq_0)
  have "cstr (bytes_of (w @ CHR '' '' # info)) = w @ CHR '' '' # cstr (bytes_of info)"
    using assms by (induction w) (simp_all add: cstr_def bytes_of_def z byte_of_eq_0 plain_def)
  then show ?thesis using assms by (simp add: takeWhile_append2 plain_def)
qed

lemma fgets_whole: "0x0a \<notin> set f \<Longrightarrow> length f \<le> n \<Longrightarrow> fgets_take n f = (f, [])"
  by (induction n f rule: fgets_take.induct) auto

lemma parse_encoded_key:
  assumes "length (rsa_n key) = RSANUMWORDS" "length (rsa_rr key) = RSANUMWORDS" "rsa_len key = int RSANUMWORDS"
    "rsa_exponent key = sint (x :: u32)"
  shows "parse_key be (bytes_of (b64_encode (RSAPublicKey_bytes be key) @ CHR '' '' # info)) = Some key"
proof -
  let ?bs = "RSAPublicKey_bytes be key"
  have l: "length ?bs = sizeof_RSAPublicKey" using assms by (simp add: RSAPublicKey_bytes_length sizeof_RSAPublicKey_def)
  then obtain t where t: "b64_pton (b64_encode ?bs) (replicate (sizeof_RSAPublicKey + 4) 0) = (int sizeof_RSAPublicKey, t)" "take sizeof_RSAPublicKey t = ?bs"
    using b64_pton_encoded [of ?bs "replicate (sizeof_RSAPublicKey + 4) 0"] by auto
  show ?thesis unfolding parse_key_def cstr_cut [OF b64_encode_plain] using t assms RSAPublicKey_in_memory [OF assms] by simp
qed

lemma next_in_nth: "distinct keys \<Longrightarrow> Suc i < length keys \<Longrightarrow> next_in (keys ! i) keys = Some (keys ! Suc i)"
proof (induction keys arbitrary: i)
  case (Cons k ks)
  show ?case
  proof (cases i)
    case 0
    then show ?thesis using Cons.prems by (cases ks) simp_all
  next
    case (Suc j)
    then have "ks ! j \<in> set ks" using Cons.prems by simp
    then have "k \<noteq> ks ! j" using Cons.prems by auto
    then show ?thesis using Cons Suc by simp
  qed
qed simp

lemma next_in_last: "distinct keys \<Longrightarrow> next_in (last keys) keys = None"
proof (induction keys)
  case (Cons k ks)
  show ?case
  proof (cases ks)
    case (Cons k' ks')
    then have "last ks \<noteq> k" using Cons.prems \<open>distinct (k # ks)\<close> last_in_set [of ks] by auto
    then show ?thesis using Cons.IH \<open>distinct (k # ks)\<close> Cons by simp
  qed simp
qed simp

lemma nextkey_cases:
  "keys \<noteq> [] \<Longrightarrow> adb_auth_nextkey keys None = Some (hd keys)"
  "distinct keys \<Longrightarrow> Suc i < length keys \<Longrightarrow> adb_auth_nextkey keys (Some (keys ! i)) = Some (keys ! Suc i)"
  "distinct keys \<Longrightarrow> adb_auth_nextkey keys (Some (last keys)) = None"
  using next_in_nth [of keys i] next_in_last [of keys] by (cases keys; simp add: adb_auth_nextkey_def)+

section \<open>Properties\<close>

text \<open>
  Property C11. A public key that the host converts and writes to a file is read by the daemon as the same
  key, and the daemon's check of a signature with it is exact: with the host's file as the only
  key file, \<open>adb_auth_verify\<close> accepts a signature below the modulus exactly when its power, with the token
  taken out of its last bytes, hashes to the value of the padding. OpenSSL's base64 filter is
  assumed to encode as \<open>b64_ntop\<close> does.
\<close>

theorem host_key_trusted:
  assumes enc: "\<forall>bs. \<exists>targsize. b64_ntop bs targsize = Some (enc bs)"
    and n: "odd n" and e: "e = 3 \<or> e = 65537"
    and kf: "write_public_keyfile enc be can_open hostname username n e path = Some (p, f)" "0x0a \<notin> set f" "length f < MAX_PAYLOAD"
    and files: "file_exists files ''/adb_keys''" "file_bytes files ''/adb_keys'' = Some f" "\<not> file_exists files ''/data/misc/adb/adb_keys''"
    and sig: "length sig = RSANUMBYTES" "be_val sig < n" and len: "length tok = SHA_DIGEST_SIZE" "length stack = 64"
  shows "\<exists>em. length em = RSANUMBYTES \<and> be_val em = be_val sig ^ e mod n
    \<and> adb_auth_verify stack be files tok sig (int RSANUMBYTES)
      = Inr (sha1_spec (take 236 em @ map2 (XOR) (drop 236 em) tok) = kExpectedPadShaRsa2048)"
proof -
  obtain key where key: "RSA_to_RSAPublicKey n e = Some key"
    and f: "f = bytes_of (enc (RSAPublicKey_bytes be key) @ get_user_info hostname username MAX_PAYLOAD)"
    using kf(1) by (auto simp: write_public_keyfile_def Let_def split: if_splits option.splits)
  note K = RSAPublicKey_ok [OF n key]
  have E: "enc bs = b64_encode bs" for bs using enc by (metis b64_ntop_encode option.distinct(1) option.inject)
  have info: "\<exists>info. get_user_info hostname username MAX_PAYLOAD = CHR '' '' # info" by (simp add: get_user_info_def MAX_PAYLOAD_def)
  then have pk: "parse_key be f = Some key" using parse_encoded_key [of key _ be] K by (auto simp: f E)
  have "f \<noteq> []" using info by (auto simp: f bytes_of_def)
  then have "read_lines be f = [key]"
    using fgets_whole [OF kf(2), of "MAX_PAYLOAD - 1"] kf(3) pk by (subst read_lines.simps) (simp add: read_lines.simps [of be "[]"])
  then have keys: "load_keys be files = [key]" using files by (simp add: load_keys_def key_paths_def read_keys_def)
  have x: "rsa_exponent key = int e" using K e by auto
  then obtain em where "length em = RSANUMBYTES" "be_val em = be_val sig ^ e mod n"
    "RSA_verify stack key sig (int RSANUMBYTES) tok (int SHA_DIGEST_SIZE)
      = Inr (sha1_spec (take 236 em @ map2 (XOR) (drop 236 em) tok) = kExpectedPadShaRsa2048)"
    using RSA_verify_spec [of key sig tok stack] K e sig len by auto
  then show ?thesis by (auto simp: adb_auth_verify_def keys)
qed

lemma be_val_zeros [simp]: "be_val (replicate k 0) = 0"
  by (induction k) simp_all

lemma no_newline: "CHR 0x0a \<notin> set s \<Longrightarrow> 0x0a \<notin> set (bytes_of s)"
proof -
  assume s: "CHR 0x0a \<notin> set s"
  have "inj byte_of" by (rule inj_on_inverseI [of _ char_of_byte]) simp
  then have "byte_of CHR 0x0a \<notin> byte_of ` set s" using s by (simp add: inj_image_mem_iff)
  then show ?thesis by (simp add: bytes_of_def byte_of_def)
qed

lemma ones_odd: "odd (2 ^ 2048 - 1 :: nat)"
  by simp

lemma BN_num_bits_power: "BN_num_bits (2 ^ k - 1) = k"
proof (induction k)
  case (Suc k)
  have "(2 ^ Suc k - 1) div 2 = (2 ^ k - 1 :: nat)" by simp
  moreover have "(1 :: nat) \<le> 2 ^ k" by simp
  then have "(2 ^ Suc k - 1 :: nat) \<noteq> 0" unfolding power_Suc by linarith
  ultimately show ?case using Suc by (subst BN_num_bits.simps) presburger
qed (simp add: BN_num_bits.simps)

theorem host_key_trusted_witness:
  "\<exists>p f files em. write_public_keyfile b64_encode False (\<lambda>_. True) None None (2 ^ 2048 - 1) 3 ''/k'' = Some (p, f)
    \<and> file_bytes files ''/adb_keys'' = Some f \<and> be_val em = be_val (replicate 255 0 @ [7]) ^ 3 mod (2 ^ 2048 - 1)
    \<and> adb_auth_verify (replicate 64 0) False files (replicate 20 2) (replicate 255 0 @ [7]) 256
      = Inr (sha1_spec (take 236 em @ map2 (XOR) (drop 236 em) (replicate 20 2)) = kExpectedPadShaRsa2048)"
proof -
  define n :: nat where "n = 2 ^ 2048 - 1"
  have odd: "odd n" unfolding n_def by (rule ones_odd)
  have size: "RSA_size n = RSANUMBYTES" unfolding n_def RSA_size_def BN_num_bits_power by (simp add: RSANUMBYTES_def)
  then obtain key where key: "RSA_to_RSAPublicKey n 3 = Some key" by (simp add: RSA_to_RSAPublicKey_def Let_def)
  define f where "f = bytes_of (b64_encode (RSAPublicKey_bytes False key) @ '' unknown@unknown'')"
  have w: "write_public_keyfile b64_encode False (\<lambda>_. True) None None n 3 ''/k'' = Some (''/k.pub'', f)"
    by (simp add: write_public_keyfile_def key f_def get_user_info_def MAX_PAYLOAD_def PATH_MAX_def del: bytes_of_append)
  have "CHR 0x0a \<notin> set '' unknown@unknown''" by simp
  moreover have "CHR 0x0a \<notin> set (b64_encode (RSAPublicKey_bytes False key))" using b64_encode_plain by (auto simp: plain_def)
  ultimately have nl: "0x0a \<notin> set f" unfolding f_def by (intro no_newline) simp
  have "length f < MAX_PAYLOAD"
    using RSAPublicKey_ok [OF odd key] b64_encode_length [of "RSAPublicKey_bytes False key"]
    by (simp add: f_def MAX_PAYLOAD_def RSAPublicKey_bytes_length RSANUMWORDS_def RSANUMBYTES_def)
  moreover have "be_val (replicate 255 0 @ [7]) < n" unfolding n_def by (simp add: be_val_append)
  moreover have "\<forall>bs. \<exists>targsize. b64_ntop bs targsize = Some (b64_encode bs)" by (auto simp: b64_ntop_encode intro: lessI)
  moreover define files where "files = \<lparr>file_exists = (\<lambda>p. p = ''/adb_keys''), file_bytes = (\<lambda>_. Some f)\<rparr>"
  ultimately have "\<exists>em. be_val em = be_val (replicate 255 0 @ [7]) ^ 3 mod n
      \<and> adb_auth_verify (replicate 64 0) False files (replicate 20 2) (replicate 255 0 @ [7]) 256
        = Inr (sha1_spec (take 236 em @ map2 (XOR) (drop 236 em) (replicate 20 2)) = kExpectedPadShaRsa2048)"
    using host_key_trusted [of b64_encode n 3 False "\<lambda>_. True" None None "''/k''" "''/k.pub''" f files
        "replicate 255 0 @ [7]" "replicate 20 2" "replicate 64 0"] odd w nl
    by (auto simp: RSANUMBYTES_def SHA_DIGEST_SIZE_def)
  moreover have "file_bytes files ''/adb_keys'' = Some f" by (simp add: files_def)
  ultimately show ?thesis using w unfolding n_def [symmetric] by blast
qed

end
