(* ===== verification/Connection.thy ===== *)
theory Connection
  imports AuthKeys
begin

text \<open>
  The protocol of adb.c: the packets that set up, authenticate and close a connection, the packets
  of its streams, and the daemon's dialogue with the framework about unknown keys
  (adb_auth_client.c).
\<close>

section \<open>Environment\<close>

text \<open>
  What the handlers take from outside: the banner and properties of the device, the files with the
  trusted keys, the signatures of OpenSSL and the files of the user on the host, \<open>service_to_fd\<close>
  and the flag that says whether the daemon runs as root, the functions the smart socket calls,
  and what is on the stack when a hash context is allocated.
\<close>

record 's conn_env =
  adb_device_banner :: string
  property_get :: "string \<Rightarrow> string"
  big_endian :: bool
  trusted :: key_files
  user :: user_env
  RSA_sign :: "addr \<Rightarrow> byte list \<Rightarrow> byte list option"
  service_to_fd :: "string \<Rightarrow> 's \<Rightarrow> (int \<times> 's) res"
  runs_as_root :: bool
  calls :: "'s host_calls"
  hash_stack :: "byte list"

type_synonym 'a penv = "'a pstate_scheme conn_env"

definition smart :: "'a penv \<Rightarrow> 'a pstate_scheme enqueue" where
  [simp]: "smart env = smart_enqueue (calls env)"

section \<open>Going online and offline\<close>

definition upd_transport :: "addr \<Rightarrow> (atransport \<Rightarrow> atransport) \<Rightarrow> 'a tstate_scheme \<Rightarrow> 'a tstate_scheme res" where
  "upd_transport t f st = bindr (get_transport t st) (\<lambda>tr. Inr (put_transport t (f tr) st))"

text \<open>The one disconnect entry of the authentication.\<close>

definition usb_disconnect :: adisconnect where "usb_disconnect = adb_auth_disconnect 0"

definition usb_disconnected :: "'a pstate_scheme \<Rightarrow> 'a pstate_scheme res" where
  "usb_disconnected st = bindr (remove_transport_disconnect (usb_transport st) usb_disconnect st) (\<lambda>st.
     Inr (st\<lparr>usb_transport := None, needs_retry := False\<rparr>))"

text \<open>Calling the function of a disconnect entry.\<close>

definition run_disconnect :: "adisconnect \<Rightarrow> 'a pstate_scheme \<Rightarrow> 'a pstate_scheme res" where
  "run_disconnect d st =
     (case d of
        remote_socket_disconnect a \<Rightarrow> remote_socket_disconnect_run a st
      | listener_disconnect l \<Rightarrow> listener_disconnect_run l st
      | adb_auth_disconnect u \<Rightarrow> usb_disconnected st)"

definition handle_online :: "addr \<Rightarrow> 'a pstate_scheme \<Rightarrow> 'a pstate_scheme res" where
  "handle_online t st = upd_transport t (\<lambda>tr. tr\<lparr>t_online := True\<rparr>) st"

definition handle_offline :: "addr \<Rightarrow> 'a pstate_scheme \<Rightarrow> 'a pstate_scheme res" where
  "handle_offline t st = bindr (upd_transport t (\<lambda>tr. tr\<lparr>t_online := False\<rparr>) st) (run_transport_disconnects run_disconnect t)"

section \<open>Sending\<close>

definition send_ready :: "u32 \<Rightarrow> u32 \<Rightarrow> addr \<Rightarrow> 'a pstate_scheme \<Rightarrow> 'a pstate_scheme res" where
  "send_ready loc remote t st = send_packet (message_packet A_OKAY loc remote) (Some t) st"

definition send_close :: "u32 \<Rightarrow> u32 \<Rightarrow> addr \<Rightarrow> 'a pstate_scheme \<Rightarrow> 'a pstate_scheme res" where
  "send_close loc remote t st = send_packet (message_packet A_CLSE loc remote) (Some t) st"

definition cnxn_props :: "string list" where
  "cnxn_props = [''ro.product.name'', ''ro.product.model'', ''ro.product.device'']"

text \<open>
  The banner, without the terminating zero. When it does not fit, the remaining size wraps around
  and the next piece, or the checksum of the packet, reaches beyond the buffer.
\<close>

definition fill_connect_data :: "'a penv \<Rightarrow> nat \<Rightarrow> 'a pstate_scheme \<Rightarrow> string res" where
  "fill_connect_data env bufsize st =
     (let banner = (if ADB_HOST st then ''host::''
        else adb_device_banner env @ ''::'' @ concat (map (\<lambda>p. p @ ''='' @ property_get env p @ '';'') cnxn_props)) in
      if length banner + 1 > bufsize then Inl MemFault else Inr banner)"

definition send_connect :: "'a penv \<Rightarrow> addr \<Rightarrow> 'a pstate_scheme \<Rightarrow> 'a pstate_scheme res" where
  "send_connect env t st = bindr (fill_connect_data env MAX_PAYLOAD st) (\<lambda>banner.
     send_packet (get_apacket\<lparr>msg := zero_msg\<lparr>command := A_CNXN, arg0 := A_VERSION, arg1 := of_nat MAX_PAYLOAD,
         data_length := of_nat (length banner + 1)\<rparr>, pk_data := bytes_of banner @ [0]\<rparr>) (Some t) st)"

definition TOKEN_SIZE :: nat where "TOKEN_SIZE = 20"
definition ADB_AUTH_TOKEN :: u32 where "ADB_AUTH_TOKEN = 1"
definition ADB_AUTH_SIGNATURE :: u32 where "ADB_AUTH_SIGNATURE = 2"
definition ADB_AUTH_RSAPUBLICKEY :: u32 where "ADB_AUTH_RSAPUBLICKEY = 3"

definition auth_packet :: "u32 \<Rightarrow> byte list \<Rightarrow> apacket" where
  "auth_packet kind bs = get_apacket\<lparr>msg := zero_msg\<lparr>command := A_AUTH, arg0 := kind, data_length := of_nat (length bs)\<rparr>, pk_data := bs\<rparr>"

text \<open>A read from \<open>/dev/urandom\<close> into the token; a short read leaves the rest of it alone.\<close>

definition adb_auth_generate_token :: "byte list \<Rightarrow> 'a pstate_scheme \<Rightarrow> nat \<times> byte list \<times> 'a pstate_scheme" where
  "adb_auth_generate_token tok st =
     (if ADB_HOST st then (0, tok, st)
      else case urandom st of
        [] \<Rightarrow> (0, tok, st)
      | None # us \<Rightarrow> (0, tok, st\<lparr>urandom := us\<rparr>)
      | Some bs # us \<Rightarrow>
          if length bs < TOKEN_SIZE then (0, bs @ drop (length bs) tok, st\<lparr>urandom := us\<rparr>)
          else (TOKEN_SIZE, take TOKEN_SIZE bs, st\<lparr>urandom := us\<rparr>))"

definition send_auth_request :: "addr \<Rightarrow> 'a pstate_scheme \<Rightarrow> 'a pstate_scheme res" where
  "send_auth_request t st = bindr (get_transport t st) (\<lambda>tr.
     let (ret, tok, st) = adb_auth_generate_token (token tr) st; st = put_transport t (tr\<lparr>token := tok\<rparr>) st in
     if ret \<noteq> TOKEN_SIZE then Inr st
     else send_packet (auth_packet ADB_AUTH_TOKEN tok) (Some t) st)"

text \<open>\<open>adb_auth_sign\<close> and \<open>adb_auth_get_userkey\<close> do nothing on the device.\<close>

definition send_auth_response :: "'a penv \<Rightarrow> byte list \<Rightarrow> addr \<Rightarrow> 'a pstate_scheme \<Rightarrow> 'a pstate_scheme res" where
  "send_auth_response env tok t st = bindr (get_transport t st) (\<lambda>tr. bindr (deref (t_key tr)) (\<lambda>k.
     case (if ADB_HOST st then RSA_sign env k tok else None) of
       None \<Rightarrow> Inr st
     | Some sig \<Rightarrow> send_packet (auth_packet ADB_AUTH_SIGNATURE sig) (Some t) st))"

definition send_auth_publickey :: "'a penv \<Rightarrow> addr \<Rightarrow> 'a pstate_scheme \<Rightarrow> 'a pstate_scheme res" where
  "send_auth_publickey env t st =
     (case (if ADB_HOST st then adb_auth_get_userkey (user env) MAX_PAYLOAD else None) of
        None \<Rightarrow> Inr st
      | Some key \<Rightarrow> send_packet (auth_packet ADB_AUTH_RSAPUBLICKEY key) (Some t) st)"

definition adb_auth_verified :: "'a penv \<Rightarrow> addr \<Rightarrow> 'a pstate_scheme \<Rightarrow> 'a pstate_scheme res" where
  "adb_auth_verified env t st = bindr (handle_online t st) (send_connect env t)"

section \<open>The banner\<close>

definition qual_overwrite :: "string \<Rightarrow> string option" where
  "qual_overwrite src = (if src = [] then None else Some src)"

definition set_prop :: "string \<Rightarrow> atransport \<Rightarrow> atransport" where
  "set_prop key tr =
     (case strchr key CHR ''='' of
        None \<Rightarrow> tr
      | Some i \<Rightarrow>
          let v = drop (Suc i) key; key = take i key in
          if key = ''ro.product.name'' then tr\<lparr>product := qual_overwrite v\<rparr>
          else if key = ''ro.product.model'' then tr\<lparr>model := qual_overwrite v\<rparr>
          else if key = ''ro.product.device'' then tr\<lparr>device := qual_overwrite v\<rparr>
          else tr)"

definition banner_props :: "string \<Rightarrow> string list" where
  "banner_props banner =
     (case strchr banner CHR '':'' of
        None \<Rightarrow> []
      | Some i \<Rightarrow> (case strchr (drop (Suc i) banner) CHR '':'' of
          None \<Rightarrow> []
        | Some j \<Rightarrow> strtok_tokens CHR '';'' (drop (Suc j) (drop (Suc i) banner))))"

definition banner_state :: "string \<Rightarrow> int" where
  "banner_state type =
     (if type = ''bootloader'' then CS_BOOTLOADER
      else if type = ''device'' then CS_DEVICE
      else if type = ''recovery'' then CS_RECOVERY
      else if type = ''sideload'' then CS_SIDELOAD
      else CS_HOST)"

definition parse_banner :: "'a penv \<Rightarrow> string \<Rightarrow> addr \<Rightarrow> 'a pstate_scheme \<Rightarrow> 'a pstate_scheme res" where
  "parse_banner env banner t st =
     (let type = takeWhile (\<lambda>c. c \<noteq> CHR '':'') banner in
      bindr (upd_transport t (\<lambda>tr. (fold set_prop (banner_props banner) tr)\<lparr>connection_state := banner_state type\<rparr>) st) (\<lambda>st.
        if banner_state type = CS_HOST then Inr st else update_transports (smart env) st))"

section \<open>Unknown keys\<close>

definition adb_auth_confirm_key :: "byte list \<Rightarrow> nat \<Rightarrow> addr \<Rightarrow> 'a pstate_scheme \<Rightarrow> 'a pstate_scheme res" where
  "adb_auth_confirm_key key len t st =
     bindr (if usb_transport st = None then add_transport_disconnect (Some t) usb_disconnect (st\<lparr>usb_transport := Some t\<rparr>) else Inr st) (\<lambda>st.
       if framework_fd st < 0 then Inr (st\<lparr>needs_retry := True\<rparr>)
       else if len = 0 \<or> len > length key then Inl MemFault
       else if key ! (len - 1) \<noteq> 0 then Inr st
       else
         let m = ''PK'' @ cstr key in
         if length m \<ge> MAX_PAYLOAD then Inr st
         else bindr (adb_write (framework_fd st) (bytes_of m) st) (\<lambda>(ret, st).
           case ret of
             IoErr e \<Rightarrow> Inr st
           | IoN n \<Rightarrow> bindr (fdevent_install (auth_fde t) (framework_fd st) (adb_auth_event t) st) (fdevent_add (auth_fde t) FDE_READ)))"

text \<open>The answer of the framework; it concerns the transport in \<open>usb_transport\<close>, whichever one asked.\<close>

definition adb_auth_event_run :: "'a penv \<Rightarrow> int \<Rightarrow> u16 \<Rightarrow> 'a pstate_scheme \<Rightarrow> 'a pstate_scheme res" where
  "adb_auth_event_run env fd events st =
     (if has events FDE_READ then
        bindr (adb_read fd 2 st) (\<lambda>(ret, response, st).
          case ret of
            IoErr e \<Rightarrow>
              bindr (case usb_transport st of None \<Rightarrow> Inr st | Some u \<Rightarrow> fdevent_remove (auth_fde u) st) (\<lambda>st.
                Inr (st\<lparr>framework_fd := -1\<rparr>))
          | IoN n \<Rightarrow>
              if n = 2 \<and> response = bytes_of ''OK'' then
                (case usb_transport st of None \<Rightarrow> Inr st | Some u \<Rightarrow> adb_auth_verified env u st)
              else Inr st)
      else Inr st)"

text \<open>A connection of the framework; \<open>s\<close> is what \<open>accept\<close> returns.\<close>

definition adb_auth_listener_run :: "int \<Rightarrow> 'a pstate_scheme \<Rightarrow> 'a pstate_scheme res" where
  "adb_auth_listener_run s st =
     (if s < 0 then Inr st
      else
        let st = st\<lparr>framework_fd := s\<rparr> in
        if needs_retry st then
          bindr (deref (usb_transport st)) (\<lambda>u. send_auth_request u (st\<lparr>needs_retry := False\<rparr>))
        else Inr st)"

text \<open>The record of the listening socket is a static variable.\<close>

definition auth_listener_fde :: addr where "auth_listener_fde = 3"

definition adb_auth_init :: "int \<Rightarrow> bool \<Rightarrow> 'a pstate_scheme \<Rightarrow> 'a pstate_scheme res" where
  "adb_auth_init fd listens st =
     (if fd < 0 then Inr st
      else if \<not> listens then Inr st
      else bindr (fdevent_install auth_listener_fde fd adb_auth_listener st) (fdevent_add auth_listener_fde FDE_READ))"

section \<open>Packets\<close>

text \<open>
  The data of a packet as a string, up to a zero. A packet without one is read beyond its data.
\<close>

definition packet_string :: "apacket \<Rightarrow> string res" where
  "packet_string p = (if 0 \<in> set (pk_data p) then Inr (cstr (pk_data p)) else Inl MemFault)"

definition packet_bytes :: "apacket \<Rightarrow> byte list res" where
  "packet_bytes p =
     (let n = unat (data_length (msg p)) in if n > length (pk_data p) then Inl MemFault else Inr (take n (pk_data p)))"

text \<open>The name in an \<open>OPEN\<close> packet, whose last byte is overwritten with a zero.\<close>

definition open_name :: "apacket \<Rightarrow> string res" where
  "open_name p =
     (let n = unat (data_length (msg p)) in
      if n = 0 then Inr []
      else if n > MAX_PAYLOAD \<or> n - 1 > length (pk_data p) then Inl MemFault
      else Inr (cstr (take (n - 1) (pk_data p))))"

definition handle_sync :: "'a penv \<Rightarrow> apacket \<Rightarrow> addr \<Rightarrow> 'a pstate_scheme \<Rightarrow> 'a pstate_scheme res" where
  "handle_sync env p t st =
     (if arg0 (msg p) \<noteq> 0 then
        bindr (send_packet p (Some t) st) (\<lambda>st. if HOST st then send_connect env t st else Inr st)
      else
        bindr (upd_transport t (\<lambda>tr. tr\<lparr>connection_state := CS_OFFLINE\<rparr>) st) (\<lambda>st.
        bindr (handle_offline t st) (send_packet p (Some t))))"

definition handle_cnxn :: "'a penv \<Rightarrow> apacket \<Rightarrow> addr \<Rightarrow> 'a pstate_scheme \<Rightarrow> 'a pstate_scheme res" where
  "handle_cnxn env p t st = bindr (get_transport t st) (\<lambda>tr.
     bindr (if connection_state tr \<noteq> CS_OFFLINE
            then handle_offline t (put_transport t (tr\<lparr>connection_state := CS_OFFLINE\<rparr>) st) else Inr st) (\<lambda>st.
     bindr (packet_string p) (\<lambda>banner.
     bindr (parse_banner env banner t st) (\<lambda>st.
       if HOST st \<or> \<not> auth_enabled st then
         bindr (handle_online t st) (\<lambda>st. if \<not> HOST st then send_connect env t st else Inr st)
       else send_auth_request t st))))"

definition handle_auth :: "'a penv \<Rightarrow> apacket \<Rightarrow> addr \<Rightarrow> 'a pstate_scheme \<Rightarrow> 'a pstate_scheme res" where
  "handle_auth env p t st = bindr (get_transport t st) (\<lambda>tr.
     if arg0 (msg p) = ADB_AUTH_TOKEN then
       let key = (if ADB_HOST st then adb_auth_nextkey (key_list st) (t_key tr) else None);
           st = put_transport t (tr\<lparr>connection_state := CS_UNAUTHORIZED, t_key := key\<rparr>) st in
       if key \<noteq> None then bindr (packet_bytes p) (\<lambda>tok. send_auth_response env tok t st)
       else send_auth_publickey env t st
     else if arg0 (msg p) = ADB_AUTH_SIGNATURE then
       bindr (if ADB_HOST st then Inr False
              else adb_auth_verify (hash_stack env) (big_endian env) (trusted env) (token tr) (pk_data p) (sint (data_length (msg p)))) (\<lambda>ok.
         if ok then bindr (adb_auth_verified env t st) (upd_transport t (\<lambda>tr. tr\<lparr>failed_auth_attempts := 0\<rparr>))
         else send_auth_request t (put_transport t (tr\<lparr>failed_auth_attempts := failed_auth_attempts tr + 1\<rparr>) st))
     else if arg0 (msg p) = ADB_AUTH_RSAPUBLICKEY then
       if ADB_HOST st then Inr st else adb_auth_confirm_key (pk_data p) (unat (data_length (msg p))) t st
     else Inr st)"

text \<open>The packets of streams. \<open>join_remote\<close> gives a local socket a remote peer.\<close>

definition join_remote :: "addr \<Rightarrow> u32 \<Rightarrow> addr \<Rightarrow> 'a pstate_scheme \<Rightarrow> (addr \<times> 'a pstate_scheme) res" where
  "join_remote a rid t st = bindr (create_remote_socket rid (Some t) st) (\<lambda>(r, st).
     bindr (upd_sock a (\<lambda>s. s\<lparr>peer := Some r\<rparr>) st) (\<lambda>st.
     bindr (upd_sock r (\<lambda>s. s\<lparr>peer := Some a\<rparr>) st) (\<lambda>st. Inr (r, st))))"

definition handle_open :: "'a penv \<Rightarrow> apacket \<Rightarrow> addr \<Rightarrow> 'a pstate_scheme \<Rightarrow> 'a pstate_scheme res" where
  "handle_open env p t st = bindr (open_name p) (\<lambda>name.
     bindr (create_local_service_socket (service_to_fd env) (runs_as_root env) name st) (\<lambda>(s, st).
       case s of
         None \<Rightarrow> send_close 0 (arg0 (msg p)) t st
       | Some a \<Rightarrow>
           bindr (join_remote a (arg0 (msg p)) t st) (\<lambda>(r, st).
           bindr (get_sock a st) (\<lambda>s. bindr (get_sock r st) (\<lambda>ps.
           bindr (send_ready (s_id s) (s_id ps) t st) (asocket_ready (smart env) a))))))"

definition handle_okay :: "'a penv \<Rightarrow> apacket \<Rightarrow> addr \<Rightarrow> 'a pstate_scheme \<Rightarrow> 'a pstate_scheme res" where
  "handle_okay env p t st = bindr (find_local_socket (arg1 (msg p)) st) (\<lambda>s.
     case s of
       None \<Rightarrow> Inr st
     | Some a \<Rightarrow> bindr (get_sock a st) (\<lambda>s.
         bindr (if peer s = None then bindr (join_remote a (arg0 (msg p)) t st) (\<lambda>(r, st). Inr st) else Inr st)
           (asocket_ready (smart env) a)))"

definition handle_clse :: "apacket \<Rightarrow> 'a pstate_scheme \<Rightarrow> 'a pstate_scheme res" where
  "handle_clse p st = bindr (find_local_socket (arg1 (msg p)) st) (\<lambda>s.
     case s of None \<Rightarrow> Inr st | Some a \<Rightarrow> asocket_close a st)"

definition handle_wrte :: "'a penv \<Rightarrow> apacket \<Rightarrow> addr \<Rightarrow> 'a pstate_scheme \<Rightarrow> 'a pstate_scheme res" where
  "handle_wrte env p t st = bindr (find_local_socket (arg1 (msg p)) st) (\<lambda>s.
     case s of
       None \<Rightarrow> Inr st
     | Some a \<Rightarrow>
         bindr (asocket_enqueue (smart env) a (p\<lparr>pk_len := unat (data_length (msg p))\<rparr>) st) (\<lambda>(r, st).
           if r = 0 then bindr (get_sock a st) (\<lambda>s. send_ready (s_id s) (arg0 (msg p)) t st) else Inr st))"

definition handle_packet :: "'a penv \<Rightarrow> apacket \<Rightarrow> addr \<Rightarrow> 'a pstate_scheme \<Rightarrow> 'a pstate_scheme res" where
  "handle_packet env p t st = bindr (get_transport t st) (\<lambda>tr.
     let c = command (msg p) in
     if c = A_SYNC then handle_sync env p t st
     else if c = A_CNXN then handle_cnxn env p t st
     else if c = A_AUTH then handle_auth env p t st
     else if c = A_OPEN then if t_online tr then handle_open env p t st else Inr st
     else if c = A_OKAY then if t_online tr then handle_okay env p t st else Inr st
     else if c = A_CLSE then if t_online tr then handle_clse p st else Inr st
     else if c = A_WRTE then if t_online tr then handle_wrte env p t st else Inr st
     else Inr st)"

definition transport_socket_events_run :: "'a penv \<Rightarrow> addr \<Rightarrow> int \<Rightarrow> u16 \<Rightarrow> 'a pstate_scheme \<Rightarrow> 'a pstate_scheme res" where
  "transport_socket_events_run env t fd events st =
     (if has events FDE_READ then
        bindr (read_packet fd st) (\<lambda>(p, st). case p of None \<Rightarrow> Inr st | Some p \<Rightarrow> handle_packet env p t st)
      else Inr st)"

section \<open>Who is online\<close>

definition is_online :: "'a tstate_scheme \<Rightarrow> addr \<Rightarrow> bool" where
  "is_online st u \<longleftrightarrow> (\<exists>tr. transports st u = Some tr \<and> t_online tr)"

text \<open>A packet with a signature that a trusted key verifies.\<close>

definition signature_verified :: "'a penv \<Rightarrow> apacket \<Rightarrow> addr \<Rightarrow> 'a pstate_scheme \<Rightarrow> bool" where
  "signature_verified env p t st \<longleftrightarrow> command (msg p) = A_AUTH \<and> arg0 (msg p) = ADB_AUTH_SIGNATURE \<and>
     (\<exists>tr. transports st t = Some tr \<and>
        adb_auth_verify (hash_stack env) (big_endian env) (trusted env) (token tr) (pk_data p) (sint (data_length (msg p))) = Inr True)"

text \<open>The framework has sent \<open>OK\<close> for the transport that waits for a decision.\<close>

definition user_agreed :: "int \<Rightarrow> addr \<Rightarrow> 'a pstate_scheme \<Rightarrow> bool" where
  "user_agreed fd u st \<longleftrightarrow> usb_transport st = Some u \<and> (\<exists>st'. adb_read fd 2 st = Inr (IoN 2, bytes_of ''OK'', st'))"

lemma adb_read_frame: "adb_read fd n st = Inr (r, bs, st') \<Longrightarrow> \<exists>es. st' = rd_set fd es st"
  using adb_read_spec [of fd n st r bs st'] by blast

lemma ensures_get_transport [simp]: "ensures (get_transport t st) P \<longleftrightarrow> (\<forall>tr. transports st t = Some tr \<longrightarrow> P tr)"
  by (auto simp: get_transport_def from_opt_def split: option.splits)

lemma ensures_upd_transport [simp]:
  "ensures (upd_transport t f st) P \<longleftrightarrow> (\<forall>tr. transports st t = Some tr \<longrightarrow> P (put_transport t (f tr) st))"
  by (simp add: upd_transport_def)

section \<open>Properties\<close>

definition ex_env :: "pstate conn_env" where
  "ex_env = \<lparr>adb_device_banner = ''device'', property_get = (\<lambda>_. ''x''), big_endian = False,
     trusted = \<lparr>file_exists = (\<lambda>_. False), file_bytes = (\<lambda>_. None)\<rparr>,
     user = \<lparr>HOME = None, ADB_VENDOR_KEYS = None, path_exists = (\<lambda>_. False), can_mkdir = (\<lambda>_. False), load_file = (\<lambda>_. None),
       can_generate = (\<lambda>_. False), can_read_key = (\<lambda>_. False)\<rparr>,
     RSA_sign = (\<lambda>_ _. None), service_to_fd = (\<lambda>_ st. Inr (-1, st)), runs_as_root = False,
     calls = \<lparr>handle_host_request_fn = (\<lambda>_ _ _ _ _ st. Inr (-1, st)), host_service_to_socket_fn = (\<lambda>_ _ st. Inr (None, st))\<rparr>,
     hash_stack = replicate 64 0\<rparr>"

lemma send_packet_ok:
  assumes "unat (data_length (msg p)) \<le> length (pk_data p)" "transports st t = Some tr" "wr_ev st (transport_socket tr) = []"
  shows "\<exists>st'. send_packet p (Some t) st = Inr st'"
proof -
  obtain q where q: "seal_packet p = Inr q" using sum_loop_enough [OF assms(1)] by (simp add: seal_packet_def Let_def)
  have "\<exists>w. writex_rest (transport_socket tr) (replicate sizeof_ptr 0) st = Inr (0, w)"
    using writex_rest_clean [of st "transport_socket tr" "replicate sizeof_ptr 0"] assms(3) by (auto simp: sizeof_ptr_def writex_maxnum_def)
  then show ?thesis using q assms(2) by (auto simp: send_packet_def write_packet_def get_transport_def Let_def)
qed

lemma send_packet_transports: "send_packet p t st = Inr st' \<Longrightarrow> transports st' = transports st"
  by (auto dest!: send_packet_frame)

lemma send_connect_transports: "send_connect env t st = Inr st' \<Longrightarrow> transports st' = transports st"
  by (auto simp: send_connect_def bindr_eq_Inr dest: send_packet_transports)

text \<open>A daemon of two transports, the first of which waits for the user.\<close>

definition ex_waiting :: pstate where
  "ex_waiting = ex_pstate\<lparr>usb_transport := Some 8, framework_fd := 7, rd_ev := (\<lambda>_. [])(7 := [RdBytes (bytes_of ''OK'')])\<rparr>"

lemma framework_ok:
  fixes st :: pstate
  assumes "rd_ev st 7 = [RdBytes (bytes_of ''OK'')]" "usb_transport st = Some u" "transports st u = Some tr" "wr_ev st (transport_socket tr) = []" "\<not> ADB_HOST st"
  shows "\<exists>st'. adb_auth_event_run ex_env 7 FDE_READ st = Inr st' \<and> is_online st' u"
proof -
  let ?s = "rd_set 7 [] st" and ?tr = "tr\<lparr>t_online := True\<rparr>"
  have r: "adb_read 7 2 st = Inr (IoN 2, bytes_of ''OK'', ?s)" using adb_read_cases(4) [OF assms(1), of 2] by (simp add: bytes_of_def)
  have f: "\<exists>b. fill_connect_data ex_env MAX_PAYLOAD (put_transport u ?tr ?s) = Inr b \<and> length b < 4096"
    using assms(5) by (simp add: fill_connect_data_def ex_env_def cnxn_props_def MAX_PAYLOAD_def put_transport_def rd_set_def)
  then obtain b where b: "fill_connect_data ex_env MAX_PAYLOAD (put_transport u ?tr ?s) = Inr b" "length b < 4096" by blast
  have "unat (of_nat (Suc (length b)) :: u32) = Suc (length b)" using b(2) by (simp add: unat_of_nat del: of_nat_Suc)
  then have len: "unat (1 + of_nat (length b) :: u32) = Suc (length b)" by simp
  have "\<exists>st'. send_connect ex_env u (put_transport u ?tr ?s) = Inr st'"
    unfolding send_connect_def b(1) bindr_simps
    using assms(4) b(2) by (intro send_packet_ok [of _ _ _ ?tr]) (simp_all add: put_transport_def rd_set_def get_apacket_def zero_msg_def len)
  then obtain st' where st': "send_connect ex_env u (put_transport u ?tr ?s) = Inr st'" by blast
  have "has FDE_READ FDE_READ" by (simp add: has_def FDE_READ_def)
  then have "adb_auth_event_run ex_env 7 FDE_READ st = Inr st'"
    using assms(2,3) st' by (simp add: adb_auth_event_run_def r adb_auth_verified_def handle_online_def upd_transport_def get_transport_def rd_set_def)
  moreover have "is_online st' u" using send_connect_transports [OF st'] by (simp add: is_online_def put_transport_def)
  ultimately show ?thesis by blast
qed

lemma confirm_key_frame:
  assumes c: "adb_auth_confirm_key key len t st = Inr s1" and u: "usb_transport st = Some u"
  shows "usb_transport s1 = Some u \<and> transports s1 = transports st \<and> rd_ev s1 = rd_ev st \<and> ADB_HOST s1 = ADB_HOST st
    \<and> (\<forall>fd. fd \<noteq> framework_fd st \<longrightarrow> wr_ev s1 fd = wr_ev st fd)"
proof -
  have fu: "fd_frame s s' \<Longrightarrow> usb_transport s' = usb_transport s \<and> transports s' = transports s \<and> rd_ev s' = rd_ev s \<and> wr_ev s' = wr_ev s \<and> ADB_HOST s' = ADB_HOST s"
    for s s' :: "'a pstate_scheme"
    by (cases s; cases s') (simp add: fd_frame_def)
  have io: "\<forall>n. a \<noteq> IoN n \<Longrightarrow> \<forall>e. a \<noteq> IoErr e \<Longrightarrow> P" for a P by (cases a) auto
  show ?thesis
    using c u by (auto simp: adb_auth_confirm_key_def Let_def bindr_eq_Inr wr_done_def split: if_splits io_ret.splits
        dest!: adb_write_spec fdevent_install_frame [THEN fu] fdevent_add_frame [THEN fu] elim: io)
qed

text \<open>
  Property C33. The user's consent reaches the wrong transport: while one transport waits for a decision, a
  key that another transport presents is shown to the user, but the answer \<open>OK\<close> puts the first
  transport online, and the one whose key was shown stays as it was.
\<close>

theorem consent_reaches_first_transport:
  assumes u: "usb_transport st = Some u" "u \<noteq> t" and c: "adb_auth_confirm_key key len t st = Inr s1"
    and r: "adb_read fd 2 s1 = Inr (IoN 2, bytes_of ''OK'', s2)" and e: "adb_auth_event_run env fd FDE_READ s1 = Inr s3"
  shows "is_online s3 u \<and> is_online s3 t = is_online st t"
proof -
  have "usb_transport s1 = Some u \<and> transports s1 = transports st" using confirm_key_frame [OF c u(1)] by simp
  moreover obtain es where s2: "s2 = rd_set fd es s1" using adb_read_frame [OF r] by blast
  moreover have "has FDE_READ FDE_READ" by (simp add: has_def FDE_READ_def)
  ultimately have "usb_transport s2 = Some u" "transports s2 = transports st" "adb_auth_verified env u s2 = Inr s3"
    using e r by (auto simp: adb_auth_event_run_def rd_set_def)
  then obtain tr where "transports st u = Some tr" "transports s3 = (transports st)(u \<mapsto> tr\<lparr>t_online := True\<rparr>)"
    by (auto simp: adb_auth_verified_def handle_online_def upd_transport_def bindr_eq_Inr get_transport_def put_transport_def dest!: send_connect_transports)
  then show ?thesis using u(2) by (simp add: is_online_def)
qed

lemma confirm_key_ok:
  fixes st :: pstate
  assumes "fd_inv st" "usb_transport st = Some u" "framework_fd st = 7" "wr_ev st 7 = []"
  shows "\<exists>s1. adb_auth_confirm_key [0x41, 0] 2 t st = Inr s1"
proof -
  let ?m = "bytes_of (''PK'' @ cstr [0x41, 0])"
  obtain ds cs where w: "adb_write 7 ?m st = Inr (IoN 3, wr_done 7 ds cs [] st)"
    using adb_write.simps [of 7 ?m st] assms(4) by (auto simp: sys_write_def bytes_of_def cstr_def wr_done_def)
  let ?s = "wr_done 7 ds cs [] st"
  have "fd_inv ?s" using assms(1) fd_inv_cong [of ?s st] by (simp add: wr_done_def)
  then obtain s1 s2 where s: "fdevent_install (auth_fde t) 7 (adb_auth_event t) ?s = Inr s1" "fdevent_set (auth_fde t) FDE_READ s1 = Inr s2"
    by (rule install_set_ok [of ?s 7 "auth_fde t" "adb_auth_event t"]) (auto simp: FD_SETSIZE_def)
  have "fdes s1 (auth_fde t) = Some \<lparr>fde_fd = 7, force_eof = False, fde_state = FDE_ACTIVE, fde_events = 0, fde_func = adb_auth_event t\<rparr>"
    using fdevent_install_result [OF \<open>fd_inv ?s\<close> s(1)] by simp
  then have "fdevent_add (auth_fde t) FDE_READ s1 = Inr s2"
    using s(2) by (simp add: fdevent_add_def get_fde_def FDE_ACTIVE_def FDE_EVENTMASK_def FDE_READ_def)
  then show ?thesis using assms w s(1)
    by (simp add: adb_auth_confirm_key_def Let_def cstr_def MAX_PAYLOAD_def wr_done_def)
qed

theorem consent_reaches_first_transport_witness:
  "\<exists>st s1 s2 s3. usb_transport st = Some 8 \<and> adb_auth_confirm_key [0x41, 0] 2 12 st = Inr s1 \<and> adb_read 7 2 s1 = Inr (IoN 2, bytes_of ''OK'', s2)
    \<and> adb_auth_event_run ex_env 7 FDE_READ s1 = Inr s3 \<and> is_online s3 8 \<and> \<not> is_online s3 12"
proof -
  let ?st = "ex_waiting\<lparr>transports := [8 \<mapsto> zero_transport, 12 \<mapsto> zero_transport]\<rparr>"
  have x: "fd_inv ?st" "usb_transport ?st = Some 8" "framework_fd ?st = 7" "\<And>fd. wr_ev ?st fd = []"
    "rd_ev ?st 7 = [RdBytes (bytes_of ''OK'')]" "transports ?st 8 = Some zero_transport" "\<not> ADB_HOST ?st" "\<not> is_online ?st 12"
    using fd_start_inv [of ?st] by (simp_all add: fd_start_def ex_waiting_def ex_pstate_simps is_online_def zero_transport_def)
  obtain s1 where s1: "adb_auth_confirm_key [0x41, 0] 2 12 ?st = Inr s1" using confirm_key_ok x(1-4) by blast
  note F = confirm_key_frame [OF s1 x(2)]
  then obtain s3 where s3: "adb_auth_event_run ex_env 7 FDE_READ s1 = Inr s3" using framework_ok [of s1 8 zero_transport] x
    by (auto simp: zero_transport_def)
  have r: "adb_read 7 2 s1 = Inr (IoN 2, bytes_of ''OK'', rd_set 7 [] s1)"
    using adb_read_cases(4) [of s1 7 "bytes_of ''OK''" "[]" 2] F x(5) by (simp add: bytes_of_def)
  have "is_online s3 8 \<and> \<not> is_online s3 12" using consent_reaches_first_transport [OF x(2) _ s1 r s3] x(8) by simp
  then show ?thesis using x(2) s1 r s3 by blast
qed

section \<open>The banner of the device\<close>

lemma strtok_first:
  assumes "w \<noteq> []" "sep \<notin> set w"
  shows "strtok_tokens sep (w @ sep # rest) = w # strtok_tokens sep rest"
proof -
  have "dropWhile (\<lambda>c. c = sep) (w @ sep # rest) = w @ sep # rest" using assms by (cases w) auto
  moreover have "takeWhile (\<lambda>c. c \<noteq> sep) (w @ sep # rest) = w" "dropWhile (\<lambda>c. c \<noteq> sep) (w @ sep # rest) = sep # rest"
    using assms(2) by (auto simp: takeWhile_append dropWhile_append)
  moreover have "strtok_tokens sep (sep # rest) = strtok_tokens sep rest"
    by (subst (1 2) strtok_tokens.simps) simp
  ultimately show ?thesis by (subst strtok_tokens.simps) simp
qed

lemma strtok_lines:
  "(\<And>w. w \<in> set ws \<Longrightarrow> w \<noteq> [] \<and> sep \<notin> set w) \<Longrightarrow> strtok_tokens sep (concat (map (\<lambda>w. w @ [sep]) ws)) = ws"
proof (induction ws)
  case Nil
  show ?case by (subst strtok_tokens.simps) simp
qed (simp add: strtok_first)

lemma set_prop_line: "CHR ''='' \<notin> set k \<Longrightarrow> set_prop (k @ ''='' @ v) tr =
    (if k = ''ro.product.name'' then tr\<lparr>product := qual_overwrite v\<rparr>
     else if k = ''ro.product.model'' then tr\<lparr>model := qual_overwrite v\<rparr>
     else if k = ''ro.product.device'' then tr\<lparr>device := qual_overwrite v\<rparr> else tr)"
  by (simp add: set_prop_def strchr_append [of "CHR ''=''" k v, simplified])

text \<open>
  Property C34. The banner that a device sends in its \<open>CNXN\<close> packet is read back by the host: the transport
  gets the product, model and device of the device's properties and the state that the first word
  of the banner names, for every device whose banner has no colon and whose values have no semicolon.
\<close>

theorem banner_roundtrip:
  assumes "\<not> ADB_HOST dev" "fill_connect_data env MAX_PAYLOAD dev = Inr b"
    and "CHR '':'' \<notin> set (adb_device_banner env)" "\<And>k. CHR '';'' \<notin> set (property_get env k)"
    and "CHR 0x00 \<notin> set (adb_device_banner env)" "\<And>k. CHR 0x00 \<notin> set (property_get env k)"
    and "pk_data p = bytes_of b @ [0]" "transports st t = Some tr" "s = banner_state (adb_device_banner env)"
  shows "packet_string p = Inr b \<and> parse_banner henv b t st =
    (let st' = put_transport t (tr\<lparr>product := qual_overwrite (property_get env ''ro.product.name''),
         model := qual_overwrite (property_get env ''ro.product.model''),
         device := qual_overwrite (property_get env ''ro.product.device''), connection_state := s\<rparr>) st
     in if s = CS_HOST then Inr st' else update_transports (smart henv) st')"
proof -
  let ?k = "[''ro.product.name'', ''ro.product.model'', ''ro.product.device'']"
  let ?w = "map (\<lambda>k. k @ ''='' @ property_get env k) ?k" and ?n = "adb_device_banner env"
  have b: "b = ?n @ CHR '':'' # CHR '':'' # concat (map (\<lambda>w. w @ '';'') ?w)"
    using assms(1,2) by (simp add: fill_connect_data_def cnxn_props_def Let_def split: if_splits)
  have "CHR 0x00 \<notin> set b" using assms(5,6) by (simp add: b)
  then have "packet_string p = Inr b" using assms(7) by (simp add: packet_string_def cstr_bytes_of)
  moreover have "strtok_tokens CHR '';'' (concat (map (\<lambda>w. w @ '';'') ?w)) = ?w"
    using assms(4) by (intro strtok_lines) auto
  then have "banner_props b = ?w"
    by (simp add: banner_props_def b strchr_append [OF assms(3)] del: concat.simps list.map)
  moreover have "takeWhile (\<lambda>c. c \<noteq> CHR '':'') b = ?n" using assms(3) by (simp add: b takeWhile_append)
  moreover have "fold set_prop ?w tr = tr\<lparr>product := qual_overwrite (property_get env ''ro.product.name''),
         model := qual_overwrite (property_get env ''ro.product.model''), device := qual_overwrite (property_get env ''ro.product.device'')\<rparr>"
    using set_prop_line [of "''ro.product.name''"] set_prop_line [of "''ro.product.model''"] set_prop_line [of "''ro.product.device''"] by simp
  ultimately show ?thesis using assms(8,9) by (simp add: parse_banner_def upd_transport_def get_transport_def Let_def)
qed

theorem banner_roundtrip_witness:
  "\<exists>b. fill_connect_data ex_env MAX_PAYLOAD ex_pstate = Inr b \<and> packet_string (get_apacket\<lparr>pk_data := bytes_of b @ [0]\<rparr>) = Inr b
    \<and> parse_banner ex_env b 8 (ex_pstate\<lparr>ADB_HOST := True, HOST := True, transports := [8 \<mapsto> zero_transport]\<rparr>)
      = update_transports (smart ex_env) (put_transport 8
          (zero_transport\<lparr>product := Some ''x'', model := Some ''x'', device := Some ''x'', connection_state := CS_DEVICE\<rparr>)
          (ex_pstate\<lparr>ADB_HOST := True, HOST := True, transports := [8 \<mapsto> zero_transport]\<rparr>))"
proof -
  let ?st = "ex_pstate\<lparr>ADB_HOST := True, HOST := True, transports := [8 \<mapsto> zero_transport]\<rparr>"
  have d: "\<not> ADB_HOST ex_pstate" by (simp add: ex_pstate_simps)
  then obtain b where b: "fill_connect_data ex_env MAX_PAYLOAD ex_pstate = Inr b"
    by (simp add: fill_connect_data_def ex_env_def cnxn_props_def MAX_PAYLOAD_def)
  have e: "adb_device_banner ex_env = ''device''" "property_get ex_env = (\<lambda>_. ''x'')" by (simp_all add: ex_env_def)
  have "banner_state ''device'' = CS_DEVICE" "CS_DEVICE \<noteq> CS_HOST" by (simp_all add: banner_state_def CS_DEVICE_def CS_HOST_def)
  then show ?thesis using banner_roundtrip [OF d b, of "get_apacket\<lparr>pk_data := bytes_of b @ [0]\<rparr>" ?st 8 zero_transport CS_DEVICE ex_env] b
    by (simp add: e qual_overwrite_def Let_def del: smart_def)
qed

end
