(* ===== verification/SocketFrame.thy ===== *)
theory SocketFrame
  imports SocketSteps
begin

text \<open>
  What the operations of the sockets leave alone. The contract below lists the changes that the
  socket functions make to the store and the disconnect entries, each with what the code knows
  when it makes it. A predicate that these changes keep, and that is indifferent to the event
  records, the descriptors and the lists, is kept by every operation of the daemon's sockets.
\<close>

definition socket_roles :: "(enqueue_fn \<times> ready_fn \<times> close_fn) set" where
  "socket_roles = {(local_socket_enqueue_fn, local_socket_ready_fn, local_socket_close_fn),
     (remote_socket_enqueue_fn, remote_socket_ready_fn, remote_socket_close_fn), (smart_socket_enqueue_fn, smart_socket_ready_fn, smart_socket_close_fn),
     (device_tracker_enqueue_fn, device_tracker_ready_fn, device_tracker_close_fn), (jdwp_socket_enqueue_fn, jdwp_socket_ready_fn, jdwp_socket_close_fn),
     (jdwp_tracker_enqueue_fn, jdwp_tracker_ready_fn, jdwp_tracker_close_fn)}"

definition is_smart :: "addr \<Rightarrow> 'a sstate_scheme \<Rightarrow> bool" where
  "is_smart a st \<longleftrightarrow> (\<forall>s. socks st a = Some s \<longrightarrow> s_enqueue s = smart_socket_enqueue_fn)"

locale socket_store =
  fixes I :: "'a sstate_scheme \<Rightarrow> bool"
  assumes I_daemon: "I st \<Longrightarrow> \<not> ADB_HOST st"
    and I_fd: "fd_frame st st' \<Longrightarrow> I st' = I st"
    and I_wr: "I (wr_done fd ds cs es st) = I st"
    and I_rd: "I (rd_set fd rs st) = I st"
    and I_pipe: "I (st\<lparr>pipe := x\<rparr>) = I st"
    and I_lists: "I (st\<lparr>local_socket_list := l\<rparr>) = I st" "I (st\<lparr>local_socket_closing_list := l\<rparr>) = I st"
      "I (st\<lparr>local_socket_next_id := i\<rparr>) = I st" "I (st\<lparr>device_tracker_list := l\<rparr>) = I st" "I (st\<lparr>jdwp_trackers_list := l\<rparr>) = I st"
    and I_forget: "I st \<Longrightarrow> transports st t = Some tr \<Longrightarrow> I (put_transport t (tr\<lparr>disconnects := remove1 d (disconnects tr)\<rparr>) st)"
    and I_remember: "I st \<Longrightarrow> transports st t = Some tr \<Longrightarrow>
      (\<And>a. d = remote_socket_disconnect a \<Longrightarrow> \<exists>s. socks st a = Some s \<and> s_enqueue s = remote_socket_enqueue_fn) \<Longrightarrow>
      I (put_transport t (tr\<lparr>disconnects := disconnects tr @ [d]\<rparr>) st)"
    and I_change: "I st \<Longrightarrow> socks st a = Some s \<Longrightarrow> s_enqueue s' = s_enqueue s \<Longrightarrow> s_ready s' = s_ready s \<Longrightarrow> s_close s' = s_close s \<Longrightarrow>
      peer s' = peer s \<or> peer s' = None \<Longrightarrow> I (put_sock a s' st)"
    and I_plain: "I st \<Longrightarrow> socks st a = Some s \<Longrightarrow> s_ready s = local_socket_ready_notify_fn \<or> s_close s = local_socket_close_notify_fn \<Longrightarrow>
      I (put_sock a (s\<lparr>s_ready := local_socket_ready_fn, s_close := local_socket_close_fn\<rparr>) st)"
    and I_notify: "I st \<Longrightarrow> socks st a = Some s \<Longrightarrow> s_enqueue s = smart_socket_enqueue_fn \<Longrightarrow> peer s = Some p \<Longrightarrow> socks st p = Some ps \<Longrightarrow>
      I (put_sock p (ps\<lparr>s_ready := local_socket_ready_notify_fn, s_close := local_socket_close_notify_fn, peer := None, s_transport := u\<rparr>) st)"
    and I_free: "I st \<Longrightarrow> I (free_sock a st)"
    and I_alloc: "I st \<Longrightarrow> alloc_sock s st = (a, st') \<Longrightarrow> peer s = None \<Longrightarrow> (s_enqueue s, s_ready s, s_close s) \<in> socket_roles \<Longrightarrow> I st'"
    and I_next: "I st \<Longrightarrow> alloc st = (a, st') \<Longrightarrow> I st'"
    and I_pair: "I st \<Longrightarrow> socks st a = Some s \<Longrightarrow> socks st b = Some s' \<Longrightarrow> s_enqueue s = local_socket_enqueue_fn \<Longrightarrow>
      s_enqueue s' = smart_socket_enqueue_fn \<Longrightarrow> I (put_sock b (s'\<lparr>peer := Some a\<rparr>) (put_sock a (s\<lparr>peer := Some b\<rparr>) st))"
begin

lemma I_fdes [simp]: "I (st\<lparr>fdes := f\<rparr>) = I st"
  by (rule I_fd) (simp add: fd_frame_def)

lemmas I_simps [simp] = I_wr I_rd I_pipe I_lists

lemmas I_intros [intro] = I_free I_plain

text \<open>The first law as a rewrite rule.\<close>

lemma I_put_sock [simp]:
  "I st \<Longrightarrow> socks st a \<noteq> None \<Longrightarrow> s_enqueue s' = s_enqueue (the (socks st a)) \<Longrightarrow> s_ready s' = s_ready (the (socks st a)) \<Longrightarrow>
    s_close s' = s_close (the (socks st a)) \<Longrightarrow> peer s' = peer (the (socks st a)) \<or> peer s' = None \<Longrightarrow> I (put_sock a s' st)"
  using I_change [of st a "the (socks st a)" s'] by auto

lemma I_put_fde [simp]: "I (put_fde a f st) = I st"
  by (simp add: put_fde_def)

lemma fd_op: "(\<And>st'. m = Inr st' \<Longrightarrow> fd_frame st st') \<Longrightarrow> I st \<Longrightarrow> ensures m I"
  by (rule ensuresI) (auto simp: I_fd)

lemma fdevent_ops:
  assumes "I st"
  shows "ensures (fdevent_add a ev st) I" "ensures (fdevent_del a ev st) I" "ensures (fdevent_remove a st) I" "ensures (fdevent_install a fd fn st) I"
    "ensures (fdevent_set a ev st) I"
  using assms by (auto intro!: fd_op [of _ st] dest: fdevent_add_frame fdevent_del_frame fdevent_remove_frame fdevent_install_frame fdevent_set_frame)

lemma send_keeps: "I st \<Longrightarrow> ensures (send_packet p t st) I"
  by (rule ensuresI) (auto dest!: send_packet_frame)

lemma forget_keeps: "I st \<Longrightarrow> ensures (remove_transport_disconnect t d st) I"
  by (auto simp: remove_transport_disconnect_def get_transport_def from_opt_def I_forget split: option.splits)

lemma remember_keeps:
  "I st \<Longrightarrow> (\<And>a. d = remote_socket_disconnect a \<Longrightarrow> \<exists>s. socks st a = Some s \<and> s_enqueue s = remote_socket_enqueue_fn) \<Longrightarrow>
    ensures (add_transport_disconnect t d st) (\<lambda>st'. I st' \<and> socks st' = socks st)"
  by (auto simp: add_transport_disconnect_def get_transport_def from_opt_def intro!: I_remember split: option.splits)

lemma write_keeps:
  "I st \<Longrightarrow> ensures (sendfailmsg fd reason st) (\<lambda>(r, st'). I st')" "I st \<Longrightarrow> ensures (adb_write fd bs st) (\<lambda>(r, st'). I st')"
  by (auto intro!: ensuresI dest!: sendfailmsg_frame adb_write_spec)

lemma write_loop_keeps:
  assumes "I st"
  shows "ensures (write_loop b fd p st) (\<lambda>(r, p, st'). I st')"
proof (rule ensuresI)
  fix x assume "write_loop b fd p st = Inr x"
  then obtain r p' w' where x: "x = (r, p', w')" and w: "write_loop b fd p st = Inr (r, p', w')" by (cases x) auto
  obtain ds cs es where "w' = wr_done fd ds cs es st" using write_loop_spec [OF w] by (elim exE conjE)
  then show "case x of (r, p, st') \<Rightarrow> I st'" using assms by (simp add: x)
qed

lemma remove_socket_keeps: "I st \<Longrightarrow> ensures (remove_socket a st) I"
  by (auto simp: remove_socket_def)

lemma local_close_tail_keeps: "I st \<Longrightarrow> ensures (local_close_tail a st) I"
  by (auto simp: local_close_tail_def local_socket_destroy_def Let_def
      intro!: fdevent_ops [THEN ensures_mono] remove_socket_keeps [THEN ensures_mono])

lemma close_tail_keeps: "I st \<Longrightarrow> ensures (close_tail k a pid st) I"
  by (cases k) (auto simp: close_tail_def intro!: local_close_tail_keeps remove_socket_keeps [THEN ensures_mono]
      send_keeps [THEN ensures_mono] forget_keeps [THEN ensures_mono])

lemma close_keeps: "I st \<Longrightarrow> ensures (asocket_close a st) I"
proof (induction a st rule: asocket_close.induct)
  case (1 a st)
  show ?case
  proof (cases "socks st a")
    case (Some s)
    show ?thesis
    proof (cases "s_close s = local_socket_close_notify_fn")
      case True
      let ?s = "put_sock a (s\<lparr>s_ready := local_socket_ready_fn, s_close := local_socket_close_fn\<rparr>) st"
      have "ensures (sendfailmsg (s_fd s) ''closed'' ?s) (\<lambda>(r, st'). ensures (asocket_close a st') I)"
        using 1(1) [of s] Some True 1(3) by (intro ensures_mono [OF write_keeps(1) [of ?s]]) (auto simp: get_sock_def)
      then show ?thesis using Some True by (subst asocket_close.simps) (simp add: get_sock_def case_prod_unfold)
    next
      case False
      have "ensures (if s_close s = jdwp_socket_close_fn then remove_socket a st else Inr st) I"
        using 1(3) by (simp add: remove_socket_keeps)
      then have "ensures (if s_close s = jdwp_socket_close_fn then remove_socket a st else Inr st) (\<lambda>st1.
          ensures (case peer s of None \<Rightarrow> close_tail (s_close s) a 0 st1
           | Some p \<Rightarrow> bindr (get_sock p st1) (\<lambda>ps. bindr (asocket_close p (put_sock p (ps\<lparr>peer := None\<rparr>) st1)) (close_tail (s_close s) a (s_id ps)))) I)"
      proof (rule ensures_mono)
        fix st1 assume st1: "(if s_close s = jdwp_socket_close_fn then remove_socket a st else Inr st) = Inr st1" "I st1"
        show "ensures (case peer s of None \<Rightarrow> close_tail (s_close s) a 0 st1
           | Some p \<Rightarrow> bindr (get_sock p st1) (\<lambda>ps. bindr (asocket_close p (put_sock p (ps\<lparr>peer := None\<rparr>) st1)) (close_tail (s_close s) a (s_id ps)))) I"
        proof (cases "peer s")
          case (Some p)
          have "ensures (asocket_close p (put_sock p (ps\<lparr>peer := None\<rparr>) st1)) I" if "socks st1 p = Some ps" for ps
            using 1(2) [OF _ False st1(1) Some, of ps] \<open>socks st a = Some s\<close> st1(2) that by simp
          then show ?thesis using Some by (auto intro: close_tail_keeps ensures_mono)
        qed (simp add: close_tail_keeps st1(2))
      qed
      then show ?thesis using Some False by (subst asocket_close.simps) (simp add: get_sock_def)
    qed
  qed (subst asocket_close.simps, simp add: get_sock_def)
qed

lemma close_peer_keeps: "I st \<Longrightarrow> ensures (close_peer_of a st) I"
  by (auto simp: close_peer_of_def intro!: close_keeps)

lemma local_enqueue_keeps: "I st \<Longrightarrow> ensures (local_socket_enqueue a p st) (\<lambda>(r, st'). I st')"
  by (auto simp: local_socket_enqueue_def Let_def intro!: write_loop_keeps [THEN ensures_mono] close_keeps [THEN ensures_mono]
      fdevent_ops [THEN ensures_mono] split: wr_result.splits)

lemma remote_keeps:
  "I st \<Longrightarrow> ensures (remote_socket_enqueue a p st) (\<lambda>(r, st'). I st')" "I st \<Longrightarrow> ensures (remote_socket_ready a st) I"
  "I st \<Longrightarrow> ensures (connect_to_remote a d st) I"
  by (auto simp: remote_socket_enqueue_def remote_socket_ready_def connect_to_remote_def Let_def intro!: send_keeps send_keeps [THEN ensures_mono])

lemma disconnect_run_keeps: "I st \<Longrightarrow> ensures (remote_socket_disconnect_run a st) I"
  by (auto simp: remote_socket_disconnect_run_def split: option.splits intro!: close_keeps [THEN ensures_mono] forget_keeps [THEN ensures_mono])

section \<open>The smart socket of the daemon\<close>

lemma smart_fail_keeps: "I st \<Longrightarrow> ensures (smart_fail a st) (\<lambda>(r, st'). I st')"
  by (auto simp: smart_fail_def intro!: close_keeps [THEN ensures_mono])

lemma smart_refuse_keeps: "I st \<Longrightarrow> ensures (smart_refuse a reason st) (\<lambda>(r, st'). I st')"
  by (auto simp: smart_refuse_def peer_fd_def intro!: write_keeps(1) [THEN ensures_mono] smart_fail_keeps)

lemma smart_transport_keeps:
  "I st \<Longrightarrow> is_smart a st \<Longrightarrow> ensures (smart_transport a st) (\<lambda>(r, st'). I st' \<and> is_smart a st')"
  by (auto simp: smart_transport_def is_smart_def split: option.splits sum.splits)

lemma smart_connect_keeps: "I st \<Longrightarrow> is_smart a st \<Longrightarrow> ensures (smart_connect a service st) (\<lambda>(r, st'). I st')"
  unfolding smart_connect_def
  by (auto intro!: smart_transport_keeps [THEN ensures_mono] smart_refuse_keeps remote_keeps(3) [THEN ensures_mono] close_keeps [THEN ensures_mono]
      ensuresI [of "case t of None \<Rightarrow> x | Some y \<Rightarrow> f y" for t x f] split: sum.splits) (auto simp: is_smart_def intro: I_notify)

lemma smart_keeps: "I st \<Longrightarrow> is_smart a st \<Longrightarrow> ensures (smart_enqueue calls a p st) (\<lambda>(r, st'). I st')"
proof -
  assume I: "I st" and s: "is_smart a st"
  have req: "ensures (smart_request calls sm a service st) (\<lambda>(r, st'). I st')" if "I st" "is_smart a st" for service st sm
    using that I_daemon [OF that(1)] by (simp add: smart_request_def smart_connect_keeps)
  have "ensures (smart_socket_enqueue calls sm a p st) (\<lambda>(r, st'). I st')" for sm
    unfolding smart_socket_enqueue_def Let_def
    using I s by (auto intro!: ensuresI [of "held_bytes q" for q] ensuresI [of "unhex bs n" for bs n]
        ensuresI [of "case q of [] \<Rightarrow> x | y # ys \<Rightarrow> f y" for q x f] smart_fail_keeps req) (simp_all add: is_smart_def)
  then show ?thesis by (simp add: smart_enqueue_def numeral_2_eq_2)
qed

section \<open>Calls through the function pointers\<close>

lemma enqueue_keeps: "I st \<Longrightarrow> ensures (asocket_enqueue (smart_enqueue calls) a p st) (\<lambda>(r, st'). I st')"
  by (auto simp: asocket_enqueue_def split: enqueue_fn.splits intro!: smart_keeps [unfolded is_smart_def] local_enqueue_keeps remote_keeps
      close_keeps [THEN ensures_mono] close_peer_keeps [THEN ensures_mono])

lemma tracker_send_keeps: "I st \<Longrightarrow> ensures (device_tracker_send (smart_enqueue calls) a t st) I"
  by (auto simp: device_tracker_send_def intro!: enqueue_keeps [THEN ensures_mono])

lemma ready_keeps: "I st \<Longrightarrow> ensures (asocket_ready (smart_enqueue calls) a st) I"
  by (auto simp: asocket_ready_def local_socket_ready_def local_socket_ready_notify_def device_tracker_ready_def jdwp_socket_ready_def
      jdwp_tracker_ready_def Let_def split: ready_fn.splits intro!: fdevent_ops remote_keeps tracker_send_keeps write_keeps(2) [THEN ensures_mono]
      enqueue_keeps [THEN ensures_mono] close_keeps ensuresI [of "list_transports_msg n st" for n st]
      ensuresI [of "jdwp_process_list n st" for n st] ensuresI [of "jdwp_process_list_msg n st" for n st])

section \<open>Creating sockets\<close>

lemma install_keeps: "I st \<Longrightarrow> ensures (install_local_socket a st) I"
  by (auto simp: install_local_socket_def)

lemma alloc_at: "alloc_sock s st = (a, st') \<Longrightarrow> socks st' = (socks st)(a \<mapsto> s)"
  by (auto simp: alloc_sock_def alloc_def Let_def put_fde_def)

lemma alloc_with:
  "alloc_sock s st = (a, st') \<Longrightarrow> I st \<Longrightarrow> (peer s = None \<and> (s_enqueue s, s_ready s, s_close s) \<in> socket_roles \<longrightarrow> I st') \<and> socks st' a = Some s"
  using I_alloc [of st s a st'] alloc_at [of s st a st'] by simp

lemma create_jdwp_keeps:
  assumes "I st"
  shows "ensures (create_jdwp_service_socket st) (\<lambda>(a, st'). I st' \<and> (\<exists>s. socks st' a = Some s \<and> s_enqueue s \<noteq> smart_socket_enqueue_fn \<and> peer s = None \<and> \<not> closing s))"
    "ensures (create_jdwp_tracker_service_socket st) (\<lambda>(a, st'). I st' \<and> (\<exists>s. socks st' a = Some s \<and> s_enqueue s \<noteq> smart_socket_enqueue_fn \<and> peer s = None \<and> \<not> closing s))"
  using assms
  by (auto simp: create_jdwp_service_socket_def create_jdwp_tracker_service_socket_def install_local_socket_def
      split: prod.splits dest!: alloc_with [OF _ assms] simp: zero_sock_def socket_roles_def)

lemma install_around:
  assumes "I st" "socks st a = Some s" "P s" "a \<noteq> next_addr st"
  shows "ensures (fdevent_install b fd fn st) (\<lambda>st'. I st' \<and> (\<exists>s. socks st' a = Some s \<and> P s) \<and> a \<noteq> next_addr st')"
proof (rule ensuresI)
  fix st' assume "fdevent_install b fd fn st = Inr st'"
  then have f: "fd_frame st st'" by (rule fdevent_install_frame)
  show "I st' \<and> (\<exists>s. socks st' a = Some s \<and> P s) \<and> a \<noteq> next_addr st'"
    using assms fd_frame_sstate(1,4) [OF f] I_fd [OF f] by simp
qed

lemma create_local_keeps:
  assumes I: "I st"
  shows "ensures (create_local_socket fd st) (\<lambda>(a, st'). I st' \<and> (\<exists>s. socks st' a = Some s \<and> s_enqueue s = local_socket_enqueue_fn \<and> peer s = None \<and> \<not> closing s) \<and> a \<noteq> next_addr st')"
proof -
  let ?s = "(zero_sock local_socket_enqueue_fn local_socket_ready_fn local_socket_close_fn)\<lparr>s_fd := fd\<rparr>"
  obtain a s1 where a: "alloc_sock ?s st = (a, s1)" by (cases "alloc_sock ?s st")
  have 1: "I s1" "socks s1 a = Some ?s" "a \<noteq> next_addr s1"
    using I_alloc [OF I a] alloc_at [OF a] a by (auto simp: zero_sock_def socket_roles_def alloc_sock_def alloc_def Let_def put_sock_def put_fde_def)
  let ?s2 = "put_sock a (?s\<lparr>s_id := local_socket_next_id s1\<rparr>) s1\<lparr>local_socket_next_id := local_socket_next_id s1 + 1, local_socket_list := local_socket_list s1 @ [a]\<rparr>"
  have i: "install_local_socket a s1 = Inr ?s2" using 1 by (simp add: install_local_socket_def upd_sock_def get_sock_def)
  have "I ?s2" using 1 by (simp add: zero_sock_def)
  moreover have "socks ?s2 a = Some (?s\<lparr>s_id := local_socket_next_id s1\<rparr>)" "next_addr ?s2 = next_addr s1" by (simp_all add: put_sock_def)
  moreover have "s_enqueue (?s\<lparr>s_id := local_socket_next_id s1\<rparr>) = local_socket_enqueue_fn" "peer ?s = None" "\<not> closing ?s" by (simp_all add: zero_sock_def)
  ultimately have "ensures (fdevent_install a fd (local_socket_event_func a) ?s2)
      (\<lambda>st'. I st' \<and> (\<exists>s. socks st' a = Some s \<and> s_enqueue s = local_socket_enqueue_fn \<and> peer s = None \<and> \<not> closing s) \<and> a \<noteq> next_addr st')"
    using 1(3) by (intro install_around [where s = "?s\<lparr>s_id := local_socket_next_id s1\<rparr>"]) auto
  then show ?thesis by (simp add: create_local_socket_def a i)
qed

lemma create_remote_keeps:
  assumes I: "I st"
  shows "ensures (create_remote_socket i t st) (\<lambda>(a, st'). I st' \<and> (\<exists>s. socks st' = (socks st)(a \<mapsto> s) \<and> s_enqueue s = remote_socket_enqueue_fn))"
proof -
  let ?s = "(zero_sock remote_socket_enqueue_fn remote_socket_ready_fn remote_socket_close_fn)\<lparr>s_id := i, s_transport := t\<rparr>"
  obtain a s1 where a: "alloc_sock ?s st = (a, s1)" by (cases "alloc_sock ?s st")
  have "I s1" using I_alloc [OF I a] by (simp add: zero_sock_def socket_roles_def)
  then show ?thesis using a alloc_at [OF a] remember_keeps [of s1 "remote_socket_disconnect a" t]
    by (simp add: create_remote_socket_def) (auto simp: zero_sock_def elim!: ensures_mono)
qed

lemma connect_smart_keeps:
  assumes I: "I st" and s: "socks st a = Some s" "s_enqueue s = local_socket_enqueue_fn" "a \<noteq> next_addr st"
  shows "ensures (connect_to_smartsocket (smart_enqueue calls) a st) I"
proof -
  let ?t = "zero_sock smart_socket_enqueue_fn smart_socket_ready_fn smart_socket_close_fn"
  obtain b s1 where b: "create_smart_socket st = (b, s1)" by (cases "create_smart_socket st")
  have 1: "I s1" "socks s1 = (socks st)(b \<mapsto> ?t)" "a \<noteq> b" using I_alloc [OF I b [unfolded create_smart_socket_def]] b s(3)
    by (auto simp: create_smart_socket_def zero_sock_def socket_roles_def alloc_sock_def alloc_def put_fde_def Let_def)
  have "I (put_sock b (?t\<lparr>peer := Some a\<rparr>) (put_sock a (s\<lparr>peer := Some b\<rparr>) s1))"
    using 1 s by (intro I_pair) (auto simp: zero_sock_def)
  then show ?thesis using 1 s by (auto simp: connect_to_smartsocket_def b intro!: ready_keeps)
qed

section \<open>Events\<close>

lemma drain_queue_keeps:
  assumes "I st"
  shows "ensures (drain_queue fd q st) (\<lambda>(r, q', st'). I st' \<and> socks st' = socks st)"
proof (rule ensuresI)
  fix x assume "drain_queue fd q st = Inr x"
  then obtain r q' w' where x: "x = (r, q', w')" and w: "drain_queue fd q st = Inr (r, q', w')" by (cases x) auto
  obtain ds cs es where "w' = wr_done fd ds cs es st" using drain_queue_spec [OF w] by (elim exE conjE)
  then show "case x of (r, q', st') \<Rightarrow> I st' \<and> socks st' = socks st" using assms by (simp add: x)
qed

lemma read_loop_keeps:
  assumes "I st"
  shows "ensures (read_loop fd n r st) (\<lambda>(ds, eof, r, st'). I st')"
proof (rule ensuresI)
  fix x assume "read_loop fd n r st = Inr x"
  then obtain ds eof r' w' where x: "x = (ds, eof, r', w')" and w: "read_loop fd n r st = Inr (ds, eof, r', w')" by (cases x) auto
  obtain es where "w' = rd_set fd es st" using read_loop_spec [OF w] by (elim exE conjE)
  then show "case x of (ds, eof, r, st') \<Rightarrow> I st'" using assms by (simp add: x)
qed

lemma event_keeps:
  assumes I: "I st"
  shows "ensures (local_socket_event (smart_enqueue calls) a fd ev st) I"
proof -
  have w: "ensures (local_socket_write_event (smart_enqueue calls) a fd st) (\<lambda>(go, st'). I st')" if "I st" for st
    using that by (auto simp: local_socket_write_event_def Let_def split: wr_result.splits
        intro!: drain_queue_keeps [THEN ensures_mono] close_keeps [THEN ensures_mono] fdevent_ops [THEN ensures_mono] ready_keeps [THEN ensures_mono])
  have r: "ensures (local_socket_read_event (smart_enqueue calls) a fd st) I" if "I st" for st
    using that by (auto simp: local_socket_read_event_def get_fde_def from_opt_def split: option.splits
        intro!: read_loop_keeps [THEN ensures_mono] enqueue_keeps [THEN ensures_mono] fdevent_ops [THEN ensures_mono] close_keeps)
  show ?thesis using I by (auto simp: local_socket_event_def intro!: w [THEN ensures_mono] r)
qed

end

end
