(* ===== verification/Handlers.thy ===== *)
theory Handlers
  imports Connection SocketFrame
begin

text \<open>
  The event handlers of the daemon against the contract of the socket store. What a handler keeps
  is proved once here, for any predicate that satisfies the laws below; the authentication of the
  transports and the roles of the sockets are two instances.
\<close>

text \<open>
  The laws for the state around the sockets. \<open>may\<close> are the transports that are allowed to come
  online; \<open>strict\<close> says that a smart socket must not get a remote peer.
\<close>

locale packet_handlers = socket_store I for I :: "'a pstate_scheme \<Rightarrow> bool" +
  fixes may :: "addr \<Rightarrow> bool" and strict :: bool
  assumes I_transport: "I st \<Longrightarrow> transports st t = Some tr \<Longrightarrow> set (disconnects tr') \<subseteq> set (disconnects tr) \<Longrightarrow>
      (t_online tr' \<Longrightarrow> t_online tr \<or> may t) \<Longrightarrow> I (put_transport t tr' st)"
    and I_gone: "I st \<Longrightarrow> I (st\<lparr>transports := (transports st)(t := None)\<rparr>)"
    and I_open: "I st \<Longrightarrow> HOST st \<or> \<not> auth_enabled st \<Longrightarrow> may t"
    and I_program: "I (st\<lparr>listeners := ls\<rparr>) = I st" "I (st\<lparr>listener_list := as\<rparr>) = I st" "I (st\<lparr>usb_transport := u\<rparr>) = I st"
      "I (st\<lparr>needs_retry := b\<rparr>) = I st" "I (st\<lparr>urandom := us\<rparr>) = I st"
    and I_registry: "I (st\<lparr>transport_list := as\<rparr>) = I st" "I (st\<lparr>pending_list := as\<rparr>) = I st" "I (st\<lparr>tmsgs := ms\<rparr>) = I st"
      "I (st\<lparr>sock_pair := sp\<rparr>) = I st"
    and I_jdwp: "I (st\<lparr>jdwp_list := as\<rparr>) = I st" "I (st\<lparr>jdwp_procs := ps\<rparr>) = I st" "I (st\<lparr>sent_fds := fs\<rparr>) = I st"
    and I_framework: "I st \<Longrightarrow> I (st\<lparr>framework_fd := -1\<rparr>)"
    and I_join: "I st \<Longrightarrow> socks st a = Some s \<Longrightarrow> socks st c = Some s' \<Longrightarrow> (strict \<Longrightarrow> s_enqueue s \<noteq> smart_socket_enqueue_fn) \<Longrightarrow>
      s_enqueue s' = remote_socket_enqueue_fn \<Longrightarrow>
      I (put_sock c ((if a = c then s\<lparr>peer := Some c\<rparr> else s')\<lparr>peer := Some a\<rparr>) (put_sock a (s\<lparr>peer := Some c\<rparr>) st))"
begin

lemmas I_more [simp] = I_program I_registry I_jdwp

text \<open>A service that is started keeps the predicate.\<close>

definition service_keeps :: "'a penv \<Rightarrow> bool" where
  "service_keeps env \<longleftrightarrow> (\<forall>name st. I st \<longrightarrow> ensures (service_to_fd env name st) (\<lambda>(fd, st'). I st'))"

section \<open>Disconnects\<close>

lemma I_online: "I st \<Longrightarrow> transports st t = Some tr \<Longrightarrow> set (disconnects tr') \<subseteq> set (disconnects tr) \<Longrightarrow> t_online tr' = t_online tr \<Longrightarrow>
    I (put_transport t tr' st)"
  by (rule I_transport) auto

lemma free_listener_keeps: "I st \<Longrightarrow> ensures (free_listener l st) I"
proof -
  assume o: "I st"
  have f: "I (st\<lparr>listeners := m, fdes := f\<rparr>) = I st" for m f and st :: "'a pstate_scheme"
    using I_fdes [where st = "st\<lparr>listeners := m\<rparr>" and f = f] by simp
  show ?thesis using o unfolding free_listener_def get_listener_def
    by (auto simp: f from_opt_def split: option.splits intro!: fdevent_ops(3) [THEN ensures_mono] forget_keeps [THEN ensures_mono])
qed

lemma run_disconnect_keeps: "I st \<Longrightarrow> ensures (run_disconnect d st) I"
  by (cases d) (auto simp: run_disconnect_def usb_disconnected_def listener_disconnect_run_def
      intro!: disconnect_run_keeps free_listener_keeps forget_keeps [THEN ensures_mono])

lemma run_disconnects_keeps: "I st \<Longrightarrow> ensures (run_disconnects run_disconnect ds st) I"
  by (induction ds arbitrary: st) (auto intro!: run_disconnect_keeps [THEN ensures_mono])

lemma handle_offline_keeps: "I st \<Longrightarrow> ensures (handle_offline t st) I"
  by (auto simp: handle_offline_def run_transport_disconnects_def intro!: run_disconnects_keeps I_transport)

section \<open>Setting up a connection\<close>

lemma generate_token_keeps: "I st \<Longrightarrow> adb_auth_generate_token tok st = (ret, tok', st') \<Longrightarrow> I st' \<and> transports st' = transports st"
  by (auto simp: adb_auth_generate_token_def split: if_splits list.splits option.splits)

lemma auth_request_keeps: "I st \<Longrightarrow> ensures (send_auth_request t st) I"
proof -
  assume o: "I st"
  have "ensures (let (ret, tok, st) = adb_auth_generate_token (token tr) st; st = put_transport t (tr\<lparr>token := tok\<rparr>) st
      in if ret \<noteq> TOKEN_SIZE then Inr st else send_packet (auth_packet ADB_AUTH_TOKEN tok) (Some t) st) I"
    if tr: "transports st t = Some tr" for tr
  proof -
    obtain ret tok st' where g: "adb_auth_generate_token (token tr) st = (ret, tok, st')" by (metis prod_cases3)
    then have "I (put_transport t (tr\<lparr>token := tok\<rparr>) st')"
      using generate_token_keeps [OF o g] tr by (intro I_online) auto
    then show ?thesis by (simp add: g Let_def send_keeps)
  qed
  then show ?thesis unfolding send_auth_request_def ensures_bindr ensures_get_transport by blast
qed

lemma send_connect_keeps: "I st \<Longrightarrow> ensures (send_connect env t st) I"
  by (auto simp: send_connect_def intro!: ensuresI [of "fill_connect_data env n st" for n] send_keeps)

lemma update_transports_keeps: "I st \<Longrightarrow> ensures (update_transports sm st) I"
  using I_daemon [of st] by (simp add: update_transports_def)

lemma set_prop_frame [simp]: "t_online (fold set_prop ks tr) = t_online tr \<and> disconnects (fold set_prop ks tr) = disconnects tr"
proof (induction ks arbitrary: tr)
  case (Cons k ks)
  have "t_online (set_prop k tr) = t_online tr \<and> disconnects (set_prop k tr) = disconnects tr" by (simp add: set_prop_def Let_def split: option.splits)
  then show ?case using Cons by simp
qed simp

lemma parse_banner_keeps: "I st \<Longrightarrow> ensures (parse_banner env b t st) I"
  by (auto simp: parse_banner_def Let_def intro!: update_transports_keeps I_online)

lemma confirm_key_keeps: "I st \<Longrightarrow> ensures (adb_auth_confirm_key key len t st) I"
  by (auto simp: adb_auth_confirm_key_def Let_def usb_disconnect_def split: io_ret.splits intro!: remember_keeps [THEN ensures_mono]
      write_keeps(2) [THEN ensures_mono] fdevent_ops(4) [THEN ensures_mono] fdevent_ops(1))

lemma handle_sync_keeps: "I st \<Longrightarrow> ensures (handle_sync env p t st) I"
  by (auto simp: handle_sync_def intro!: send_keeps [THEN ensures_mono] send_connect_keeps handle_offline_keeps [THEN ensures_mono] send_keeps I_online)

lemma handle_cnxn_keeps: "I st \<Longrightarrow> ensures (handle_cnxn env p t st) I"
proof -
  assume o: "I st"
  define cont where "cont st = bindr (packet_string p) (\<lambda>b. bindr (parse_banner env b t st) (\<lambda>st. if HOST st \<or> \<not> auth_enabled st
      then bindr (handle_online t st) (\<lambda>st. if \<not> HOST st then send_connect env t st else Inr st) else send_auth_request t st))"
    for st :: "'a pstate_scheme"
  have after: "ensures (if HOST st \<or> \<not> auth_enabled st
      then bindr (handle_online t st) (\<lambda>st. if \<not> HOST st then send_connect env t st else Inr st) else send_auth_request t st) I"
    if "I st" for st :: "'a pstate_scheme"
    using that auth_request_keeps [OF that] I_open [OF that]
    by (auto simp: handle_online_def intro!: send_connect_keeps I_transport)
  have rest: "ensures (cont st) I" if "I st" for st :: "'a pstate_scheme"
    unfolding cont_def ensures_bindr
    by (rule ensuresI, rule ensures_mono [OF parse_banner_keeps [OF that]], rule after)
  show ?thesis unfolding handle_cnxn_def cont_def [symmetric]
    using o by (auto intro!: handle_offline_keeps [THEN ensures_mono] I_online rest)
qed

lemma verified_keeps: "I st \<Longrightarrow> may t \<Longrightarrow> ensures (adb_auth_verified env t st) I"
  by (auto simp: adb_auth_verified_def handle_online_def intro!: send_connect_keeps I_transport)

lemma handle_auth_keeps:
  assumes o: "I st" and c: "command (msg p) = A_AUTH" and v: "signature_verified env p t st \<Longrightarrow> may t"
  shows "ensures (handle_auth env p t st) I"
proof -
  have h: "\<not> ADB_HOST st" using o by (rule I_daemon)
  have sig: "ensures (adb_auth_verify (hash_stack env) (big_endian env) (trusted env) (token tr) (pk_data p) (sint (data_length (msg p)))) (\<lambda>ok.
      ensures (if ok then bindr (adb_auth_verified env t st) (upd_transport t (\<lambda>tr. tr\<lparr>failed_auth_attempts := 0\<rparr>))
        else send_auth_request t (put_transport t (tr\<lparr>failed_auth_attempts := failed_auth_attempts tr + 1\<rparr>) st)) I)"
    if tr: "transports st t = Some tr" and a: "arg0 (msg p) = ADB_AUTH_SIGNATURE" for tr
  proof (rule ensuresI)
    fix ok assume ok: "adb_auth_verify (hash_stack env) (big_endian env) (trusted env) (token tr) (pk_data p) (sint (data_length (msg p))) = Inr ok"
    have "may t" if ok using v that ok tr a c by (simp add: signature_verified_def)
    then show "ensures (if ok then bindr (adb_auth_verified env t st) (upd_transport t (\<lambda>tr. tr\<lparr>failed_auth_attempts := 0\<rparr>))
        else send_auth_request t (put_transport t (tr\<lparr>failed_auth_attempts := failed_auth_attempts tr + 1\<rparr>) st)) I"
      using o tr by (auto intro!: verified_keeps [THEN ensures_mono] auth_request_keeps I_online)
  qed
  show ?thesis unfolding handle_auth_def
    using o sig by (auto simp: h Let_def send_auth_publickey_def intro!: confirm_key_keeps I_online)
qed

section \<open>Streams\<close>

lemma join_remote_keeps:
  assumes I: "I st" and a: "\<And>s. strict \<Longrightarrow> socks st a = Some s \<Longrightarrow> s_enqueue s \<noteq> smart_socket_enqueue_fn"
  shows "ensures (join_remote a i t st) (\<lambda>(r, st'). I st')"
proof -
  have J: "I (put_sock b (s'\<lparr>peer := Some a\<rparr>) (put_sock a (s\<lparr>peer := Some b\<rparr>) st1))"
    if "I st1" "socks st1 = (socks st)(b \<mapsto> s')" "s_enqueue s' = remote_socket_enqueue_fn" "socks st a = Some s" "a \<noteq> b" for st1 b s s'
    using I_join [OF that(1) _ _ a [OF _ that(4)] that(3), of a b] that(2,4,5) by simp
  have J': "I (put_sock a (s'\<lparr>peer := Some a\<rparr>) st1)"
    if "I st1" "socks st1 = (socks st)(a \<mapsto> s')" "s_enqueue s' = remote_socket_enqueue_fn" for st1 s'
    using I_join [OF that(1) _ _ _ that(3), of a s' a] that(2,3) by (simp del: I_put_sock)
  show ?thesis unfolding join_remote_def ensures_bindr
    by (rule ensures_mono [OF create_remote_keeps [OF I]]) (auto split: if_splits intro: J J')
qed

lemma service_socket_keeps:
  assumes s: "service_keeps env" and I: "I st"
  shows "ensures (create_local_service_socket (service_to_fd env) root name st)
    (\<lambda>(r, st'). I st' \<and> (\<forall>a. r = Some a \<longrightarrow> (\<exists>s. socks st' a = Some s \<and> s_enqueue s \<noteq> smart_socket_enqueue_fn \<and> peer s = None \<and> \<not> closing s)))"
proof -
  have h: "\<not> ADB_HOST st" using I by (rule I_daemon)
  have fd: "ensures (create_local_socket fd st1) (\<lambda>(a, st2). I st2 \<and> (\<exists>s. socks st2 a = Some s \<and> s_enqueue s = local_socket_enqueue_fn \<and> peer s = None \<and> \<not> closing s))" if "I st1" for fd st1
    by (rule ensures_mono [OF create_local_keeps [OF that]]) auto
  have "ensures (service_to_fd env name st) (\<lambda>(fd, st'). I st')" using s I unfolding service_keeps_def by blast
  then show ?thesis unfolding create_local_service_socket_def
    using create_jdwp_keeps [OF I]
    by (auto simp: h elim!: ensures_mono intro!: ensures_mono [OF fd])
qed

text \<open>Where smart sockets matter, none of them is listed.\<close>

definition listed_ok :: "'a pstate_scheme \<Rightarrow> bool" where
  "listed_ok st \<longleftrightarrow> (strict \<longrightarrow> (\<forall>a \<in> set (local_socket_list st). \<forall>s. socks st a = Some s \<longrightarrow> s_enqueue s \<noteq> smart_socket_enqueue_fn))"

lemma find_sock_listed: "find_sock i as st = Inr (Some a) \<Longrightarrow> a \<in> set as"
  by (induction as) (auto simp: bindr_eq_Inr split: if_splits)

lemma handle_open_keeps:
  assumes I: "I st" and s: "service_keeps env"
  shows "ensures (handle_open env p t st) I"
  unfolding handle_open_def
  by (auto intro!: ensuresI [of "open_name p"] service_socket_keeps [OF s I, THEN ensures_mono] join_remote_keeps [THEN ensures_mono]
      send_keeps [THEN ensures_mono] send_keeps ready_keeps simp: send_ready_def send_close_def split: option.splits)

lemma handle_okay_keeps:
  assumes I: "I st" and l: "listed_ok st"
  shows "ensures (handle_okay env p t st) I"
  unfolding handle_okay_def find_local_socket_def using l
  by (auto intro!: ensuresI [of "find_sock i as st" for i as] join_remote_keeps [THEN ensures_mono] ready_keeps
      simp: I listed_ok_def dest!: find_sock_listed split: option.splits)

lemma handle_clse_keeps: "I st \<Longrightarrow> ensures (handle_clse p st) I"
  unfolding handle_clse_def by (auto intro!: ensuresI [of "find_local_socket i st" for i] close_keeps split: option.splits)

lemma handle_wrte_keeps: "I st \<Longrightarrow> ensures (handle_wrte env p t st) I"
  unfolding handle_wrte_def
  by (auto intro!: ensuresI [of "find_local_socket i st" for i] enqueue_keeps [THEN ensures_mono] send_keeps simp: send_ready_def split: option.splits)

lemma handle_packet_keeps:
  assumes I: "I st" and "service_keeps env" "listed_ok st" "signature_verified env p t st \<Longrightarrow> may t"
  shows "ensures (handle_packet env p t st) I"
  using I handle_auth_keeps [OF I _ assms(4)] handle_open_keeps [OF I assms(2)] handle_okay_keeps [OF I assms(3)]
    handle_clse_keeps [OF I] handle_wrte_keeps [OF I] handle_sync_keeps [OF I] handle_cnxn_keeps [OF I]
  unfolding handle_packet_def by (auto simp: Let_def)

lemma socket_events_keeps:
  assumes I: "I st" and s: "service_keeps env" "listed_ok st"
    and v: "\<And>p. signature_verified env p t st \<Longrightarrow> pipe st fd \<noteq> [] \<Longrightarrow> p = hd (pipe st fd) \<Longrightarrow> may t"
  shows "ensures (transport_socket_events_run env t fd ev st) I"
proof -
  have "signature_verified env p t (st\<lparr>pipe := x\<rparr>) = signature_verified env p t st" "listed_ok (st\<lparr>pipe := x\<rparr>) = listed_ok st" for p x
    by (simp_all add: signature_verified_def listed_ok_def)
  then show ?thesis unfolding transport_socket_events_run_def
    using I s v by (auto simp: read_packet_def split: list.splits intro!: handle_packet_keeps)
qed

section \<open>The framework\<close>

lemma auth_event_keeps:
  assumes I: "I st" and u: "\<And>u. user_agreed fd u st \<Longrightarrow> may u"
  shows "ensures (adb_auth_event_run env fd ev st) I"
proof -
  have "ensures (case r of
        IoN n \<Rightarrow> if n = 2 \<and> bs = bytes_of ''OK'' then (case usb_transport st' of None \<Rightarrow> Inr st' | Some u \<Rightarrow> adb_auth_verified env u st') else Inr st'
      | IoErr e \<Rightarrow> bindr (case usb_transport st' of None \<Rightarrow> Inr st' | Some u \<Rightarrow> fdevent_remove (auth_fde u) st') (\<lambda>st. Inr (st\<lparr>framework_fd := -1\<rparr>))) I"
    if r: "adb_read fd 2 st = Inr (r, bs, st')" for r bs st'
  proof -
    obtain es where st': "st' = rd_set fd es st" using adb_read_frame [OF r] by blast
    have "usb_transport st' = usb_transport st" by (simp add: st' rd_set_def)
    then have "may x" if "r = IoN 2" "bs = bytes_of ''OK''" "usb_transport st' = Some x" for x
      using u [of x] r that by (auto simp: user_agreed_def)
    then show ?thesis
      using I by (auto simp: st' split: io_ret.splits option.splits intro!: verified_keeps I_framework fdevent_ops(3) [THEN ensures_mono])
  qed
  then show ?thesis using I unfolding adb_auth_event_run_def by (auto intro!: ensuresI [of "adb_read fd 2 st"])
qed

lemma auth_listener_keeps:
  assumes "I st" "0 \<le> s \<Longrightarrow> I (st\<lparr>framework_fd := s\<rparr>)"
  shows "ensures (adb_auth_listener_run s st) I"
  using assms I_program(4) [where st = "st\<lparr>framework_fd := s\<rparr>" and b = False]
  by (auto simp: adb_auth_listener_run_def Let_def intro!: auth_request_keeps)

section \<open>New connections and processes\<close>

lemma ss_listener_keeps: "I st \<Longrightarrow> ensures (ss_listener_event (smart_enqueue hc) fd ev st) I"
  by (auto simp: ss_listener_event_def intro!: create_local_keeps [THEN ensures_mono] connect_smart_keeps)

lemma listener_event_keeps: "I st \<Longrightarrow> ensures (listener_event l fd ev st) I"
  by (auto simp: listener_event_def get_listener_def from_opt_def split: option.splits
      intro!: create_local_keeps [THEN ensures_mono] remote_keeps(3))

lemma I_env [simp]: "I (adb_close fd st) = I st" "I (st\<lparr>nonblock := nb\<rparr>) = I st" "I (put_proc j p st) = I st"
proof -
  show "I (adb_close fd st) = I st" by (rule I_fd) (simp add: fd_frame_def adb_close_def)
  show "I (st\<lparr>nonblock := nb\<rparr>) = I st" by (rule I_fd) (simp add: fd_frame_def)
  show "I (put_proc j p st) = I st" by (simp add: put_proc_def)
qed

lemma I_close_fds [simp]: "I (close_fds fds st) = I st"
  by (induction fds arbitrary: st) simp_all

lemma fdevent_destroy_keeps: "I st \<Longrightarrow> ensures (fdevent_destroy f st) I"
  by (auto simp: fdevent_destroy_def get_fde_def from_opt_def split: option.splits intro!: fdevent_ops(3))

lemma jdwp_trackers_keeps: "I st \<Longrightarrow> ensures (send_jdwp_trackers (smart_enqueue hc) m as st) I"
  by (induction as arbitrary: st) (auto intro!: tracker_send_keeps [THEN ensures_mono])

lemma jdwp_list_updated_keeps: "I st \<Longrightarrow> ensures (jdwp_process_list_updated (smart_enqueue hc) st) I"
  by (auto simp: jdwp_process_list_updated_def intro!: ensuresI [of "jdwp_process_list_msg n st" for n st] jdwp_trackers_keeps)

lemma process_free_keeps: "I st \<Longrightarrow> ensures (jdwp_process_free (smart_enqueue hc) j st) I"
  by (auto simp: jdwp_process_free_def Let_def intro!: fdevent_destroy_keeps [THEN ensures_mono] jdwp_list_updated_keeps)

lemma recv_keeps: "I st \<Longrightarrow> ensures (recv_pid fd buf st) (\<lambda>(r, buf, st'). I st')" "I st \<Longrightarrow> ensures (recv_skip fd st) (\<lambda>(r, st'). I st')"
  by (auto intro!: ensuresI dest!: recv_pid_frame recv_skip_frame)

lemma jdwp_event_keeps: "I st \<Longrightarrow> ensures (jdwp_process_event_run send (smart_enqueue hc) j fd ev st) I"
proof -
  assume I: "I st"
  have r: "ensures (jdwp_read_event (smart_enqueue hc) j fd st) (\<lambda>(r, st'). I st')"
    using I by (auto simp: jdwp_read_event_def Let_def split: recv_result.splits option.splits
        intro!: recv_keeps [THEN ensures_mono] process_free_keeps [THEN ensures_mono] jdwp_list_updated_keeps [THEN ensures_mono])
  have w: "ensures (jdwp_write_event send (smart_enqueue hc) j st) I" if "I st" for st
    using that by (auto simp: jdwp_write_event_def Let_def split: list.splits intro!: process_free_keeps fdevent_ops(2))
  show ?thesis using I by (auto simp: jdwp_process_event_run_def intro!: r [THEN ensures_mono] w)
qed

lemma jdwp_control_keeps: "I st \<Longrightarrow> ensures (jdwp_control_event_run s ev st) I"
  by (auto simp: jdwp_control_event_run_def jdwp_process_alloc_def fdevent_create_def get_fde_def from_opt_def Let_def split: prod.splits option.splits
      dest: I_next intro!: fdevent_ops(1) fdevent_ops(4) [THEN ensures_mono])

section \<open>Registering transports\<close>

lemma unlink_keeps: "I st \<Longrightarrow> ensures (unlink_transport t st) I"
  by (auto simp: unlink_transport_def split: option.splits prod.splits intro!: I_online)

lemma start_action_keeps: "I st \<Longrightarrow> ensures (transport_start_action (update_transports sm) pair t st) I"
  by (auto simp: transport_start_action_def make_pair_def Let_def split: option.splits prod.splits
      intro!: fdevent_ops(4) [THEN ensures_mono] fdevent_ops(5) [THEN ensures_mono] unlink_keeps [THEN ensures_mono] update_transports_keeps I_online)

lemma remove_action_keeps: "I st \<Longrightarrow> ensures (transport_remove_action run_disconnect (update_transports sm) t st) I"
  by (auto simp: transport_remove_action_def run_transport_disconnects_def free_transport_def
      intro!: fdevent_ops(3) [THEN ensures_mono] unlink_keeps [THEN ensures_mono] run_disconnects_keeps [THEN ensures_mono] update_transports_keeps I_gone)

lemma registration_keeps: "I st \<Longrightarrow> ensures (registration_event run_disconnect (update_transports sm) pair ev st) I"
  by (auto simp: registration_event_def transport_read_action_def split: list.splits
      intro!: start_action_keeps remove_action_keeps)

end

end
