(* ===== verification/Adbd.thy ===== *)
theory Adbd
  imports Handlers
begin

text \<open>
  The daemon as a whole: the dispatch of the event loop to the handlers, and the authentication of
  its transports in every run.
\<close>

section \<open>Dispatch\<close>

text \<open>
  What the handlers take from the kernel: the descriptor \<open>accept\<close> returns in each of the handlers, a negative number when
  it fails, the pair \<open>adb_socketpair\<close> returns, how the calls around \<open>sendmsg\<close> fare, and the number of
  bytes \<open>FIONREAD\<close> reports.
\<close>

record 's daemon_env = "'s conn_env" +
  os_accept :: "fd_func \<Rightarrow> int \<Rightarrow> 's \<Rightarrow> int"
  os_socketpair :: "'s \<Rightarrow> (int \<times> int) option"
  os_sendmsg :: "'s \<Rightarrow> send_env"
  os_fionread :: "int \<Rightarrow> int"

type_synonym 'a denv = "'a pstate_scheme daemon_env"

definition conn_of :: "'a denv \<Rightarrow> 'a penv" where
  "conn_of env = conn_env.truncate env"

text \<open>
  The callbacks through the function pointer of an event record. The notification of an exited
  subprocess calls the handler of another record, which is not that notification again.
\<close>

definition handler_call :: "'a denv \<Rightarrow> 'a pstate_scheme callback" where
  "handler_call env fn fd ev st =
     (let smart = smart_enqueue (calls env) in
      case fn of
        local_socket_event_func a \<Rightarrow> local_socket_event smart a fd ev st
      | ss_listener_event_func l \<Rightarrow> ss_listener_event smart (os_accept env fn fd st) ev st
      | listener_event_func l \<Rightarrow> listener_event l (os_accept env fn fd st) ev st
      | transport_socket_events t \<Rightarrow> transport_socket_events_run (conn_of env) t fd ev st
      | transport_registration_func \<Rightarrow> registration_event run_disconnect (update_transports smart) (os_socketpair env st) ev st
      | fdevent_subproc_event_func \<Rightarrow> Inl TooDeep
      | adb_auth_event t \<Rightarrow> adb_auth_event_run (conn_of env) fd ev st
      | adb_auth_listener \<Rightarrow> adb_auth_listener_run (os_accept env fn fd st) st
      | jdwp_process_event j \<Rightarrow> jdwp_process_event_run (os_sendmsg env st) smart j fd ev st
      | jdwp_control_event \<Rightarrow> jdwp_control_event_run (os_accept env fn fd st) ev st)"

text \<open>The same with the handler of the other callbacks as an argument.\<close>

definition daemon_dispatch :: "'a denv \<Rightarrow> 'a pstate_scheme callback \<Rightarrow> 'a pstate_scheme callback" where
  "daemon_dispatch env handler fn fd ev st =
     (case fn of
        fdevent_subproc_event_func \<Rightarrow> fdevent_subproc_event (big_endian env) (os_fionread env) handler fd ev st
      | _ \<Rightarrow> handler fn fd ev st)"

definition daemon_call :: "'a denv \<Rightarrow> 'a pstate_scheme callback" where
  "daemon_call env = daemon_dispatch env (handler_call env)"

lemma conn_of_simps [simp]: "calls (conn_of env) = calls env" "service_to_fd (conn_of env) = service_to_fd env"
  by (simp_all add: conn_of_def conn_env.truncate_def)

context packet_handlers
begin

lemma handler_keeps:
  assumes I: "I st" and s: "service_keeps (conn_of env)" "listed_ok st"
    and v: "\<And>t. fn = transport_socket_events t \<Longrightarrow> pipe st fd \<noteq> [] \<Longrightarrow> signature_verified (conn_of env) (hd (pipe st fd)) t st \<Longrightarrow> may t"
    and u: "\<And>t u. fn = adb_auth_event t \<Longrightarrow> user_agreed fd u st \<Longrightarrow> may u"
    and f: "fn = adb_auth_listener \<Longrightarrow> 0 \<le> os_accept env fn fd st \<Longrightarrow> I (st\<lparr>framework_fd := os_accept env fn fd st\<rparr>)"
  shows "ensures (handler_call env fn fd ev st) I"
proof (cases fn)
  case (transport_socket_events t)
  have "ensures (transport_socket_events_run (conn_of env) t fd ev st) I"
    using v [OF transport_socket_events] by (intro socket_events_keeps I s) blast
  then show ?thesis by (simp add: handler_call_def transport_socket_events)
qed (use I u f in \<open>simp_all add: handler_call_def event_keeps ss_listener_keeps listener_event_keeps registration_keeps auth_event_keeps
    auth_listener_keeps jdwp_event_keeps jdwp_control_keeps\<close>)

end

section \<open>Authentication\<close>

text \<open>A daemon that authenticates its peers, with no transport online but those of a given set.\<close>

definition only_online :: "addr set \<Rightarrow> 'a pstate_scheme \<Rightarrow> bool" where
  "only_online U st \<longleftrightarrow> \<not> ADB_HOST st \<and> \<not> HOST st \<and> auth_enabled st \<and> (\<forall>u. is_online st u \<longrightarrow> u \<in> U)"

lemma fd_frame_auth: "fd_frame st st' \<Longrightarrow> auth_enabled st' = auth_enabled st \<and> framework_fd st' = framework_fd st"
  by (cases st; cases st') (simp add: fd_frame_def)

lemma only_online_put: "only_online U st \<Longrightarrow> (t_online tr \<Longrightarrow> t \<in> U) \<Longrightarrow> only_online U (put_transport t tr st)"
  by (auto simp: only_online_def is_online_def put_transport_def)

lemma only_online_in: "only_online U st \<Longrightarrow> transports st t = Some tr \<Longrightarrow> t_online tr \<Longrightarrow> t \<in> U"
  by (auto simp: only_online_def is_online_def)

lemma only_online_cong:
  "transports st' = transports st \<Longrightarrow> ADB_HOST st' = ADB_HOST st \<Longrightarrow> HOST st' = HOST st \<Longrightarrow> auth_enabled st' = auth_enabled st \<Longrightarrow>
     only_online U st' = only_online U st"
  by (simp add: only_online_def is_online_def)

interpretation auth: packet_handlers "only_online U" "\<lambda>t. t \<in> U" False for U
proof
  fix st st' :: "'a pstate_scheme" assume f: "fd_frame st st'"
  show "only_online U st' = only_online U st"
    using fd_frame_tstate [OF f] fd_frame_auth [OF f] by (intro only_online_cong) auto
next
  fix st :: "'a pstate_scheme" and t and tr tr' :: atransport assume "only_online U st" "transports st t = Some tr" "t_online tr' \<Longrightarrow> t_online tr \<or> t \<in> U"
  then show "only_online U (put_transport t tr' st)" by (auto intro!: only_online_put dest: only_online_in)
next
  fix st :: "'a pstate_scheme" and t d and tr :: atransport assume "only_online U st" "transports st t = Some tr"
  then show "only_online U (put_transport t (tr\<lparr>disconnects := remove1 d (disconnects tr)\<rparr>) st)"
    by (auto intro!: only_online_put dest: only_online_in)
next
  fix st :: "'a pstate_scheme" and t d and tr :: atransport assume "only_online U st" "transports st t = Some tr"
  then show "only_online U (put_transport t (tr\<lparr>disconnects := disconnects tr @ [d]\<rparr>) st)"
    by (auto intro!: only_online_put dest: only_online_in)
qed (auto simp: only_online_def is_online_def wr_done_def rd_set_def put_sock_def free_sock_def alloc_sock_def alloc_def put_fde_def Let_def split: if_splits)

text \<open>
  A run of the daemon as a sequence of calls of its handlers. In between the event loop, the
  threads of the transports and the kernel change the state; what they do puts no transport online.
\<close>

definition outside :: "'a pstate_scheme \<Rightarrow> 'a pstate_scheme \<Rightarrow> bool" where
  "outside st st' \<longleftrightarrow> ADB_HOST st' = ADB_HOST st \<and> HOST st' = HOST st \<and> auth_enabled st' = auth_enabled st \<and> (\<forall>u. is_online st' u \<longrightarrow> is_online st u)"

datatype daemon_event = Callback fd_func int u16 | Outside

definition daemon_step :: "'a denv \<Rightarrow> daemon_event \<Rightarrow> 'a pstate_scheme \<Rightarrow> 'a pstate_scheme \<Rightarrow> bool" where
  "daemon_step env e st st' \<longleftrightarrow>
     (case e of Callback fn fd ev \<Rightarrow> handler_call env fn fd ev st = Inr st' | Outside \<Rightarrow> outside st st')"

inductive daemon_run :: "'a denv \<Rightarrow> daemon_event list \<Rightarrow> 'a pstate_scheme \<Rightarrow> 'a pstate_scheme \<Rightarrow> bool" for env where
  run_start: "daemon_run env [] st st"
| run_event: "daemon_run env es st s \<Longrightarrow> daemon_step env e s st' \<Longrightarrow> daemon_run env (es @ [e]) st st'"

text \<open>An event that admits a transport: its packet carries a verified signature, or the user has agreed.\<close>

definition admitted :: "'a denv \<Rightarrow> daemon_event \<Rightarrow> addr \<Rightarrow> 'a pstate_scheme \<Rightarrow> bool" where
  "admitted env e u st \<longleftrightarrow>
     (case e of
        Callback (transport_socket_events t) fd ev \<Rightarrow>
          u = t \<and> pipe st fd \<noteq> [] \<and> signature_verified (conn_of env) (hd (pipe st fd)) t st
      | Callback (adb_auth_event t) fd ev \<Rightarrow> user_agreed fd u st
      | _ \<Rightarrow> False)"

lemma outside_keeps: "outside st st' \<Longrightarrow> only_online U st \<Longrightarrow> only_online U st'"
  by (auto simp: outside_def only_online_def)

definition services_outside :: "'a denv \<Rightarrow> bool" where
  "services_outside env \<longleftrightarrow> (\<forall>name st fd st'. service_to_fd env name st = Inr (fd, st') \<longrightarrow> outside st st')"

lemma auth_services: "services_outside env \<Longrightarrow> auth.service_keeps U (conn_of env)"
  unfolding auth.service_keeps_def services_outside_def by (auto intro!: ensuresI) (blast intro: outside_keeps)

lemma daemon_step_online:
  assumes s: "services_outside env" and st: "daemon_step env e st st'" and o: "only_online U st" and a: "\<And>u. admitted env e u st \<Longrightarrow> u \<in> U"
  shows "only_online U st'"
proof (cases e)
  case (Callback fn fd ev)
  have l: "auth.listed_ok st" unfolding auth.listed_ok_def by simp
  have f: "only_online U (st\<lparr>framework_fd := n\<rparr>)" for n using o only_online_cong [of "st\<lparr>framework_fd := n\<rparr>" st U] by simp
  have "ensures (handler_call env fn fd ev st) (only_online U)"
    using a by (intro auth.handler_keeps [OF o auth_services [OF s] l] f) (auto simp: Callback admitted_def)
  then show ?thesis using st by (auto simp: Callback daemon_step_def)
qed (use st o outside_keeps in \<open>simp add: daemon_step_def\<close>)

lemma only_online_mono: "only_online U st \<Longrightarrow> U \<subseteq> V \<Longrightarrow> only_online V st"
  by (auto simp: only_online_def)

lemma daemon_run_online:
  assumes "daemon_run env es st st'" "services_outside env" "\<not> ADB_HOST st" "\<not> HOST st" "auth_enabled st"
  shows "only_online {u. is_online st u \<or> (\<exists>es1 e es2 s. es = es1 @ e # es2 \<and> daemon_run env es1 st s \<and> admitted env e u s)} st'"
  using assms(1,3-)
proof (induction rule: daemon_run.induct)
  case (run_start st)
  then show ?case by (simp add: only_online_def)
next
  case (run_event es st s e st')
  let ?U = "\<lambda>es. {u. is_online st u \<or> (\<exists>es1 e es2 s. es = es1 @ e # es2 \<and> daemon_run env es1 st s \<and> admitted env e u s)}"
  have "only_online (?U (es @ [e])) s" using run_event.IH [OF run_event.prems] by (rule only_online_mono) fastforce
  moreover have "u \<in> ?U (es @ [e])" if "admitted env e u s" for u using run_event.hyps(1) that by blast
  ultimately show ?case using daemon_step_online [OF assms(2) run_event.hyps(2)] by blast
qed

text \<open>
  Property C1. Authentication: in a daemon that authenticates its peers, a transport that was offline comes
  online only if, somewhere in the run, a packet on that transport carried a signature of its
  current token that one of the trusted keys verifies, or the framework sent \<open>OK\<close> while the transport
  was the one waiting for the user's decision. This holds for every sequence of calls of the event
  handlers, whatever the packets on all transports are, provided that starting a service puts no
  transport online.
\<close>

theorem online_only_admitted:
  assumes "daemon_run env es st st'" "services_outside env" "\<not> ADB_HOST st" "\<not> HOST st" "auth_enabled st"
    and "is_online st' u" "\<not> is_online st u"
  shows "\<exists>es1 e es2 s. es = es1 @ e # es2 \<and> daemon_run env es1 st s \<and> admitted env e u s"
  using daemon_run_online [OF assms(1-5)] assms(6,7) unfolding only_online_def by blast

definition ex_denv :: "pstate daemon_env" where
  "ex_denv = conn_env.extend ex_env \<lparr>os_accept = (\<lambda>_ _ _. -1), os_socketpair = (\<lambda>_. None),
     os_sendmsg = (\<lambda>_. \<lparr>getfl_ok = True, clear_ok = True, send_ok = True, restore_ok = True\<rparr>), os_fionread = (\<lambda>_. 0)\<rparr>"

lemma ex_denv_simps: "conn_of ex_denv = ex_env" "services_outside ex_denv"
  by (simp_all add: ex_denv_def conn_of_def conn_env.truncate_def conn_env.extend_def services_outside_def ex_env_def outside_def)

theorem online_only_admitted_witness:
  "\<exists>st'. daemon_run ex_denv [Callback (adb_auth_event 8) 7 FDE_READ] ex_waiting st' \<and> is_online st' 8
    \<and> (\<exists>es1 e es2 s. [Callback (adb_auth_event 8) 7 FDE_READ] = es1 @ e # es2 \<and> daemon_run ex_denv es1 ex_waiting s \<and> admitted ex_denv e 8 s)"
proof -
  have x: "rd_ev ex_waiting 7 = [RdBytes (bytes_of ''OK'')]" "usb_transport ex_waiting = Some 8" "\<not> ADB_HOST ex_waiting" "\<not> HOST ex_waiting" "auth_enabled ex_waiting"
    "\<exists>tr. transports ex_waiting 8 = Some tr \<and> wr_ev ex_waiting (transport_socket tr) = []" "\<not> is_online ex_waiting 8"
    by (simp_all add: ex_waiting_def ex_pstate_simps zero_transport_def is_online_def)
  then obtain st' where st': "adb_auth_event_run ex_env 7 FDE_READ ex_waiting = Inr st'" "is_online st' 8" using framework_ok by blast
  then have "daemon_step ex_denv (Callback (adb_auth_event 8) 7 FDE_READ) ex_waiting st'"
    by (simp add: daemon_step_def handler_call_def ex_denv_simps)
  then have r: "daemon_run ex_denv [Callback (adb_auth_event 8) 7 FDE_READ] ex_waiting st'" using run_event [OF run_start] by fastforce
  show ?thesis using online_only_admitted [OF r ex_denv_simps(2)] x st'(2) r by blast
qed

end
