(* ===== verification/DaemonInv.thy ===== *)
theory DaemonInv
  imports Adbd
begin

text \<open>
  The invariant of the daemon: the consistency of the sockets and of the event loop together with
  the roles of the sockets. Every handler keeps it, and every round of the event loop ends.
\<close>

section \<open>The roles of the sockets\<close>

text \<open>
  Each socket has the functions of one kind of socket; the peer of a smart socket is a local socket;
  the disconnect entries of the transports name remote sockets, as long as these exist. \<open>A\<close> are
  further addresses of remote sockets: the entries of a list that is being walked. Transports and sockets are
  at addresses that have been handed out.
\<close>

definition role_ok :: "asocket \<Rightarrow> bool" where
  "role_ok s \<longleftrightarrow> (s_enqueue s, s_ready s, s_close s) \<in> insert (local_socket_enqueue_fn, local_socket_ready_notify_fn, local_socket_close_notify_fn) socket_roles"

definition kind_at :: "'a sstate_scheme \<Rightarrow> addr \<Rightarrow> enqueue_fn option" where
  "kind_at st a = map_option s_enqueue (socks st a)"

definition remote_at :: "'a sstate_scheme \<Rightarrow> addr \<Rightarrow> bool" where
  "remote_at st a \<longleftrightarrow> a < next_addr st \<and> kind_at st a \<in> {None, Some remote_socket_enqueue_fn}"

definition role_at :: "'a sstate_scheme \<Rightarrow> asocket \<Rightarrow> bool" where
  "role_at st s \<longleftrightarrow> role_ok s \<and> (\<forall>p. peer s = Some p \<longrightarrow> p < next_addr st
     \<and> (s_enqueue s = smart_socket_enqueue_fn \<longrightarrow> kind_at st p \<in> {None, Some local_socket_enqueue_fn}))"

definition roles :: "addr set \<Rightarrow> 'a pstate_scheme \<Rightarrow> bool" where
  "roles A st \<longleftrightarrow> \<not> ADB_HOST st \<and> (\<forall>t. transports st t \<noteq> None \<longrightarrow> t < next_addr st) \<and> (\<forall>a s. socks st a = Some s \<longrightarrow> a < next_addr st \<and> role_at st s)
     \<and> (\<forall>t tr a. transports st t = Some tr \<longrightarrow> remote_socket_disconnect a \<in> set (disconnects tr) \<longrightarrow> remote_at st a)
     \<and> (\<forall>a \<in> A. remote_at st a)"

text \<open>What the predicate depends on.\<close>

lemma roles_cong:
  "transports st' = transports st \<Longrightarrow> ADB_HOST st' = ADB_HOST st \<Longrightarrow> socks st' = socks st \<Longrightarrow>
     next_addr st' = next_addr st \<Longrightarrow> roles A st' = roles A st"
  by (simp add: roles_def remote_at_def role_at_def kind_at_def)

lemma roles_indifferent:
  "roles A (wr_done fd ds cs es st) = roles A st" "roles A (rd_set fd rs st) = roles A st" "roles A (st\<lparr>pipe := pp\<rparr>) = roles A st"
  "roles A (st\<lparr>local_socket_list := l\<rparr>) = roles A st" "roles A (st\<lparr>local_socket_closing_list := l\<rparr>) = roles A st"
  "roles A (st\<lparr>local_socket_next_id := i\<rparr>) = roles A st" "roles A (st\<lparr>device_tracker_list := l\<rparr>) = roles A st" "roles A (st\<lparr>jdwp_trackers_list := l\<rparr>) = roles A st"
  "roles A (st\<lparr>listeners := ls\<rparr>) = roles A st" "roles A (st\<lparr>listener_list := l\<rparr>) = roles A st" "roles A (st\<lparr>usb_transport := u\<rparr>) = roles A st"
  "roles A (st\<lparr>needs_retry := b\<rparr>) = roles A st" "roles A (st\<lparr>urandom := us\<rparr>) = roles A st" "roles A (st\<lparr>transport_list := l\<rparr>) = roles A st"
  "roles A (st\<lparr>pending_list := l\<rparr>) = roles A st" "roles A (st\<lparr>tmsgs := ms\<rparr>) = roles A st" "roles A (st\<lparr>sock_pair := sp\<rparr>) = roles A st"
  "roles A (st\<lparr>framework_fd := fd\<rparr>) = roles A st" "roles A (st\<lparr>nonblock := nb\<rparr>) = roles A st"
  "roles A (st\<lparr>jdwp_list := l\<rparr>) = roles A st" "roles A (st\<lparr>jdwp_procs := ps\<rparr>) = roles A st" "roles A (st\<lparr>sent_fds := fs\<rparr>) = roles A st"
  by (rule roles_cong; simp add: wr_done_def rd_set_def)+

lemma rolesD: "roles A st \<Longrightarrow> socks st a = Some s \<Longrightarrow> a < next_addr st \<and> role_ok s" "roles A st \<Longrightarrow> socks st a = Some s \<Longrightarrow> role_at st s"
  by (auto simp: roles_def role_at_def)

lemma kind_at_mono:
  assumes "\<And>a. a < next_addr st \<Longrightarrow> kind_at st' a \<in> {None, kind_at st a}" "next_addr st \<le> next_addr st'"
  shows "remote_at st a \<Longrightarrow> remote_at st' a" "role_at st s \<Longrightarrow> role_at st' s"
proof -
  show "remote_at st a \<Longrightarrow> remote_at st' a" using assms(1) [of a] assms(2) by (auto simp: remote_at_def)
  show "role_at st s \<Longrightarrow> role_at st' s"
  proof (cases "peer s")
    case (Some p)
    then show "role_at st s \<Longrightarrow> role_at st' s" using assms(1) [of p] assms(2) by (auto simp: role_at_def)
  qed (simp add: role_at_def)
qed

text \<open>A change of the sockets under which every address keeps its kind, or loses its socket.\<close>

lemma roles_change:
  assumes r: "roles A st" and k: "\<And>a. a < next_addr st \<Longrightarrow> kind_at st' a \<in> {None, kind_at st a}" "next_addr st \<le> next_addr st'"
    and s: "\<And>a s. socks st' a = Some s \<Longrightarrow> a < next_addr st' \<and> (role_at st s \<or> role_at st' s)"
    and e: "transports st' = transports st" "ADB_HOST st' = ADB_HOST st"
  shows "roles A st'"
proof -
  have "\<forall>t. transports st t \<noteq> None \<longrightarrow> t < next_addr st'" using r k(2) by (auto simp: roles_def intro: less_le_trans)
  moreover have "a < next_addr st' \<and> role_at st' x" if "socks st' a = Some x" for a x using s [OF that] kind_at_mono(2) [OF k] by blast
  ultimately show ?thesis using r kind_at_mono(1) [OF k] by (auto simp: roles_def e)
qed

lemma roles_put_sock:
  assumes r: "roles A st" and s: "socks st a = Some s" "s_enqueue s' = s_enqueue s" "role_ok s'" "peer s' = peer s \<or> peer s' = None"
  shows "roles A (put_sock a s' st)"
proof (rule roles_change [OF r])
  have k: "kind_at (put_sock a s' st) = kind_at st" using s by (auto simp: kind_at_def fun_eq_iff)
  then show "kind_at (put_sock a s' st) b \<in> {None, kind_at st b}" for b by simp
  have "role_at st s'" using rolesD(2) [OF r s(1)] s by (auto simp: role_at_def)
  then show "b < next_addr (put_sock a s' st) \<and> (role_at st x \<or> role_at (put_sock a s' st) x)" if "socks (put_sock a s' st) b = Some x" for b x
    using that rolesD [OF r] s(1) by (auto simp: put_sock_def split: if_splits)
qed (simp_all add: put_sock_def)

lemma roles_transport:
  assumes r: "roles A st" "transports st t = Some tr"
    and d: "\<And>a. remote_socket_disconnect a \<in> set (disconnects tr') \<Longrightarrow> remote_socket_disconnect a \<in> set (disconnects tr) \<or> remote_at st a"
  shows "roles A (put_transport t tr' st)"
proof -
  have k: "remote_at (put_transport t tr' st) = remote_at st" "role_at (put_transport t tr' st) = role_at st"
    by (simp_all add: remote_at_def role_at_def kind_at_def put_transport_def fun_eq_iff)
  have "remote_at st a" if "remote_socket_disconnect a \<in> set (disconnects tr')" for a using r d [OF that] unfolding roles_def by blast
  then show ?thesis using r unfolding roles_def k by (auto simp: put_transport_def)
qed

lemma roles_gone: "roles A st \<Longrightarrow> roles A (st\<lparr>transports := (transports st)(t := None)\<rparr>)"
  unfolding roles_def remote_at_def role_at_def kind_at_def by auto

lemma roles_free: "roles A st \<Longrightarrow> roles A (free_sock a st)"
  by (rule roles_change [of A st]) (auto simp: free_sock_def kind_at_def dest: rolesD split: if_splits)

lemma roles_next: "roles A st \<Longrightarrow> roles A (st\<lparr>next_addr := next_addr st + 4\<rparr>)"
  by (rule roles_change [of A st]) (auto simp: kind_at_def dest: rolesD)

lemma roles_alloc:
  assumes r: "roles A st" and a: "alloc_sock s st = (a, st')" and s: "peer s = None" "(s_enqueue s, s_ready s, s_close s) \<in> socket_roles"
  shows "roles A st'"
proof (rule roles_change [OF r])
  have e: "a = next_addr st" "st' = put_sock a s (put_fde a (zero_fde a) (st\<lparr>next_addr := next_addr st + 4\<rparr>))"
    using a by (auto simp: alloc_sock_def alloc_def Let_def)
  show "kind_at st' b \<in> {None, kind_at st b}" if "b < next_addr st" for b using that by (simp add: e kind_at_def put_fde_def)
  show "next_addr st \<le> next_addr st'" by (simp add: e put_sock_def put_fde_def)
  have "role_at st s" using s by (simp add: role_at_def role_ok_def)
  then show "b < next_addr st' \<and> (role_at st x \<or> role_at st' x)" if "socks st' b = Some x" for b x
    using that rolesD [OF r] by (fastforce simp: e put_sock_def put_fde_def split: if_splits)
qed (use a in \<open>auto simp: alloc_sock_def alloc_def put_sock_def put_fde_def\<close>)

lemma roles_join:
  assumes r: "roles A st" and s: "socks st a = Some s" "socks st b = Some s'"
    and k: "s_enqueue s \<noteq> smart_socket_enqueue_fn" "s_enqueue s' = smart_socket_enqueue_fn \<Longrightarrow> s_enqueue s = local_socket_enqueue_fn"
  shows "roles A (put_sock b ((if a = b then s\<lparr>peer := Some b\<rparr> else s')\<lparr>peer := Some a\<rparr>) (put_sock a (s\<lparr>peer := Some b\<rparr>) st))" (is "roles A ?st")
proof (rule roles_change [OF r])
  have e: "kind_at ?st = kind_at st" using s by (auto simp: kind_at_def fun_eq_iff)
  then show "kind_at ?st c \<in> {None, kind_at st c}" for c by simp
  have n: "a < next_addr st" "b < next_addr st" "role_ok s" "role_ok s'" using rolesD(1) [OF r] s by auto
  have "role_at st (s\<lparr>peer := Some b\<rparr>)" "role_at st (s'\<lparr>peer := Some a\<rparr>)"
    using n s k by (auto simp: role_at_def role_ok_def kind_at_def)
  then show "c < next_addr ?st \<and> (role_at st x \<or> role_at ?st x)" if "socks ?st c = Some x" for c x
    using that rolesD [OF r] n s by (auto simp: put_sock_def split: if_splits)
qed (simp_all add: put_sock_def)

interpretation roles: packet_handlers "roles A" "\<lambda>t. True" True for A
proof
  fix st st' :: "'a pstate_scheme" assume f: "fd_frame st st'"
  show "roles A st' = roles A st"
    using fd_frame_tstate [OF f] fd_frame_auth [OF f] fd_frame_sstate [OF f] by (intro roles_cong) auto
next
  fix st :: "'a pstate_scheme" and a and s s' :: asocket assume r: "roles A st" "socks st a = Some s" and s: "s_enqueue s' = s_enqueue s" "s_ready s' = s_ready s"
    "s_close s' = s_close s" "peer s' = peer s \<or> peer s' = None"
  have "role_ok s" using rolesD(1) [OF r(1,2)] by simp
  then show "roles A (put_sock a s' st)" using s by (intro roles_put_sock [OF r]) (simp_all add: role_ok_def)
next
  fix st :: "'a pstate_scheme" and a s assume r: "roles A st" "socks st a = Some s" "s_ready s = local_socket_ready_notify_fn \<or> s_close s = local_socket_close_notify_fn"
  have "role_ok s" using rolesD(1) [OF r(1,2)] by simp
  then show "roles A (put_sock a (s\<lparr>s_ready := local_socket_ready_fn, s_close := local_socket_close_fn\<rparr>) st)"
    using r(3) by (intro roles_put_sock [OF r(1,2)]) (auto simp: role_ok_def socket_roles_def)
next
  fix st :: "'a pstate_scheme" and a s p ps u assume r: "roles A st" "socks st a = Some s" "s_enqueue s = smart_socket_enqueue_fn" "peer s = Some p" "socks st p = Some ps"
  have "s_enqueue ps = local_socket_enqueue_fn" using rolesD(2) [OF r(1,2)] r by (simp add: role_at_def kind_at_def)
  then show "roles A (put_sock p (ps\<lparr>s_ready := local_socket_ready_notify_fn, s_close := local_socket_close_notify_fn, peer := None, s_transport := u\<rparr>) st)"
    by (intro roles_put_sock [OF r(1,5)]) (auto simp: role_ok_def)
next
  fix st :: "'a pstate_scheme" and t d and tr :: atransport assume r: "roles A st" "transports st t = Some tr"
    and d: "\<And>a. d = remote_socket_disconnect a \<Longrightarrow> \<exists>s. socks st a = Some s \<and> s_enqueue s = remote_socket_enqueue_fn"
  show "roles A (put_transport t (tr\<lparr>disconnects := disconnects tr @ [d]\<rparr>) st)"
    using d rolesD(1) [OF r(1)] by (intro roles_transport [OF r]) (fastforce simp: remote_at_def kind_at_def)
next
  fix st :: "'a pstate_scheme" and t d and tr :: atransport assume r: "roles A st" "transports st t = Some tr"
  show "roles A (put_transport t (tr\<lparr>disconnects := remove1 d (disconnects tr)\<rparr>) st)"
    using set_remove1_subset [of d "disconnects tr"] by (intro roles_transport [OF r]) auto
next
  fix st :: "'a pstate_scheme" and t and tr tr' :: atransport assume r: "roles A st" "transports st t = Some tr" "set (disconnects tr') \<subseteq> set (disconnects tr)"
  show "roles A (put_transport t tr' st)" using r(3) by (intro roles_transport [OF r(1,2)]) auto
next
  fix st :: "'a pstate_scheme" and a b s s'
  assume r: "roles A st" "socks st a = Some s" "socks st b = Some s'" "s_enqueue s = local_socket_enqueue_fn" "s_enqueue s' = smart_socket_enqueue_fn"
  show "roles A (put_sock b (s'\<lparr>peer := Some a\<rparr>) (put_sock a (s\<lparr>peer := Some b\<rparr>) st))"
    using roles_join [OF r(1-3)] r(2-5) by (cases "a = b") auto
next
  fix st :: "'a pstate_scheme" and a c s s'
  assume r: "roles A st" "socks st a = Some s" "socks st c = Some s'" "True \<Longrightarrow> s_enqueue s \<noteq> smart_socket_enqueue_fn" "s_enqueue s' = remote_socket_enqueue_fn"
  then show "roles A (put_sock c ((if a = c then s\<lparr>peer := Some c\<rparr> else s')\<lparr>peer := Some a\<rparr>) (put_sock a (s\<lparr>peer := Some c\<rparr>) st))"
    by (intro roles_join) auto
next
  fix st st' :: "'a pstate_scheme" and s a assume "roles A st" "alloc_sock s st = (a, st')" "peer s = None" "(s_enqueue s, s_ready s, s_close s) \<in> socket_roles"
  then show "roles A st'" by (rule roles_alloc)
next
  fix st st' :: "'a pstate_scheme" and a assume "roles A st" "alloc st = (a, st')"
  then show "roles A st'" using roles_next [of A st] by (auto simp: alloc_def)
next
  show "roles A st \<Longrightarrow> \<not> ADB_HOST st" for st :: "'a pstate_scheme" by (simp add: roles_def)
  show "roles A st \<Longrightarrow> roles A (st\<lparr>framework_fd := -1\<rparr>)" for st :: "'a pstate_scheme" by (simp add: roles_indifferent)
qed (simp_all add: roles_gone roles_free roles_indifferent)

section \<open>The invariant of the daemon\<close>

definition safe :: "nat \<Rightarrow> 'a pstate_scheme \<Rightarrow> bool" where
  "safe k st \<longleftrightarrow> ginv False k st \<and> roles {} st"

lemma ensures_conj: "ensures m P \<Longrightarrow> ensures m Q \<Longrightarrow> ensures m (\<lambda>x. P x \<and> Q x)"
  by (cases m) auto

lemma ensures_safe: "ensures m (ginv False k) \<Longrightarrow> ensures m (roles {}) \<Longrightarrow> ensures m (safe k)"
  unfolding safe_def by (rule ensures_conj)

lemma ensures_safe_pair:
  "ensures m (\<lambda>(r, st). ginv False k st) \<Longrightarrow> ensures m (\<lambda>(r, st). roles {} st) \<Longrightarrow> ensures m (\<lambda>(r, st). safe k st)"
  unfolding safe_def by (cases m) auto

lemma safeD: "safe k st \<Longrightarrow> ginv False k st" "safe k st \<Longrightarrow> roles {} st" "safe k st \<Longrightarrow> \<not> ADB_HOST st"
  by (auto simp: safe_def ginv_def)

lemma safe_transport: "safe k st \<Longrightarrow> transports st t = Some tr \<Longrightarrow> set (disconnects tr') \<subseteq> set (disconnects tr) \<Longrightarrow> safe k (put_transport t tr' st)"
  unfolding safe_def by (auto intro!: roles.I_transport)

lemma sock_inv_program [simp]:
  "sock_inv E (st\<lparr>usb_transport := u\<rparr>) = sock_inv E st" "sock_inv E (st\<lparr>needs_retry := b\<rparr>) = sock_inv E st"
  "sock_inv E (st\<lparr>urandom := us\<rparr>) = sock_inv E st" "sock_inv E (st\<lparr>framework_fd := fd\<rparr>) = sock_inv E st"
  by (simp_all add: sock_inv_unfold act_def fd_inv_unfold)

lemma ginv_program [simp]:
  "ginv h k (st\<lparr>usb_transport := u\<rparr>) = ginv h k st" "ginv h k (st\<lparr>needs_retry := b\<rparr>) = ginv h k st" "ginv h k (st\<lparr>urandom := us\<rparr>) = ginv h k st"
  "ginv h k (st\<lparr>framework_fd := fd\<rparr>) = ginv h k st"
  by (simp_all add: ginv_def reg_ok_def act_def)

lemma safe_program [simp]:
  "safe k (st\<lparr>usb_transport := u\<rparr>) = safe k st" "safe k (st\<lparr>needs_retry := b\<rparr>) = safe k st" "safe k (st\<lparr>urandom := us\<rparr>) = safe k st"
  by (simp_all add: safe_def)

lemma safe_framework [simp]: "safe k (st\<lparr>framework_fd := fd\<rparr>) = safe k st"
  by (simp add: safe_def roles_indifferent)

text \<open>Running the disconnect entries of a transport. Every entry still names a remote socket, or a socket that is gone.\<close>

lemma remote_disconnect_ginv:
  assumes g: "ginv False k st" and r: "roles A st" "a \<in> A"
  shows "ensures (remote_socket_disconnect_run a st) (ginv False k)"
proof (cases "socks st a")
  case (Some s)
  have "remote_at st a" using r by (simp add: roles_def)
  then have "s_close s = remote_socket_close_fn"
    using Some rolesD(1) [OF r(1) Some] by (auto simp: remote_at_def kind_at_def role_ok_def socket_roles_def)
  then show ?thesis by (rule ginv_disconnect_run [OF g Some])
qed (simp add: remote_socket_disconnect_run_def get_sock_def)

lemma run_disconnect_ginv:
  assumes g: "ginv False k st" and r: "roles A st" "\<And>a. d = remote_socket_disconnect a \<Longrightarrow> a \<in> A"
  shows "ensures (run_disconnect d st) (ginv False k)"
  using g r(2) remote_disconnect_ginv [OF g r(1)]
  by (cases d) (auto simp: run_disconnect_def usb_disconnected_def listener_disconnect_run_def intro!: ginv_free_listener ginv_remove_disconnect [THEN ensures_mono])

lemma run_disconnects_ginv:
  assumes "ginv False k st" "roles A st" "\<And>a. remote_socket_disconnect a \<in> set ds \<Longrightarrow> a \<in> A"
  shows "ensures (run_disconnects run_disconnect ds st) (\<lambda>st. ginv False k st \<and> roles A st)"
  using assms
proof (induction ds arbitrary: st)
  case (Cons d ds)
  have "ensures (run_disconnect d st) (\<lambda>st. ginv False k st \<and> roles A st)"
    using Cons.prems by (intro ensures_conj run_disconnect_ginv roles.run_disconnect_keeps) auto
  then show ?case using Cons by (auto elim!: ensures_mono)
qed simp

lemma transport_disconnects_safe: "safe k st \<Longrightarrow> ensures (run_transport_disconnects run_disconnect t st) (safe k)"
proof -
  assume s: "safe k st"
  have "ensures (run_disconnects run_disconnect (disconnects tr) st) (safe k)" if tr: "transports st t = Some tr" for tr
  proof -
    let ?A = "{a. remote_socket_disconnect a \<in> set (disconnects tr)}"
    have "roles ?A st" using safeD(2) [OF s] tr by (auto simp: roles_def)
    then have "ensures (run_disconnects run_disconnect (disconnects tr) st) (\<lambda>st. ginv False k st \<and> roles ?A st)"
      by (intro run_disconnects_ginv [OF safeD(1) [OF s]]) auto
    then show ?thesis by (rule ensures_mono) (auto simp: safe_def roles_def)
  qed
  then show ?thesis by (simp add: run_transport_disconnects_def)
qed

lemma handle_offline_safe: "safe k st \<Longrightarrow> ensures (handle_offline t st) (safe k)"
  by (auto simp: handle_offline_def intro!: transport_disconnects_safe safe_transport)

text \<open>Packets that set up a connection.\<close>

lemma send_safe: "safe k st \<Longrightarrow> ensures (send_packet p t st) (safe k)"
  by (intro ensures_safe roles.send_keeps) (auto simp: safe_def intro!: ginv_send [THEN ensures_mono])

lemma auth_request_safe: "safe k st \<Longrightarrow> ensures (send_auth_request t st) (safe k)"
proof -
  assume s: "safe k st"
  have g: "ginv False k st'" if "adb_auth_generate_token tok st = (ret, tok', st')" for tok ret tok' st'
    using that safeD(1) [OF s] by (auto simp: adb_auth_generate_token_def split: if_splits list.splits option.splits)
  have "ensures (send_auth_request t st) (ginv False k)"
    by (auto simp: send_auth_request_def Let_def split: prod.splits dest: g intro!: ginv_send [THEN ensures_mono])
  then show ?thesis using s by (intro ensures_safe roles.auth_request_keeps) (auto dest: safeD)
qed

lemma send_connect_safe: "safe k st \<Longrightarrow> ensures (send_connect env t st) (safe k)"
  by (auto simp: send_connect_def intro!: ensuresI [of "fill_connect_data env n st" for n] send_safe)

lemma update_transports_safe: "safe k st \<Longrightarrow> ensures (update_transports sm st) (safe k)"
  by (simp add: update_transports_def safeD(3))

lemma parse_banner_safe: "safe k st \<Longrightarrow> ensures (parse_banner env b t st) (safe k)"
  by (auto simp: parse_banner_def Let_def intro!: update_transports_safe safe_transport)

lemma remember_safe: "safe k st \<Longrightarrow> (\<And>a. d \<noteq> remote_socket_disconnect a) \<Longrightarrow> ensures (add_transport_disconnect t d st) (safe k)"
  by (intro ensures_safe ginv_add_disconnect ensures_mono [OF roles.remember_keeps]) (auto simp: safe_def)

text \<open>
  Showing a key to the framework installs the event record of the transport on the framework's descriptor. This
  is in order when neither is in use, and when the record is there already, just as installing it would
  leave it: then it changes nothing. In the other cases \<open>key_busy\<close> holds: another
  transport's record is on the descriptor, the transport's record is still on an older descriptor, or its events have not been delivered.
\<close>

definition auth_record :: "addr \<Rightarrow> int \<Rightarrow> fdevent" where
  "auth_record t fd = \<lparr>fde_fd = fd, force_eof = False, fde_state = FDE_ACTIVE OR FDE_READ, fde_events = 0, fde_func = adb_auth_event t\<rparr>"

definition key_busy :: "addr \<Rightarrow> 'a pstate_scheme \<Rightarrow> bool" where
  "key_busy t st \<longleftrightarrow> 0 \<le> framework_fd st \<and> (act st (auth_fde t) = Some True \<or> tbl_at st (nat (framework_fd st)) \<noteq> None)
     \<and> fdes st (auth_fde t) \<noteq> Some (auth_record t (framework_fd st))"

lemma fdevent_add_safe: "safe k st \<Longrightarrow> ensures (fdevent_add a ev st) (safe k)"
  by (intro ensures_safe ginv_fdevent_add roles.fdevent_ops safeD)

lemma safe_nonblock [simp]: "safe k (st\<lparr>nonblock := nb\<rparr>) = safe k st"
  by (simp add: safe_def roles_indifferent ginv_def reg_ok_def act_def sock_inv_unfold fd_inv_unfold)

lemma fresh_install_safe:
  assumes s: "safe k st" and a: "\<not> 4 dvd a" "act st a \<noteq> Some True" "a div 4 < next_addr st"
    and t: "\<And>t n. (t, n) \<in> set (tmsgs st) \<Longrightarrow> n \<noteq> 0 \<Longrightarrow> transport_fde t \<noteq> a"
    and f: "tbl_at st (nat fd) = None"
  shows "ensures (fdevent_install a fd fn st) (safe k)"
proof (intro ensures_safe ensuresI)
  fix st' assume i: "fdevent_install a fd fn st = Inr st'"
  show "ginv False k st'" using ginv_embedded_install [OF safeD(1) [OF s] a t f i] by auto
  show "roles {} st'" using i roles.fdevent_ops(4) [OF safeD(2) [OF s]] by (auto dest: ensuresD)
qed

text \<open>Watching a record that has just been installed.\<close>

lemma add_read_installed:
  assumes "fdes st a = Some f" "fde_state f = FDE_ACTIVE" "0 \<le> fde_fd f"
  shows "fdevent_add a FDE_READ st = (if fde_fd f < int FD_SETSIZE
     then Inr (put_fde a (f\<lparr>fde_state := FDE_ACTIVE OR FDE_READ\<rparr>) (watch_fd (nat (fde_fd f)) FDE_READ st)) else Inl MemFault)"
proof -
  have m: "FDE_ACTIVE AND FDE_EVENTMASK = 0" "FDE_READ AND FDE_EVENTMASK = FDE_READ" "FDE_READ \<noteq> 0" "FDE_ACTIVE AND FDE_STATEMASK = FDE_ACTIVE"
    "(FDE_ACTIVE OR FDE_READ) AND FDE_STATEMASK = FDE_ACTIVE" "has FDE_ACTIVE FDE_ACTIVE" "\<not> has (FDE_ACTIVE OR FDE_READ) FDE_PENDING"
    by (simp_all add: has_def FDE_ACTIVE_def FDE_READ_def FDE_PENDING_def FDE_EVENTMASK_def FDE_STATEMASK_def)
  show ?thesis
    using assms m by (simp add: fdevent_add_def fdevent_set_def fdevent_update_def get_fde_def Let_def)
qed

text \<open>Installing a record that is in place changes nothing but the mode of the descriptor.\<close>

lemma install_again:
  fixes st :: "'a fdstate_scheme"
  assumes inv: "fd_inv st" and f: "fdes st (auth_fde t) = Some (auth_record t fd)" "0 \<le> fd"
  shows "ensures (bindr (fdevent_install (auth_fde t) fd (adb_auth_event t) st) (fdevent_add (auth_fde t) FDE_READ))
     (\<lambda>st'. st' = st\<lparr>nonblock := (nonblock st)(fd := True)\<rparr>)"
proof -
  let ?a = "auth_fde t" and ?st = "st\<lparr>nonblock := (nonblock st)(fd := True)\<rparr>"
  let ?f = "(auth_record t fd)\<lparr>fde_state := FDE_ACTIVE\<rparr>"
  have bits: "has (FDE_ACTIVE OR FDE_READ) FDE_ACTIVE" "has (FDE_ACTIVE OR FDE_READ) FDE_READ" "\<not> has (FDE_ACTIVE OR FDE_READ) FDE_WRITE"
    "\<not> has (FDE_ACTIVE OR FDE_READ) FDE_ERROR" "has FDE_ACTIVE FDE_ACTIVE" "\<not> has (FDE_ACTIVE OR FDE_READ) FDE_PENDING"
    "FDE_ACTIVE OR FDE_ACTIVE = FDE_ACTIVE"
    by (simp_all add: has_def FDE_ACTIVE_def FDE_READ_def FDE_WRITE_def FDE_ERROR_def FDE_PENDING_def)
  have tbl: "tbl_at st (nat fd) = Some ?a" using fd_invD(6) [OF inv] f bits by (simp add: auth_record_def)
  then have l: "nat fd < length (fd_table st)" "fd_table st ! nat fd = Some ?a" by (auto simp: tbl_at_def split: if_splits)
  have n: "nat fd < select_n st" using fd_invD(7) [OF inv tbl] .
  have only: "g = auth_record t fd" if "fdes st a = Some g" "has (fde_state g) FDE_ACTIVE" "fde_fd g = fd" for a g
    using fd_invD(6) [OF inv, of "nat fd" a] tbl that f by auto
  have r: "fde_state (auth_record t fd) = FDE_ACTIVE OR FDE_READ" "fde_fd (auth_record t fd) = fd" by (simp_all add: auth_record_def)
  have "nat fd \<in> read_fds st" using fd_invD(9) [OF inv] f r bits unfolding watches_def by fastforce
  moreover have "nat fd \<notin> write_fds st" "nat fd \<notin> error_fds st"
    using fd_invD(10,11) [OF inv] only r(1) bits(3,4) f(2) unfolding watches_def by (metis nat_0_le)+
  ultimately have sets: "nat fd \<in> read_fds st" "nat fd \<notin> write_fds st" "nat fd \<notin> error_fds st" .
  have i: "fdevent_install ?a fd (adb_auth_event t) st = Inr (put_fde ?a ?f ?st)"
  proof -
    have "x\<lparr>fd_table := (fd_table x)[nat fd := Some ?a]\<rparr> = x" if "fd_table x = fd_table st" for x :: "'a fdstate_scheme"
      using that list_update_id [of "fd_table st" "nat fd"] l(2) by (cases x) simp
    from this [of ?st] have "?st\<lparr>fd_table := (fd_table st)[nat fd := Some ?a]\<rparr> = ?st" by simp
    then show ?thesis using l n f(2)
      by (simp add: fdevent_install_def fdevent_register_def fdevent_connect_def get_fde_def Let_def auth_record_def bits(7)) (simp add: put_fde_def)
  qed
  have m: "has FDE_READ FDE_READ" "\<not> has FDE_READ FDE_WRITE" "\<not> has FDE_READ FDE_ERROR"
    by (simp_all add: has_def FDE_READ_def FDE_WRITE_def FDE_ERROR_def)
  let ?g = "auth_record t fd"
  have g: "?f\<lparr>fde_state := FDE_ACTIVE OR FDE_READ\<rparr> = ?g" "fde_fd ?f = fd" "fde_state ?f = FDE_ACTIVE" by (simp_all add: auth_record_def)
  have w: "put_fde ?a ?g (watch_fd (nat fd) FDE_READ (put_fde ?a ?f ?st)) = ?st"
    using sets f(1) m by (simp add: watch_fd_def fd_put_def put_fde_def insert_absorb fun_upd_idem)
  have "fdevent_add ?a FDE_READ (put_fde ?a ?f ?st) = (if fd < int FD_SETSIZE then Inr ?st else Inl MemFault)"
    using add_read_installed [of "put_fde ?a ?f ?st" ?a ?f] g f(2) w by (simp add: put_fde_def)
  then show ?thesis using i by simp
qed

lemma confirm_key_safe:
  assumes s: "safe k st" and b: "\<not> key_busy t st" and t: "transports st t \<noteq> None"
  shows "ensures (adb_auth_confirm_key key len t st) (safe k)"
proof -
  have install: "ensures (bindr (fdevent_install (auth_fde t) (framework_fd x) (adb_auth_event t) x) (fdevent_add (auth_fde t) FDE_READ)) (safe k)"
    if x: "safe k x" "fdes x = fdes st" "fd_table x = fd_table st" "framework_fd x = framework_fd st" "next_addr x = next_addr st" "0 \<le> framework_fd st" for x
  proof (cases "fdes st (auth_fde t) = Some (auth_record t (framework_fd st))")
    case True
    have "fd_inv x" using x(1) by (simp add: safe_def ginv_def sock_inv_def)
    from install_again [OF this, of t "framework_fd x"] True x show ?thesis by (auto elim!: ensures_mono)
  next
    case False
    then have "act x (auth_fde t) \<noteq> Some True" "tbl_at x (nat (framework_fd x)) = None"
      using b x by (auto simp: key_busy_def act_def tbl_at_def)
    moreover have "auth_fde t div 4 < next_addr x" using safeD(2) [OF s] t x(5) by (auto simp: roles_def auth_fde_def)
    moreover have "\<not> 4 dvd auth_fde t" "\<And>u. transport_fde u \<noteq> auth_fde t" by (rule transport_fde_odd(2)) (simp add: auth_fde_def transport_fde_def, presburger)
    ultimately show ?thesis using x(1) by (auto intro!: fresh_install_safe [THEN ensures_mono] fdevent_add_safe)
  qed
  define cont where "cont x = (if framework_fd x < 0 then Inr (x\<lparr>needs_retry := True\<rparr>)
       else if len = 0 \<or> len > length key then Inl MemFault
       else if key ! (len - 1) \<noteq> 0 then Inr x
       else
         let m = ''PK'' @ cstr key in
         if length m \<ge> MAX_PAYLOAD then Inr x
         else bindr (adb_write (framework_fd x) (bytes_of m) x) (\<lambda>(ret, st).
           case ret of
             IoErr e \<Rightarrow> Inr st
           | IoN n \<Rightarrow> bindr (fdevent_install (auth_fde t) (framework_fd st) (adb_auth_event t) st) (fdevent_add (auth_fde t) FDE_READ)))"
    for x :: "'a pstate_scheme"
  have cont: "ensures (cont x) (safe k)"
    if x: "safe k x" "fdes x = fdes st" "fd_table x = fd_table st" "framework_fd x = framework_fd st" "next_addr x = next_addr st" for x
  proof -
    have "ensures (case ret of IoErr e \<Rightarrow> Inr y
        | IoN n \<Rightarrow> bindr (fdevent_install (auth_fde t) (framework_fd y) (adb_auth_event t) y) (fdevent_add (auth_fde t) FDE_READ)) (safe k)"
      if w: "adb_write (framework_fd x) m x = Inr (ret, y)" "0 \<le> framework_fd x" for m ret y
    proof -
      obtain ds cs es where y: "y = wr_done (framework_fd x) ds cs es x" using adb_write_spec [OF w(1)] by (elim exE conjE)
      have "safe k y" using x(1) by (simp add: y safe_def roles_indifferent)
      moreover have "fdes y = fdes x" "fd_table y = fd_table x" "framework_fd y = framework_fd x" "next_addr y = next_addr x"
        by (simp_all add: y wr_done_def)
      ultimately show ?thesis using install [of y] x w(2) by (cases ret) auto
    qed
    then show ?thesis unfolding cont_def using x(1) by (auto simp: Let_def intro!: ensuresI [of "adb_write a b c" for a b c])
  qed
  have frame: "ensures (add_transport_disconnect (Some t) d x) (\<lambda>y. fdes y = fdes x \<and> fd_table y = fd_table x \<and> framework_fd y = framework_fd x \<and> next_addr y = next_addr x)"
    for d and x :: "'a pstate_scheme"
    by (auto simp: add_transport_disconnect_def put_transport_def)
  have "ensures (add_transport_disconnect (Some t) usb_disconnect (st\<lparr>usb_transport := Some t\<rparr>)) (safe k)"
    using s by (intro remember_safe) (simp_all add: usb_disconnect_def)
  from ensures_conj [OF this frame] have "ensures (add_transport_disconnect (Some t) usb_disconnect (st\<lparr>usb_transport := Some t\<rparr>)) (\<lambda>x. ensures (cont x) (safe k))"
    by (rule ensures_mono) (auto intro!: cont)
  then show ?thesis unfolding adb_auth_confirm_key_def cont_def [symmetric] using cont [OF s] by simp
qed

lemma handle_sync_safe: "safe k st \<Longrightarrow> ensures (handle_sync env p t st) (safe k)"
  by (auto simp: handle_sync_def intro!: send_safe [THEN ensures_mono] send_connect_safe handle_offline_safe [THEN ensures_mono] send_safe safe_transport)

lemma handle_cnxn_safe: "safe k st \<Longrightarrow> ensures (handle_cnxn env p t st) (safe k)"
proof -
  assume s: "safe k st"
  define cont where "cont st = bindr (packet_string p) (\<lambda>b. bindr (parse_banner env b t st) (\<lambda>st. if HOST st \<or> \<not> auth_enabled st
      then bindr (handle_online t st) (\<lambda>st. if \<not> HOST st then send_connect env t st else Inr st) else send_auth_request t st))"
    for st :: "'a pstate_scheme"
  have after: "ensures (if HOST st \<or> \<not> auth_enabled st
      then bindr (handle_online t st) (\<lambda>st. if \<not> HOST st then send_connect env t st else Inr st) else send_auth_request t st) (safe k)"
    if "safe k st" for st :: "'a pstate_scheme"
    using that auth_request_safe [OF that] by (auto simp: handle_online_def intro!: send_connect_safe safe_transport)
  have rest: "ensures (cont st) (safe k)" if "safe k st" for st :: "'a pstate_scheme"
    unfolding cont_def ensures_bindr
    by (rule ensuresI, rule ensures_mono [OF parse_banner_safe [OF that]], rule after)
  show ?thesis unfolding handle_cnxn_def cont_def [symmetric]
    using s by (auto intro!: handle_offline_safe [THEN ensures_mono] safe_transport rest)
qed

lemma verified_safe: "safe k st \<Longrightarrow> ensures (adb_auth_verified env t st) (safe k)"
  by (auto simp: adb_auth_verified_def handle_online_def intro!: send_connect_safe safe_transport)

text \<open>A packet with a key for the user to accept.\<close>

definition public_key_packet :: "apacket \<Rightarrow> bool" where
  "public_key_packet p \<longleftrightarrow> command (msg p) = A_AUTH \<and> arg0 (msg p) = ADB_AUTH_RSAPUBLICKEY"

lemma handle_auth_safe:
  "safe k st \<Longrightarrow> (arg0 (msg p) = ADB_AUTH_RSAPUBLICKEY \<Longrightarrow> \<not> key_busy t st) \<Longrightarrow> ensures (handle_auth env p t st) (safe k)"
  by (auto simp: handle_auth_def safeD(3) get_transport_def from_opt_def Let_def send_auth_publickey_def split: if_splits option.splits
      intro!: ensuresI [of "adb_auth_verify a b c d e f" for a b c d e f] confirm_key_safe safe_transport verified_safe [THEN ensures_mono] auth_request_safe)

text \<open>The packets of streams.\<close>

definition free_fd :: "int \<Rightarrow> 'a fdstate_scheme \<Rightarrow> bool" where
  "free_fd fd st \<longleftrightarrow> fd < 0 \<or> tbl_at st (nat fd) = None"

definition services_safe :: "'a denv \<Rightarrow> bool" where
  "services_safe env \<longleftrightarrow> (\<forall>k name st fd st'. safe k st \<longrightarrow> service_to_fd env name st = Inr (fd, st') \<longrightarrow> safe k st' \<and> free_fd fd st')"

definition loose :: "addr \<Rightarrow> 'a sstate_scheme \<Rightarrow> bool" where
  "loose a st \<longleftrightarrow> (\<exists>s. socks st a = Some s \<and> s_enqueue s \<noteq> smart_socket_enqueue_fn \<and> peer s = None \<and> a \<notin> set (local_socket_closing_list st))"

lemma open_unlisted: "sock_inv E st \<Longrightarrow> socks st a = Some s \<Longrightarrow> \<not> closing s \<Longrightarrow> a \<notin> set (local_socket_closing_list st)"
  by (auto simp: sock_inv_def lists_ok_def)

lemma looseI: "safe k st \<Longrightarrow> socks st a = Some s \<Longrightarrow> s_enqueue s \<noteq> smart_socket_enqueue_fn \<Longrightarrow> peer s = None \<Longrightarrow> \<not> closing s \<Longrightarrow> loose a st"
  by (auto simp: loose_def dest!: safeD(1) ginv_sock_inv dest: open_unlisted)

lemma create_local_safe:
  assumes s: "safe k st" and f: "tbl_at st (nat fd) = None"
  shows "ensures (create_local_socket fd st) (\<lambda>(a, st'). safe k st' \<and> loose a st' \<and> a \<noteq> next_addr st' \<and> kind_at st' a = Some local_socket_enqueue_fn)"
  using ensures_conj [OF ginv_create_local [OF safeD(1) [OF s] f] roles.create_local_keeps [OF safeD(2) [OF s], of fd]]
  by (rule ensures_mono) (auto simp: safe_def kind_at_def intro: looseI [unfolded safe_def])

lemma create_jdwp_safe:
  assumes s: "safe k st"
  shows "ensures (create_jdwp_service_socket st) (\<lambda>(a, st'). safe k st' \<and> loose a st')"
    "ensures (create_jdwp_tracker_service_socket st) (\<lambda>(a, st'). safe k st' \<and> loose a st')"
  using ensures_conj [OF ginv_create_jdwp(1) [OF safeD(1) [OF s]] roles.create_jdwp_keeps(1) [OF safeD(2) [OF s]]]
    ensures_conj [OF ginv_create_jdwp(2) [OF safeD(1) [OF s]] roles.create_jdwp_keeps(2) [OF safeD(2) [OF s]]]
  by (auto elim!: ensures_mono simp: safe_def intro: looseI [unfolded safe_def])

lemma safe_exit_flag: "safe k st \<Longrightarrow> socks st a = Some s \<Longrightarrow> safe k (put_sock a (s\<lparr>exit_on_close := b\<rparr>) st)"
  unfolding safe_def by (auto intro!: ginv_put_same)

lemma service_socket_safe:
  assumes e: "services_safe env" and s: "safe k st"
  shows "ensures (create_local_service_socket (service_to_fd env) root name st) (\<lambda>(r, st'). safe k st' \<and> (\<forall>a. r = Some a \<longrightarrow> loose a st'))"
proof -
  have "ensures (service_to_fd env name st) (\<lambda>(fd, st'). safe k st' \<and> free_fd fd st')"
    using e s unfolding services_safe_def by (auto intro!: ensuresI)
  moreover have "loose a (put_sock a (x\<lparr>exit_on_close := b\<rparr>) st')" if "loose a st'" "socks st' a = Some x" for a x b and st' :: "'a pstate_scheme"
    using that by (auto simp: loose_def)
  ultimately show ?thesis unfolding create_local_service_socket_def
    using create_jdwp_safe [OF s]
    by (auto simp: safeD(3) [OF s] free_fd_def elim!: ensures_mono intro!: ensures_mono [OF create_local_safe] safe_exit_flag)
qed

lemma create_remote_lists: "create_remote_socket i t st = Inr (b, st') \<Longrightarrow> local_socket_closing_list st' = local_socket_closing_list st"
  by (auto simp: create_remote_socket_def add_transport_disconnect_def alloc_sock_def alloc_def put_fde_def Let_def bindr_eq_Inr split: option.splits)

lemma join_remote_safe:
  assumes s: "safe k st" and a: "loose a st"
  shows "ensures (join_remote a i t st) (\<lambda>(r, st'). safe k st')"
proof (rule ensures_safe_pair)
  obtain x where x: "socks st a = Some x" "s_enqueue x \<noteq> smart_socket_enqueue_fn" "peer x = None" "a \<notin> set (local_socket_closing_list st)"
    using a by (auto simp: loose_def)
  show "ensures (join_remote a i t st) (\<lambda>(r, st'). roles {} st')" using x by (intro roles.join_remote_keeps safeD(2) [OF s]) simp
  have j: "ginv False k (put_sock b (y\<lparr>peer := Some a\<rparr>) (put_sock a (x\<lparr>peer := Some b\<rparr>) st1))" "a \<noteq> b" "socks st1 b = Some y" "socks st1 a = Some x"
    if c: "create_remote_socket i (Some t) st = Inr (b, st1)"
      and y: "y = (zero_sock remote_socket_enqueue_fn remote_socket_ready_fn remote_socket_close_fn)\<lparr>s_id := i, s_transport := Some t\<rparr>" for b st1 y
  proof -
    note C = create_remote_socket_inv [OF ginv_sock_inv [OF safeD(1) [OF s]] c]
    show ab: "a \<noteq> b" "socks st1 b = Some y" "socks st1 a = Some x" using C x(1) y by auto
    have "a \<notin> set (local_socket_closing_list st1)" "b \<notin> set (local_socket_closing_list st1)"
      using x(4) create_remote_lists [OF c] open_unlisted [of "{}" st1 b y] C ab(2) y by (simp_all add: zero_sock_def)
    then have "sock_inv {} (put_sock b (y\<lparr>peer := Some a\<rparr>) (put_sock a (x\<lparr>peer := Some b\<rparr>) st1))"
      using C x ab y by (intro connect_inv) (auto simp: zero_sock_def)
    then show "ginv False k (put_sock b (y\<lparr>peer := Some a\<rparr>) (put_sock a (x\<lparr>peer := Some b\<rparr>) st1))"
      using C by (intro ginv_calm [OF safeD(1) [OF s]]) auto
  qed
  show "ensures (join_remote a i t st) (\<lambda>(r, st'). ginv False k st')"
  proof (cases "create_remote_socket i (Some t) st")
    case (Inr r)
    then obtain b st1 where c: "create_remote_socket i (Some t) st = Inr (b, st1)" by (cases r) simp
    show ?thesis using j [OF c refl] by (simp add: join_remote_def c)
  qed (simp add: join_remote_def)
qed

text \<open>Every packet keeps the invariant.\<close>

lemma listed_safe: "safe k st \<Longrightarrow> roles.listed_ok st"
proof -
  assume s: "safe k st"
  have "s_enqueue x \<noteq> smart_socket_enqueue_fn" if "a \<in> set (local_socket_list st)" "socks st a = Some x" for a x
    using that s rolesD(1) [OF safeD(2) [OF s] that(2)]
    by (auto simp: safe_def ginv_def sock_inv_def lists_ok_def linkable_def is_local_def role_ok_def socket_roles_def)
  then show ?thesis by (simp add: roles.listed_ok_def)
qed

lemma listed_loose:
  assumes s: "safe k st" and a: "a \<in> set (local_socket_list st)" "socks st a = Some x" "peer x = None"
  shows "loose a st"
proof -
  have "a \<notin> set (local_socket_closing_list st)" using s a(1) by (auto simp: safe_def ginv_def sock_inv_def lists_ok_def)
  moreover have "s_enqueue x \<noteq> smart_socket_enqueue_fn" using listed_safe [OF s] a unfolding roles.listed_ok_def by blast
  ultimately show ?thesis using a by (simp add: loose_def)
qed

lemma ready_safe: "safe k st \<Longrightarrow> ensures (asocket_ready (smart_enqueue hc) a st) (safe k)"
  by (intro ensures_safe roles.ready_keeps daemon.ready_keeps safeD)

lemma close_safe: "safe k st \<Longrightarrow> ensures (asocket_close a st) (safe k)"
  by (intro ensures_safe roles.close_keeps ginv_close safeD)

lemma enqueue_safe: "safe k st \<Longrightarrow> ensures (asocket_enqueue (smart_enqueue hc) a p st) (\<lambda>(r, st'). safe k st')"
  by (intro ensures_safe_pair roles.enqueue_keeps daemon.enqueue_keeps safeD)

lemma handle_open_safe: "safe k st \<Longrightarrow> services_safe env \<Longrightarrow> ensures (handle_open (conn_of env) p t st) (safe k)"
  unfolding handle_open_def
  by (auto intro!: ensuresI [of "open_name p"] service_socket_safe [THEN ensures_mono] join_remote_safe [THEN ensures_mono]
      send_safe [THEN ensures_mono] send_safe ready_safe simp: send_ready_def send_close_def split: option.splits)

lemma handle_okay_safe: "safe k st \<Longrightarrow> ensures (handle_okay env p t st) (safe k)"
  unfolding handle_okay_def find_local_socket_def
  by (auto intro!: ensuresI [of "find_sock i as st" for i as] join_remote_safe [THEN ensures_mono] ready_safe listed_loose
      dest!: roles.find_sock_listed split: option.splits)

lemma handle_clse_safe: "safe k st \<Longrightarrow> ensures (handle_clse p st) (safe k)"
  unfolding handle_clse_def by (auto intro!: ensuresI [of "find_local_socket i st" for i] close_safe split: option.splits)

lemma handle_wrte_safe: "safe k st \<Longrightarrow> ensures (handle_wrte env p t st) (safe k)"
  unfolding handle_wrte_def
  by (auto intro!: ensuresI [of "find_local_socket i st" for i] enqueue_safe [THEN ensures_mono] send_safe simp: send_ready_def split: option.splits)

lemma handle_packet_safe:
  assumes s: "safe k st" and e: "services_safe env" and b: "public_key_packet p \<Longrightarrow> \<not> key_busy t st"
  shows "ensures (handle_packet (conn_of env) p t st) (safe k)"
  using s b handle_auth_safe [OF s] handle_open_safe [OF s e] handle_okay_safe [OF s] handle_clse_safe [OF s] handle_wrte_safe [OF s]
    handle_sync_safe [OF s] handle_cnxn_safe [OF s]
  unfolding handle_packet_def public_key_packet_def by (auto simp: Let_def)

section \<open>The other handlers\<close>

lemma ginv_registry [simp]:
  "ginv h k (st\<lparr>transport_list := l\<rparr>) = ginv h k st" "ginv h k (st\<lparr>pending_list := l\<rparr>) = ginv h k st" "ginv h k (st\<lparr>sock_pair := sp\<rparr>) = ginv h k st"
  "ginv h k (st\<lparr>pipe := pp\<rparr>) = ginv h k st" "ginv h k (st\<lparr>transports := ts\<rparr>) = ginv h k st"
  by (simp_all add: ginv_def reg_ok_def act_def sock_inv_unfold fd_inv_unfold)

lemma safe_registry [simp]:
  "safe k (st\<lparr>transport_list := l\<rparr>) = safe k st" "safe k (st\<lparr>pending_list := l\<rparr>) = safe k st" "safe k (st\<lparr>sock_pair := sp\<rparr>) = safe k st"
  "safe k (st\<lparr>pipe := pp\<rparr>) = safe k st" "safe k (rd_set fd es st) = safe k st" "safe k (adb_close fd st) = safe k st"
  by (simp_all add: safe_def roles_indifferent)

lemma fdevent_remove_safe: "safe k st \<Longrightarrow> ensures (fdevent_remove a st) (safe k)"
  by (intro ensures_safe ginv_fdevent_remove roles.fdevent_ops safeD)

lemma fdevent_set_safe: "safe k st \<Longrightarrow> ensures (fdevent_set a ev st) (safe k)"
proof (rule ensures_safe)
  assume s: "safe k st"
  show "ensures (fdevent_set a ev st) (roles {})" by (intro roles.fdevent_ops safeD(2) [OF s])
  show "ensures (fdevent_set a ev st) (ginv False k)"
    using fdevent_set_sock [OF ginv_sock_inv [OF safeD(1) [OF s]], of a ev] fdevent_set_calm [of a ev st]
    by (intro ensuresI ginv_calm [OF safeD(1) [OF s]]) auto
qed

lemma auth_event_safe:
  assumes s: "safe k st"
  shows "ensures (adb_auth_event_run env fd ev st) (safe k)"
proof -
  have "ensures (case r of
        IoN n \<Rightarrow> if n = 2 \<and> bs = bytes_of ''OK'' then (case usb_transport st' of None \<Rightarrow> Inr st' | Some u \<Rightarrow> adb_auth_verified env u st') else Inr st'
      | IoErr e \<Rightarrow> bindr (case usb_transport st' of None \<Rightarrow> Inr st' | Some u \<Rightarrow> fdevent_remove (auth_fde u) st') (\<lambda>st. Inr (st\<lparr>framework_fd := -1\<rparr>))) (safe k)"
    if r: "adb_read fd 2 st = Inr (r, bs, st')" for r bs st'
  proof -
    obtain es where st': "st' = rd_set fd es st" using adb_read_frame [OF r] by blast
    show ?thesis
      using s by (auto simp: st' split: io_ret.splits option.splits intro!: verified_safe fdevent_remove_safe [THEN ensures_mono])
  qed
  then show ?thesis using s unfolding adb_auth_event_run_def by (auto intro!: ensuresI [of "adb_read fd 2 st"])
qed

lemma key_busy_pipe: "key_busy t (st\<lparr>pipe := p\<rparr>) = key_busy t st"
  by (simp add: key_busy_def act_def tbl_at_def)

lemma socket_events_safe:
  "safe k st \<Longrightarrow> services_safe env \<Longrightarrow> (pipe st fd \<noteq> [] \<Longrightarrow> public_key_packet (hd (pipe st fd)) \<Longrightarrow> \<not> key_busy t st) \<Longrightarrow>
     ensures (transport_socket_events_run (conn_of env) t fd ev st) (safe k)"
  by (auto simp: transport_socket_events_run_def read_packet_def key_busy_pipe split: list.splits intro!: handle_packet_safe)

lemma auth_listener_safe: "safe k st \<Longrightarrow> ensures (adb_auth_listener_run s st) (safe k)"
  by (auto simp: adb_auth_listener_run_def Let_def deref_def from_opt_def split: option.splits intro!: auth_request_safe)

lemma ss_listener_safe:
  assumes s: "safe k st" and f: "free_fd fd st"
  shows "ensures (ss_listener_event (smart_enqueue hc) fd ev st) (safe k)"
proof -
  have "ensures (connect_to_smartsocket (smart_enqueue hc) a st') (safe k)" if "safe k st'" "socks st' a = Some x" "peer x = None" "\<not> closing x"
    "a \<noteq> next_addr st'" "s_enqueue x = local_socket_enqueue_fn" for a x and st' :: "'a pstate_scheme"
    using that by (intro ensures_safe daemon.connect_to_smartsocket_keeps roles.connect_smart_keeps safeD)
  moreover have "ensures (create_local_socket fd st) (\<lambda>(a, st'). safe k st' \<and> (\<exists>x. socks st' a = Some x \<and> s_enqueue x = local_socket_enqueue_fn
      \<and> peer x = None \<and> \<not> closing x) \<and> a \<noteq> next_addr st')" if "0 \<le> fd"
    using that f ensures_conj [OF ginv_create_local [OF safeD(1) [OF s], of fd] roles.create_local_keeps [OF safeD(2) [OF s], of fd]]
    by (auto simp: free_fd_def safe_def elim!: ensures_mono)
  ultimately show ?thesis using s by (auto simp: ss_listener_event_def elim!: ensures_mono)
qed

lemma listener_event_safe:
  assumes s: "safe k st" and f: "free_fd fd st"
  shows "ensures (listener_event l fd ev st) (safe k)"
proof (rule ensures_safe)
  show "ensures (listener_event l fd ev st) (ginv False k)"
    using f safeD(1) [OF s] by (auto simp: listener_event_def free_fd_def get_listener_def from_opt_def split: option.splits
        intro!: ginv_create_local [THEN ensures_mono] ginv_connect_to_remote ginv_put_same)
qed (intro roles.listener_event_keeps safeD(2) [OF s])

text \<open>A registration message: the transport starts, or is removed.\<close>

lemma unlink_safe: "safe k st \<Longrightarrow> ensures (unlink_transport t st) (safe k)"
  by (auto simp: unlink_transport_def split: option.splits prod.splits intro!: safe_transport)

lemma remove_action_safe: "safe k st \<Longrightarrow> ensures (transport_remove_action run_disconnect (update_transports sm) t st) (safe k)"
proof -
  assume s: "safe k st"
  have "safe k (free_transport t st')" if "safe k st'" for st' :: "'a pstate_scheme"
    using that by (simp add: safe_def free_transport_def roles_gone)
  then show ?thesis using s by (auto simp: transport_remove_action_def
      intro!: fdevent_remove_safe [THEN ensures_mono] unlink_safe [THEN ensures_mono] transport_disconnects_safe [THEN ensures_mono] update_transports_safe)
qed

lemma transport_fde_div: "transport_fde t div 4 = t" "transport_fde t = transport_fde u \<longleftrightarrow> t = u"
  by (auto simp: transport_fde_def)

lemma start_install_safe:
  assumes s: "safe k st" and t: "t < next_addr st" "act st (transport_fde t) \<noteq> Some True" "\<And>n. (t, n) \<in> set (tmsgs st) \<Longrightarrow> n = 0"
    and f: "tbl_at st (nat s0) = None"
  shows "ensures (fdevent_install (transport_fde t) s0 fn st) (safe k)"
proof (intro ensures_safe ensuresI)
  fix st' assume "fdevent_install (transport_fde t) s0 fn st = Inr st'"
  then show "ginv False k st'"
    using ginv_embedded_install [OF safeD(1) [OF s] transport_fde_odd(1) t(2)] t(1,3) f by (auto simp: transport_fde_div)
next
  fix st' assume "fdevent_install (transport_fde t) s0 fn st = Inr st'"
  then show "roles {} st'" using roles.fdevent_ops(4) [OF safeD(2) [OF s]] by (auto dest: ensuresD)
qed

lemma start_action_safe:
  assumes s: "safe k st" and t: "t < next_addr st" "act st (transport_fde t) \<noteq> Some True" "\<And>n. (t, n) \<in> set (tmsgs st) \<Longrightarrow> n = 0"
    and f: "\<And>s0 s1. pair = Some (s0, s1) \<Longrightarrow> tbl_at st (nat s0) = None"
  shows "ensures (transport_start_action (update_transports sm) pair t st) (safe k)"
proof -
  have i: "ensures (fdevent_install (transport_fde t) s0 fn (make_pair s0 s1 (put_transport t (tr\<lparr>ref_count := 2, transport_socket := s0, t_fd := s1\<rparr>) st))) (safe k)"
    if "pair = Some (s0, s1)" "transports st t = Some tr" for s0 s1 fn tr
    using s t f [OF that(1)] that(2)
    by (intro start_install_safe) (auto simp: make_pair_def put_transport_def act_def tbl_at_def intro!: safe_transport [unfolded put_transport_def])
  have rest: "ensures (unlink_transport t st') (\<lambda>st. \<forall>tr. transports st t = Some tr \<longrightarrow>
      ensures (update_transports sm (put_transport t (tr\<lparr>disconnects := []\<rparr>) (st\<lparr>transport_list := transport_list st @ [t]\<rparr>))) (safe k))"
    if "safe k st'" for st' :: "'a pstate_scheme"
    using that by (auto intro!: unlink_safe [THEN ensures_mono] update_transports_safe safe_transport)
  show ?thesis unfolding transport_start_action_def
    using s by (auto simp: Let_def split: option.splits prod.splits
        intro!: rest i [THEN ensures_mono] fdevent_set_safe [THEN ensures_mono])
qed

lemma read_message_safe:
  assumes s: "safe k st" and m: "tmsgs st = (t, n) # ms"
  shows "safe k (st\<lparr>tmsgs := ms\<rparr>)"
    and "n \<noteq> 0 \<Longrightarrow> t < next_addr st \<and> act st (transport_fde t) \<noteq> Some True \<and> (\<forall>n. (t, n) \<in> set ms \<longrightarrow> n = 0)"
proof -
  have r: "reg_ok st" using s by (simp add: safe_def ginv_def)
  then have "reg_ok (st\<lparr>tmsgs := ms\<rparr>)" using m by (auto simp: reg_ok_def act_def split: if_splits)
  moreover have "sock_inv {} (st\<lparr>tmsgs := ms\<rparr>) = sock_inv {} st" by (simp add: sock_inv_unfold act_def fd_inv_unfold)
  ultimately show "safe k (st\<lparr>tmsgs := ms\<rparr>)" using s by (simp add: safe_def ginv_def roles_indifferent)
  assume n: "n \<noteq> 0"
  have "u = 0" if "(t, u) \<in> set ms" for u
  proof (rule ccontr)
    assume u: "u \<noteq> 0"
    have "u = 1" "n = 1" using r m n u that unfolding reg_ok_def by auto
    moreover have "distinct ((t, n) # filter (\<lambda>m. snd m \<noteq> 0) ms)" using r m n unfolding reg_ok_def by simp
    ultimately show False using that by auto
  qed
  then show "t < next_addr st \<and> act st (transport_fde t) \<noteq> Some True \<and> (\<forall>n. (t, n) \<in> set ms \<longrightarrow> n = 0)"
    using r m n unfolding reg_ok_def by auto
qed

lemma registration_safe:
  assumes s: "safe k st" and f: "\<And>s0 s1. pair = Some (s0, s1) \<Longrightarrow> tbl_at st (nat s0) = None"
  shows "ensures (registration_event run_disconnect (update_transports sm) pair ev st) (safe k)"
proof (cases "tmsgs st")
  case (Cons m ms)
  obtain t n where m: "m = (t, n)" by (cases m)
  note M = read_message_safe [OF s Cons [unfolded m]]
  have "ensures (transport_start_action (update_transports sm) pair t (st\<lparr>tmsgs := ms\<rparr>)) (safe k)" if "n \<noteq> 0"
    using M(2) [OF that] f by (intro start_action_safe [OF M(1)]) (auto simp: act_def tbl_at_def)
  then show ?thesis using s remove_action_safe [OF M(1)] by (auto simp: registration_event_def transport_read_action_def Cons m)
qed (use s in \<open>auto simp: registration_event_def transport_read_action_def\<close>)

text \<open>
  What is assumed of the world around the daemon: a service keeps the invariant and returns a
  descriptor that the event loop does not watch, as do \<open>accept\<close> and \<open>adb_socketpair\<close>.
\<close>

definition daemon_ok :: "'a denv \<Rightarrow> bool" where
  "daemon_ok env \<longleftrightarrow> services_safe env \<and> (\<forall>fn fd st. free_fd (os_accept env fn fd st) st)
     \<and> (\<forall>st s0 s1. os_socketpair env st = Some (s0, s1) \<longrightarrow> tbl_at st (nat s0) = None)"

text \<open>The callback that would install a record in use: a packet with a key while \<open>key_busy\<close> holds.\<close>

definition shows_key_again :: "fd_func \<Rightarrow> int \<Rightarrow> 'a pstate_scheme \<Rightarrow> bool" where
  "shows_key_again fn fd st \<longleftrightarrow> (case fn of
     transport_socket_events t \<Rightarrow> pipe st fd \<noteq> [] \<and> public_key_packet (hd (pipe st fd)) \<and> key_busy t st
   | _ \<Rightarrow> False)"

lemma jdwp_event_safe: "safe k st \<Longrightarrow> ensures (jdwp_process_event_run e (smart_enqueue hc) j fd ev st) (safe k)"
  by (intro ensures_safe roles.jdwp_event_keeps daemon.jdwp_process_event_keeps safeD)

lemma jdwp_control_safe: "safe k st \<Longrightarrow> free_fd s st \<Longrightarrow> ensures (jdwp_control_event_run s ev st) (safe k)"
  using ginv_jdwp_control [of False k st s ev]
  by (intro ensures_safe roles.jdwp_control_keeps) (auto simp: free_fd_def safe_def jdwp_control_event_run_def)

lemma local_event_safe: "safe k st \<Longrightarrow> ensures (local_socket_event (smart_enqueue hc) a fd ev st) (safe k)"
  by (intro ensures_safe roles.event_keeps daemon.event_keeps safeD)

lemma handler_call_safe:
  assumes s: "safe k st" and e: "daemon_ok env" and b: "\<not> shows_key_again fn fd st"
  shows "ensures (handler_call env fn fd ev st) (safe k)"
proof (cases fn)
  case (transport_socket_events t)
  have "ensures (transport_socket_events_run (conn_of env) t fd ev st) (safe k)"
    using e b by (intro socket_events_safe s) (auto simp: daemon_ok_def shows_key_again_def transport_socket_events)
  then show ?thesis by (simp add: handler_call_def transport_socket_events)
qed (use e s in \<open>simp_all add: daemon_ok_def handler_call_def local_event_safe ss_listener_safe listener_event_safe registration_safe
    auth_event_safe auth_listener_safe jdwp_event_safe jdwp_control_safe\<close>)

section \<open>The event loop of the daemon\<close>

text \<open>The daemon's handlers satisfy the contract of the event loop.\<close>

definition daemon_inv :: "'a pstate_scheme \<Rightarrow> bool" where
  "daemon_inv st \<longleftrightarrow> safe (length (list_pending st)) st"

lemma safe_pending: "safe k st \<longleftrightarrow> daemon_inv st \<and> length (list_pending st) \<le> k"
  by (auto simp: daemon_inv_def safe_def ginv_def)

lemma daemon_inv_change:
  assumes i: "daemon_inv st" and f: "fdes st a = Some f" "has (fde_state g) FDE_ACTIVE = has (fde_state f) FDE_ACTIVE"
    and inv: "fd_inv ((put_fde a g st)\<lparr>list_pending := as\<rparr>)"
  shows "daemon_inv ((put_fde a g st)\<lparr>list_pending := as\<rparr>)" (is "daemon_inv ?st")
proof -
  have A: "act ?st = act st" using f by (auto simp: act_def put_fde_def fun_eq_iff)
  have "sock_inv {} st" "reg_ok st" "roles {} st" "\<not> ADB_HOST st" using i by (auto simp: daemon_inv_def safe_def ginv_def)
  moreover have "roles {} ?st = roles {} st" by (rule roles_cong) (simp_all add: put_fde_def)
  moreover have "sock_inv {} ?st" using \<open>sock_inv {} st\<close> inv unfolding sock_inv_def paired_def fde_ok_def lists_ok_def A by (simp add: put_fde_def)
  moreover have "reg_ok ?st" using \<open>reg_ok st\<close> unfolding reg_ok_def A by (simp add: put_fde_def)
  ultimately show ?thesis by (simp add: daemon_inv_def safe_def ginv_def put_fde_def)
qed

locale daemon_world =
  fixes env :: "'a denv"
  assumes world: "daemon_ok env"

text \<open>
  The daemon up to the first key that would be shown while the records are busy: there the callback ends with a
  fault of its own, \<open>key_again\<close>, and everywhere else it is the callback of the daemon.
\<close>

definition key_again :: fault where "key_again = Fatal ''installing an event record in use''"

definition handler_once :: "'a denv \<Rightarrow> 'a pstate_scheme callback" where
  "handler_once env fn fd ev st = (if shows_key_again fn fd st then Inl key_again else handler_call env fn fd ev st)"

definition daemon_call_once :: "'a denv \<Rightarrow> 'a pstate_scheme callback" where
  "daemon_call_once env = daemon_dispatch env (handler_once env)"

sublocale daemon_world \<subseteq> callbacks: fd_client "handler_once env" daemon_inv
proof
  fix st st' :: "'a pstate_scheme" and a ev fd es fn
  assume i: "daemon_inv st"
  then show "fd_inv st" by (auto simp: daemon_inv_def safe_def ginv_def sock_inv_def)
  show "daemon_inv (rd_set fd es st)" using i by (simp add: daemon_inv_def)
  show "daemon_inv st'" if "fdevent_add a ev st = Inr st'"
    using ensuresD [OF fdevent_add_safe that, of "length (list_pending st)"] i by (simp add: safe_pending)
  have "safe (length (list_pending st)) st'" if "handler_once env fn fd ev st = Inr st'"
    using ensuresD [OF handler_call_safe [OF _ world], of "length (list_pending st)" st fn fd ev st'] i that
    by (auto simp: daemon_inv_def handler_once_def split: if_splits)
  then show "handler_once env fn fd ev st = Inr st' \<Longrightarrow> daemon_inv st'"
    "handler_once env fn fd ev st = Inr st' \<Longrightarrow> length (list_pending st') \<le> length (list_pending st)" by (auto simp: safe_pending)
qed (rule daemon_inv_change)

context daemon_world
begin

lemma daemon_call_keeps:
  assumes i: "daemon_inv st" and ok: "daemon_call_once env fn fd ev st = Inr st'"
  shows "daemon_inv st' \<and> length (list_pending st') \<le> length (list_pending st)"
proof (cases "fn = fdevent_subproc_event_func")
  case True
  then show ?thesis using ok callbacks.subproc_event_keeps [OF i] by (simp add: daemon_call_once_def daemon_dispatch_def)
next
  case False
  then have "handler_once env fn fd ev st = Inr st'" using ok by (cases fn) (simp_all add: daemon_call_once_def daemon_dispatch_def)
  then show ?thesis using callbacks.call_inv [OF i] callbacks.call_pending [OF i] by blast
qed

end

sublocale daemon_world \<subseteq> loop: fd_client "daemon_call_once env" daemon_inv
  by unfold_locales (auto intro: callbacks.I_inv callbacks.I_change callbacks.I_read callbacks.I_add dest: daemon_call_keeps)

context daemon_world
begin

lemmas daemon_drain = loop.drain_ends

end

text \<open>Where the daemon up to that point does not stop there, it is the daemon.\<close>

lemma call_fdfunc_until:
  assumes "\<And>fn fd ev st. g fn fd ev st \<in> {Inl e, h fn fd ev st}"
  shows "fdevent_call_fdfunc g a st \<in> {Inl e, fdevent_call_fdfunc h a st}"
  using assms by (auto simp: fdevent_call_fdfunc_def get_fde_def from_opt_def Let_def split: option.splits)

lemma bindr_until: "(\<And>x. p x \<in> {Inl e, q x}) \<Longrightarrow> bindr m p \<in> {Inl e, bindr m q}"
  by (cases m) auto

lemma subproc_event_until:
  assumes "\<And>fn fd ev st. g fn fd ev st \<in> {Inl e, h fn fd ev st}"
  shows "fdevent_subproc_event be rc g fd ev st \<in> {Inl e, fdevent_subproc_event be rc h fd ev st}"
proof -
  have n: "subproc_notify rc g x st \<in> {Inl e, subproc_notify rc h x st}" for x st
    using call_fdfunc_until [OF assms] by (auto simp: subproc_notify_def get_fde_def from_opt_def Let_def split: option.splits)
  have r: "(case x of (None, s) \<Rightarrow> Inl f | (Some bs, s) \<Rightarrow> subproc_notify rc g (w bs) s)
      \<in> {Inl e, case x of (None, s) \<Rightarrow> Inl f | (Some bs, s) \<Rightarrow> subproc_notify rc h (w bs) s}" for x f w
    using n by (cases x; cases "fst x") auto
  have i: "(if b then Inr s else bindr m (\<lambda>(x, s). case x of None \<Rightarrow> Inl f | Some bs \<Rightarrow> subproc_notify rc g (w bs) s))
      \<in> {Inl e, if b then Inr s else bindr m (\<lambda>(x, s). case x of None \<Rightarrow> Inl f | Some bs \<Rightarrow> subproc_notify rc h (w bs) s)}" for b s m f w
    by (cases b) (simp, simp only: if_False, intro bindr_until r)
  show ?thesis unfolding fdevent_subproc_event_def
    by (cases "fd_table st ! nat fd") (auto intro!: i bindr_until simp del: insert_iff)
qed

lemma dispatch_once: "daemon_call_once env fn fd ev st \<in> {Inl key_again, daemon_call env fn fd ev st}"
proof -
  have h: "handler_once env fn fd ev st \<in> {Inl key_again, handler_call env fn fd ev st}" for fn fd ev st by (simp add: handler_once_def)
  show ?thesis using h subproc_event_until [of "handler_once env" key_again "handler_call env", OF h]
    by (cases fn) (simp_all add: daemon_call_once_def daemon_call_def daemon_dispatch_def)
qed

lemma drain_until:
  assumes "\<And>fn fd ev st. g fn fd ev st \<in> {Inl e, h fn fd ev st}"
  shows "fdevent_drain k g st \<in> {Some (Inl e), fdevent_drain k h st}"
proof (induction k arbitrary: st)
  case (Suc k)
  have c: "fdevent_call_fdfunc g a s \<in> {Inl e, fdevent_call_fdfunc h a s}" for a s by (rule call_fdfunc_until [OF assms])
  obtain x s where d: "fdevent_plist_dequeue st = (x, s)" by (cases "fdevent_plist_dequeue st")
  show ?case
  proof (cases x)
    case (Some a)
    consider "fdevent_call_fdfunc g a s = Inl e" | "fdevent_call_fdfunc g a s = fdevent_call_fdfunc h a s" using c by auto
    then show ?thesis
    proof cases
      case 2
      then show ?thesis using Suc by (cases "fdevent_call_fdfunc h a s") (simp_all add: d Some)
    qed (simp add: d Some)
  qed (simp add: d)
qed simp

text \<open>One round of the loop: what \<open>select\<close> reports is recorded, then every recorded event is delivered.\<close>

lemma mark_pending_frame: "mark_pending i ev st = Inr st' \<Longrightarrow> fd_frame st st'"
  by (auto simp: mark_pending_def fdevent_plist_enqueue_def bindr_eq_Inr Let_def split: if_splits option.splits)

lemma process_fds_frame: "process_fds is n R W E st = Inr st' \<Longrightarrow> fd_frame st st'"
proof (induction "is" arbitrary: n st)
  case (Cons i js)
  then show ?case by (auto simp: Let_def bindr_eq_Inr split: if_splits dest!: mark_pending_frame intro: fd_frame_trans)
qed simp

lemma fdevent_process_frame: "fdevent_process sel bad st = Inr st' \<Longrightarrow> fd_frame st st'"
  by (auto simp: fdevent_process_def bindr_eq_Inr split: select_ret.splits if_splits dest: process_fds_frame)

lemma daemon_inv_process:
  assumes i: "daemon_inv st" and n: "select_n st \<le> FD_SETSIZE" and ok: "select_ok sel st"
  shows "\<exists>st'. fdevent_process sel bad st = Inr st' \<and> daemon_inv st' \<and> length (list_pending st') \<le> length (list_pending st) + FD_SETSIZE"
proof -
  have s: "sock_inv {} st" "reg_ok st" "roles {} st" "\<not> ADB_HOST st" using i by (auto simp: daemon_inv_def safe_def ginv_def)
  obtain st' where p: "fdevent_process sel bad st = Inr st'" "fd_inv st'"
    and f: "\<And>a. fdes st' a = map_option (\<lambda>f. marked (if has (fde_state f) FDE_ACTIVE then round_events sel bad st (nat (fde_fd f)) else 0) f) (fdes st a)"
    and l: "list_pending st' = list_pending st @ filter (\<lambda>a. a \<notin> set (list_pending st))
        (map (\<lambda>i. the (tbl_at st i)) (filter (\<lambda>i. round_events sel bad st i \<noteq> 0) [0..<select_n st]))"
    using fdevent_process_spec [OF _ n ok refl, of bad] s(1) by (auto simp: sock_inv_def)
  note F = fdevent_process_frame [OF p(1)]
  note G = fd_frame_sstate [OF F] fd_frame_tstate [OF F] fd_frame_auth [OF F]
  have A: "act st' = act st" by (auto simp: act_def f fun_eq_iff option.map_comp comp_def)
  have "sock_inv {} st'" using s(1) p(2) unfolding sock_inv_def paired_def fde_ok_def lists_ok_def A G by simp
  moreover have "reg_ok st'" using s(2) unfolding reg_ok_def A G .
  moreover have "roles {} st'" using s(3) roles_cong [of st' st "{}"] G by simp
  ultimately have "daemon_inv st'" using s(4) G by (simp add: daemon_inv_def safe_def ginv_def)
  moreover have "length (filter (\<lambda>a. a \<notin> set (list_pending st))
        (map (\<lambda>i. the (tbl_at st i)) (filter (\<lambda>i. round_events sel bad st i \<noteq> 0) [0..<select_n st]))) \<le> select_n st"
    by (rule order_trans [OF length_filter_le]) (simp add: order_trans [OF length_filter_le])
  ultimately show ?thesis using p(1) l n by auto
qed

lemma daemon_worldI: "daemon_ok env \<Longrightarrow> daemon_world env"
  by unfold_locales



section \<open>Properties\<close>

text \<open>
  Property C3. Whatever callback the event loop makes, whatever packet has arrived, whichever process, debugger or
  framework connects: the daemon's invariant is kept. The sockets stay connected in pairs, each with its
  event record and listed once, every socket keeps the functions of its kind, the disconnect entries
  of the transports name remote sockets, and the event loop is consistent. No handler queues events. The hypotheses:
  the descriptors the daemon is handed are not watched by its event loop at that moment (which the waiter of a finished backup can
  break, as it closes the descriptor of a live stream); and the callback is not one that
  shows a public key to the framework while the event record or the descriptor this needs is busy, the case of
  \<open>second_key_breaks_loop\<close> below.
\<close>

theorem daemon_call_keeps_invariant:
  assumes "daemon_ok env" "daemon_inv st" "daemon_call env fn fd ev st = Inr st'" "daemon_call_once env fn fd ev st \<noteq> Inl key_again"
  shows "sock_inv {} st' \<and> roles {} st' \<and> daemon_inv st' \<and> length (list_pending st') \<le> length (list_pending st)"
proof -
  have "daemon_call_once env fn fd ev st = Inr st'" using dispatch_once [of env fn fd ev st] assms(3,4) by auto
  from daemon_world.daemon_call_keeps [OF daemon_worldI [OF assms(1)] assms(2) this] show ?thesis
    by (simp add: daemon_inv_def safe_def ginv_def)
qed

text \<open>
  Property C4. Every round of the daemon's event loop ends: the events that one call of \<open>select\<close> reports
  are delivered by at most \<open>FD_SETSIZE\<close> callbacks, after which no event is pending and the
  invariant holds again, unless a callback ends the process. The hypothesis on the descriptors is that of the previous property;
  a round that comes to a callback that shows a public key while the records this needs are busy is followed up to that callback,
  and every other round is the round of the daemon itself.
\<close>

theorem daemon_round_ends:
  assumes "daemon_ok env" "daemon_inv st" "list_pending st = []" "select_n st \<le> FD_SETSIZE" "select_ok sel st"
  shows "\<exists>r. loop_rounds (Suc FD_SETSIZE) (daemon_call_once env) [(sel, bad)] st = Some r
    \<and> ensures r (\<lambda>st'. daemon_inv st' \<and> list_pending st' = [])
    \<and> (r \<noteq> Inl key_again \<longrightarrow> loop_rounds (Suc FD_SETSIZE) (daemon_call env) [(sel, bad)] st = Some r)"
proof -
  obtain st1 where p: "fdevent_process sel bad st = Inr st1" "daemon_inv st1" "length (list_pending st1) < Suc FD_SETSIZE"
    using daemon_inv_process [OF assms(2,4,5), of bad] assms(3) by auto
  obtain r where r: "fdevent_drain (Suc FD_SETSIZE) (daemon_call_once env) st1 = Some r" "ensures r (\<lambda>st'. daemon_inv st' \<and> list_pending st' = [])"
    using daemon_world.daemon_drain [OF daemon_worldI [OF assms(1)] p(2,3)] by blast
  have "r \<noteq> Inl key_again \<longrightarrow> fdevent_drain (Suc FD_SETSIZE) (daemon_call env) st1 = Some r"
    using drain_until [of "daemon_call_once env" key_again "daemon_call env", OF dispatch_once, of "Suc FD_SETSIZE" st1] r(1) by auto
  then show ?thesis using p(1) r by (cases r) (auto simp del: fdevent_drain.simps)
qed


text \<open>A daemon before the first connection, in a world without services; \<open>accept\<close> returns 9 while that is free.\<close>

definition ex_accepting :: "pstate daemon_env" where
  "ex_accepting = ex_denv\<lparr>os_accept := \<lambda>fn fd st. if tbl_at st 9 = None then 9 else -1\<rparr>"

lemma ex_daemon_ok: "daemon_ok ex_denv" "daemon_ok ex_accepting"
  by (auto simp: daemon_ok_def services_safe_def free_fd_def ex_accepting_def ex_denv_def conn_env.extend_def ex_env_def)

interpretation ex_world: daemon_world ex_denv
  by (rule daemon_worldI [OF ex_daemon_ok(1)])

definition ex_daemon :: pstate where
  "ex_daemon = ex_pstate\<lparr>transports := [8 \<mapsto> zero_transport], pipe := (\<lambda>_. [])(5 := [sync_packet 0 0])\<rparr>"

lemma ex_daemon_inv: "daemon_inv ex_daemon"
proof -
  have "sock_start ex_daemon" "\<not> ADB_HOST ex_daemon" "list_pending ex_daemon = []" by (simp_all add: sock_start_def fd_start_def ex_daemon_def ex_pstate_simps)
  then have "ginv False 0 ex_daemon" using sock_start_inv [of ex_daemon] by simp
  moreover have "roles {} ex_daemon" by (simp add: roles_def ex_daemon_def ex_pstate_simps zero_transport_def)
  ultimately show ?thesis using \<open>list_pending ex_daemon = []\<close> by (simp add: daemon_inv_def safe_def)
qed

lemma ex_sync: "\<exists>st'. daemon_call ex_denv (transport_socket_events 8) 5 FDE_READ ex_daemon = Inr st'"
proof -
  let ?p = "sync_packet 0 0" and ?t = "zero_transport\<lparr>connection_state := CS_OFFLINE, t_online := False\<rparr>"
  let ?st = "put_transport 8 ?t (ex_daemon\<lparr>pipe := (\<lambda>_. [])\<rparr>)"
  obtain st' where st': "send_packet ?p (Some 8) ?st = Inr st'"
    using send_packet_ok [of ?p ?st 8 ?t] by (auto simp: sync_packet_def get_apacket_def zero_msg_def put_transport_def ex_daemon_def ex_pstate_simps)
  have "handle_packet ex_env ?p 8 (ex_daemon\<lparr>pipe := (\<lambda>_. [])\<rparr>) = Inr st'"
    using st' by (simp add: handle_packet_def handle_sync_def handle_offline_def upd_transport_def run_transport_disconnects_def get_transport_def
        sync_packet_def get_apacket_def zero_msg_def zero_transport_def ex_daemon_def put_transport_def Let_def)
  moreover have "has FDE_READ FDE_READ" "pipe ex_daemon = (\<lambda>_. [])(5 := [?p])" by (simp_all add: has_def FDE_READ_def ex_daemon_def)
  moreover have "(\<lambda>_. [])(5 := []) = (\<lambda>_ :: int. [] :: apacket list)" by auto
  ultimately show ?thesis
    by (simp add: daemon_call_def daemon_dispatch_def handler_call_def transport_socket_events_run_def ex_denv_simps read_packet_def)
qed

theorem daemon_call_keeps_invariant_witness:
  "\<exists>st'. daemon_call ex_denv (transport_socket_events 8) 5 FDE_READ ex_daemon = Inr st' \<and> sock_inv {} st' \<and> roles {} st' \<and> daemon_inv st'"
proof -
  obtain st' where c: "daemon_call ex_denv (transport_socket_events 8) 5 FDE_READ ex_daemon = Inr st'" using ex_sync by blast
  have "daemon_call_once ex_denv (transport_socket_events 8) 5 FDE_READ ex_daemon \<noteq> Inl key_again"
    using c by (simp add: daemon_call_def daemon_call_once_def daemon_dispatch_def handler_once_def shows_key_again_def public_key_packet_def
        ex_daemon_def sync_packet_def get_apacket_def zero_msg_def command_defs)
  from daemon_call_keeps_invariant [OF ex_daemon_ok(1) ex_daemon_inv c this] show ?thesis using c by blast
qed

text \<open>The daemon listens for the framework on descriptor 6, and a round delivers its connection.\<close>

abbreviation listener_record :: fdevent where
  "listener_record \<equiv> \<lparr>fde_fd = 6, force_eof = False, fde_state = FDE_ACTIVE OR FDE_READ, fde_events = 0, fde_func = adb_auth_listener\<rparr>"

lemma fd_frame_retry: "fd_frame st st' \<Longrightarrow> needs_retry st' = needs_retry st"
  by (cases st; cases st') (simp add: fd_frame_def)

lemma ex_listening:
  obtains st where "adb_auth_init 6 True ex_daemon = Inr st" "daemon_inv st" "fdes st = [3 \<mapsto> listener_record]" "list_pending st = []"
    "select_n st = 7" "read_fds st = {6}" "framework_fd st = -1" "\<not> needs_retry st"
proof -
  have d: "list_pending ex_daemon = []" "fdes ex_daemon = Map.empty" "select_n ex_daemon = 0" "read_fds ex_daemon = {}" "tmsgs ex_daemon = []"
    "fd_table ex_daemon = []" "framework_fd ex_daemon = -1" "\<not> needs_retry ex_daemon" "next_addr ex_daemon = 16"
    by (simp_all add: ex_daemon_def ex_pstate_simps)
  have i: "fd_inv ex_daemon" using ex_daemon_inv by (simp add: daemon_inv_def safe_def ginv_def sock_inv_def)
  obtain s1 where s1: "fdevent_install 3 6 adb_auth_listener ex_daemon = Inr s1" using fdevent_install_ok [of 6 3 adb_auth_listener ex_daemon] by auto
  note R = fdevent_install_result [OF i s1]
  have f: "fdes s1 3 = Some (listener_record\<lparr>fde_state := FDE_ACTIVE\<rparr>)" using R by simp
  define st where "st = put_fde 3 listener_record (watch_fd 6 FDE_READ s1)"
  have a: "fdevent_add 3 FDE_READ s1 = Inr st" using add_read_installed [OF f] by (simp add: st_def FD_SETSIZE_def)
  have k: "adb_auth_init 6 True ex_daemon = Inr st" using s1 a by (simp add: adb_auth_init_def auth_listener_fde_def)
  have "safe 0 s1"
    using ensuresD [OF fresh_install_safe s1, of 0] ex_daemon_inv d by (simp add: daemon_inv_def act_def tbl_at_def)
  then have "daemon_inv st" using ensuresD [OF fdevent_add_safe a, of 0] by (simp add: safe_pending)
  moreover have fr: "fd_frame ex_daemon s1" by (rule fdevent_install_frame [OF s1])
  have "framework_fd s1 = -1" "\<not> needs_retry s1" using fd_frame_auth [OF fr] fd_frame_retry [OF fr] d by simp_all
  ultimately show thesis using R d by (intro that [OF k]) (auto simp: st_def put_fde_def watch_fd_def fd_put_def has_def FDE_READ_def)
qed

theorem daemon_round_ends_witness:
  "\<exists>st st'. adb_auth_init 6 True ex_daemon = Inr st \<and> framework_fd st = -1
    \<and> loop_rounds (Suc FD_SETSIZE) (daemon_call ex_accepting) [(SelN 1 {6} {} {}, \<lambda>_. False)] st = Some (Inr st')
    \<and> framework_fd st' = 9 \<and> daemon_inv st' \<and> list_pending st' = []"
proof -
  obtain st where st: "adb_auth_init 6 True ex_daemon = Inr st" "daemon_inv st" "fdes st = [3 \<mapsto> listener_record]" "list_pending st = []"
    "select_n st = 7" "read_fds st = {6}" "framework_fd st = -1" "\<not> needs_retry st" by (rule ex_listening)
  let ?sel = "SelN 1 {6} {} {}" and ?bad = "\<lambda>_. False"
  have inv: "fd_inv st" using st(2) by (simp add: daemon_inv_def safe_def ginv_def sock_inv_def)
  have b: "has (FDE_ACTIVE OR FDE_READ) FDE_ACTIVE" "has (FDE_ACTIVE OR FDE_READ OR FDE_PENDING) FDE_PENDING" "FDE_READ \<noteq> 0"
    by (simp_all add: has_def FDE_ACTIVE_def FDE_READ_def FDE_PENDING_def)
  have t: "tbl_at st 6 = Some 3" using fd_invD(6) [OF inv, of 6 3] st(3) b(1) by simp
  have ok: "select_n st \<le> FD_SETSIZE" "select_ok ?sel st" using st(5,6) by (simp_all add: FD_SETSIZE_def select_ok_def)
  have ev: "round_events ?sel ?bad st = (\<lambda>_. 0)(6 := FDE_READ)" by (auto simp: round_events_def sel_events_def fun_eq_iff)
  obtain st1 where p: "fdevent_process ?sel ?bad st = Inr st1" "fd_inv st1"
    and f: "\<forall>a. fdes st1 a = map_option (\<lambda>f. marked (if has (fde_state f) FDE_ACTIVE then round_events ?sel ?bad st (nat (fde_fd f)) else 0) f) (fdes st a)"
    and l: "list_pending st1 = list_pending st @ filter (\<lambda>a. a \<notin> set (list_pending st))
        (map (\<lambda>i. the (tbl_at st i)) (filter (\<lambda>i. round_events ?sel ?bad st i \<noteq> 0) [0..<select_n st]))"
    using fdevent_process_spec [OF inv ok refl, of ?bad] by blast
  have u: "[0..<7] = [0, 1, 2, 3, 4, 5, 6 :: nat]" by (simp add: upt_rec)
  have l1: "list_pending st1 = [3]" using l t b(3) unfolding ev st(4,5) u by simp
  let ?g = "listener_record\<lparr>fde_events := FDE_READ, fde_state := FDE_ACTIVE OR FDE_READ OR FDE_PENDING\<rparr>"
  have "marked FDE_READ listener_record = ?g" using b(3) by (simp add: marked_def or.assoc)
  then have f1: "fdes st1 3 = Some ?g" using f [rule_format, of 3] b(1) unfolding ev st(3) by simp
  have f2: "fdes st1 a = None" if "a \<noteq> 3" for a using f [rule_format, of a] that unfolding ev st(3) by simp
  have t9: "tbl_at st1 9 = None" proof (rule ccontr)
    assume "tbl_at st1 9 \<noteq> None"
    then obtain a g where a: "fdes st1 a = Some g" "fde_fd g = 9" using fd_invD(6) [OF p(2), of 9] by auto
    then show False using f1 f2 [of a] by (cases "a = 3") auto
  qed
  note fr = fdevent_process_frame [OF p(1)]
  have F: "framework_fd st1 = -1" "\<not> needs_retry st1" using fd_frame_auth [OF fr] fd_frame_retry [OF fr] st(7,8) by simp_all
  let ?s = "put_fde 3 (?g\<lparr>fde_events := 0, fde_state := fde_state ?g AND NOT FDE_PENDING\<rparr>) (st1\<lparr>list_pending := []\<rparr>)"
  have t9': "tbl_at ?s 9 = None" using t9 by (auto simp: tbl_at_def put_fde_def split: if_splits)
  have c: "daemon_call_once ex_accepting adb_auth_listener 6 FDE_READ ?s = Inr (?s\<lparr>framework_fd := 9\<rparr>)"
    using t9' F by (simp add: daemon_call_once_def daemon_dispatch_def handler_once_def shows_key_again_def handler_call_def ex_accepting_def
        adb_auth_listener_run_def put_fde_def)
  have "fdevent_call_fdfunc (daemon_call_once ex_accepting) 3 (st1\<lparr>list_pending := []\<rparr>) = Inr (?s\<lparr>framework_fd := 9\<rparr>)"
    using c f1 b(2) by (simp add: fdevent_call_fdfunc_def get_fde_def Let_def)
  moreover have "fdevent_drain FD_SETSIZE call x = Some (Inr x)" if "list_pending x = []" for call and x :: pstate
  proof -
    have "FD_SETSIZE = Suc 1023" by (simp add: FD_SETSIZE_def)
    moreover have "fdevent_drain (Suc k) call x = Some (Inr x)" for k using that by (simp add: fdevent_plist_dequeue_def)
    ultimately show ?thesis by metis
  qed
  ultimately have "loop_rounds (Suc FD_SETSIZE) (daemon_call_once ex_accepting) [(?sel, ?bad)] st = Some (Inr (?s\<lparr>framework_fd := 9\<rparr>))"
    using p(1) l1 by (simp add: fdevent_plist_dequeue_def put_fde_def del: loop_rounds.simps(1)) (simp add: put_fde_def)
  then have "loop_rounds (Suc FD_SETSIZE) (daemon_call ex_accepting) [(?sel, ?bad)] st = Some (Inr (?s\<lparr>framework_fd := 9\<rparr>))"
    "daemon_inv (?s\<lparr>framework_fd := 9\<rparr>)" "list_pending (?s\<lparr>framework_fd := 9\<rparr>) = []"
    using daemon_round_ends [OF ex_daemon_ok(2) st(2,4) ok, of ?bad] by auto
  then show ?thesis using st(1,7) by (intro exI [of _ st] exI [of _ "?s\<lparr>framework_fd := 9\<rparr>"]) (simp del: loop_rounds.simps)
qed



end
