(* ===== verification/SyncFs.thy ===== *)
theory SyncFs
  imports CString
begin

text \<open>
  What the two ends of the file synchronisation protocol share: the messages of
  file_sync_service.h, the file system calls both ends make, and the number parser of the C
  library that reads a file mode. A call on the file system is answered by the kernel, a
  parameter that may depend on the whole history of calls; the state records that history. Bytes
  read from or written to a file go through its descriptor, as for every other descriptor.
\<close>

section \<open>Messages\<close>

definition swap_uint32 :: "u32 \<Rightarrow> u32" where
  "swap_uint32 x = (drop_bit 24 (x AND 0xFF000000)) OR (drop_bit 8 (x AND 0x00FF0000))
        OR (push_bit 8 (x AND 0x0000FF00)) OR (push_bit 24 (x AND 0x000000FF))"

definition htoll :: "bool \<Rightarrow> u32 \<Rightarrow> u32" where
  "htoll be x = (if be then swap_uint32 x else x)"

definition ltohl :: "bool \<Rightarrow> u32 \<Rightarrow> u32" where
  "ltohl be x = (if be then swap_uint32 x else x)"

definition MKID :: "bool \<Rightarrow> char \<Rightarrow> char \<Rightarrow> char \<Rightarrow> char \<Rightarrow> u32" where
  "MKID be a b c d =
     (let A = ucast (byte_of a); B = ucast (byte_of b); C = ucast (byte_of c); D = ucast (byte_of d) in
      if be then D OR push_bit 8 C OR push_bit 16 B OR push_bit 24 A
      else A OR push_bit 8 B OR push_bit 16 C OR push_bit 24 D)"

definition ID_STAT :: "bool \<Rightarrow> u32" where "ID_STAT be = MKID be CHR ''S'' CHR ''T'' CHR ''A'' CHR ''T''"
definition ID_LIST :: "bool \<Rightarrow> u32" where "ID_LIST be = MKID be CHR ''L'' CHR ''I'' CHR ''S'' CHR ''T''"
definition ID_SEND :: "bool \<Rightarrow> u32" where "ID_SEND be = MKID be CHR ''S'' CHR ''E'' CHR ''N'' CHR ''D''"
definition ID_RECV :: "bool \<Rightarrow> u32" where "ID_RECV be = MKID be CHR ''R'' CHR ''E'' CHR ''C'' CHR ''V''"
definition ID_DENT :: "bool \<Rightarrow> u32" where "ID_DENT be = MKID be CHR ''D'' CHR ''E'' CHR ''N'' CHR ''T''"
definition ID_DONE :: "bool \<Rightarrow> u32" where "ID_DONE be = MKID be CHR ''D'' CHR ''O'' CHR ''N'' CHR ''E''"
definition ID_DATA :: "bool \<Rightarrow> u32" where "ID_DATA be = MKID be CHR ''D'' CHR ''A'' CHR ''T'' CHR ''A''"
definition ID_OKAY :: "bool \<Rightarrow> u32" where "ID_OKAY be = MKID be CHR ''O'' CHR ''K'' CHR ''A'' CHR ''Y''"
definition ID_FAIL :: "bool \<Rightarrow> u32" where "ID_FAIL be = MKID be CHR ''F'' CHR ''A'' CHR ''I'' CHR ''L''"
definition ID_QUIT :: "bool \<Rightarrow> u32" where "ID_QUIT be = MKID be CHR ''Q'' CHR ''U'' CHR ''I'' CHR ''T''"

lemmas sync_id_defs = ID_STAT_def ID_LIST_def ID_SEND_def ID_RECV_def ID_DENT_def ID_DONE_def ID_DATA_def
  ID_OKAY_def ID_FAIL_def ID_QUIT_def

text \<open>
  The members of the union \<open>syncmsg\<close> are sequences of \<open>unsigned\<close> fields; the bytes of a message are
  those of its fields in memory.
\<close>

definition syncmsg :: "bool \<Rightarrow> u32 list \<Rightarrow> byte list" where
  "syncmsg be ws = concat (map (mem_bytes be) ws)"

definition syncmsg_field :: "bool \<Rightarrow> nat \<Rightarrow> byte list \<Rightarrow> u32" where
  "syncmsg_field be i m = mem_word be (take 4 (drop (4 * i) m))"

lemma swap_uint32_H4: "swap_uint32 = H4"
  by (simp add: fun_eq_iff swap_uint32_def H4_def)

lemma ltohl_htoll [simp]: "ltohl be (htoll be x) = x"
  by (simp add: ltohl_def htoll_def swap_uint32_H4)

lemma htoll_0 [simp]: "htoll be 0 = 0"
  by (simp add: htoll_def swap_uint32_def)

lemma mem_bytes_htoll: "mem_bytes be (htoll be x) = le_bytes x"
  using mem_bytes_H4 [of x] by (cases be) (simp_all add: htoll_def swap_uint32_H4 mem_bytes_def)

lemma ltohl_mem_word: "length bs = 4 \<Longrightarrow> ltohl be (mem_word be bs) = le_word bs"
  by (cases be) (simp_all add: ltohl_def mem_word_def swap_uint32_H4 H4_le_word)

lemma MKID_mem_word: "MKID be a b c d = mem_word be (bytes_of [a, b, c, d])"
  by (simp add: MKID_def mem_word_def le_word_def bytes_of_def Let_def)

lemma mem_bytes_word: "length bs = 4 \<Longrightarrow> mem_bytes be (mem_word be bs) = bs"
  by (simp add: mem_bytes_def mem_word_def le_bytes_word)

lemma mem_bytes_MKID: "mem_bytes be (MKID be a b c d) = bytes_of [a, b, c, d]"
  by (simp add: MKID_mem_word mem_bytes_word)

lemma mem_word_eq_MKID: "length bs = 4 \<Longrightarrow> mem_word be bs = MKID be a b c d \<longleftrightarrow> bs = bytes_of [a, b, c, d]"
proof -
  assume "length bs = 4"
  moreover have "length (bytes_of [a, b, c, d]) = 4" by simp
  ultimately show ?thesis unfolding MKID_mem_word by (metis mem_bytes_word)
qed

text \<open>The same message as it appears on the connection, whatever the byte order of the writer.\<close>

definition wire_msg :: "string \<Rightarrow> u32 list \<Rightarrow> byte list" where
  "wire_msg tag ws = bytes_of tag @ concat (map le_bytes ws)"

lemma syncmsg_wire:
  "syncmsg be (MKID be a b c d # map (htoll be) ws) = wire_msg [a, b, c, d] ws"
  by (simp add: syncmsg_def wire_msg_def mem_bytes_MKID mem_bytes_htoll comp_def)

lemma syncmsg_wire_simps:
  "syncmsg be [MKID be a b c d, htoll be x] = wire_msg [a, b, c, d] [x]"
  "syncmsg be [MKID be a b c d, 0] = wire_msg [a, b, c, d] [0]"
  "syncmsg be [MKID be a b c d, htoll be x, htoll be y, htoll be z] = wire_msg [a, b, c, d] [x, y, z]"
  "syncmsg be [MKID be a b c d, 0, 0, 0] = wire_msg [a, b, c, d] [0, 0, 0]"
  "syncmsg be [MKID be a b c d, htoll be x, htoll be y, htoll be z, htoll be n] = wire_msg [a, b, c, d] [x, y, z, n]"
  "syncmsg be [MKID be a b c d, 0, 0, 0, 0] = wire_msg [a, b, c, d] [0, 0, 0, 0]"
  using syncmsg_wire [of be a b c d "[x]"] syncmsg_wire [of be a b c d "[0]"] syncmsg_wire [of be a b c d "[x, y, z]"]
    syncmsg_wire [of be a b c d "[0, 0, 0]"] syncmsg_wire [of be a b c d "[x, y, z, n]"] syncmsg_wire [of be a b c d "[0, 0, 0, 0]"]
  by simp_all

lemma length_wire_msg [simp]: "length (wire_msg tag ws) = length tag + 4 * length ws"
  by (induction ws) (simp_all add: wire_msg_def)

lemma syncmsg_field_0: "4 \<le> length m \<Longrightarrow> syncmsg_field be 0 m = MKID be a b c d \<longleftrightarrow> take 4 m = bytes_of [a, b, c, d]"
  by (simp add: syncmsg_field_def mem_word_eq_MKID)

lemma take_4_wire [simp]: "length tag = 4 \<Longrightarrow> take 4 (wire_msg tag ws) = bytes_of tag"
  by (simp add: wire_msg_def)

lemma bytes_of_inj [simp]: "bytes_of s = bytes_of t \<longleftrightarrow> s = t"
proof -
  have "inj byte_of" by (metis char_of_byte_of injI)
  then show ?thesis by (simp add: bytes_of_def inj_map_eq_map)
qed

lemma MKID_eq [simp]: "MKID be a b c d = MKID be x y z u \<longleftrightarrow> a = x \<and> b = y \<and> c = z \<and> d = u"
  using mem_bytes_MKID [of be a b c d] mem_bytes_MKID [of be x y z u] by (metis bytes_of_inj list.inject)

lemma syncmsg_tag [simp]: "syncmsg_field be 0 (wire_msg [x, y, z, u] ws) = MKID be a b c d \<longleftrightarrow> [x, y, z, u] = [a, b, c, d]"
  by (subst syncmsg_field_0) simp_all

lemma wire_field: "i < length ws \<Longrightarrow> take 4 (drop (4 * i) (concat (map le_bytes ws))) = le_bytes (ws ! i)"
proof (induction ws arbitrary: i)
  case (Cons w ws)
  then show ?case by (cases i) (simp_all add: drop_Cons')
qed simp

lemma syncmsg_value:
  assumes "length tag = 4" "0 < i" "i \<le> length ws"
  shows "ltohl be (syncmsg_field be i (wire_msg tag ws)) = ws ! (i - 1)"
proof -
  obtain j where i: "i = Suc j" using assms(2) by (cases i) auto
  have "drop (4 * i) (wire_msg tag ws) = drop (4 * j) (concat (map le_bytes ws))"
    using assms(1) by (simp add: wire_msg_def i)
  then have "take 4 (drop (4 * i) (wire_msg tag ws)) = le_bytes (ws ! j)"
    using wire_field [of j ws] assms(3) i by simp
  then show ?thesis by (simp add: syncmsg_field_def ltohl_mem_word i)
qed

lemma syncmsg_values [simp]:
  "ltohl be (syncmsg_field be (Suc 0) (wire_msg [a, b, c, d] (x # ws))) = x"
  "ltohl be (syncmsg_field be 2 (wire_msg [a, b, c, d] (x # y # ws))) = y"
  "ltohl be (syncmsg_field be 3 (wire_msg [a, b, c, d] (x # y # z # ws))) = z"
  "ltohl be (syncmsg_field be 4 (wire_msg [a, b, c, d] (x # y # z # u # ws))) = u"
  by (simp_all add: syncmsg_value nth_Cons')

section \<open>Numbers\<close>

text \<open>\<open>strtoul\<close> of the C library, with a 32-bit \<open>unsigned long\<close>; the flag says that it set \<open>errno\<close>.\<close>

definition isspace :: "char \<Rightarrow> bool" where
  "isspace c \<longleftrightarrow> (let n = of_char c :: nat in n = 32 \<or> 9 \<le> n \<and> n \<le> 13)"

definition digit_value :: "char \<Rightarrow> nat option" where
  "digit_value c =
     (let n = of_char c in
      if isdigit c then Some (n - 48)
      else if 65 \<le> n \<and> n \<le> 90 then Some (n - 55)
      else if 97 \<le> n \<and> n \<le> 122 then Some (n - 87)
      else None)"

definition ULONG_MAX :: nat where "ULONG_MAX = 0xFFFFFFFF"

fun strtoul_loop :: "nat \<Rightarrow> string \<Rightarrow> nat \<Rightarrow> int \<Rightarrow> nat \<times> int" where
  "strtoul_loop base [] acc any = (acc, any)"
| "strtoul_loop base (c # s) acc any =
     (case digit_value c of
        None \<Rightarrow> (acc, any)
      | Some d \<Rightarrow>
          if d \<ge> base then (acc, any)
          else if any < 0 then strtoul_loop base s acc any
          else if acc > ULONG_MAX div base \<or> acc = ULONG_MAX div base \<and> d > ULONG_MAX mod base
          then strtoul_loop base s ULONG_MAX (-1)
          else strtoul_loop base s (acc * base + d) 1)"

definition strtoul :: "string \<Rightarrow> nat \<Rightarrow> u32 \<times> bool" where
  "strtoul nptr base =
     (let s = dropWhile isspace nptr;
          neg = (s \<noteq> [] \<and> hd s = CHR ''-'');
          s = (if s \<noteq> [] \<and> (hd s = CHR ''-'' \<or> hd s = CHR ''+'') then tl s else s);
          hex = ((base = 0 \<or> base = 16) \<and> length s \<ge> 2 \<and> hd s = CHR ''0'' \<and> (s ! 1 = CHR ''x'' \<or> s ! 1 = CHR ''X''));
          s = (if hex then drop 2 s else s);
          base = (if hex then 16 else base);
          base = (if base = 0 then if s \<noteq> [] \<and> hd s = CHR ''0'' then 8 else 10 else base);
          (acc, any) = strtoul_loop base s 0 0 in
      (if neg \<and> any > 0 then - of_nat acc else of_nat acc, any < 0))"

lemma digit_value_hex: "d < 10 \<Longrightarrow> digit_value (hex_digit d) = Some d"
proof -
  have "\<forall>d\<in>set [0..<10]. digit_value (hex_digit d) = Some d" by code_simp
  then show "d < 10 \<Longrightarrow> digit_value (hex_digit d) = Some d" by auto
qed

lemma dec_digits_hd: "0 < n \<Longrightarrow> \<exists>d c. 0 < d \<and> d < 10 \<and> dec_digits n = hex_digit d # c"
proof (induction n rule: dec_digits.induct)
  case (1 n)
  show ?case
  proof (cases "n < 10")
    case True
    with 1 show ?thesis by (intro exI [of _ n] exI [of _ "[]"]) (simp add: dec_digits.simps)
  next
    case False
    then have "0 < n div 10" by (simp add: div_greater_zero_iff)
    with 1 False obtain d c where "0 < d" "d < 10" "dec_digits (n div 10) = hex_digit d # c" by blast
    with False show ?thesis by (intro exI [of _ d] exI [of _ "c @ [hex_digit (n mod 10)]"]) (simp add: dec_digits.simps)
  qed
qed

lemma strtoul_digit:
  "d < 10 \<Longrightarrow> 0 \<le> any \<Longrightarrow> 10 * k + d \<le> ULONG_MAX \<Longrightarrow>
     strtoul_loop 10 (hex_digit d # s) k any = strtoul_loop 10 s (10 * k + d) 1"
  by (auto simp: digit_value_hex ULONG_MAX_def mult.commute)

lemma strtoul_digits:
  "n \<le> ULONG_MAX \<Longrightarrow> 0 \<le> any \<Longrightarrow> strtoul_loop 10 (dec_digits n @ s) 0 any = strtoul_loop 10 s n 1"
proof (induction n arbitrary: any s rule: dec_digits.induct)
  case (1 n)
  show ?case
  proof (cases "n < 10")
    case True
    with 1 strtoul_digit [of n any 0 s] show ?thesis by (simp add: dec_digits.simps del: strtoul_loop.simps)
  next
    case False
    have "10 * (n div 10) + n mod 10 = n" by simp
    with False 1 strtoul_digit [of "n mod 10" 1 "n div 10" s] show ?thesis
      by (simp add: dec_digits.simps [of n] del: strtoul_loop.simps)
  qed
qed

lemma hex_digit_plain: "0 < d \<Longrightarrow> d < 10 \<Longrightarrow> \<not> isspace (hex_digit d) \<and> hex_digit d \<notin> {CHR ''0'', CHR ''-'', CHR ''+''}"
proof -
  have "\<forall>d\<in>set [1..<10]. \<not> isspace (hex_digit d) \<and> hex_digit d \<notin> {CHR ''0'', CHR ''-'', CHR ''+''}" by code_simp
  then show "0 < d \<Longrightarrow> d < 10 \<Longrightarrow> ?thesis" by auto
qed

text \<open>A decimal number that \<open>printf\<close> wrote is read back.\<close>

lemma strtoul_dec: "n \<le> ULONG_MAX \<Longrightarrow> strtoul (dec_digits n) 0 = (of_nat n, False)"
proof (cases "n = 0")
  case True
  have "strtoul (dec_digits 0) 0 = (0, False)"
    by (simp add: strtoul_def dec_digits.simps hex_digit_def isspace_def digit_value_def isdigit_def ULONG_MAX_def)
  with True show ?thesis by simp
next
  case False
  assume n: "n \<le> ULONG_MAX"
  obtain d c where d: "0 < d" "d < 10" "dec_digits n = hex_digit d # c" using dec_digits_hd False by blast
  have "strtoul (dec_digits n) 0 = (let (acc, any) = strtoul_loop 10 (dec_digits n @ []) 0 0 in (of_nat acc, any < 0))"
    using hex_digit_plain [OF d(1,2)] by (simp add: strtoul_def d(3) Let_def case_prod_beta)
  also have "\<dots> = (of_nat n, False)" using strtoul_digits [OF n, of 0 "[]"] by simp
  finally show ?thesis .
qed

text \<open>\<open>strtol\<close> with base 0 and a 32-bit \<open>long\<close>, and whether it sets \<open>errno\<close> because the number does not fit.\<close>

definition strtol_parts :: "string \<Rightarrow> bool \<times> nat \<times> int" where
  "strtol_parts nptr =
     (let s = dropWhile isspace nptr;
          neg = (s \<noteq> [] \<and> hd s = CHR ''-'');
          s = (if s \<noteq> [] \<and> (hd s = CHR ''-'' \<or> hd s = CHR ''+'') then tl s else s);
          hex = (length s \<ge> 2 \<and> hd s = CHR ''0'' \<and> (s ! 1 = CHR ''x'' \<or> s ! 1 = CHR ''X'')) in
      (neg, if hex then strtoul_loop 16 (drop 2 s) 0 0
            else strtoul_loop (if s \<noteq> [] \<and> hd s = CHR ''0'' then 8 else 10) s 0 0))"

definition strtol :: "string \<Rightarrow> int" where
  "strtol nptr = (case strtol_parts nptr of (neg, acc, any) \<Rightarrow> if neg then max (- (2 ^ 31)) (- int acc) else min (2 ^ 31 - 1) (int acc))"

definition strtol_range :: "string \<Rightarrow> bool" where
  "strtol_range nptr = (case strtol_parts nptr of (neg, acc, any) \<Rightarrow> int acc > (if neg then 2 ^ 31 else 2 ^ 31 - 1))"

section \<open>File system calls\<close>

datatype open_how = RDONLY | WRONLY | WRONLY_CREAT_EXCL | CREAT_TRUNC

datatype fs_call =
    FsOpen string open_how u32
  | FsClose fdesc
  | FsUnlink string
  | FsMkdir string u32
  | FsSymlink string string
  | FsReadlink string nat
  | FsUtime string u32
  | FsLseek fdesc bool
  | FsLstat string
  | FsStat string
  | FsOpendir string
  | FsClosedir string

record file_stat =
  st_mode :: u32
  st_size :: nat
  st_mtime :: int

text \<open>
  The machine an end runs on: its byte order, whether \<open>malloc\<close> succeeds, and the answers of the
  kernel to each call, given the calls made before. \<open>os_opendir\<close> delivers the names that
  \<open>readdir\<close> will return, \<open>os_lseek\<close> the offset after seeking to the end or to the start of a
  file, \<open>os_errno\<close> the value of \<open>errno\<close> after a failed \<open>writex\<close>. \<open>zip_manifest\<close> stands for
  the zip library: whether some bytes are a zip file, and whether it has a manifest entry.
\<close>

record sync_env =
  host_be :: bool
  malloc_ok :: bool
  os_open :: "fs_call list \<Rightarrow> string \<Rightarrow> open_how \<Rightarrow> u32 \<Rightarrow> errno + nat"
  os_mkdir :: "fs_call list \<Rightarrow> string \<Rightarrow> errno option"
  os_symlink :: "fs_call list \<Rightarrow> string \<Rightarrow> string \<Rightarrow> errno option"
  os_readlink :: "fs_call list \<Rightarrow> string \<Rightarrow> byte list option"
  os_lstat :: "fs_call list \<Rightarrow> string \<Rightarrow> file_stat option"
  os_stat :: "fs_call list \<Rightarrow> string \<Rightarrow> file_stat option"
  os_opendir :: "fs_call list \<Rightarrow> string \<Rightarrow> string list option"
  os_lseek :: "fs_call list \<Rightarrow> fdesc \<Rightarrow> bool \<Rightarrow> int"
  zip_manifest :: "byte list \<Rightarrow> bool option"
  os_errno :: "fs_call list \<Rightarrow> errno"
  os_strerror :: "errno \<Rightarrow> string"

text \<open>
  The state of an end: its descriptors, the calls it has made on the file system, the initialised
  part of its transfer buffer (\<open>buffer\<close> of the service, \<open>send_buffer.data\<close> of the client) and the
  client's byte counter.
\<close>

record sync_state = world +
  fs_log :: "fs_call list"
  sync_buf :: "byte list"
  total_bytes :: "64 word"

definition log_call :: "fs_call \<Rightarrow> sync_state \<Rightarrow> sync_state" where
  "log_call c w = w\<lparr>fs_log := fs_log w @ [c]\<rparr>"

definition fill_buf :: "byte list \<Rightarrow> sync_state \<Rightarrow> sync_state" where
  "fill_buf bs w = w\<lparr>sync_buf := bs @ drop (length bs) (sync_buf w)\<rparr>"

definition fs_open :: "sync_env \<Rightarrow> string \<Rightarrow> open_how \<Rightarrow> u32 \<Rightarrow> sync_state \<Rightarrow> (errno + fdesc) \<times> sync_state" where
  "fs_open env path how mode w =
     (map_sum id int (os_open env (fs_log w) path how mode), log_call (FsOpen path how mode) w)"

definition fs_close :: "fdesc \<Rightarrow> sync_state \<Rightarrow> sync_state" where
  "fs_close fd w = log_call (FsClose fd) (adb_close fd w)"

definition adb_unlink :: "string \<Rightarrow> sync_state \<Rightarrow> sync_state" where
  "adb_unlink path w = log_call (FsUnlink path) w"

definition utime :: "string \<Rightarrow> u32 \<Rightarrow> sync_state \<Rightarrow> sync_state" where
  "utime path time w = log_call (FsUtime path time) w"

definition adb_mkdir :: "sync_env \<Rightarrow> string \<Rightarrow> u32 \<Rightarrow> sync_state \<Rightarrow> errno option \<times> sync_state" where
  "adb_mkdir env path mode w = (os_mkdir env (fs_log w) path, log_call (FsMkdir path mode) w)"

definition symlink :: "sync_env \<Rightarrow> string \<Rightarrow> string \<Rightarrow> sync_state \<Rightarrow> errno option \<times> sync_state" where
  "symlink env target path w = (os_symlink env (fs_log w) target path, log_call (FsSymlink target path) w)"

definition lstat :: "sync_env \<Rightarrow> string \<Rightarrow> sync_state \<Rightarrow> file_stat option \<times> sync_state" where
  "lstat env path w = (os_lstat env (fs_log w) path, log_call (FsLstat path) w)"

definition fs_stat :: "sync_env \<Rightarrow> string \<Rightarrow> sync_state \<Rightarrow> file_stat option \<times> sync_state" where
  "fs_stat env path w = (os_stat env (fs_log w) path, log_call (FsStat path) w)"

text \<open>
  The loop of \<open>mkdirs\<close>: a directory is made for every prefix of the name that ends before a slash.
  \<open>pre\<close> is the part of the name before the pointer \<open>x\<close>.
\<close>

fun mkdirs_loop :: "sync_env \<Rightarrow> string \<Rightarrow> string \<Rightarrow> sync_state \<Rightarrow> int \<times> sync_state" where
  "mkdirs_loop env pre [] w = (0, w)"
| "mkdirs_loop env pre (c # x) w =
     (if c = CHR ''/'' then
        let (ret, w) = adb_mkdir env pre 0x1FD w in
        if ret \<noteq> None \<and> ret \<noteq> Some EEXIST then (-1, w) else mkdirs_loop env (pre @ [c]) x w
      else mkdirs_loop env (pre @ [c]) x w)"

text \<open>The idiom \<open>writex(fd, a) || writex(fd, b)\<close>.\<close>

definition writex_both :: "fdesc \<Rightarrow> byte list \<Rightarrow> byte list \<Rightarrow> sync_state \<Rightarrow> (int \<times> sync_state) res" where
  "writex_both fd a b w =
     bindr (writex fd a w) (\<lambda>(r, w). if r \<noteq> 0 then Inr (r, w) else writex fd b w)"

definition S_ISLNK :: "u32 \<Rightarrow> bool" where "S_ISLNK m = (m AND 0xF000 = 0xA000)"
definition S_ISREG :: "u32 \<Rightarrow> bool" where "S_ISREG m = (m AND 0xF000 = 0x8000)"
definition S_ISDIR :: "u32 \<Rightarrow> bool" where "S_ISDIR m = (m AND 0xF000 = 0x4000)"
definition S_ISCHR :: "u32 \<Rightarrow> bool" where "S_ISCHR m = (m AND 0xF000 = 0x2000)"
definition S_ISBLK :: "u32 \<Rightarrow> bool" where "S_ISBLK m = (m AND 0xF000 = 0x6000)"

definition strrchr :: "string \<Rightarrow> char \<Rightarrow> nat option" where
  "strrchr s c = map_option (\<lambda>i. length s - 1 - i) (strchr (rev s) c)"

section \<open>Progress of reading\<close>

text \<open>What is left to read from a descriptor: the events of its script and their bytes.\<close>

definition rd_size :: "rd_event list \<Rightarrow> nat" where
  "rd_size es = (\<Sum>e\<leftarrow>es. case e of RdBytes bs \<Rightarrow> Suc (length bs) | RdErr _ \<Rightarrow> 1)"

definition rd_left :: "fdesc \<Rightarrow> 'a world_scheme \<Rightarrow> nat" where
  "rd_left fd w = rd_size (rd_ev w fd)"

lemma rd_size_simps [simp]:
  "rd_size [] = 0" "rd_size (RdBytes bs # es) = Suc (length bs) + rd_size es" "rd_size (RdErr e # es) = Suc (rd_size es)"
  by (simp_all add: rd_size_def)

lemma adb_read_left:
  "adb_read fd len w = Inr (r, bs, w') \<Longrightarrow>
     (\<exists>es. w' = rd_set fd es w) \<and> rd_left fd w' \<le> rd_left fd w \<and> (r = IoN n \<longrightarrow> 0 < n \<longrightarrow> rd_left fd w' < rd_left fd w \<and> length bs = n \<and> n \<le> len)"
proof (induction fd len w rule: adb_read.induct)
  case (1 fd len w)
  show ?case
  proof (cases "rd_ev w fd")
    case Nil
    with "1.prems" show ?thesis by (auto simp: adb_read_cases rd_set_id rd_left_def split: if_splits intro: exI [of _ "[]"])
  next
    case (Cons e es)
    show ?thesis
    proof (cases "e = RdErr EINTR")
      case True
      with Cons have "sys_read fd len w = Inr (IoErr EINTR, [], rd_set fd es w)" by (simp add: sys_read_def)
      from "1.IH" [OF this refl refl refl] "1.prems" Cons True show ?thesis
        by (fastforce simp: adb_read_cases rd_left_def)
    next
      case False
      then show ?thesis using "1.prems" Cons
        by (cases e) (auto simp: adb_read_cases rd_left_def min_def split: if_splits)
    qed
  qed
qed

lemma readx_left:
  "readx fd len w = Inr (r, w') \<Longrightarrow>
     (\<exists>es. w' = rd_set fd es w) \<and> rd_left fd w' \<le> rd_left fd w \<and> (r = Some bs \<longrightarrow> length bs = len \<and> (0 < len \<longrightarrow> rd_left fd w' < rd_left fd w))"
proof (induction fd len w arbitrary: r w' bs rule: readx.induct)
  case (1 fd len w)
  show ?case
  proof (cases "len = 0")
    case True
    with "1.prems" show ?thesis by (auto simp: rd_left_def intro: exI [of _ "rd_ev w fd"])
  next
    case len: False
    show ?thesis
    proof (cases "adb_read fd len w")
      case (Inl e)
      with len "1.prems" show ?thesis by (simp add: readx.simps)
    next
      case (Inr a)
      obtain q as w1 where a: "adb_read fd len w = Inr (q, as, w1)" using Inr by (cases a) auto
      show ?thesis
      proof (cases q)
        case (IoErr e)
        then have "e \<noteq> EINTR" using a adb_read_not_EINTR [of fd len w as w1] by auto
        with IoErr len "1.prems" a show ?thesis using adb_read_left [OF a] by (auto simp: readx.simps)
      next
        case (IoN n)
        note l = adb_read_left [OF a, of n]
        show ?thesis
        proof (cases "0 < n")
          case True
          then obtain r1 w2 where 2: "readx fd (len - n) w1 = Inr (r1, w2)" "r = map_option (\<lambda>r. as @ r) r1" "w' = w2"
            using "1.prems" len a IoN by (subst (asm) readx.simps) (auto simp: bindr_eq_Inr)
          note ih = "1.IH"(1) [OF len a [unfolded IoN] refl refl refl True 2(1)]
          have "\<exists>es. w2 = rd_set fd es w1" "rd_left fd w2 \<le> rd_left fd w1" using ih [of "[]"] by auto
          moreover have "r1 = Some bs1 \<Longrightarrow> length bs1 = len - n" for bs1 using ih [of bs1] by simp
          ultimately show ?thesis using l True IoN 2 by (auto simp: rd_left_def)
        next
          case False
          with "1.prems" len a IoN l show ?thesis by (auto simp: readx.simps)
        qed
      qed
    qed
  qed
qed

lemma writex_done: "writex fd bs w = Inr (r, w') \<Longrightarrow> \<exists>k cs es. w' = wr_done fd (take k bs) cs es w"
proof -
  assume "writex fd bs w = Inr (r, w')"
  then obtain k where "wr_prefix fd bs w k w'" using writex_spec [of fd bs w] by auto
  then show ?thesis by (auto simp: wr_prefix_def)
qed

lemma rd_left_simps [simp]:
  "rd_left s (wr_done fd bs cs es w) = rd_left s w"
  "rd_left s (adb_close fd w) = rd_left s w"
  "rd_left s (log_call c v) = rd_left s v"
  "rd_left s (fill_buf bs v) = rd_left s v"
  "rd_left s (fs_close fd v) = rd_left s v"
  "rd_left s (adb_unlink path v) = rd_left s v"
  by (simp_all add: rd_left_def log_call_def fill_buf_def adb_unlink_def fs_close_def adb_close_def)

text \<open>No step brings back what has been read.\<close>

lemma writex_left [io_left]: "writex fd bs w = Inr (r, w') \<Longrightarrow> \<forall>s. rd_left s w' = rd_left s w"
  by (auto dest: writex_done)

lemma writex_both_left [io_left]: "writex_both fd a b w = Inr (r, w') \<Longrightarrow> \<forall>s. rd_left s w' = rd_left s w"
  by (auto simp: writex_both_def bindr_eq_Inr dest!: writex_left split: if_splits)

lemma readx_left_le: "readx fd len w = Inr (r, w') \<Longrightarrow> \<forall>s. rd_left s w' \<le> rd_left s w"
  using readx_left [of fd len w r w' "[]"] by (auto simp: rd_left_def)

lemma adb_read_left_le: "adb_read fd len w = Inr (r, bs, w') \<Longrightarrow> \<forall>s. rd_left s w' \<le> rd_left s w"
  using adb_read_left [of fd len w r bs w' 0] by (auto simp: rd_left_def)

lemma readx_left_less [io_left]:
  "readx fd len w = Inr (Some bs, w') \<Longrightarrow> (0 < len \<longrightarrow> rd_left fd w' < rd_left fd w) \<and> (\<forall>s. rd_left s w' \<le> rd_left s w)"
  using readx_left [of fd len w "Some bs" w' bs] readx_left_le by simp

section \<open>What a step does\<close>

text \<open>
  The observable actions of a step: bytes it takes from a descriptor, bytes it gets accepted by a
  descriptor, and calls on the file system. \<open>did w tr w'\<close> says that the step from \<open>w\<close> to
  \<open>w'\<close> consists of the actions \<open>tr\<close> and nothing else, and that no output that was ready for more
  has failed.
\<close>

datatype io_act = Got fdesc "byte list" | Put fdesc "byte list" | Called fs_call

fun got :: "fdesc \<Rightarrow> io_act list \<Rightarrow> byte list" where
  "got x [] = []"
| "got x (Got y bs # tr) = (if x = y then bs else []) @ got x tr"
| "got x (Put y bs # tr) = got x tr"
| "got x (Called c # tr) = got x tr"

fun puts :: "fdesc \<Rightarrow> io_act list \<Rightarrow> byte list" where
  "puts x [] = []"
| "puts x (Put y bs # tr) = (if x = y then bs else []) @ puts x tr"
| "puts x (Got y bs # tr) = puts x tr"
| "puts x (Called c # tr) = puts x tr"

fun called :: "io_act list \<Rightarrow> fs_call list" where
  "called [] = []"
| "called (Called c # tr) = c # called tr"
| "called (Got y bs # tr) = called tr"
| "called (Put y bs # tr) = called tr"

fun reads :: "io_act list \<Rightarrow> fdesc set" where
  "reads [] = {}"
| "reads (Got y bs # tr) = insert y (reads tr)"
| "reads (Put y bs # tr) = reads tr"
| "reads (Called c # tr) = reads tr"

definition did :: "sync_state \<Rightarrow> io_act list \<Rightarrow> sync_state \<Rightarrow> bool" where
  "did w tr w' \<longleftrightarrow>
     (\<forall>x. good_bytes (rd_ev w x) = got x tr @ good_bytes (rd_ev w' x)) \<and>
     (\<forall>x. wr_out w' x = wr_out w x @ puts x tr) \<and>
     fs_log w' = fs_log w @ called tr \<and>
     (\<forall>x. x \<notin> reads tr \<longrightarrow> rd_ev w' x = rd_ev w x) \<and>
     (\<forall>x. wr_clean (wr_ev w x) \<longrightarrow> wr_clean (wr_ev w' x))"

lemma got_append [simp]: "got x (a @ b) = got x a @ got x b"
  by (induction x a rule: got.induct) simp_all

lemma puts_append [simp]: "puts x (a @ b) = puts x a @ puts x b"
  by (induction x a rule: puts.induct) simp_all

lemma called_append [simp]: "called (a @ b) = called a @ called b"
  by (induction a rule: called.induct) simp_all

lemma reads_append [simp]: "reads (a @ b) = reads a \<union> reads b"
  by (induction a rule: reads.induct) simp_all

lemma did_trans: "did w t1 w1 \<Longrightarrow> did w1 t2 w2 \<Longrightarrow> did w (t1 @ t2) w2"
  by (simp add: did_def)

lemma did_eq:
  "did w tr w' \<Longrightarrow> (\<And>x. got x tr' = got x tr) \<Longrightarrow> (\<And>x. puts x tr' = puts x tr) \<Longrightarrow> called tr' = called tr \<Longrightarrow>
     reads tr \<subseteq> reads tr' \<Longrightarrow> did w tr' w'"
  by (auto simp: did_def)

lemma did_clean: "did w tr w' \<Longrightarrow> wr_clean (wr_ev w x) \<Longrightarrow> wr_clean (wr_ev w' x)"
  by (simp add: did_def)

lemma did_stream: "did w tr w' \<Longrightarrow> good_bytes (rd_ev w x) = got x tr @ rest \<Longrightarrow> good_bytes (rd_ev w' x) = rest"
proof -
  assume "did w tr w'" "good_bytes (rd_ev w x) = got x tr @ rest"
  then have "got x tr @ good_bytes (rd_ev w' x) = got x tr @ rest" by (simp only: did_def)
  then show ?thesis by simp
qed

lemma did_same: "did w tr w' \<Longrightarrow> x \<notin> reads tr \<Longrightarrow> rd_ev w' x = rd_ev w x"
  by (simp add: did_def)

lemma did_log: "did w tr w' \<Longrightarrow> fs_log w' = fs_log w @ called tr"
  by (simp add: did_def)

lemma did_out: "did w tr w' \<Longrightarrow> wr_out w' x = wr_out w x @ puts x tr"
  by (simp add: did_def)

lemma did_calls:
  "did w [] w"
  "did w [] (fill_buf bs w)"
  "did w [Called c] (log_call c w)"
  "did w [Called (FsClose fd)] (fs_close fd w)"
  "did w [Called (FsUnlink path)] (adb_unlink path w)"
  "did w [Called (FsUtime path t)] (utime path t w)"
  by (simp_all add: did_def fill_buf_def log_call_def fs_close_def adb_close_def adb_unlink_def utime_def)

lemma readx_did:
  assumes "good_bytes (rd_ev w s) = m @ rest" "length m = n"
  shows "\<exists>w'. readx s n w = Inr (Some m, w') \<and> did w [Got s m] w' \<and> sync_buf w' = sync_buf w"
proof -
  have "n \<le> length (good_bytes (rd_ev w s))" using assms by simp
  from readx_good [OF refl this] assms obtain es where
    "readx s n w = Inr (Some m, rd_set s es w)" "good_bytes es = rest" by auto
  then show ?thesis using assms(1) by (auto simp: did_def rd_set_def)
qed

lemma writex_did:
  assumes "wr_clean (wr_ev w fd)"
  shows "\<exists>w'. writex fd bs w = Inr (0, w') \<and> did w [Put fd bs] w' \<and> sync_buf w' = sync_buf w"
proof -
  from writex_spec [of fd bs w] assms obtain w' where
    w: "writex fd bs w = Inr (0, w')" and p: "wr_prefix fd bs w (length bs) w'" by auto
  from p obtain cs es where "w' = wr_done fd bs cs es w" "wr_clean es" using assms by (auto simp: wr_prefix_def)
  with w show ?thesis by (auto simp: did_def wr_done_def)
qed

lemma writex_both_did:
  assumes "wr_clean (wr_ev w fd)"
  shows "\<exists>w'. writex_both fd a b w = Inr (0, w') \<and> did w [Put fd (a @ b)] w' \<and> sync_buf w' = sync_buf w"
proof -
  obtain w1 where 1: "writex fd a w = Inr (0, w1)" "did w [Put fd a] w1" "sync_buf w1 = sync_buf w" using writex_did [OF assms] by blast
  obtain w2 where 2: "writex fd b w1 = Inr (0, w2)" "did w1 [Put fd b] w2" "sync_buf w2 = sync_buf w1"
    using writex_did [OF did_clean [OF 1(2) assms]] by blast
  have "did w [Put fd (a @ b)] w2" using did_trans [OF 1(2) 2(2)] by (rule did_eq) simp_all
  with 1 2 show ?thesis by (simp add: writex_both_def)
qed

section \<open>Contents in pieces\<close>

text \<open>
  How a descriptor that is read to its end ends: at end of file (\<open>Some None\<close>), which stays so, or
  with an error. \<open>None\<close> means that some read does not return.
\<close>

fun rd_end :: "rd_event list \<Rightarrow> errno option option" where
  "rd_end [] = None"
| "rd_end (RdBytes bs # es) = (if bs = [] then if good_bytes es = [] then Some None else None else rd_end es)"
| "rd_end (RdErr e # es) = (if e = EINTR then rd_end es else if good_bytes es = [] then Some (Some e) else None)"

lemma rd_end_not_EINTR: "rd_end es \<noteq> Some (Some EINTR)"
  by (induction es rule: rd_end.induct) auto

lemma did_read: "good_bytes (rd_ev w fd) = c @ good_bytes es \<Longrightarrow> did w [Got fd c] (rd_set fd es w)"
  by (simp add: did_def rd_set_def)

lemma adb_read_file:
  "rd_ev w fd = evs \<Longrightarrow> rd_end evs = Some q \<Longrightarrow> 0 < len \<Longrightarrow>
     (good_bytes evs = [] \<and> (\<exists>es. adb_read fd len w = Inr (case q of None \<Rightarrow> IoN 0 | Some e \<Rightarrow> IoErr e, [], rd_set fd es w) \<and> good_bytes es = []))
     \<or> (\<exists>c es. adb_read fd len w = Inr (IoN (length c), c, rd_set fd es w) \<and> c \<noteq> [] \<and> length c \<le> len
            \<and> good_bytes evs = c @ good_bytes es \<and> rd_end es = Some q \<and> rd_size es < rd_size evs)"
proof (induction evs arbitrary: w rule: rd_end.induct)
  case (2 bs es)
  show ?case
  proof (cases "bs = []")
    case True
    with 2 show ?thesis by (auto simp: adb_read_cases split: if_splits)
  next
    case False
    let ?es = "if drop len bs = [] then es else RdBytes (drop len bs) # es"
    have "good_bytes (RdBytes bs # es) = take len bs @ good_bytes ?es" using False by simp
    moreover have "rd_end ?es = Some q" using 2 False by simp
    moreover have "rd_size ?es < rd_size (RdBytes bs # es)" using False "2.prems"(3) by (auto simp: diff_less)
    moreover have "adb_read fd len w = Inr (IoN (length (take len bs)), take len bs, rd_set fd ?es w)" using "2.prems"(1) by (simp add: adb_read_cases)
    ultimately show ?thesis using False "2.prems"(3) by (intro disjI2 exI [of _ "take len bs"] exI [of _ ?es]) simp
  qed
next
  case (3 e es)
  show ?case
  proof (cases "e = EINTR")
    case True
    have "adb_read fd len w = adb_read fd len (rd_set fd es w)" using "3.prems"(1) True by (simp add: adb_read_cases)
    moreover note "3.IH" [OF True, of "rd_set fd es w"]
    ultimately show ?thesis using "3.prems" True by (simp add: less_Suc_eq) (elim disj_forward ex_forward conj_forward; simp)
  next
    case False
    with 3 show ?thesis by (auto simp: adb_read_cases split: if_splits)
  qed
qed simp

text \<open>One read of a file: a piece of it, or its end.\<close>

lemma adb_read_did:
  assumes "rd_end (rd_ev w fd) = Some q" "0 < len"
  shows "(good_bytes (rd_ev w fd) = [] \<and> (\<exists>w'. adb_read fd len w = Inr (case q of None \<Rightarrow> IoN 0 | Some e \<Rightarrow> IoErr e, [], w') \<and> did w [Got fd []] w'))
     \<or> (\<exists>c w'. adb_read fd len w = Inr (IoN (length c), c, w') \<and> c \<noteq> [] \<and> length c \<le> len
            \<and> did w [Got fd c] w' \<and> rd_end (rd_ev w' fd) = Some q \<and> rd_left fd w' < rd_left fd w)"
  using adb_read_file [OF refl assms]
proof (elim disjE exE conjE)
  fix es assume "good_bytes (rd_ev w fd) = []" "adb_read fd len w = Inr (case q of None \<Rightarrow> IoN 0 | Some e \<Rightarrow> IoErr e, [], rd_set fd es w)" "good_bytes es = []"
  then show ?thesis using did_read [of w fd "[]" es] by auto
next
  fix c es assume "adb_read fd len w = Inr (IoN (length c), c, rd_set fd es w)" "c \<noteq> []" "length c \<le> len"
    "good_bytes (rd_ev w fd) = c @ good_bytes es" "rd_end es = Some q" "rd_size es < rd_size (rd_ev w fd)"
  then show ?thesis using did_read [of w fd c es] by (intro disjI2 exI [of _ c] exI [of _ "rd_set fd es w"]) (simp add: rd_left_def)
qed

text \<open>The data messages of a file that is sent in the given pieces.\<close>

definition data_stream :: "byte list list \<Rightarrow> byte list" where
  "data_stream cs = concat (map (\<lambda>c. wire_msg ''DATA'' [of_nat (length c)] @ c) cs)"

definition pieces :: "byte list list \<Rightarrow> bool" where
  "pieces cs \<longleftrightarrow> (\<forall>c\<in>set cs. 0 < length c \<and> length c \<le> SYNC_DATA_MAX)"

lemma data_stream_simps [simp]:
  "data_stream [] = []"
  "data_stream (c # cs) = wire_msg ''DATA'' [of_nat (length c)] @ c @ data_stream cs"
  by (simp_all add: data_stream_def)

lemma data_stream_append [simp]: "data_stream (a @ b) = data_stream a @ data_stream b"
  by (simp add: data_stream_def)

lemma pieces_simps [simp]:
  "pieces []" "pieces (c # cs) \<longleftrightarrow> c \<noteq> [] \<and> length c \<le> SYNC_DATA_MAX \<and> pieces cs"
  by (auto simp: pieces_def)

lemma piece_size: "length (c :: byte list) \<le> SYNC_DATA_MAX \<Longrightarrow> unat (of_nat (length c) :: u32) = length c"
  by (simp add: unat_u32_of_nat SYNC_DATA_MAX_def)

end
