(* ===== verification/SyncService.thy ===== *)
theory SyncService
  imports SyncFs
begin

text \<open>
  The file synchronisation service of the daemon (file_sync_service.c): it answers requests for
  the attributes of a file, the entries of a directory, a file's contents, and stores files and
  symbolic links that the client sends.
\<close>

section \<open>The service\<close>

definition mkdirs :: "sync_env \<Rightarrow> string \<Rightarrow> sync_state \<Rightarrow> int \<times> sync_state" where
  "mkdirs env name w =
     (if name = [] \<or> hd name \<noteq> CHR ''/'' then (-1, w) else mkdirs_loop env [hd name] (tl name) w)"

definition do_stat :: "sync_env \<Rightarrow> fdesc \<Rightarrow> string \<Rightarrow> sync_state \<Rightarrow> (int \<times> sync_state) res" where
  "do_stat env s path w =
     (let be = host_be env; (r, w) = lstat env path w in
      writex s (case r of
          None \<Rightarrow> syncmsg be [ID_STAT be, 0, 0, 0]
        | Some st \<Rightarrow> syncmsg be [ID_STAT be, htoll be (st_mode st), htoll be (of_nat (st_size st)), htoll be (word_of_int (st_mtime st))]) w)"

text \<open>
  The buffer \<open>tmp\<close> of \<open>do_list\<close> holds the directory, a slash, the entry and the terminating NUL.
\<close>

definition list_tmp_size :: nat where "list_tmp_size = 1024 + 256 + 1"

fun list_loop :: "sync_env \<Rightarrow> fdesc \<Rightarrow> string \<Rightarrow> string list \<Rightarrow> sync_state \<Rightarrow> (int \<times> sync_state) res" where
  "list_loop env s path [] w = Inr (0, w)"
| "list_loop env s path (d_name # ds) w =
     (let be = host_be env in
      if length d_name > 256 then list_loop env s path ds w
      else if length path + 1 + length d_name + 1 > list_tmp_size then Inl MemFault
      else let (r, w) = lstat env (path @ ''/'' @ d_name) w in
        case r of
          None \<Rightarrow> list_loop env s path ds w
        | Some st \<Rightarrow>
            bindr (writex_both s
                (syncmsg be [ID_DENT be, htoll be (st_mode st), htoll be (of_nat (st_size st)), htoll be (word_of_int (st_mtime st)),
                   htoll be (of_nat (length d_name))])
                (bytes_of d_name) w)
              (\<lambda>(r, w). if r \<noteq> 0 then Inr (-1, w) else list_loop env s path ds w))"

definition list_done :: "sync_env \<Rightarrow> fdesc \<Rightarrow> sync_state \<Rightarrow> (int \<times> sync_state) res" where
  "list_done env s w = writex s (syncmsg (host_be env) [ID_DONE (host_be env), 0, 0, 0, 0]) w"

definition do_list :: "sync_env \<Rightarrow> fdesc \<Rightarrow> string \<Rightarrow> sync_state \<Rightarrow> (int \<times> sync_state) res" where
  "do_list env s path w =
     (if length path + 1 > list_tmp_size then Inl MemFault
      else let d = os_opendir env (fs_log w) path; w = log_call (FsOpendir path) w in
        case d of
          None \<Rightarrow> list_done env s w
        | Some names \<Rightarrow>
            bindr (list_loop env s path names w) (\<lambda>(r, w).
              if r \<noteq> 0 then Inr (-1, w) else list_done env s (log_call (FsClosedir path) w)))"

definition sync_fail_message :: "sync_env \<Rightarrow> fdesc \<Rightarrow> string \<Rightarrow> sync_state \<Rightarrow> (int \<times> sync_state) res" where
  "sync_fail_message env s reason w =
     (let be = host_be env in
      bindr (writex_both s (syncmsg be [ID_FAIL be, htoll be (of_nat (length reason))]) (bytes_of reason) w)
        (\<lambda>(r, w). Inr (if r \<noteq> 0 then -1 else 0, w)))"

definition fail_errno :: "sync_env \<Rightarrow> fdesc \<Rightarrow> errno \<Rightarrow> sync_state \<Rightarrow> (int \<times> sync_state) res" where
  "fail_errno env s e w = sync_fail_message env s (os_strerror env e) w"

subsection \<open>Receiving a file\<close>

text \<open>How the loop of \<open>handle_send_file\<close> is left: by \<open>break\<close> (with the time stamp), \<open>goto fail\<close> or \<open>return -1\<close>.\<close>

datatype send_exit = SendBreak u32 fdesc | SendFail fdesc | SendReturn

definition open_for_send :: "sync_env \<Rightarrow> string \<Rightarrow> u32 \<Rightarrow> sync_state \<Rightarrow> (errno + fdesc) \<times> sync_state" where
  "open_for_send env path mode w =
     (let (fd, w) = fs_open env path WRONLY_CREAT_EXCL mode w;
          (fd, w) = (if fd = Inl ENOENT then fs_open env path WRONLY_CREAT_EXCL mode (snd (mkdirs env path w)) else (fd, w)) in
      if fd = Inl EEXIST then fs_open env path WRONLY mode w else (fd, w))"

lemma fail_message_left [io_left]: "sync_fail_message env s reason w = Inr (r, w') \<Longrightarrow> \<forall>x. rd_left x w' = rd_left x w"
  by (auto simp: sync_fail_message_def Let_def bindr_eq_Inr dest!: writex_both_left)

function send_file_loop :: "sync_env \<Rightarrow> fdesc \<Rightarrow> string \<Rightarrow> fdesc \<Rightarrow> sync_state \<Rightarrow> (send_exit \<times> sync_state) res" where
  "send_file_loop env s path fd w =
     bindr (readx s 8 w) (\<lambda>(r, w).
       case r of
         None \<Rightarrow> Inr (SendFail fd, w)
       | Some m \<Rightarrow>
         let be = host_be env; id = syncmsg_field be 0 m; size = ltohl be (syncmsg_field be 1 m) in
         if id \<noteq> ID_DATA be then
           if id = ID_DONE be then Inr (SendBreak size fd, w)
           else bindr (sync_fail_message env s ''invalid data message'' w) (\<lambda>(_, w). Inr (SendFail fd, w))
         else if unat size > SYNC_DATA_MAX then
           bindr (sync_fail_message env s ''oversize data message'' w) (\<lambda>(_, w). Inr (SendFail fd, w))
         else bindr (readx s (unat size) w) (\<lambda>(r, w).
           case r of
             None \<Rightarrow> Inr (SendFail fd, w)
           | Some data \<Rightarrow>
             let w = fill_buf data w in
             if fd < 0 then send_file_loop env s path fd w
             else bindr (writex fd data w) (\<lambda>(r, w).
               if r \<noteq> 0 then
                 let e = os_errno env (fs_log w); w = adb_unlink path (fs_close fd w) in
                 bindr (fail_errno env s e w) (\<lambda>(r, w).
                   if r \<noteq> 0 then Inr (SendReturn, w) else send_file_loop env s path (-1) w)
               else send_file_loop env s path fd w)))"
  by pat_completeness auto
termination
  by (relation "measure (\<lambda>(env, s, path, fd, w). rd_left s w)")
    (auto dest!: io_left simp: fail_errno_def intro: le_less_trans,
     (metis le_less_trans)+)

declare send_file_loop.simps [simp del]

text \<open>The reply to a file that has been stored.\<close>

definition send_okay :: "sync_env \<Rightarrow> fdesc \<Rightarrow> sync_state \<Rightarrow> (int \<times> sync_state) res" where
  "send_okay env s w = bindr (writex s (syncmsg (host_be env) [ID_OKAY (host_be env), 0]) w) (\<lambda>(r, w). Inr (if r \<noteq> 0 then -1 else 0, w))"

definition send_file_end :: "sync_env \<Rightarrow> fdesc \<Rightarrow> string \<Rightarrow> send_exit \<Rightarrow> sync_state \<Rightarrow> (int \<times> sync_state) res" where
  "send_file_end env s path e w =
     (case e of
        SendBreak timestamp fd \<Rightarrow>
          if fd \<ge> 0 then send_okay env s (utime path timestamp (fs_close fd w)) else Inr (0, w)
      | SendFail fd \<Rightarrow> Inr (-1, adb_unlink path (if fd \<ge> 0 then fs_close fd w else w))
      | SendReturn \<Rightarrow> Inr (-1, w))"

definition handle_send_file :: "sync_env \<Rightarrow> fdesc \<Rightarrow> string \<Rightarrow> u32 \<Rightarrow> sync_state \<Rightarrow> (int \<times> sync_state) res" where
  "handle_send_file env s path mode w =
     (let (r, w) = open_for_send env path mode w in
      bindr (case r of Inr fd \<Rightarrow> Inr (Some fd, w)
             | Inl e \<Rightarrow> bindr (fail_errno env s e w) (\<lambda>(r, w). Inr (if r \<noteq> 0 then None else Some (-1), w)))
        (\<lambda>(fd, w). case fd of
           None \<Rightarrow> Inr (-1, w)
         | Some fd \<Rightarrow> bindr (send_file_loop env s path fd w) (\<lambda>(e, w). send_file_end env s path e w)))"

subsection \<open>Receiving a link\<close>

text \<open>The target is the C string at the start of the buffer.\<close>

definition buf_string :: "sync_state \<Rightarrow> string res" where
  "buf_string w = (if 0 \<in> set (sync_buf w) then Inr (cstr (sync_buf w)) else Inl MemFault)"

definition make_link :: "sync_env \<Rightarrow> string \<Rightarrow> string \<Rightarrow> sync_state \<Rightarrow> errno option \<times> sync_state" where
  "make_link env target path w =
     (let (ret, w) = symlink env target path w in
      if ret = Some ENOENT then symlink env target path (snd (mkdirs env path w)) else (ret, w))"

definition handle_send_link :: "sync_env \<Rightarrow> fdesc \<Rightarrow> string \<Rightarrow> sync_state \<Rightarrow> (int \<times> sync_state) res" where
  "handle_send_link env s path w =
     (let be = host_be env; fail = (\<lambda>reason w. bindr (sync_fail_message env s reason w) (\<lambda>(_, w). Inr (-1, w))) in
      bindr (readx s 8 w) (\<lambda>(r, w).
        case r of
          None \<Rightarrow> Inr (-1, w)
        | Some m \<Rightarrow>
          let len = unat (ltohl be (syncmsg_field be 1 m)) in
          if syncmsg_field be 0 m \<noteq> ID_DATA be then fail ''invalid data message: expected ID_DATA'' w
          else if len > SYNC_DATA_MAX then fail ''oversize data message'' w
          else bindr (readx s len w) (\<lambda>(r, w).
            case r of
              None \<Rightarrow> Inr (-1, w)
            | Some data \<Rightarrow>
              let w = fill_buf data w in
              bindr (buf_string w) (\<lambda>target.
                let (ret, w) = make_link env target path w in
                case ret of
                  Some e \<Rightarrow> bindr (fail_errno env s e w) (\<lambda>(_, w). Inr (-1, w))
                | None \<Rightarrow>
                  bindr (readx s 8 w) (\<lambda>(r, w).
                    case r of
                      None \<Rightarrow> Inr (-1, w)
                    | Some m \<Rightarrow>
                      if syncmsg_field be 0 m = ID_DONE be then send_okay env s w
                      else fail ''invalid data message: expected ID_DONE'' w)))))"

text \<open>
  The name of a \<open>SEND\<close> request is a path and, after the last comma, the file's mode. A name without
  a comma, or with a mode that does not fit an \<open>unsigned long\<close>, means a plain file of mode 0644.
\<close>

definition send_mode :: "string \<Rightarrow> string \<times> u32 \<times> bool" where
  "send_mode name =
     (case strrchr name CHR '','' of
        None \<Rightarrow> (name, 0x1A4, False)
      | Some i \<Rightarrow>
          let (mode, erange) = strtoul (drop (Suc i) name) 0 in
          if erange then (take i name, 0x1A4, False) else (take i name, mode AND 0x1FF, S_ISLNK mode))"

definition file_mode :: "u32 \<Rightarrow> u32" where
  "file_mode mode =
     (let mode = mode OR (drop_bit 3 mode AND 0x38) in mode OR (drop_bit 3 mode AND 0x07))"

definition do_send :: "sync_env \<Rightarrow> fdesc \<Rightarrow> string \<Rightarrow> sync_state \<Rightarrow> (int \<times> sync_state) res" where
  "do_send env s name w =
     (let (path, mode, is_link) = send_mode name; w = adb_unlink path w in
      if is_link then handle_send_link env s path w
      else handle_send_file env s path (file_mode mode) w)"

subsection \<open>Sending a file\<close>

function recv_loop :: "sync_env \<Rightarrow> fdesc \<Rightarrow> fdesc \<Rightarrow> sync_state \<Rightarrow> (int option \<times> sync_state) res" where
  "recv_loop env s fd w =
     (case adb_read fd SYNC_DATA_MAX w of
        Inl e \<Rightarrow> Inl e
      | Inr (IoErr e, _, w) \<Rightarrow>
          if e = EINTR then recv_loop env s fd w
          else bindr (fail_errno env s e w) (\<lambda>(r, w). Inr (Some r, fs_close fd w))
      | Inr (IoN r, data, w) \<Rightarrow>
          if r = 0 then Inr (None, w)
          else let be = host_be env; w = fill_buf data w in
            bindr (writex_both s (syncmsg be [ID_DATA be, htoll be (of_nat r)]) data w) (\<lambda>(r, w).
              if r \<noteq> 0 then Inr (Some (-1), fs_close fd w) else recv_loop env s fd w))"
  by pat_completeness auto
termination
  by (relation "measure (\<lambda>(env, s, fd, w). rd_left fd w)")
    (auto dest: adb_read_left dest!: io_left simp: adb_read_not_EINTR)

declare recv_loop.simps [simp del]

definition do_recv :: "sync_env \<Rightarrow> fdesc \<Rightarrow> string \<Rightarrow> sync_state \<Rightarrow> (int \<times> sync_state) res" where
  "do_recv env s path w =
     (let be = host_be env; (r, w) = fs_open env path RDONLY 0 w in
      case r of
        Inl e \<Rightarrow> bindr (fail_errno env s e w) (\<lambda>(r, w). Inr (if r \<noteq> 0 then -1 else 0, w))
      | Inr fd \<Rightarrow>
          bindr (recv_loop env s fd w) (\<lambda>(r, w).
            case r of
              Some r \<Rightarrow> Inr (r, w)
            | None \<Rightarrow> bindr (writex s (syncmsg be [ID_DONE be, 0]) (fs_close fd w)) (\<lambda>(r, w). Inr (if r \<noteq> 0 then -1 else 0, w))))"

subsection \<open>The command loop\<close>

text \<open>One command; the result says whether the loop goes on.\<close>

definition sync_command :: "sync_env \<Rightarrow> fdesc \<Rightarrow> sync_state \<Rightarrow> (bool \<times> sync_state) res" where
  "sync_command env fd w =
     (let be = host_be env; fail = (\<lambda>reason w. bindr (sync_fail_message env fd reason w) (\<lambda>(_, w). Inr (False, w)));
          go = (\<lambda>m. bindr m (\<lambda>(r, w). Inr (r = (0::int), w))) in
      bindr (readx fd 8 w) (\<lambda>(r, w).
        case r of
          None \<Rightarrow> fail ''command read failure'' w
        | Some m \<Rightarrow>
          let id = syncmsg_field be 0 m; namelen = unat (ltohl be (syncmsg_field be 1 m)) in
          if namelen > 1024 then fail ''invalid namelen'' w
          else bindr (readx fd namelen w) (\<lambda>(r, w).
            case r of
              None \<Rightarrow> fail ''filename read failure'' w
            | Some bs \<Rightarrow>
              let name = cstr (bs @ [0]) in
              if id = ID_STAT be then go (do_stat env fd name w)
              else if id = ID_LIST be then go (do_list env fd name w)
              else if id = ID_SEND be then go (do_send env fd name w)
              else if id = ID_RECV be then go (do_recv env fd name w)
              else if id = ID_QUIT be then Inr (False, w)
              else fail ''unknown command'' w)))"

subsection \<open>The service ends\<close>

text \<open>A step that only moves forward in what it reads.\<close>

definition shrinks :: "sync_state \<Rightarrow> ('b \<times> sync_state) res \<Rightarrow> bool" where
  "shrinks w m \<longleftrightarrow> ensures m (\<lambda>(r, w'). \<forall>x. rd_left x w' \<le> rd_left x w)"

lemma shrinks_Inr: "(\<And>x. rd_left x w' \<le> rd_left x w) \<Longrightarrow> shrinks w (Inr (r, w'))"
  by (simp add: shrinks_def)

lemma shrinks_Inl: "shrinks w (Inl e)"
  by (simp add: shrinks_def)

lemma shrinks_from: "shrinks w' m \<Longrightarrow> (\<And>x. rd_left x w' \<le> rd_left x w) \<Longrightarrow> shrinks w m"
  by (auto simp: shrinks_def elim!: ensures_mono intro: le_trans)

lemma shrinks_bind:
  assumes "shrinks w m" "\<And>r w'. m = Inr (r, w') \<Longrightarrow> shrinks w' (f (r, w'))"
  shows "shrinks w (bindr m f)"
proof (cases m)
  case (Inr a)
  obtain r w1 where "m = Inr (r, w1)" using Inr by (cases a) auto
  with assms show ?thesis by (auto simp: shrinks_def intro: shrinks_from [unfolded shrinks_def])
qed (simp add: shrinks_Inl)

lemma shrinks_step:
  "shrinks w m \<Longrightarrow> (\<And>r w'. m = Inr (r, w') \<Longrightarrow> shrinks w' (f r w')) \<Longrightarrow> shrinks w (bindr m (\<lambda>(r, w). f r w))"
  by (rule shrinks_bind) auto

lemma shrinks_option: "(x = None \<Longrightarrow> shrinks w a) \<Longrightarrow> (\<And>y. x = Some y \<Longrightarrow> shrinks w (b y)) \<Longrightarrow> shrinks w (case x of None \<Rightarrow> a | Some y \<Rightarrow> b y)"
  by (cases x) simp_all

lemma shrinks_if: "(c \<Longrightarrow> shrinks w a) \<Longrightarrow> (\<not> c \<Longrightarrow> shrinks w b) \<Longrightarrow> shrinks w (if c then a else b)"
  by simp

lemma shrinks_readx: "shrinks w (readx fd len w)"
  by (auto simp: shrinks_def intro!: ensuresI dest: readx_left_le)

lemma shrinks_writex: "shrinks w (writex fd bs w)"
  by (auto simp: shrinks_def intro!: ensuresI dest: writex_left)

lemma shrinks_writex_both: "shrinks w (writex_both fd a b w)"
  by (auto simp: shrinks_def intro!: ensuresI dest: writex_both_left)

lemmas shrinks_intros = shrinks_Inr shrinks_Inl shrinks_bind shrinks_readx shrinks_writex shrinks_writex_both

lemma rd_left_calls [simp]:
  "rd_left x (utime path t w) = rd_left x w"
  "rd_left x (snd (fs_open env path how mode w)) = rd_left x w"
  "rd_left x (snd (adb_mkdir env path mode w)) = rd_left x w"
  "rd_left x (snd (symlink env target path w)) = rd_left x w"
  "rd_left x (snd (lstat env path w)) = rd_left x w"
  by (simp_all add: utime_def fs_open_def adb_mkdir_def symlink_def lstat_def)

lemma mkdirs_loop_left: "rd_left x (snd (mkdirs_loop env pre name w)) = rd_left x w"
  by (induction name arbitrary: pre w) (auto simp: Let_def case_prod_beta)

lemma mkdirs_left [simp]: "rd_left x (snd (mkdirs env name w)) = rd_left x w"
  by (simp add: mkdirs_def mkdirs_loop_left)

lemma open_for_send_left [simp]: "rd_left x (snd (open_for_send env path mode w)) = rd_left x w"
  by (simp add: open_for_send_def Let_def case_prod_beta)

lemma make_link_left [simp]: "rd_left x (snd (make_link env target path w)) = rd_left x w"
  by (simp add: make_link_def Let_def case_prod_beta)

lemma shrinks_fail: "shrinks w (sync_fail_message env s reason w)"
  unfolding sync_fail_message_def Let_def by (auto intro!: shrinks_intros)

lemma shrinks_fail_errno: "shrinks w (fail_errno env s e w)"
  by (simp add: fail_errno_def shrinks_fail)

lemma shrinks_stat: "shrinks w (do_stat env s path w)"
  unfolding do_stat_def Let_def case_prod_beta by (rule shrinks_from [OF shrinks_writex]) simp

lemma shrinks_list_loop: "shrinks w (list_loop env s path ds w)"
proof (induction ds arbitrary: w)
  case (Cons d ds)
  have c: "shrinks w' (list_loop env s path ds w') \<Longrightarrow> (\<And>x. rd_left x w' \<le> rd_left x w) \<Longrightarrow> shrinks w (list_loop env s path ds w')" for w'
    by (rule shrinks_from)
  from Cons show ?case
    by (auto simp: Let_def case_prod_beta shrinks_Inl split: option.splits
        intro!: c shrinks_from [of "snd (lstat env (path @ CHR ''/'' # d) w)" _ w] shrinks_bind shrinks_writex_both shrinks_Inr)
qed (simp add: shrinks_Inr)

lemma shrinks_list: "shrinks w (do_list env s path w)"
  unfolding do_list_def Let_def list_done_def
  by (auto split: option.splits intro!: shrinks_bind shrinks_Inl shrinks_Inr shrinks_from [OF shrinks_list_loop] shrinks_from [OF shrinks_writex])

lemma shrinks_send_file_loop: "shrinks w (send_file_loop env s path fd w)"
proof (induction "rd_left s w" arbitrary: fd w rule: less_induct)
  case less
  have ih: "shrinks w2 (send_file_loop env s path fd w3)" if "rd_left s w3 < rd_left s w" "\<And>x. rd_left x w3 \<le> rd_left x w2" for fd w2 w3
    by (rule shrinks_from [OF less [OF that(1)] that(2)])
  show ?case
    apply (subst send_file_loop.simps)
    unfolding Let_def fail_errno_def
    apply (intro shrinks_step shrinks_option shrinks_if shrinks_readx shrinks_fail shrinks_from [OF shrinks_fail] shrinks_from [OF shrinks_writex] ih shrinks_Inr)
    apply (auto dest!: io_left)
    apply (metis le_less_trans)+
    done
qed

lemma shrinks_okay: "shrinks w (send_okay env s w)"
  unfolding send_okay_def by (auto intro!: shrinks_intros)

lemma shrinks_send_file: "shrinks w (handle_send_file env s path mode w)"
  unfolding handle_send_file_def Let_def case_prod_beta send_file_end_def
  by (auto split: sum.splits option.splits send_exit.splits simp: case_prod_beta
      intro!: shrinks_bind shrinks_Inr shrinks_from [OF shrinks_send_file_loop] shrinks_from [OF shrinks_fail_errno] shrinks_from [OF shrinks_okay])

lemma shrinks_buf: "(\<And>t. shrinks w (f t)) \<Longrightarrow> shrinks w (bindr (buf_string v) f)"
  by (simp add: buf_string_def shrinks_Inl)

lemma shrinks_send_link: "shrinks w (handle_send_link env s path w)"
  unfolding handle_send_link_def Let_def case_prod_beta [of _ "make_link env target path w" for env target path w]
  by (intro shrinks_buf shrinks_step shrinks_option shrinks_if shrinks_from [OF shrinks_readx] shrinks_fail shrinks_okay
      shrinks_from [OF shrinks_fail_errno] shrinks_Inr) simp_all

lemma shrinks_recv_loop: "shrinks w (recv_loop env s fd w)"
proof (induction "rd_left fd w" arbitrary: w rule: less_induct)
  case less
  have ih: "shrinks w2 (recv_loop env s fd w3)" if "rd_left fd w3 < rd_left fd w" "\<And>x. rd_left x w3 \<le> rd_left x w2" for w2 w3
    by (rule shrinks_from [OF less [OF that(1)] that(2)])
  show ?case
  proof (cases "adb_read fd SYNC_DATA_MAX w")
    case (Inr a)
    obtain r data w1 where a: "adb_read fd SYNC_DATA_MAX w = Inr (r, data, w1)" using Inr by (cases a) auto
    note le = adb_read_left_le [OF a]
    show ?thesis
    proof (cases r)
      case (IoErr e)
      then have "e \<noteq> EINTR" using a adb_read_not_EINTR [of fd SYNC_DATA_MAX w data w1] by auto
      with IoErr a le show ?thesis
        by (subst recv_loop.simps) (auto simp: fail_errno_def intro!: shrinks_bind shrinks_from [OF shrinks_fail] shrinks_Inr)
    next
      case (IoN n)
      have "0 < n \<Longrightarrow> rd_left fd w1 < rd_left fd w" using adb_read_left [OF a] IoN by blast
      with IoN a le show ?thesis
        by (subst recv_loop.simps)
          (auto simp: Let_def intro!: shrinks_Inr shrinks_bind [of _ "writex_both x y z v" for x y z v] shrinks_from [OF shrinks_writex_both] ih dest!: writex_both_left)
    qed
  qed (subst recv_loop.simps, simp add: shrinks_Inl)
qed

lemma shrinks_recv: "shrinks w (do_recv env s path w)"
  unfolding do_recv_def Let_def case_prod_beta
  by (auto split: sum.splits option.splits simp: case_prod_beta
      intro!: shrinks_bind shrinks_Inr shrinks_from [OF shrinks_recv_loop] shrinks_from [OF shrinks_fail_errno] shrinks_from [OF shrinks_writex])

lemma shrinks_send: "shrinks w (do_send env s name w)"
  unfolding do_send_def Let_def case_prod_beta
  by (auto intro!: shrinks_from [OF shrinks_send_link] shrinks_from [OF shrinks_send_file])

lemma sync_command_left:
  assumes "sync_command env fd w = Inr (True, w')"
  shows "rd_left fd w' < rd_left fd w"
proof -
  obtain m w1 where m: "readx fd 8 w = Inr (Some m, w1)"
    using assms by (auto simp: sync_command_def Let_def bindr_eq_Inr split: option.splits)
  have "shrinks w1 (Inr (True, w'))"
    unfolding assms [symmetric] sync_command_def Let_def
    by (auto simp: m split: option.splits
        intro!: shrinks_bind shrinks_Inr shrinks_readx shrinks_fail shrinks_stat shrinks_list shrinks_send shrinks_recv)
  then show ?thesis using readx_left_less [OF m] by (auto simp: shrinks_def dest: spec [of _ fd])
qed

function file_sync_loop :: "sync_env \<Rightarrow> fdesc \<Rightarrow> sync_state \<Rightarrow> sync_state res" where
  "file_sync_loop env fd w =
     bindr (sync_command env fd w) (\<lambda>(more, w). if more then file_sync_loop env fd w else Inr w)"
  by pat_completeness auto
termination
  by (relation "measure (\<lambda>(env, fd, w). rd_left fd w)") (auto dest: sync_command_left)

declare file_sync_loop.simps [simp del]

definition file_sync_service :: "sync_env \<Rightarrow> fdesc \<Rightarrow> sync_state \<Rightarrow> sync_state res" where
  "file_sync_service env fd w =
     (if \<not> malloc_ok env then Inr (fs_close fd w)
      else bindr (file_sync_loop env fd (w\<lparr>sync_buf := []\<rparr>)) (\<lambda>w. Inr (fs_close fd w)))"

section \<open>Storing a file\<close>

text \<open>The loop over data messages writes their contents to the file.\<close>

lemma send_loop_pieces:
  assumes "good_bytes (rd_ev w s) = data_stream cs @ rest" "pieces cs" "wr_clean (wr_ev w fd)" "0 \<le> fd"
  shows "\<exists>w'. send_file_loop env s path fd w = send_file_loop env s path fd w' \<and> did w [Got s (data_stream cs), Put fd (concat cs)] w'"
  using assms
proof (induction cs arbitrary: w)
  case Nil
  have "did w [Got s (data_stream []), Put fd (concat [])] w" using did_calls(1) by (rule did_eq) simp_all
  then show ?case by blast
next
  case (Cons c cs)
  let ?m = "wire_msg ''DATA'' [of_nat (length c)]"
  have c: "c \<noteq> []" "length c \<le> SYNC_DATA_MAX" "pieces cs" using Cons.prems(2) by auto
  obtain w1 where 1: "readx s 8 w = Inr (Some ?m, w1)" "did w [Got s ?m] w1"
    using readx_did [of w s ?m "c @ data_stream cs @ rest" 8] Cons.prems(1) by auto
  have "good_bytes (rd_ev w1 s) = c @ data_stream cs @ rest" using did_stream [OF 1(2), of s] Cons.prems(1) by simp
  then obtain w2 where 2: "readx s (length c) w1 = Inr (Some c, w2)" "did w1 [Got s c] w2" using readx_did by blast
  have 3: "did w [Got s ?m, Got s c] (fill_buf c w2)" using did_trans [OF did_trans [OF 1(2) 2(2)] did_calls(2)] by simp
  obtain w4 where 4: "writex fd c (fill_buf c w2) = Inr (0, w4)" "did (fill_buf c w2) [Put fd c] w4"
    using writex_did [OF did_clean [OF 3 Cons.prems(3)]] by blast
  have 5: "did w [Got s ?m, Got s c, Put fd c] w4" using did_trans [OF 3 4(2)] by simp
  have "good_bytes (rd_ev w4 s) = data_stream cs @ rest" using did_stream [OF 5, of s] Cons.prems(1) by simp
  from Cons.IH [OF this c(3) did_clean [OF 5 Cons.prems(3)] Cons.prems(4)] obtain w' where
    w': "send_file_loop env s path fd w4 = send_file_loop env s path fd w'"
      "did w4 [Got s (data_stream cs), Put fd (concat cs)] w'" by blast
  have "send_file_loop env s path fd w = send_file_loop env s path fd w4"
    using c Cons.prems(4) by (subst send_file_loop.simps) (simp add: 1 2 4 Let_def sync_id_defs piece_size)
  moreover have "did w [Got s (data_stream (c # cs)), Put fd (concat (c # cs))] w'"
    using did_trans [OF 5 w'(2)] by (rule did_eq) simp_all
  ultimately show ?case using w'(1) by auto
qed

lemma send_loop_stores:
  assumes "good_bytes (rd_ev w s) = data_stream cs @ wire_msg ''DONE'' [t] @ rest" "pieces cs" "wr_clean (wr_ev w fd)" "0 \<le> fd"
  shows "\<exists>w'. send_file_loop env s path fd w = Inr (SendBreak t fd, w')
           \<and> did w [Got s (data_stream cs @ wire_msg ''DONE'' [t]), Put fd (concat cs)] w'"
proof -
  let ?m = "wire_msg ''DONE'' [t]"
  obtain w1 where 1: "send_file_loop env s path fd w = send_file_loop env s path fd w1" "did w [Got s (data_stream cs), Put fd (concat cs)] w1"
    using send_loop_pieces [OF assms] by blast
  have "good_bytes (rd_ev w1 s) = ?m @ rest" using did_stream [OF 1(2), of s] assms(1) by simp
  then obtain w2 where 2: "readx s 8 w1 = Inr (Some ?m, w2)" "did w1 [Got s ?m] w2" using readx_did [of w1 s ?m rest 8] by auto
  have "send_file_loop env s path fd w1 = Inr (SendBreak t fd, w2)"
    using 2(1) by (subst send_file_loop.simps) (simp add: Let_def sync_id_defs)
  moreover have "did w [Got s (data_stream cs @ ?m), Put fd (concat cs)] w2" using did_trans [OF 1(2) 2(2)] by (rule did_eq) simp_all
  ultimately show ?thesis using 1(1) by auto
qed

text \<open>A message that is no data message, or announces too much, ends the loop with an error.\<close>

definition bad_message :: "string \<Rightarrow> u32 \<Rightarrow> string option" where
  "bad_message tag n =
     (if tag \<notin> {''DATA'', ''DONE''} then Some ''invalid data message''
      else if tag = ''DATA'' \<and> unat n > SYNC_DATA_MAX then Some ''oversize data message''
      else None)"

definition fail_reply :: "string \<Rightarrow> byte list" where
  "fail_reply reason = wire_msg ''FAIL'' [of_nat (length reason)] @ bytes_of reason"

lemma fail_message_did:
  "wr_clean (wr_ev w s) \<Longrightarrow> \<exists>w'. sync_fail_message env s reason w = Inr (0, w') \<and> did w [Put s (fail_reply reason)] w'"
  using writex_both_did [of w s "wire_msg ''FAIL'' [of_nat (length reason)]" "bytes_of reason"]
  by (auto simp: sync_fail_message_def Let_def ID_FAIL_def syncmsg_wire_simps fail_reply_def)

lemma tag_chars: "length tag = 4 \<Longrightarrow> \<exists>a b c d. tag = [a, b, c, d]"
  by (auto simp: length_Suc_conv numeral_eq_Suc)

lemma send_loop_fails:
  assumes "good_bytes (rd_ev w s) = data_stream cs @ wire_msg tag [n] @ rest" "pieces cs" "wr_clean (wr_ev w fd)" "0 \<le> fd" "wr_clean (wr_ev w s)"
    and "length tag = 4" "bad_message tag n = Some reason"
  shows "\<exists>w'. send_file_loop env s path fd w = Inr (SendFail fd, w')
           \<and> did w [Got s (data_stream cs @ wire_msg tag [n]), Put fd (concat cs), Put s (fail_reply reason)] w'"
proof -
  let ?m = "wire_msg tag [n]"
  obtain w1 where 1: "send_file_loop env s path fd w = send_file_loop env s path fd w1" "did w [Got s (data_stream cs), Put fd (concat cs)] w1"
    using send_loop_pieces [OF assms(1-4)] by blast
  have "good_bytes (rd_ev w1 s) = ?m @ rest" using did_stream [OF 1(2), of s] assms(1) by simp
  then obtain w2 where 2: "readx s 8 w1 = Inr (Some ?m, w2)" "did w1 [Got s ?m] w2" using readx_did [of w1 s ?m rest 8] assms(6) by auto
  have 3: "did w ([Got s (data_stream cs), Put fd (concat cs)] @ [Got s ?m]) w2" by (rule did_trans [OF 1(2) 2(2)])
  obtain w3 where 4: "sync_fail_message env s reason w2 = Inr (0, w3)" "did w2 [Put s (fail_reply reason)] w3"
    using fail_message_did [OF did_clean [OF 3 assms(5)]] by blast
  obtain a b c d where tag: "tag = [a, b, c, d]" using tag_chars [OF assms(6)] by blast
  have "send_file_loop env s path fd w1 = Inr (SendFail fd, w3)"
    using 2(1) 4(1) assms(7) unfolding tag by (subst send_file_loop.simps) (auto simp: Let_def sync_id_defs bad_message_def split: if_splits)
  moreover have "did w [Got s (data_stream cs @ ?m), Put fd (concat cs), Put s (fail_reply reason)] w3"
    using did_trans [OF 3 4(2)] by (rule did_eq) simp_all
  ultimately show ?thesis using 1(1) by auto
qed

lemma okay_wire: "syncmsg be [ID_OKAY be, 0] = wire_msg ''OKAY'' [0]"
  by (simp add: ID_OKAY_def syncmsg_wire_simps)

lemma send_okay_did:
  "wr_clean (wr_ev w s) \<Longrightarrow> \<exists>w'. send_okay env s w = Inr (0, w') \<and> did w [Put s (wire_msg ''OKAY'' [0])] w'"
  using writex_did [of w s "wire_msg ''OKAY'' [0]"] by (auto simp: send_okay_def okay_wire)

text \<open>The beginning of a transfer: the old file is removed and the new one created.\<close>

abbreviation send_begin :: "string \<Rightarrow> u32 \<Rightarrow> io_act list" where
  "send_begin path mode \<equiv> [Called (FsUnlink path), Called (FsOpen path WRONLY_CREAT_EXCL (file_mode mode))]"

lemma do_send_begins:
  assumes mode: "send_mode name = (path, mode, False)"
    and op: "os_open env (fs_log w @ [FsUnlink path]) path WRONLY_CREAT_EXCL (file_mode mode) = Inr fd"
  shows "\<exists>w1. did w (send_begin path mode) w1
     \<and> do_send env s name w = bindr (send_file_loop env s path (int fd) w1) (\<lambda>(e, w). send_file_end env s path e w)"
proof -
  let ?w1 = "log_call (FsOpen path WRONLY_CREAT_EXCL (file_mode mode)) (adb_unlink path w)"
  have "open_for_send env path (file_mode mode) (adb_unlink path w) = (Inr (int fd), ?w1)"
    using op by (simp add: open_for_send_def fs_open_def adb_unlink_def log_call_def)
  moreover have "did w (send_begin path mode) ?w1" using did_trans [OF did_calls(5) did_calls(3)] by simp
  ultimately show ?thesis by (intro exI [of _ ?w1]) (simp add: do_send_def mode handle_send_file_def)
qed

lemma do_send_stores:
  assumes mode: "send_mode name = (path, mode, False)"
    and op: "os_open env (fs_log w @ [FsUnlink path]) path WRONLY_CREAT_EXCL (file_mode mode) = Inr fd"
    and str: "good_bytes (rd_ev w s) = data_stream cs @ wire_msg ''DONE'' [t] @ rest" "pieces cs"
    and clean: "wr_clean (wr_ev w (int fd))" "wr_clean (wr_ev w s)"
  shows "\<exists>w'. do_send env s name w = Inr (0, w') \<and>
    did w (send_begin path mode @ [Got s (data_stream cs @ wire_msg ''DONE'' [t]), Put (int fd) (concat cs), Called (FsClose (int fd)),
      Called (FsUtime path t), Put s (wire_msg ''OKAY'' [0])]) w'"
proof -
  obtain w1 where 1: "did w (send_begin path mode) w1"
      "do_send env s name w = bindr (send_file_loop env s path (int fd) w1) (\<lambda>(e, w). send_file_end env s path e w)"
    using do_send_begins [OF mode op] by blast
  have "good_bytes (rd_ev w1 s) = data_stream cs @ wire_msg ''DONE'' [t] @ rest" using did_stream [OF 1(1), of s] str by simp
  from send_loop_stores [OF this str(2) did_clean [OF 1(1) clean(1)], of env path] obtain w2 where
    2: "send_file_loop env s path (int fd) w1 = Inr (SendBreak t (int fd), w2)"
      "did w1 [Got s (data_stream cs @ wire_msg ''DONE'' [t]), Put (int fd) (concat cs)] w2" by auto
  let ?w3 = "utime path t (fs_close (int fd) w2)"
  have 3: "did w (send_begin path mode @
      [Got s (data_stream cs @ wire_msg ''DONE'' [t]), Put (int fd) (concat cs), Called (FsClose (int fd)), Called (FsUtime path t)]) ?w3"
    using did_trans [OF did_trans [OF did_trans [OF 1(1) 2(2)] did_calls(4)] did_calls(6)] by simp
  obtain w4 where 4: "send_okay env s ?w3 = Inr (0, w4)" "did ?w3 [Put s (wire_msg ''OKAY'' [0])] w4"
    using send_okay_did [OF did_clean [OF 3 clean(2)]] by blast
  have "do_send env s name w = Inr (0, w4)" using 1(2) 2 4 by (simp add: send_file_end_def)
  with did_trans [OF 3 4(2)] show ?thesis by auto
qed

lemma do_send_fails:
  assumes mode: "send_mode name = (path, mode, False)"
    and op: "os_open env (fs_log w @ [FsUnlink path]) path WRONLY_CREAT_EXCL (file_mode mode) = Inr fd"
    and str: "good_bytes (rd_ev w s) = data_stream cs @ wire_msg tag [n] @ rest" "pieces cs"
    and clean: "wr_clean (wr_ev w (int fd))" "wr_clean (wr_ev w s)"
    and bad: "length tag = 4" "bad_message tag n = Some reason"
  shows "\<exists>w'. do_send env s name w = Inr (-1, w') \<and>
    did w (send_begin path mode @ [Got s (data_stream cs @ wire_msg tag [n]), Put (int fd) (concat cs), Put s (fail_reply reason),
      Called (FsClose (int fd)), Called (FsUnlink path)]) w'"
proof -
  obtain w1 where 1: "did w (send_begin path mode) w1"
      "do_send env s name w = bindr (send_file_loop env s path (int fd) w1) (\<lambda>(e, w). send_file_end env s path e w)"
    using do_send_begins [OF mode op] by blast
  have "good_bytes (rd_ev w1 s) = data_stream cs @ wire_msg tag [n] @ rest" using did_stream [OF 1(1), of s] str by simp
  from send_loop_fails [OF this str(2) did_clean [OF 1(1) clean(1)] _ did_clean [OF 1(1) clean(2)] bad, of env path] obtain w2 where
    2: "send_file_loop env s path (int fd) w1 = Inr (SendFail (int fd), w2)"
      "did w1 [Got s (data_stream cs @ wire_msg tag [n]), Put (int fd) (concat cs), Put s (fail_reply reason)] w2" by auto
  have "did w (send_begin path mode @ [Got s (data_stream cs @ wire_msg tag [n]), Put (int fd) (concat cs), Put s (fail_reply reason),
      Called (FsClose (int fd)), Called (FsUnlink path)]) (adb_unlink path (fs_close (int fd) w2))"
    using did_trans [OF did_trans [OF did_trans [OF 1(1) 2(2)] did_calls(4)] did_calls(5)] by simp
  then show ?thesis using 1(2) 2 by (simp add: send_file_end_def)
qed

section \<open>Sending a file\<close>

lemma recv_loop_sends:
  assumes "rd_end (rd_ev w fd) = Some None" "wr_clean (wr_ev w s)"
  shows "\<exists>cs w'. recv_loop env s fd w = Inr (None, w') \<and> pieces cs \<and> concat cs = good_bytes (rd_ev w fd)
           \<and> did w [Got fd (concat cs), Put s (data_stream cs)] w'"
  using assms
proof (induction "rd_left fd w" arbitrary: w rule: less_induct)
  case less
  have "(0::nat) < SYNC_DATA_MAX" by (simp add: SYNC_DATA_MAX_def)
  from adb_read_did [OF less.prems(1) this] show ?case
  proof (elim disjE exE conjE)
    fix w' assume e: "good_bytes (rd_ev w fd) = []"
      and r: "adb_read fd SYNC_DATA_MAX w = Inr (case None of None \<Rightarrow> IoN 0 | Some e \<Rightarrow> IoErr e, [], w')" and d: "did w [Got fd []] w'"
    have "did w [Got fd (concat []), Put s (data_stream [])] w'" using d by (rule did_eq) simp_all
    with e r show ?thesis by (intro exI [of _ "[]"] exI [of _ w']) (simp add: recv_loop.simps)
  next
    fix c w1 assume c: "adb_read fd SYNC_DATA_MAX w = Inr (IoN (length c), c, w1)" "c \<noteq> []" "length c \<le> SYNC_DATA_MAX"
      "did w [Got fd c] w1" "rd_end (rd_ev w1 fd) = Some None" "rd_left fd w1 < rd_left fd w"
    let ?m = "wire_msg ''DATA'' [of_nat (length c)]"
    have f: "did w [Got fd c] (fill_buf c w1)" using did_trans [OF c(4) did_calls(2)] by simp
    obtain w2 where 2: "writex_both s ?m c (fill_buf c w1) = Inr (0, w2)" "did (fill_buf c w1) [Put s (?m @ c)] w2"
      using writex_both_did [OF did_clean [OF f less.prems(2)]] by blast
    have d: "did w [Got fd c, Put s (?m @ c)] w2" using did_trans [OF f 2(2)] by simp
    have same: "rd_ev w2 = rd_ev w1" using did_same [OF 2(2)] by (auto simp: fun_eq_iff fill_buf_def)
    have "recv_loop env s fd w = recv_loop env s fd w2"
      using c(1,2) 2(1) by (subst recv_loop.simps) (simp add: Let_def ID_DATA_def syncmsg_wire_simps)
    moreover obtain cs w' where "recv_loop env s fd w2 = Inr (None, w')" "pieces cs" "concat cs = good_bytes (rd_ev w2 fd)"
      "did w2 [Got fd (concat cs), Put s (data_stream cs)] w'"
      using less.hyps [of w2] c same did_clean [OF d less.prems(2)] by (auto simp: rd_left_def)
    moreover have "did w [Got fd (concat (c # cs)), Put s (data_stream (c # cs))] w'"
      using did_trans [OF d calculation(5)] by (rule did_eq) auto
    moreover have "good_bytes (rd_ev w fd) = c @ good_bytes (rd_ev w2 fd)" using d by (simp add: did_def)
    ultimately show ?thesis using c(2,3) by (intro exI [of _ "c # cs"] exI [of _ w']) simp
  qed
qed

lemma do_recv_sends:
  assumes op: "os_open env (fs_log w) path RDONLY 0 = Inr fd" and e: "rd_end (rd_ev w (int fd)) = Some None" and c: "wr_clean (wr_ev w s)"
  shows "\<exists>cs w'. do_recv env s path w = Inr (0, w') \<and> pieces cs \<and> concat cs = good_bytes (rd_ev w (int fd)) \<and>
    did w [Called (FsOpen path RDONLY 0), Got (int fd) (concat cs), Put s (data_stream cs @ wire_msg ''DONE'' [0]), Called (FsClose (int fd))] w'"
proof -
  let ?w1 = "log_call (FsOpen path RDONLY 0) w"
  have 1: "did w [Called (FsOpen path RDONLY 0)] ?w1" by (rule did_calls)
  have e1: "rd_end (rd_ev ?w1 (int fd)) = Some None" using e did_same [OF 1, of "int fd"] by simp
  from recv_loop_sends [OF e1 did_clean [OF 1 c], of env] obtain cs w2 where
    2: "recv_loop env s (int fd) ?w1 = Inr (None, w2)" "pieces cs" "concat cs = good_bytes (rd_ev ?w1 (int fd))"
      "did ?w1 [Got (int fd) (concat cs), Put s (data_stream cs)] w2" by blast
  have 3: "did w [Called (FsOpen path RDONLY 0), Got (int fd) (concat cs), Put s (data_stream cs), Called (FsClose (int fd))] (fs_close (int fd) w2)"
    using did_trans [OF did_trans [OF 1 2(4)] did_calls(4)] by simp
  obtain w4 where 4: "writex s (wire_msg ''DONE'' [0]) (fs_close (int fd) w2) = Inr (0, w4)" "did (fs_close (int fd) w2) [Put s (wire_msg ''DONE'' [0])] w4"
    using writex_did [OF did_clean [OF 3 c]] by blast
  have "do_recv env s path w = Inr (0, w4)"
    using 2 4 op by (simp add: do_recv_def fs_open_def ID_DONE_def syncmsg_wire_simps Let_def)
  moreover have "did w [Called (FsOpen path RDONLY 0), Got (int fd) (concat cs), Put s (data_stream cs @ wire_msg ''DONE'' [0]), Called (FsClose (int fd))] w4"
    using did_trans [OF 3 4(2)] by (rule did_eq) auto
  ultimately show ?thesis using 2(2,3) did_same [OF 1, of "int fd"] by (intro exI [of _ cs] exI [of _ w4]) simp
qed

section \<open>Listing a directory\<close>

text \<open>The entries the service reports: those whose name is short enough and that \<open>lstat\<close> finds.\<close>

fun listing :: "sync_env \<Rightarrow> fs_call list \<Rightarrow> string \<Rightarrow> string list \<Rightarrow> (file_stat \<times> string) list" where
  "listing env h path [] = []"
| "listing env h path (d # ds) =
     (if length d > 256 then listing env h path ds
      else let h' = h @ [FsLstat (path @ ''/'' @ d)] in
        case os_lstat env h (path @ ''/'' @ d) of
          None \<Rightarrow> listing env h' path ds
        | Some st \<Rightarrow> (st, d) # listing env h' path ds)"

definition dent_bytes :: "file_stat \<times> string \<Rightarrow> byte list" where
  "dent_bytes e = wire_msg ''DENT'' [st_mode (fst e), of_nat (st_size (fst e)), word_of_int (st_mtime (fst e)), of_nat (length (snd e))]
     @ bytes_of (snd e)"

definition lstats :: "string \<Rightarrow> string list \<Rightarrow> io_act list" where
  "lstats path ds = map (\<lambda>d. Called (FsLstat (path @ ''/'' @ d))) (filter (\<lambda>d. length d \<le> 256) ds)"

lemma lstats_simps [simp]:
  "got x (lstats path ds) = []" "puts x (lstats path ds) = []" "reads (lstats path ds) = {}"
  "lstats path (d # ds) = (if length d \<le> 256 then Called (FsLstat (path @ ''/'' @ d)) # lstats path ds else lstats path ds)"
  by (induction ds) (simp_all add: lstats_def)

lemma list_loop_sends:
  assumes "wr_clean (wr_ev w s)" "\<forall>d\<in>set ds. length d \<le> 256 \<longrightarrow> length path + length d + 2 \<le> list_tmp_size"
  shows "\<exists>w'. list_loop env s path ds w = Inr (0, w')
     \<and> did w (lstats path ds @ [Put s (concat (map dent_bytes (listing env (fs_log w) path ds)))]) w'"
  using assms
proof (induction ds arbitrary: w)
  case Nil
  have "did w (lstats path [] @ [Put s (concat (map dent_bytes (listing env (fs_log w) path [])))]) w"
    using did_calls(1) by (rule did_eq) (simp_all add: lstats_def)
  then show ?case by simp
next
  case (Cons d ds)
  have ds: "\<forall>d\<in>set ds. length d \<le> 256 \<longrightarrow> length path + length d + 2 \<le> list_tmp_size" using Cons.prems(2) by simp
  let ?f = "path @ ''/'' @ d" and ?w1 = "log_call (FsLstat (path @ ''/'' @ d)) w"
  have 1: "did w [Called (FsLstat ?f)] ?w1" by (rule did_calls)
  show ?case
  proof (cases "length d > 256")
    case True
    with Cons.IH [OF Cons.prems(1) ds] show ?thesis by simp
  next
    case False
    then have fit: "\<not> length path + 1 + length d + 1 > list_tmp_size" using Cons.prems(2) by simp
    show ?thesis
    proof (cases "os_lstat env (fs_log w) ?f")
      case None
      obtain w' where w': "list_loop env s path ds ?w1 = Inr (0, w')"
          "did ?w1 (lstats path ds @ [Put s (concat (map dent_bytes (listing env (fs_log ?w1) path ds)))]) w'"
        using Cons.IH [OF did_clean [OF 1 Cons.prems(1)] ds] by blast
      with did_trans [OF 1 w'(2)] False fit None show ?thesis by (simp add: Let_def lstat_def log_call_def)
    next
      case (Some st)
      obtain w2 where 2: "writex_both s (wire_msg ''DENT'' [st_mode st, of_nat (st_size st), word_of_int (st_mtime st), of_nat (length d)])
            (bytes_of d) ?w1 = Inr (0, w2)" "did ?w1 [Put s (dent_bytes (st, d))] w2"
        using writex_both_did [OF did_clean [OF 1 Cons.prems(1)]] by (fastforce simp: dent_bytes_def)
      have 3: "did w [Called (FsLstat ?f), Put s (dent_bytes (st, d))] w2" using did_trans [OF 1 2(2)] by simp
      obtain w' where w': "list_loop env s path ds w2 = Inr (0, w')"
          "did w2 (lstats path ds @ [Put s (concat (map dent_bytes (listing env (fs_log w2) path ds)))]) w'"
        using Cons.IH [OF did_clean [OF 3 Cons.prems(1)] ds] by blast
      have "did w (lstats path (d # ds) @ [Put s (concat (map dent_bytes (listing env (fs_log w) path (d # ds))))]) w'"
        using did_trans [OF 3 w'(2)] by (rule did_eq) (use False Some did_log [OF 3] in \<open>simp_all add: Let_def\<close>)
      then show ?thesis using w'(1) 2(1) False fit Some by (simp add: Let_def lstat_def ID_DENT_def syncmsg_wire_simps)
    qed
  qed
qed

lemma list_done_did:
  "wr_clean (wr_ev w s) \<Longrightarrow> \<exists>w'. list_done env s w = Inr (0, w') \<and> did w [Put s (wire_msg ''DONE'' [0, 0, 0, 0])] w'"
  using writex_did [of w s "wire_msg ''DONE'' [0, 0, 0, 0]"] by (auto simp: list_done_def ID_DONE_def syncmsg_wire_simps)

lemma do_list_sends:
  assumes op: "os_opendir env (fs_log w) path = Some ds" and c: "wr_clean (wr_ev w s)"
    and fit: "\<forall>d\<in>set ds. length d \<le> 256 \<longrightarrow> length path + length d + 2 \<le> list_tmp_size" "length path < list_tmp_size"
  shows "\<exists>w'. do_list env s path w = Inr (0, w') \<and>
    did w ([Called (FsOpendir path)] @ lstats path ds @
      [Put s (concat (map dent_bytes (listing env (fs_log w @ [FsOpendir path]) path ds)) @ wire_msg ''DONE'' [0, 0, 0, 0]), Called (FsClosedir path)]) w'"
proof -
  let ?w1 = "log_call (FsOpendir path) w"
  have 1: "did w [Called (FsOpendir path)] ?w1" by (rule did_calls)
  obtain w2 where 2: "list_loop env s path ds ?w1 = Inr (0, w2)"
      "did ?w1 (lstats path ds @ [Put s (concat (map dent_bytes (listing env (fs_log ?w1) path ds)))]) w2"
    using list_loop_sends [OF did_clean [OF 1 c] fit(1)] by blast
  let ?w3 = "log_call (FsClosedir path) w2"
  have 3: "did w ([Called (FsOpendir path)] @ (lstats path ds @ [Put s (concat (map dent_bytes (listing env (fs_log ?w1) path ds)))])
      @ [Called (FsClosedir path)]) ?w3"
    using did_trans [OF 1 did_trans [OF 2(2) did_calls(3)]] .
  obtain w4 where 4: "list_done env s ?w3 = Inr (0, w4)" "did ?w3 [Put s (wire_msg ''DONE'' [0, 0, 0, 0])] w4"
    using list_done_did [OF did_clean [OF 3 c]] by blast
  have "do_list env s path w = Inr (0, w4)" using op fit(2) 2 4 by (simp add: do_list_def Let_def)
  moreover have "did w ([Called (FsOpendir path)] @ lstats path ds @
      [Put s (concat (map dent_bytes (listing env (fs_log w @ [FsOpendir path]) path ds)) @ wire_msg ''DONE'' [0, 0, 0, 0]), Called (FsClosedir path)]) w4"
    using did_trans [OF 3 4(2)] by (rule did_eq) (simp_all add: log_call_def)
  ultimately show ?thesis by blast
qed

section \<open>Requests\<close>

definition sync_request :: "string \<Rightarrow> string \<Rightarrow> byte list" where
  "sync_request tag name = wire_msg tag [of_nat (length name)] @ bytes_of name"

lemma length_u32: "length (name :: string) \<le> 1024 \<Longrightarrow> unat (of_nat (length name) :: u32) = length name"
  by (simp add: unat_u32_of_nat)

lemma request_did:
  assumes "good_bytes (rd_ev w s) = sync_request tag name @ rest" "length tag = 4"
  shows "\<exists>w1 w2. readx s 8 w = Inr (Some (wire_msg tag [of_nat (length name)]), w1) \<and> readx s (length name) w1 = Inr (Some (bytes_of name), w2)
    \<and> did w [Got s (sync_request tag name)] w2"
proof -
  let ?m = "wire_msg tag [of_nat (length name)]"
  obtain w1 where 1: "readx s 8 w = Inr (Some ?m, w1)" "did w [Got s ?m] w1"
    using readx_did [of w s ?m "bytes_of name @ rest" 8] assms by (auto simp: sync_request_def)
  have "good_bytes (rd_ev w1 s) = bytes_of name @ rest" using did_stream [OF 1(2), of s] assms(1) by (simp add: sync_request_def)
  then obtain w2 where 2: "readx s (length name) w1 = Inr (Some (bytes_of name), w2)" "did w1 [Got s (bytes_of name)] w2"
    using readx_did [of w1 s "bytes_of name" rest "length name"] by auto
  have "did w [Got s (sync_request tag name)] w2" using did_trans [OF 1(2) 2(2)] by (rule did_eq) (simp_all add: sync_request_def)
  with 1 2 show ?thesis by blast
qed

text \<open>A command with a name that fits is carried out by its operation.\<close>

lemma command_begins:
  assumes "good_bytes (rd_ev w s) = sync_request tag name @ rest" "length name \<le> 1024" "CHR 0x00 \<notin> set name"
    and "(tag, f) \<in> set [(''STAT'', do_stat), (''LIST'', do_list), (''SEND'', do_send), (''RECV'', do_recv)]"
  shows "\<exists>w1. did w [Got s (sync_request tag name)] w1 \<and> sync_command env s w = bindr (f env s name w1) (\<lambda>(r, w). Inr (r = 0, w))"
proof -
  have "length tag = 4" using assms(4) by auto
  then obtain w1 w2 where r: "readx s 8 w = Inr (Some (wire_msg tag [of_nat (length name)]), w1)"
      "readx s (length name) w1 = Inr (Some (bytes_of name), w2)" "did w [Got s (sync_request tag name)] w2"
    using request_did [OF assms(1)] by blast
  have n: "cstr (bytes_of name @ [0]) = name" using assms(3) by (rule cstr_bytes_of)
  have "sync_command env s w = bindr (f env s name w2) (\<lambda>(r, w). Inr (r = 0, w))"
    using assms(2,4) r(1,2) by (auto simp: sync_command_def Let_def length_u32 n sync_id_defs)
  with r(3) show ?thesis by blast
qed

lemma loop_continues: "sync_command env s w = Inr (True, w') \<Longrightarrow> file_sync_loop env s w = file_sync_loop env s w'"
  by (subst file_sync_loop.simps) simp

end
