(* ===== verification/SyncClient.thy ===== *)
theory SyncClient
  imports SyncService
begin

text \<open>
  The client's end of file synchronisation (file_sync_client.c): listing, attribute queries,
  sending and receiving of files, and the copying of whole directories.
\<close>

section \<open>Requests\<close>

definition sync_quit :: "sync_env \<Rightarrow> fdesc \<Rightarrow> sync_state \<Rightarrow> sync_state res" where
  "sync_quit env fd w =
     (let be = host_be env in bindr (writex fd (syncmsg be [ID_QUIT be, 0]) w) (\<lambda>(_, w). Inr w))"

text \<open>A request is its identifier, the length of the path, and the path.\<close>

definition write_request :: "sync_env \<Rightarrow> fdesc \<Rightarrow> (bool \<Rightarrow> u32) \<Rightarrow> string \<Rightarrow> sync_state \<Rightarrow> (int \<times> sync_state) res" where
  "write_request env fd tag path w =
     (let be = host_be env in writex_both fd (syncmsg be [tag be, htoll be (of_nat (length path))]) (bytes_of path) w)"

text \<open>
  A length that the client keeps in an \<open>int\<close>. A negative one passes the test against the upper
  bound and becomes, as a \<open>size_t\<close>, a count far beyond the buffer.
\<close>

definition int_len :: "u32 \<Rightarrow> nat res" where
  "int_len n = (if sint n < 0 then Inl MemFault else Inr (nat (sint n)))"

function sync_ls_loop ::
  "sync_env \<Rightarrow> fdesc \<Rightarrow> (u32 \<Rightarrow> u32 \<Rightarrow> u32 \<Rightarrow> string \<Rightarrow> 'c \<Rightarrow> 'c) \<Rightarrow> 'c \<Rightarrow> sync_state \<Rightarrow> ((bool \<times> 'c) \<times> sync_state) res" where
  "sync_ls_loop env fd func cookie w =
     (let be = host_be env in
      bindr (readx fd 20 w) (\<lambda>(r, w).
        case r of
          None \<Rightarrow> Inr ((False, cookie), w)
        | Some m \<Rightarrow>
          let len = ltohl be (syncmsg_field be 4 m) in
          if syncmsg_field be 0 m = ID_DONE be then Inr ((True, cookie), w)
          else if syncmsg_field be 0 m \<noteq> ID_DENT be then Inr ((False, cookie), w)
          else if sint len > 256 then Inr ((False, cookie), w)
          else bindr (int_len len) (\<lambda>len.
            bindr (readx fd len w) (\<lambda>(r, w).
              case r of
                None \<Rightarrow> Inr ((False, cookie), w)
              | Some buf \<Rightarrow>
                sync_ls_loop env fd func
                  (func (ltohl be (syncmsg_field be 1 m)) (ltohl be (syncmsg_field be 2 m)) (ltohl be (syncmsg_field be 3 m))
                    (cstr (buf @ [0])) cookie) w))))"
  by pat_completeness auto
termination
  by (relation "measure (\<lambda>(env, fd, func, cookie, w). rd_left fd w)")
    (auto dest!: io_left intro: le_less_trans)

declare sync_ls_loop.simps [simp del]

definition sync_ls ::
  "sync_env \<Rightarrow> fdesc \<Rightarrow> string \<Rightarrow> (u32 \<Rightarrow> u32 \<Rightarrow> u32 \<Rightarrow> string \<Rightarrow> 'c \<Rightarrow> 'c) \<Rightarrow> 'c \<Rightarrow> sync_state \<Rightarrow> ((int \<times> 'c) \<times> sync_state) res" where
  "sync_ls env fd path func cookie w =
     (if length path > 1024 then Inr ((-1, cookie), fs_close fd w)
      else bindr (write_request env fd ID_LIST path w) (\<lambda>(r, w).
        if r \<noteq> 0 then Inr ((-1, cookie), fs_close fd w)
        else bindr (sync_ls_loop env fd func cookie w) (\<lambda>((ok, cookie), w).
          if ok then Inr ((0, cookie), w) else Inr ((-1, cookie), fs_close fd w))))"

section \<open>Attributes\<close>

definition sync_start_readtime :: "sync_env \<Rightarrow> fdesc \<Rightarrow> string \<Rightarrow> sync_state \<Rightarrow> (int \<times> sync_state) res" where
  "sync_start_readtime env fd path w =
     bindr (write_request env fd ID_STAT path w) (\<lambda>(r, w). Inr (if r \<noteq> 0 then -1 else 0, w))"

text \<open>The reply, as time, mode and size.\<close>

definition sync_finish_readtime :: "sync_env \<Rightarrow> fdesc \<Rightarrow> sync_state \<Rightarrow> ((u32 \<times> u32 \<times> u32) option \<times> sync_state) res" where
  "sync_finish_readtime env fd w =
     (let be = host_be env in
      bindr (readx fd 16 w) (\<lambda>(r, w).
        case r of
          None \<Rightarrow> Inr (None, w)
        | Some m \<Rightarrow>
          if syncmsg_field be 0 m \<noteq> ID_STAT be then Inr (None, w)
          else Inr (Some (ltohl be (syncmsg_field be 3 m), ltohl be (syncmsg_field be 1 m), ltohl be (syncmsg_field be 2 m)), w)))"

definition sync_readtime :: "sync_env \<Rightarrow> fdesc \<Rightarrow> string \<Rightarrow> sync_state \<Rightarrow> (u32 option \<times> sync_state) res" where
  "sync_readtime env fd path w =
     bindr (write_request env fd ID_STAT path w) (\<lambda>(r, w).
       if r \<noteq> 0 then Inr (None, w)
       else bindr (sync_finish_readtime env fd w) (\<lambda>(r, w). Inr (map_option fst r, w)))"

definition sync_readmode :: "sync_env \<Rightarrow> fdesc \<Rightarrow> string \<Rightarrow> sync_state \<Rightarrow> (u32 option \<times> sync_state) res" where
  "sync_readmode env fd path w =
     bindr (write_request env fd ID_STAT path w) (\<lambda>(r, w).
       if r \<noteq> 0 then Inr (None, w)
       else bindr (sync_finish_readtime env fd w) (\<lambda>(r, w). Inr (map_option (fst \<circ> snd) r, w)))"

section \<open>Sending\<close>

definition count_bytes :: "nat \<Rightarrow> sync_state \<Rightarrow> sync_state" where
  "count_bytes n w = w\<lparr>total_bytes := total_bytes w + of_nat n\<rparr>"

text \<open>One \<open>writex\<close> of the head of \<open>send_buffer\<close>: identifier, size and data.\<close>

definition write_sbuf :: "sync_env \<Rightarrow> fdesc \<Rightarrow> byte list \<Rightarrow> sync_state \<Rightarrow> (int \<times> sync_state) res" where
  "write_sbuf env fd data w =
     (let be = host_be env in writex fd (syncmsg be [ID_DATA be, htoll be (of_nat (length data))] @ data) (fill_buf data w))"

function write_file_loop :: "sync_env \<Rightarrow> fdesc \<Rightarrow> fdesc \<Rightarrow> sync_state \<Rightarrow> (int \<times> sync_state) res" where
  "write_file_loop env fd lfd w =
     (case adb_read lfd SYNC_DATA_MAX w of
        Inl e \<Rightarrow> Inl e
      | Inr (IoErr e, _, w) \<Rightarrow> if e = EINTR then write_file_loop env fd lfd w else Inr (0, w)
      | Inr (IoN ret, data, w) \<Rightarrow>
          if ret = 0 then Inr (0, w)
          else bindr (write_sbuf env fd data w) (\<lambda>(r, w).
            if r \<noteq> 0 then Inr (-1, w) else write_file_loop env fd lfd (count_bytes ret w)))"
  by pat_completeness auto
termination
  by (relation "measure (\<lambda>(env, fd, lfd, w). rd_left lfd w)")
    (auto dest: adb_read_left dest!: io_left simp: adb_read_not_EINTR write_sbuf_def Let_def count_bytes_def rd_left_def fill_buf_def)

declare write_file_loop.simps [simp del]

definition write_data_file :: "sync_env \<Rightarrow> fdesc \<Rightarrow> string \<Rightarrow> sync_state \<Rightarrow> (int \<times> sync_state) res" where
  "write_data_file env fd path w =
     (let (r, w) = fs_open env path RDONLY 0 w in
      case r of
        Inl e \<Rightarrow> Inr (-1, w)
      | Inr lfd \<Rightarrow> bindr (write_file_loop env fd lfd w) (\<lambda>(err, w). Inr (err, fs_close lfd w)))"

function write_data_buffer :: "sync_env \<Rightarrow> fdesc \<Rightarrow> byte list \<Rightarrow> sync_state \<Rightarrow> (int \<times> sync_state) res" where
  "write_data_buffer env fd bs w =
     (if bs = [] then Inr (0, w)
      else bindr (write_sbuf env fd (take SYNC_DATA_MAX bs) w) (\<lambda>(r, w).
        if r \<noteq> 0 then Inr (-1, w)
        else write_data_buffer env fd (drop SYNC_DATA_MAX bs) (count_bytes (min SYNC_DATA_MAX (length bs)) w)))"
  by pat_completeness auto
termination
  by (relation "measure (\<lambda>(env, fd, bs, w). length bs)") (auto simp: SYNC_DATA_MAX_def)

declare write_data_buffer.simps [simp del]

definition write_data_link :: "sync_env \<Rightarrow> fdesc \<Rightarrow> string \<Rightarrow> sync_state \<Rightarrow> (int \<times> sync_state) res" where
  "write_data_link env fd path w =
     (let r = os_readlink env (fs_log w) path; w = log_call (FsReadlink path (SYNC_DATA_MAX - 1)) w in
      case r of
        None \<Rightarrow> Inr (-1, w)
      | Some target \<Rightarrow>
          let data = take (SYNC_DATA_MAX - 1) target @ [0] in
          bindr (write_sbuf env fd data w) (\<lambda>(r, w).
            if r \<noteq> 0 then Inr (-1, w) else Inr (0, count_bytes (length data) w)))"

text \<open>
  The check of a package: the whole file is read into memory and must be a zip file with a
  manifest. The result is the code to return, or the contents.
\<close>

definition read_apk :: "sync_env \<Rightarrow> string \<Rightarrow> sync_state \<Rightarrow> ((int + byte list) \<times> sync_state) res" where
  "read_apk env lpath w =
     (let (r, w) = fs_open env lpath RDONLY 0 w in
      case r of
        Inl e \<Rightarrow> Inr (Inl (-1), w)
      | Inr lfd \<Rightarrow>
          let size = os_lseek env (fs_log w) lfd True; w = log_call (FsLseek lfd True) w in
          if size = -1 then Inr (Inl 1, fs_close lfd w)
          else let start = os_lseek env (fs_log w) lfd False; w = log_call (FsLseek lfd False) w in
          if start = -1 then Inr (Inl 1, fs_close lfd w)
          else if \<not> malloc_ok env then Inr (Inl 1, fs_close lfd w)
          else (case adb_read lfd (nat size) w of
            Inl e \<Rightarrow> Inl e
          | Inr (amt, data, w) \<Rightarrow>
              if amt \<noteq> IoN (nat size) then Inr (Inl 1, fs_close lfd w)
              else Inr (if zip_manifest env data = Some True then Inr data else Inl 1, fs_close lfd w)))"

definition send_data :: "sync_env \<Rightarrow> fdesc \<Rightarrow> string \<Rightarrow> u32 \<Rightarrow> byte list option \<Rightarrow> sync_state \<Rightarrow> (int option \<times> sync_state) res" where
  "send_data env fd lpath mode file_buffer w =
     (let some = (\<lambda>m. bindr m (\<lambda>(r, w). Inr (Some r, w))) in
      case file_buffer of
        Some bs \<Rightarrow> some (write_data_buffer env fd bs w)
      | None \<Rightarrow>
          if S_ISREG mode then some (write_data_file env fd lpath w)
          else if S_ISLNK mode then some (write_data_link env fd lpath w)
          else Inr (None, w))"

text \<open>The server's answer; its reason for a failure goes to the buffer.\<close>

definition send_status :: "sync_env \<Rightarrow> fdesc \<Rightarrow> sync_state \<Rightarrow> (int \<times> sync_state) res" where
  "send_status env fd w =
     (let be = host_be env in
      bindr (readx fd 8 w) (\<lambda>(r, w).
        case r of
          None \<Rightarrow> Inr (-1, w)
        | Some m \<Rightarrow>
          if syncmsg_field be 0 m = ID_OKAY be then Inr (0, w)
          else if syncmsg_field be 0 m = ID_FAIL be then
            bindr (int_len (ltohl be (syncmsg_field be 1 m))) (\<lambda>len.
              bindr (readx fd (min len 256) w) (\<lambda>(r, w).
                case r of None \<Rightarrow> Inr (-1, w) | Some reason \<Rightarrow> Inr (-1, fill_buf (reason @ [0]) w)))
          else Inr (-1, fill_buf (bytes_of ''unknown reason'' @ [0]) w)))"

definition sync_send :: "sync_env \<Rightarrow> fdesc \<Rightarrow> string \<Rightarrow> string \<Rightarrow> u32 \<Rightarrow> u32 \<Rightarrow> bool \<Rightarrow> sync_state \<Rightarrow> (int \<times> sync_state) res" where
  "sync_send env fd lpath rpath mtime mode verifyApk w =
     (let be = host_be env; fail = (\<lambda>w. Inr (-1, fs_close fd w)); tmp = '','' @ fmt_d (sint mode) in
      if length rpath > 1024 then fail w
      else bindr (if verifyApk then bindr (read_apk env lpath w) (\<lambda>(r, w). Inr (map_sum id Some r, w)) else Inr (Inr None, w)) (\<lambda>(r, w).
        case r of
          Inl code \<Rightarrow> Inr (code, w)
        | Inr file_buffer \<Rightarrow>
          bindr (writex_both fd (syncmsg be [ID_SEND be, htoll be (of_nat (length rpath + length tmp))]) (bytes_of rpath) w) (\<lambda>(r, w).
            if r \<noteq> 0 then fail w
            else bindr (writex fd (bytes_of tmp) w) (\<lambda>(r, w).
              if r \<noteq> 0 then fail w
              else bindr (send_data env fd lpath mode file_buffer w) (\<lambda>(r, w).
                if r = None then fail w
                else bindr (writex fd (syncmsg be [ID_DONE be, htoll be mtime]) w) (\<lambda>(r, w).
                  if r \<noteq> 0 then fail w else send_status env fd w))))))"

section \<open>Receiving\<close>

definition client_mkdirs :: "sync_env \<Rightarrow> string \<Rightarrow> sync_state \<Rightarrow> (int \<times> sync_state) res" where
  "client_mkdirs env name w = (if name = [] then Inl MemFault else Inr (mkdirs_loop env [hd name] (tl name) w))"

text \<open>The code after \<open>remote_error\<close>: it returns 0 unless the reason for the failure cannot be read.\<close>

definition recv_remote_error :: "sync_env \<Rightarrow> fdesc \<Rightarrow> fdesc \<Rightarrow> string \<Rightarrow> u32 \<Rightarrow> u32 \<Rightarrow> sync_state \<Rightarrow> (int \<times> sync_state) res" where
  "recv_remote_error env fd lfd lpath tag len w =
     (let be = host_be env; w = adb_unlink lpath (fs_close lfd w) in
      if tag = ID_FAIL be then
        bindr (int_len len) (\<lambda>len.
          bindr (readx fd (min len 256) w) (\<lambda>(r, w).
            case r of None \<Rightarrow> Inr (-1, w) | Some reason \<Rightarrow> Inr (0, fill_buf (reason @ [0]) w)))
      else Inr (0, fill_buf (mem_bytes be tag @ [0]) w))"

text \<open>The loop of \<open>sync_recv\<close> from the label \<open>handle_data\<close> on, with the message just read.\<close>

function sync_recv_loop :: "sync_env \<Rightarrow> fdesc \<Rightarrow> fdesc \<Rightarrow> string \<Rightarrow> u32 \<Rightarrow> u32 \<Rightarrow> sync_state \<Rightarrow> (int \<times> sync_state) res" where
  "sync_recv_loop env fd lfd lpath tag len w =
     (let be = host_be env in
      if tag = ID_DONE be then Inr (0, fs_close lfd w)
      else if tag \<noteq> ID_DATA be then recv_remote_error env fd lfd lpath tag len w
      else if sint len > int SYNC_DATA_MAX then Inr (-1, fs_close lfd w)
      else bindr (int_len len) (\<lambda>len.
        bindr (readx fd len w) (\<lambda>(r, w).
          case r of
            None \<Rightarrow> Inr (-1, fs_close lfd w)
          | Some data \<Rightarrow>
            bindr (writex lfd data (fill_buf data w)) (\<lambda>(r, w).
              if r \<noteq> 0 then Inr (-1, fs_close lfd w)
              else bindr (readx fd 8 (count_bytes len w)) (\<lambda>(r, w).
                case r of
                  None \<Rightarrow> Inr (-1, w)
                | Some m \<Rightarrow>
                    sync_recv_loop env fd lfd lpath (syncmsg_field be 0 m) (ltohl be (syncmsg_field be 1 m)) w)))))"
  by pat_completeness auto
termination
  by (relation "measure (\<lambda>(env, fd, lfd, lpath, tag, len, w). rd_left fd w)")
    (auto dest!: io_left simp: count_bytes_def rd_left_def fill_buf_def intro: less_le_trans)

declare sync_recv_loop.simps [simp del]

definition sync_recv :: "sync_env \<Rightarrow> fdesc \<Rightarrow> string \<Rightarrow> string \<Rightarrow> sync_state \<Rightarrow> (int \<times> sync_state) res" where
  "sync_recv env fd rpath lpath w =
     (let be = host_be env in
      if length rpath > 1024 then Inr (-1, w)
      else bindr (write_request env fd ID_RECV rpath w) (\<lambda>(r, w).
        if r \<noteq> 0 then Inr (-1, w)
        else bindr (readx fd 8 w) (\<lambda>(r, w).
          case r of
            None \<Rightarrow> Inr (-1, w)
          | Some m \<Rightarrow>
            let id = syncmsg_field be 0 m; len = ltohl be (syncmsg_field be 1 m) in
            if id = ID_DATA be \<or> id = ID_DONE be then
              bindr (client_mkdirs env lpath (adb_unlink lpath w)) (\<lambda>(_, w).
                let (r, w) = fs_open env lpath CREAT_TRUNC 0x1A4 w in
                case r of
                  Inl e \<Rightarrow> Inr (-1, w)
                | Inr lfd \<Rightarrow> sync_recv_loop env fd lfd lpath id len w)
            else recv_remote_error env fd (-1) lpath id len w)))"

section \<open>Lists of files to copy\<close>

record copyinfo =
  ci_src :: string
  ci_dst :: string
  ci_time :: u32
  ci_mode :: u32
  ci_size :: u32
  ci_flag :: bool

definition mkcopyinfo :: "string \<Rightarrow> string \<Rightarrow> string \<Rightarrow> bool \<Rightarrow> copyinfo" where
  "mkcopyinfo spath dpath name isdir =
     (let end = (if isdir then ''/'' else []) in
      \<lparr>ci_src = spath @ name @ end, ci_dst = dpath @ name @ end, ci_time = 0, ci_mode = 0, ci_size = 0, ci_flag = False\<rparr>)"

definition PATH_MAX :: nat where "PATH_MAX = 4096"

definition is_dot :: "string \<Rightarrow> bool" where
  "is_dot name \<longleftrightarrow> name = ''.'' \<or> name = ''..''"

primrec fold_res :: "('a \<Rightarrow> 's \<Rightarrow> ('e + 's)) \<Rightarrow> 'a list \<Rightarrow> 's \<Rightarrow> 'e + 's" where
  "fold_res f [] s = Inr s"
| "fold_res f (x # xs) s = bindr (f x s) (fold_res f xs)"

text \<open>
  The loop over the entries of a local directory. \<open>st\<close> is the local variable of that name, which
  \<open>stat\<close> leaves alone when it fails. The result is \<open>None\<close> when an entry cannot be examined, else
  the file list and the directory list.
\<close>

fun local_scan :: "sync_env \<Rightarrow> string \<Rightarrow> string \<Rightarrow> string list \<Rightarrow> file_stat option \<Rightarrow> copyinfo list \<Rightarrow> copyinfo list \<Rightarrow> sync_state
    \<Rightarrow> ((copyinfo list \<times> copyinfo list) option \<times> sync_state) res" where
  "local_scan env lpath rpath [] st files dirs w = Inr (Some (files, dirs), w)"
| "local_scan env lpath rpath (name # ds) st files dirs w =
     (if is_dot name then local_scan env lpath rpath ds st files dirs w
      else if length lpath + length name + 1 > PATH_MAX then local_scan env lpath rpath ds st files dirs w
      else
        let (r, w) = fs_stat env (lpath @ name) w; st = (if r = None then st else r) in
        case st of
          None \<Rightarrow> Inl MemFault
        | Some s \<Rightarrow>
            if S_ISDIR (st_mode s) then local_scan env lpath rpath ds st files (mkcopyinfo lpath rpath name True # dirs) w
            else
              let ci = mkcopyinfo lpath rpath name False; (r, w) = lstat env (ci_src ci) w in
              case r of
                None \<Rightarrow> Inr (None, w)
              | Some s \<Rightarrow>
                  if \<not> S_ISREG (st_mode s) \<and> \<not> S_ISLNK (st_mode s) then local_scan env lpath rpath ds r files dirs w
                  else local_scan env lpath rpath ds r
                    (ci\<lparr>ci_time := word_of_int (st_mtime s), ci_mode := st_mode s, ci_size := of_nat (st_size s)\<rparr> # files) dirs w)"

text \<open>The depth of the directory tree is bounded by the fuel.\<close>

primrec local_build_list :: "nat \<Rightarrow> sync_env \<Rightarrow> string \<Rightarrow> string \<Rightarrow> copyinfo list \<times> sync_state \<Rightarrow> ((int \<times> copyinfo list) \<times> sync_state) res" where
  "local_build_list 0 = (\<lambda>env lpath rpath s. Inl TooDeep)"
| "local_build_list (Suc n) = (\<lambda>env lpath rpath (files, w).
     let d = os_opendir env (fs_log w) lpath; w = log_call (FsOpendir lpath) w in
     case d of
       None \<Rightarrow> Inr ((-1, files), w)
     | Some names \<Rightarrow>
         bindr (local_scan env lpath rpath names None files [] w) (\<lambda>(r, w).
           let w = log_call (FsClosedir lpath) w in
           case r of
             None \<Rightarrow> Inr ((-1, files), w)
           | Some (files, dirs) \<Rightarrow>
               bindr (fold_res (\<lambda>ci s. bindr (local_build_list n env (ci_src ci) (ci_dst ci) s) (\<lambda>((_, files), w). Inr (files, w))) dirs (files, w))
                 (\<lambda>(files, w). Inr ((0, files), w))))"

definition with_slash :: "string \<Rightarrow> string" where
  "with_slash p = (if last p \<noteq> CHR ''/'' then p @ ''/'' else p)"

text \<open>Whether the other end already has the file.\<close>

definition up_to_date :: "copyinfo \<Rightarrow> u32 \<Rightarrow> u32 \<Rightarrow> u32 \<Rightarrow> bool" where
  "up_to_date ci timestamp mode sz \<longleftrightarrow>
     sz = ci_size ci \<and>
     (S_ISREG (ci_mode ci AND mode) \<and> timestamp = ci_time ci \<or> S_ISLNK (ci_mode ci AND mode) \<and> timestamp \<ge> ci_time ci)"

fun start_readtimes :: "sync_env \<Rightarrow> fdesc \<Rightarrow> copyinfo list \<Rightarrow> sync_state \<Rightarrow> (int \<times> sync_state) res" where
  "start_readtimes env fd [] w = Inr (0, w)"
| "start_readtimes env fd (ci # cs) w =
     bindr (sync_start_readtime env fd (ci_dst ci) w) (\<lambda>(r, w). if r \<noteq> 0 then Inr (1, w) else start_readtimes env fd cs w)"

fun finish_readtimes :: "sync_env \<Rightarrow> fdesc \<Rightarrow> copyinfo list \<Rightarrow> sync_state \<Rightarrow> (copyinfo list option \<times> sync_state) res" where
  "finish_readtimes env fd [] w = Inr (Some [], w)"
| "finish_readtimes env fd (ci # cs) w =
     bindr (sync_finish_readtime env fd w) (\<lambda>(r, w).
       case r of
         None \<Rightarrow> Inr (None, w)
       | Some (timestamp, mode, sz) \<Rightarrow>
           bindr (finish_readtimes env fd cs w) (\<lambda>(r, w).
             Inr (map_option (\<lambda>cs. (if up_to_date ci timestamp mode sz then ci\<lparr>ci_flag := True\<rparr> else ci) # cs) r, w)))"

fun push_files :: "sync_env \<Rightarrow> fdesc \<Rightarrow> bool \<Rightarrow> copyinfo list \<Rightarrow> sync_state \<Rightarrow> (int \<times> sync_state) res" where
  "push_files env fd listonly [] w = Inr (0, w)"
| "push_files env fd listonly (ci # cs) w =
     (if ci_flag ci \<or> listonly then push_files env fd listonly cs w
      else bindr (sync_send env fd (ci_src ci) (ci_dst ci) (ci_time ci) (ci_mode ci) False w) (\<lambda>(r, w).
        if r \<noteq> 0 then Inr (1, w) else push_files env fd listonly cs w))"

definition copy_local_dir_remote :: "nat \<Rightarrow> sync_env \<Rightarrow> fdesc \<Rightarrow> string \<Rightarrow> string \<Rightarrow> bool \<Rightarrow> bool \<Rightarrow> sync_state \<Rightarrow> (int \<times> sync_state) res" where
  "copy_local_dir_remote n env fd lpath rpath checktimestamps listonly w =
     (if lpath = [] \<or> rpath = [] then Inr (-1, w)
      else bindr (local_build_list n env (with_slash lpath) (with_slash rpath) ([], w)) (\<lambda>((r, files), w).
        if r \<noteq> 0 then Inr (-1, w)
        else if checktimestamps then
          bindr (start_readtimes env fd files w) (\<lambda>(r, w).
            if r \<noteq> 0 then Inr (1, w)
            else bindr (finish_readtimes env fd files w) (\<lambda>(r, w).
              case r of None \<Rightarrow> Inr (1, w) | Some files \<Rightarrow> push_files env fd listonly files w))
        else push_files env fd listonly files w))"

text \<open>The callback of \<open>sync_ls\<close> that collects what to pull.\<close>

definition sync_ls_build_list_cb :: "string \<Rightarrow> string \<Rightarrow> u32 \<Rightarrow> u32 \<Rightarrow> u32 \<Rightarrow> string \<Rightarrow> copyinfo list \<times> copyinfo list \<Rightarrow> copyinfo list \<times> copyinfo list" where
  "sync_ls_build_list_cb rpath lpath mode sz time name = (\<lambda>(files, dirs).
     if S_ISDIR mode then
       if is_dot name then (files, dirs) else (files, mkcopyinfo rpath lpath name True # dirs)
     else if S_ISREG mode \<or> S_ISLNK mode then
       ((mkcopyinfo rpath lpath name False)\<lparr>ci_time := time, ci_mode := mode, ci_size := sz\<rparr> # files, dirs)
     else (files, dirs))"

primrec remote_build_list :: "nat \<Rightarrow> sync_env \<Rightarrow> fdesc \<Rightarrow> string \<Rightarrow> string \<Rightarrow> copyinfo list \<times> sync_state \<Rightarrow> ((int \<times> copyinfo list) \<times> sync_state) res" where
  "remote_build_list 0 = (\<lambda>env syncfd rpath lpath s. Inl TooDeep)"
| "remote_build_list (Suc n) = (\<lambda>env syncfd rpath lpath (files, w).
     bindr (sync_ls env syncfd rpath (sync_ls_build_list_cb rpath lpath) (files, []) w) (\<lambda>((r, files, dirs), w).
       if r \<noteq> 0 then Inr ((1, files), w)
       else bindr (fold_res (\<lambda>ci ((r, files), w).
              if r \<noteq> 0 then Inr ((r, files), w) else remote_build_list n env syncfd (ci_src ci) (ci_dst ci) (files, w)) dirs ((0, files), w))
            (\<lambda>((r, files), w). Inr ((if r \<noteq> 0 then 1 else 0, files), w))))"

fun pull_files :: "sync_env \<Rightarrow> fdesc \<Rightarrow> copyinfo list \<Rightarrow> sync_state \<Rightarrow> (int \<times> sync_state) res" where
  "pull_files env fd [] w = Inr (0, w)"
| "pull_files env fd (ci # cs) w =
     (if ci_flag ci then pull_files env fd cs w
      else bindr (sync_recv env fd (ci_src ci) (ci_dst ci) w) (\<lambda>(r, w). if r \<noteq> 0 then Inr (1, w) else pull_files env fd cs w))"

definition copy_remote_dir_local :: "nat \<Rightarrow> sync_env \<Rightarrow> fdesc \<Rightarrow> string \<Rightarrow> string \<Rightarrow> sync_state \<Rightarrow> (int \<times> sync_state) res" where
  "copy_remote_dir_local n env fd rpath lpath w =
     (if rpath = [] \<or> lpath = [] then Inr (-1, w)
      else bindr (remote_build_list n env fd (with_slash rpath) (with_slash lpath) ([], w)) (\<lambda>((r, files), w).
        if r \<noteq> 0 then Inr (-1, w) else pull_files env fd files w))"

section \<open>Commands\<close>

text \<open>
  The commands run on the descriptor that \<open>adb_connect\<close> returned for the service \<open>sync:\<close>. A plain
  file that is copied to a directory goes into it under its own name.
\<close>

definition into_dir :: "string \<Rightarrow> string \<Rightarrow> string" where
  "into_dir dir file = dir @ ''/'' @ (case strrchr file CHR ''/'' of None \<Rightarrow> file | Some i \<Rightarrow> drop (Suc i) file)"

text \<open>The end of a command: \<open>sync_quit\<close> and the exit code when the copy succeeded, else 1.\<close>

definition sync_end :: "sync_env \<Rightarrow> fdesc \<Rightarrow> int \<Rightarrow> sync_state \<Rightarrow> (int \<times> sync_state) res" where
  "sync_end env fd r w = (if r \<noteq> 0 then Inr (1, w) else bindr (sync_quit env fd w) (\<lambda>w. Inr (0, w)))"

definition do_sync_ls ::
  "sync_env \<Rightarrow> fdesc \<Rightarrow> string \<Rightarrow> sync_state \<Rightarrow> ((int \<times> (u32 \<times> u32 \<times> u32 \<times> string) list) \<times> sync_state) res" where
  "do_sync_ls env fd path w =
     (if fd < 0 then Inr ((1, []), w)
      else bindr (sync_ls env fd path (\<lambda>mode size time name out. out @ [(mode, size, time, name)]) [] w) (\<lambda>((r, out), w).
        bindr (sync_end env fd r w) (\<lambda>(r, w). Inr ((r, out), w))))"

definition do_sync_push :: "nat \<Rightarrow> sync_env \<Rightarrow> fdesc \<Rightarrow> string \<Rightarrow> string \<Rightarrow> bool \<Rightarrow> sync_state \<Rightarrow> (int \<times> sync_state) res" where
  "do_sync_push n env fd lpath rpath verifyApk w =
     (if fd < 0 then Inr (1, w)
      else let (r, w) = fs_stat env lpath w in
        case r of
          None \<Rightarrow> bindr (sync_quit env fd w) (\<lambda>w. Inr (1, w))
        | Some st \<Rightarrow>
            if S_ISDIR (st_mode st) then
              bindr (copy_local_dir_remote n env fd lpath rpath False False (w\<lparr>total_bytes := 0\<rparr>)) (\<lambda>(r, w). sync_end env fd r w)
            else bindr (sync_readmode env fd rpath w) (\<lambda>(mode, w).
              case mode of
                None \<Rightarrow> Inr (1, w)
              | Some mode \<Rightarrow>
                  let rpath = (if mode \<noteq> 0 \<and> S_ISDIR mode then into_dir rpath lpath else rpath) in
                  bindr (sync_send env fd lpath rpath (word_of_int (st_mtime st)) (st_mode st) verifyApk (w\<lparr>total_bytes := 0\<rparr>))
                    (\<lambda>(r, w). sync_end env fd r w)))"

definition do_sync_pull :: "nat \<Rightarrow> sync_env \<Rightarrow> fdesc \<Rightarrow> string \<Rightarrow> string \<Rightarrow> sync_state \<Rightarrow> (int \<times> sync_state) res" where
  "do_sync_pull n env fd rpath lpath w =
     (if fd < 0 then Inr (1, w)
      else bindr (sync_readmode env fd rpath w) (\<lambda>(mode, w).
        case mode of
          None \<Rightarrow> Inr (1, w)
        | Some mode \<Rightarrow>
            if mode = 0 then Inr (1, w)
            else if S_ISREG mode \<or> S_ISLNK mode \<or> S_ISCHR mode \<or> S_ISBLK mode then
              let (r, w) = fs_stat env lpath w;
                  lpath = (case r of Some st \<Rightarrow> if S_ISDIR (st_mode st) then into_dir lpath rpath else lpath | None \<Rightarrow> lpath) in
              bindr (sync_recv env fd rpath lpath (w\<lparr>total_bytes := 0\<rparr>)) (\<lambda>(r, w). sync_end env fd r w)
            else if S_ISDIR mode then
              bindr (copy_remote_dir_local n env fd rpath lpath (w\<lparr>total_bytes := 0\<rparr>)) (\<lambda>(r, w). sync_end env fd r w)
            else Inr (1, w)))"

definition do_sync_sync :: "nat \<Rightarrow> sync_env \<Rightarrow> fdesc \<Rightarrow> string \<Rightarrow> string \<Rightarrow> bool \<Rightarrow> sync_state \<Rightarrow> (int \<times> sync_state) res" where
  "do_sync_sync n env fd lpath rpath listonly w =
     (if fd < 0 then Inr (1, w)
      else bindr (copy_local_dir_remote n env fd lpath rpath True listonly (w\<lparr>total_bytes := 0\<rparr>)) (\<lambda>(r, w). sync_end env fd r w))"

section \<open>What the client sends\<close>

lemma did_count: "did w [] (count_bytes n w)"
  by (simp add: did_def count_bytes_def)

lemma write_request_did:
  assumes "wr_clean (wr_ev w fd)"
  shows "\<exists>w'. write_request env fd (\<lambda>be. MKID be a b c d) path w = Inr (0, w') \<and> did w [Put fd (sync_request [a, b, c, d] path)] w'"
  using writex_both_did [OF assms, of "wire_msg [a, b, c, d] [of_nat (length path)]" "bytes_of path"]
  by (auto simp: write_request_def Let_def syncmsg_wire_simps sync_request_def)

lemma write_sbuf_did:
  assumes "wr_clean (wr_ev w fd)"
  shows "\<exists>w'. write_sbuf env fd c w = Inr (0, w') \<and> did w [Put fd (data_stream [c])] w'"
proof -
  obtain w' where "writex fd (data_stream [c]) (fill_buf c w) = Inr (0, w')" "did (fill_buf c w) [Put fd (data_stream [c])] w'"
    using writex_did [OF did_clean [OF did_calls(2) assms]] by blast
  with did_trans [OF did_calls(2) this(2)] show ?thesis by (auto simp: write_sbuf_def Let_def ID_DATA_def syncmsg_wire_simps)
qed

lemma write_file_loop_sends:
  assumes "rd_end (rd_ev w lfd) = Some q" "wr_clean (wr_ev w fd)"
  shows "\<exists>cs w'. write_file_loop env fd lfd w = Inr (0, w') \<and> pieces cs \<and> concat cs = good_bytes (rd_ev w lfd)
           \<and> did w [Got lfd (concat cs), Put fd (data_stream cs)] w'"
  using assms
proof (induction "rd_left lfd w" arbitrary: w rule: less_induct)
  case less
  have "(0::nat) < SYNC_DATA_MAX" by (simp add: SYNC_DATA_MAX_def)
  from adb_read_did [OF less.prems(1) this] show ?case
  proof (elim disjE exE conjE)
    fix w' assume e: "good_bytes (rd_ev w lfd) = []"
      and r: "adb_read lfd SYNC_DATA_MAX w = Inr (case q of None \<Rightarrow> IoN 0 | Some e \<Rightarrow> IoErr e, [], w')" and d: "did w [Got lfd []] w'"
    have "write_file_loop env fd lfd w = Inr (0, w')"
      using r rd_end_not_EINTR [of "rd_ev w lfd"] less.prems(1) by (subst write_file_loop.simps) (auto split: option.splits)
    moreover have "did w [Got lfd (concat []), Put fd (data_stream [])] w'" using d by (rule did_eq) simp_all
    ultimately show ?thesis using e by (intro exI [of _ "[]"] exI [of _ w']) simp
  next
    fix c w1 assume c: "adb_read lfd SYNC_DATA_MAX w = Inr (IoN (length c), c, w1)" "c \<noteq> []" "length c \<le> SYNC_DATA_MAX"
      "did w [Got lfd c] w1" "rd_end (rd_ev w1 lfd) = Some q" "rd_left lfd w1 < rd_left lfd w"
    obtain w2 where 2: "write_sbuf env fd c w1 = Inr (0, w2)" "did w1 [Put fd (data_stream [c])] w2"
      using write_sbuf_did [OF did_clean [OF c(4) less.prems(2)]] by blast
    let ?w3 = "count_bytes (length c) w2"
    have d: "did w [Got lfd c, Put fd (data_stream [c])] ?w3" using did_trans [OF did_trans [OF c(4) 2(2)] did_count] by simp
    have same: "rd_ev ?w3 = rd_ev w1" using did_same [OF did_trans [OF 2(2) did_count [of w2 "length c"]]] by (auto simp: fun_eq_iff)
    have "write_file_loop env fd lfd w = write_file_loop env fd lfd ?w3"
      using c(1,2) 2(1) by (subst write_file_loop.simps) simp
    moreover obtain cs w' where "write_file_loop env fd lfd ?w3 = Inr (0, w')" "pieces cs" "concat cs = good_bytes (rd_ev ?w3 lfd)"
      "did ?w3 [Got lfd (concat cs), Put fd (data_stream cs)] w'"
      using less.hyps [of ?w3] c same did_clean [OF d less.prems(2)] by (auto simp: rd_left_def)
    moreover have "did w [Got lfd (concat (c # cs)), Put fd (data_stream (c # cs))] w'"
      using did_trans [OF d calculation(5)] by (rule did_eq) auto
    moreover have "good_bytes (rd_ev w lfd) = c @ good_bytes (rd_ev ?w3 lfd)" using d by (simp add: did_def)
    ultimately show ?thesis using c(2,3) by (intro exI [of _ "c # cs"] exI [of _ w']) simp
  qed
qed

lemma write_data_file_sends:
  assumes op: "os_open env (fs_log w) path RDONLY 0 = Inr lfd" and e: "rd_end (rd_ev w (int lfd)) = Some q" and c: "wr_clean (wr_ev w fd)"
  shows "\<exists>cs w'. write_data_file env fd path w = Inr (0, w') \<and> pieces cs \<and> concat cs = good_bytes (rd_ev w (int lfd))
     \<and> did w [Called (FsOpen path RDONLY 0), Got (int lfd) (concat cs), Put fd (data_stream cs), Called (FsClose (int lfd))] w'"
proof -
  let ?w1 = "log_call (FsOpen path RDONLY 0) w"
  have 1: "did w [Called (FsOpen path RDONLY 0)] ?w1" by (rule did_calls)
  have same: "rd_ev ?w1 (int lfd) = rd_ev w (int lfd)" using did_same [OF 1] by simp
  obtain cs w2 where 2: "write_file_loop env fd (int lfd) ?w1 = Inr (0, w2)" "pieces cs" "concat cs = good_bytes (rd_ev w (int lfd))"
      "did ?w1 [Got (int lfd) (concat cs), Put fd (data_stream cs)] w2"
    using write_file_loop_sends [of ?w1 "int lfd" q fd env] e did_clean [OF 1 c] same by auto
  have "write_data_file env fd path w = Inr (0, fs_close (int lfd) w2)" using op 2(1) by (simp add: write_data_file_def fs_open_def)
  with did_trans [OF did_trans [OF 1 2(4)] did_calls(4)] 2(2,3) show ?thesis by auto
qed

text \<open>The bytes of a whole transfer.\<close>

definition push_name :: "string \<Rightarrow> u32 \<Rightarrow> string" where
  "push_name rpath mode = rpath @ '','' @ fmt_d (sint mode)"

lemma status_okay:
  assumes "good_bytes (rd_ev w fd) = wire_msg ''OKAY'' [n] @ rest"
  shows "\<exists>w'. send_status env fd w = Inr (0, w') \<and> did w [Got fd (wire_msg ''OKAY'' [n])] w'"
  using readx_did [OF assms, of 8] by (auto simp: send_status_def Let_def ID_OKAY_def)

lemma send_header_did:
  assumes "wr_clean (wr_ev w fd)"
  shows "\<exists>w1 w2. writex_both fd (wire_msg ''SEND'' [of_nat (length rpath + length ('','' @ fmt_d (sint mode)))]) (bytes_of rpath) w = Inr (0, w1)
    \<and> writex fd (bytes_of ('','' @ fmt_d (sint mode))) w1 = Inr (0, w2) \<and> did w [Put fd (sync_request ''SEND'' (push_name rpath mode))] w2"
proof -
  let ?m = "wire_msg ''SEND'' [of_nat (length rpath + length ('','' @ fmt_d (sint mode)))]"
  obtain w1 where 1: "writex_both fd ?m (bytes_of rpath) w = Inr (0, w1)" "did w [Put fd (?m @ bytes_of rpath)] w1"
    using writex_both_did [OF assms] by blast
  obtain w2 where 2: "writex fd (bytes_of ('','' @ fmt_d (sint mode))) w1 = Inr (0, w2)" "did w1 [Put fd (bytes_of ('','' @ fmt_d (sint mode)))] w2"
    using writex_did [OF did_clean [OF 1(2) assms]] by blast
  have "did w [Put fd (sync_request ''SEND'' (push_name rpath mode))] w2"
    using did_trans [OF 1(2) 2(2)] by (rule did_eq) (simp_all add: sync_request_def push_name_def)
  with 1 2 show ?thesis by blast
qed

lemma sync_send_sends:
  assumes mode: "S_ISREG mode" "length rpath \<le> 1024"
    and op: "os_open env (fs_log w) lpath RDONLY 0 = Inr lfd" and ne: "int lfd \<noteq> fd" and e: "rd_end (rd_ev w (int lfd)) = Some q"
    and c: "wr_clean (wr_ev w fd)" and ok: "good_bytes (rd_ev w fd) = wire_msg ''OKAY'' [n] @ rest"
  shows "\<exists>cs w'. sync_send env fd lpath rpath mtime mode False w = Inr (0, w') \<and> pieces cs \<and> concat cs = good_bytes (rd_ev w (int lfd))
     \<and> did w [Put fd (sync_request ''SEND'' (push_name rpath mode)), Called (FsOpen lpath RDONLY 0), Got (int lfd) (concat cs),
         Put fd (data_stream cs), Called (FsClose (int lfd)), Put fd (wire_msg ''DONE'' [mtime]), Got fd (wire_msg ''OKAY'' [n])] w'"
proof -
  obtain w1 w2 where 1: "writex_both fd (wire_msg ''SEND'' [of_nat (length rpath + length ('','' @ fmt_d (sint mode)))]) (bytes_of rpath) w = Inr (0, w1)"
      "writex fd (bytes_of ('','' @ fmt_d (sint mode))) w1 = Inr (0, w2)" "did w [Put fd (sync_request ''SEND'' (push_name rpath mode))] w2"
    using send_header_did [OF c] by blast
  have l: "fs_log w2 = fs_log w" "rd_ev w2 = rd_ev w" using did_log [OF 1(3)] did_same [OF 1(3)] by (auto simp: fun_eq_iff)
  obtain cs w3 where 3: "write_data_file env fd lpath w2 = Inr (0, w3)" "pieces cs" "concat cs = good_bytes (rd_ev w (int lfd))"
      "did w2 [Called (FsOpen lpath RDONLY 0), Got (int lfd) (concat cs), Put fd (data_stream cs), Called (FsClose (int lfd))] w3"
    using write_data_file_sends [of env w2 lpath lfd q fd] op e did_clean [OF 1(3) c] l by auto
  note d3 = did_trans [OF 1(3) 3(4)]
  obtain w4 where 4: "writex fd (wire_msg ''DONE'' [mtime]) w3 = Inr (0, w4)" "did w3 [Put fd (wire_msg ''DONE'' [mtime])] w4"
    using writex_did [OF did_clean [OF d3 c]] by blast
  note d4 = did_trans [OF d3 4(2)]
  have "good_bytes (rd_ev w4 fd) = wire_msg ''OKAY'' [n] @ rest" using did_stream [OF d4, of fd] ok ne by simp
  from status_okay [OF this] obtain w5 where 5: "send_status env fd w4 = Inr (0, w5)" "did w4 [Got fd (wire_msg ''OKAY'' [n])] w5" by blast
  have "sync_send env fd lpath rpath mtime mode False w = Inr (0, w5)"
    using mode 1(1,2) 3(1) 4(1) 5(1) by (simp add: sync_send_def send_data_def Let_def ID_SEND_def ID_DONE_def syncmsg_wire_simps ac_simps)
  with did_trans [OF d4 5(2)] 3(2,3) show ?thesis by auto
qed

section \<open>What the client receives\<close>

lemma int_len_small: "n < 2 ^ 31 \<Longrightarrow> sint (of_nat n :: u32) = int n \<and> int_len (of_nat n) = Inr n"
proof -
  assume n: "n < 2 ^ 31"
  then have "sint (of_nat n :: u32) = int n" by (simp add: signed_of_nat signed_take_bit_int_eq_self)
  then show ?thesis by (simp add: int_len_def)
qed

lemma piece_len: "length (c :: byte list) \<le> SYNC_DATA_MAX \<Longrightarrow> sint (of_nat (length c) :: u32) = int (length c) \<and> int_len (of_nat (length c)) = Inr (length c)"
  by (intro int_len_small) (simp add: SYNC_DATA_MAX_def)

text \<open>The stream of a file's messages, and the loop started with the first of them.\<close>

definition file_stream :: "byte list list \<Rightarrow> u32 \<Rightarrow> byte list" where
  "file_stream cs n = data_stream cs @ wire_msg ''DONE'' [n]"

lemma file_stream_length: "8 \<le> length (file_stream cs n)"
  by (simp add: file_stream_def)

lemma file_stream_parts:
  "take 8 (file_stream [] n) = wire_msg ''DONE'' [n]" "drop 8 (file_stream [] n) = []"
  "take 8 (file_stream (c # cs) n) = wire_msg ''DATA'' [of_nat (length c)]" "drop 8 (file_stream (c # cs) n) = c @ file_stream cs n"
  by (simp_all add: file_stream_def)

definition loop_on :: "sync_env \<Rightarrow> fdesc \<Rightarrow> fdesc \<Rightarrow> string \<Rightarrow> byte list \<Rightarrow> sync_state \<Rightarrow> (int \<times> sync_state) res" where
  "loop_on env fd lfd lpath m w =
     sync_recv_loop env fd lfd lpath (syncmsg_field (host_be env) 0 m) (ltohl (host_be env) (syncmsg_field (host_be env) 1 m)) w"

lemma tag_field: "syncmsg_field be 0 (wire_msg [a, b, c, d] ws) = MKID be a b c d"
  by simp

lemma loop_on_done: "loop_on env fd lfd lpath (wire_msg ''DONE'' [n]) w = Inr (0, fs_close lfd w)"
  unfolding loop_on_def by (subst sync_recv_loop.simps) (simp add: sync_id_defs tag_field Let_def)

lemma loop_on_data:
  assumes "length c \<le> SYNC_DATA_MAX" "readx fd (length c) w = Inr (Some c, w1)" "writex lfd c (fill_buf c w1) = Inr (0, w2)"
    and "readx fd 8 (count_bytes (length c) w2) = Inr (Some m, w3)"
  shows "loop_on env fd lfd lpath (wire_msg ''DATA'' [of_nat (length c)]) w = loop_on env fd lfd lpath m w3"
  unfolding loop_on_def using assms(2-) piece_len [OF assms(1)] assms(1)
  by (subst sync_recv_loop.simps) (simp add: sync_id_defs tag_field Let_def)

lemma loop_on_stores:
  assumes "good_bytes (rd_ev w fd) = drop 8 (file_stream cs n) @ rest" "pieces cs" "wr_clean (wr_ev w lfd)"
  shows "\<exists>w'. loop_on env fd lfd lpath (take 8 (file_stream cs n)) w = Inr (0, w')
     \<and> did w [Got fd (drop 8 (file_stream cs n)), Put lfd (concat cs), Called (FsClose lfd)] w'"
  using assms
proof (induction cs arbitrary: w)
  case Nil
  have "did w [Got fd [], Put lfd (concat []), Called (FsClose lfd)] (fs_close lfd w)" using did_calls(4) by (rule did_eq) simp_all
  then show ?case by (auto simp: file_stream_parts loop_on_done)
next
  case (Cons c cs)
  let ?m = "take 8 (file_stream cs n)" and ?r = "drop 8 (file_stream cs n)"
  have c: "c \<noteq> []" "length c \<le> SYNC_DATA_MAX" "pieces cs" using Cons.prems(2) by auto
  have str: "good_bytes (rd_ev w fd) = c @ file_stream cs n @ rest" using Cons.prems(1) by (simp add: file_stream_parts)
  obtain w1 where 1: "readx fd (length c) w = Inr (Some c, w1)" "did w [Got fd c] w1" using readx_did [OF str refl] by blast
  have 2: "did w [Got fd c] (fill_buf c w1)" using did_trans [OF 1(2) did_calls(2)] by simp
  obtain w3 where 3: "writex lfd c (fill_buf c w1) = Inr (0, w3)" "did (fill_buf c w1) [Put lfd c] w3"
    using writex_did [OF did_clean [OF 2 Cons.prems(3)]] by blast
  have 4: "did w [Got fd c, Put lfd c] (count_bytes (length c) w3)" using did_trans [OF did_trans [OF 2 3(2)] did_count] by simp
  have "good_bytes (rd_ev (count_bytes (length c) w3) fd) = ?m @ ?r @ rest"
    using did_stream [OF 4, of fd "file_stream cs n @ rest"] str by (simp flip: append_assoc)
  then obtain w5 where 5: "readx fd 8 (count_bytes (length c) w3) = Inr (Some ?m, w5)" "did (count_bytes (length c) w3) [Got fd ?m] w5"
    using readx_did [of "count_bytes (length c) w3" fd ?m "?r @ rest" 8] file_stream_length [of cs n] by (auto simp: min_absorb2)
  have 6: "did w [Got fd c, Put lfd c, Got fd ?m] w5" using did_trans [OF 4 5(2)] by simp
  have "good_bytes (rd_ev w5 fd) = ?r @ rest" using did_stream [OF 6, of fd "?r @ rest"] str by simp
  from Cons.IH [OF this c(3) did_clean [OF 6 Cons.prems(3)]] obtain w' where
    w': "loop_on env fd lfd lpath ?m w5 = Inr (0, w')" "did w5 [Got fd ?r, Put lfd (concat cs), Called (FsClose lfd)] w'" by blast
  have "did w [Got fd (drop 8 (file_stream (c # cs) n)), Put lfd (concat (c # cs)), Called (FsClose lfd)] w'"
    using did_trans [OF 6 w'(2)] by (rule did_eq) (simp_all add: file_stream_parts)
  moreover have "loop_on env fd lfd lpath (take 8 (file_stream (c # cs) n)) w = Inr (0, w')"
    using loop_on_data [OF c(2) 1(1) 3(1) 5(1)] w'(1) by (simp add: file_stream_parts)
  ultimately show ?case by blast
qed

definition only_mkdirs :: "fs_call list \<Rightarrow> bool" where
  "only_mkdirs cs \<longleftrightarrow> (\<forall>c\<in>set cs. \<exists>p. c = FsMkdir p 0x1FD)"

lemma calls_did [simp]:
  "got x (map Called cs) = []" "puts x (map Called cs) = []" "reads (map Called cs) = {}" "called (map Called cs) = cs"
  by (induction cs) simp_all

lemma mkdirs_did: "\<exists>cs. only_mkdirs cs \<and> did w (map Called cs) (snd (mkdirs_loop env pre name w))"
proof (induction name arbitrary: pre w)
  case Nil
  show ?case by (intro exI [of _ "[]"]) (simp add: only_mkdirs_def did_calls(1))
next
  case (Cons c x)
  let ?w1 = "log_call (FsMkdir pre 0x1FD) w"
  have 1: "did w (map Called [FsMkdir pre 0x1FD]) ?w1" using did_calls(3) by simp
  show ?case
  proof (cases "c = CHR ''/''")
    case True
    obtain cs where "only_mkdirs cs" "did ?w1 (map Called cs) (snd (mkdirs_loop env (pre @ [c]) x ?w1))" using Cons by blast
    with did_trans [OF 1 this(2)] have "only_mkdirs (FsMkdir pre 0x1FD # cs)"
        "did w (map Called (FsMkdir pre 0x1FD # cs)) (snd (mkdirs_loop env (pre @ [c]) x ?w1))" by (simp_all add: only_mkdirs_def)
    moreover have "only_mkdirs [FsMkdir pre 0x1FD]" by (simp add: only_mkdirs_def)
    ultimately show ?thesis using True 1 by (auto simp: adb_mkdir_def Let_def simp del: list.map)
  next
    case False
    with Cons show ?thesis by simp
  qed
qed

lemma first_tag: "syncmsg_field be 0 (take 8 (file_stream cs n)) = ID_DATA be \<or> syncmsg_field be 0 (take 8 (file_stream cs n)) = ID_DONE be"
  by (cases cs) (simp_all add: file_stream_parts sync_id_defs)

lemma sync_recv_stores:
  assumes n: "length rpath \<le> 1024" "lpath \<noteq> []" and op: "\<And>h. os_open env h lpath CREAT_TRUNC 0x1A4 = Inr lfd"
    and c: "wr_clean (wr_ev w fd)" "wr_clean (wr_ev w (int lfd))"
    and str: "good_bytes (rd_ev w fd) = file_stream cs n @ rest" "pieces cs"
  shows "\<exists>ms w'. sync_recv env fd rpath lpath w = Inr (0, w') \<and> only_mkdirs ms \<and>
     did w ([Put fd (sync_request ''RECV'' rpath), Got fd (file_stream cs n), Called (FsUnlink lpath)] @ map Called ms
       @ [Called (FsOpen lpath CREAT_TRUNC 0x1A4), Put (int lfd) (concat cs), Called (FsClose (int lfd))]) w'"
proof -
  let ?m = "take 8 (file_stream cs n)" and ?r = "drop 8 (file_stream cs n)"
  obtain w1 where 1: "write_request env fd ID_RECV rpath w = Inr (0, w1)" "did w [Put fd (sync_request ''RECV'' rpath)] w1"
    using write_request_did [OF c(1)] unfolding ID_RECV_def [abs_def] by blast
  have "good_bytes (rd_ev w1 fd) = ?m @ ?r @ rest" using did_stream [OF 1(2), of fd] str by (simp flip: append_assoc)
  then obtain w2 where 2: "readx fd 8 w1 = Inr (Some ?m, w2)" "did w1 [Got fd ?m] w2"
    using readx_did [of w1 fd ?m "?r @ rest" 8] file_stream_length [of cs n] by (auto simp: min_absorb2)
  let ?w3 = "adb_unlink lpath w2"
  obtain ms where ms: "only_mkdirs ms" "did ?w3 (map Called ms) (snd (mkdirs_loop env [hd lpath] (tl lpath) ?w3))" using mkdirs_did by blast
  obtain k w4 where 4: "mkdirs_loop env [hd lpath] (tl lpath) ?w3 = (k, w4)" by fastforce
  let ?w5 = "log_call (FsOpen lpath CREAT_TRUNC 0x1A4) w4"
  have 5: "did w ([Put fd (sync_request ''RECV'' rpath), Got fd ?m, Called (FsUnlink lpath)] @ map Called ms @ [Called (FsOpen lpath CREAT_TRUNC 0x1A4)]) ?w5"
    using did_trans [OF did_trans [OF did_trans [OF did_trans [OF 1(2) 2(2)] did_calls(5)]] did_calls(3)] ms(2) 4 by simp
  have "good_bytes (rd_ev ?w5 fd) = ?r @ rest" using did_stream [OF 5, of fd] str by (simp flip: append_assoc)
  from loop_on_stores [OF this str(2) did_clean [OF 5 c(2)], of env lpath] obtain w' where
    w': "loop_on env fd (int lfd) lpath ?m ?w5 = Inr (0, w')" "did ?w5 [Got fd ?r, Put (int lfd) (concat cs), Called (FsClose (int lfd))] w'" by blast
  have "sync_recv env fd rpath lpath w = Inr (0, w')"
    using n 1(1) 2(1) 4 op w'(1) first_tag [of "host_be env" cs n]
    by (simp add: sync_recv_def Let_def client_mkdirs_def fs_open_def loop_on_def)
  moreover have "did w ([Put fd (sync_request ''RECV'' rpath), Got fd (file_stream cs n), Called (FsUnlink lpath)] @ map Called ms
       @ [Called (FsOpen lpath CREAT_TRUNC 0x1A4), Put (int lfd) (concat cs), Called (FsClose (int lfd))]) w'"
    using did_trans [OF 5 w'(2)] by (rule did_eq) (auto simp flip: append_assoc)
  ultimately show ?thesis using ms(1) by blast
qed

end
