(* ===== verification/SyncTrip.thy ===== *)
theory SyncTrip
  imports SyncClient
begin

text \<open>
  The client and the service together: a file that is pushed or pulled arrives unchanged, a listing
  lists the directory, and what happens when the other end reports an error. The ends may run on
  machines of different byte order, and the kernels at both ends may split reads and writes as
  they like.
\<close>

section \<open>Names with a mode\<close>

lemma strchr_none: "c \<notin> set s \<Longrightarrow> strchr s c = None"
  by (induction s) auto

lemma strrchr_append: "c \<notin> set b \<Longrightarrow> strrchr (a @ c # b) c = Some (length a)"
  using strchr_append [of c "rev b" "rev a"] by (simp add: strrchr_def)

lemma dec_digits_chars: "c \<in> set (dec_digits n) \<Longrightarrow> \<exists>d<10. c = hex_digit d"
  by (induction n rule: dec_digits.induct) (subst (asm) (2) dec_digits.simps, auto split: if_splits, metis mod_less_divisor zero_less_numeral)

lemma digits_plain: "c \<in> set (dec_digits n) \<Longrightarrow> c \<noteq> CHR '','' \<and> c \<noteq> CHR 0x00"
proof -
  have "\<forall>d\<in>set [0..<10]. hex_digit d \<noteq> CHR '','' \<and> hex_digit d \<noteq> CHR 0x00" by code_simp
  then show "c \<in> set (dec_digits n) \<Longrightarrow> ?thesis" by (auto dest!: dec_digits_chars)
qed

lemma length_dec_digits: "n < 10 ^ k \<Longrightarrow> 0 < k \<Longrightarrow> length (dec_digits n) \<le> k"
proof (induction k arbitrary: n)
  case (Suc k)
  have "n < 10 \<or> n div 10 < 10 ^ k \<and> 0 < k" using Suc.prems by (cases k) auto
  with Suc.IH [of "n div 10"] show ?case by (auto simp: dec_digits.simps [of n])
qed simp

lemma fmt_mode: "unat (mode :: u32) < 2 ^ 31 \<Longrightarrow> fmt_d (sint mode) = dec_digits (unat mode)"
proof -
  assume "unat mode < 2 ^ 31"
  then have "sint (of_nat (unat mode) :: u32) = int (unat mode)" using int_len_small by blast
  then show ?thesis by (simp add: fmt_d_def)
qed

lemma send_mode_push:
  assumes "unat mode < 2 ^ 31" "S_ISREG mode"
  shows "send_mode (push_name rpath mode) = (rpath, mode AND 0x1FF, False)"
proof -
  have f: "fmt_d (sint mode) = dec_digits (unat mode)" by (rule fmt_mode [OF assms(1)])
  have "unat mode \<le> ULONG_MAX" using unsigned_less [of mode, where 'a = nat] by (simp add: ULONG_MAX_def)
  from strtoul_dec [OF this] have s: "strtoul (dec_digits (unat mode)) 0 = (mode, False)" by simp
  have "strrchr (push_name rpath mode) CHR '','' = Some (length rpath)"
    unfolding push_name_def f using strrchr_append [of "CHR '',''" "dec_digits (unat mode)" rpath] digits_plain by auto
  moreover have "\<not> S_ISLNK mode" using assms(2) by (simp add: S_ISREG_def S_ISLNK_def)
  ultimately show ?thesis by (simp add: send_mode_def push_name_def f s)
qed

section \<open>Pushing\<close>

text \<open>
  What the service does with a transfer: for any service that reads \<open>bytes\<close> on its connection and
  can create the file with the permission bits \<open>perm\<close>, it removes what was there, creates the file with these
  bits, stores \<open>contents\<close> under \<open>path\<close>, sets the time stamp, answers OKAY and waits for the next command.
\<close>

definition service_stores :: "sync_env \<Rightarrow> fdesc \<Rightarrow> byte list \<Rightarrow> string \<Rightarrow> u32 \<Rightarrow> byte list \<Rightarrow> u32 \<Rightarrow> bool" where
  "service_stores env s bytes path perm contents mtime \<longleftrightarrow>
     (\<forall>(w :: sync_state) fd more. good_bytes (rd_ev w s) = bytes @ more \<longrightarrow>
        os_open env (fs_log w @ [FsUnlink path]) path WRONLY_CREAT_EXCL perm = Inr fd \<longrightarrow>
        wr_clean (wr_ev w (int fd)) \<longrightarrow> wr_clean (wr_ev w s) \<longrightarrow>
        (\<exists>w'. file_sync_loop env s w = file_sync_loop env s w' \<and>
           did w ([Called (FsUnlink path), Called (FsOpen path WRONLY_CREAT_EXCL perm), Got s bytes, Put (int fd) contents,
             Called (FsClose (int fd)), Called (FsUtime path mtime), Put s (wire_msg ''OKAY'' [0])]) w'))"

text \<open>
  The bits a pushed file gets: those of the owner are copied to the group, and those of the group, with the
  copied ones, to the others.
\<close>

lemma bit_file_mode:
  "bit (file_mode (mode AND 0x1FF)) n \<longleftrightarrow> n < 9 \<and> (bit mode n \<or> n < 6 \<and> bit mode (n + 3) \<or> n < 3 \<and> bit mode (n + 6))"
proof -
  have m: "(0x1FF :: u32) = mask 9" "(0x38 :: u32) = push_bit 3 (mask 3)" "(0x07 :: u32) = mask 3" by (simp_all add: mask_eq_exp_minus_1)
  have a: "n < 6 \<longleftrightarrow> n < 3 \<or> 3 \<le> n \<and> n - 3 < 3" for n :: nat by auto
  show ?thesis
    unfolding file_mode_def Let_def m
    by (auto simp: bit_or_iff bit_and_iff bit_mask_iff bit_drop_bit_eq bit_push_bit_iff ac_simps)
qed

lemma command_send_stores:
  assumes "send_mode name = (path, mode, False)" "length name \<le> 1024" "CHR 0x00 \<notin> set name" "pieces cs"
  shows "service_stores env s (sync_request ''SEND'' name @ data_stream cs @ wire_msg ''DONE'' [t]) path (file_mode mode) (concat cs) t"
  unfolding service_stores_def
proof (intro allI impI)
  fix w :: sync_state and fd more
  assume str: "good_bytes (rd_ev w s) = (sync_request ''SEND'' name @ data_stream cs @ wire_msg ''DONE'' [t]) @ more"
    and op: "os_open env (fs_log w @ [FsUnlink path]) path WRONLY_CREAT_EXCL (file_mode mode) = Inr fd"
    and c: "wr_clean (wr_ev w (int fd))" "wr_clean (wr_ev w s)"
  obtain w1 where 1: "did w [Got s (sync_request ''SEND'' name)] w1" "sync_command env s w = bindr (do_send env s name w1) (\<lambda>(r, w). Inr (r = 0, w))"
    using command_begins [of w s "''SEND''" name _ do_send env] str assms(2,3) by auto
  have "good_bytes (rd_ev w1 s) = data_stream cs @ wire_msg ''DONE'' [t] @ more" using did_stream [OF 1(1), of s] str by simp
  moreover have "os_open env (fs_log w1 @ [FsUnlink path]) path WRONLY_CREAT_EXCL (file_mode mode) = Inr fd" using op did_log [OF 1(1)] by simp
  ultimately obtain w2 where 2: "do_send env s name w1 = Inr (0, w2)"
      "did w1 (send_begin path mode @ [Got s (data_stream cs @ wire_msg ''DONE'' [t]), Put (int fd) (concat cs), Called (FsClose (int fd)),
        Called (FsUtime path t), Put s (wire_msg ''OKAY'' [0])]) w2"
    using do_send_stores [OF assms(1)] assms(4) did_clean [OF 1(1) c(1)] did_clean [OF 1(1) c(2)] by blast
  have "file_sync_loop env s w = file_sync_loop env s w2" using 1(2) 2(1) by (intro loop_continues) simp
  moreover have "did w ([Called (FsUnlink path), Called (FsOpen path WRONLY_CREAT_EXCL (file_mode mode)),
      Got s (sync_request ''SEND'' name @ data_stream cs @ wire_msg ''DONE'' [t]), Put (int fd) (concat cs),
      Called (FsClose (int fd)), Called (FsUtime path t), Put s (wire_msg ''OKAY'' [0])]) w2"
    using did_trans [OF 1(1) 2(2)] by (rule did_eq) simp_all
  ultimately show "\<exists>w'. file_sync_loop env s w = file_sync_loop env s w' \<and>
      did w ([Called (FsUnlink path), Called (FsOpen path WRONLY_CREAT_EXCL (file_mode mode)),
        Got s (sync_request ''SEND'' name @ data_stream cs @ wire_msg ''DONE'' [t]), Put (int fd) (concat cs),
        Called (FsClose (int fd)), Called (FsUtime path t), Put s (wire_msg ''OKAY'' [0])]) w'" by blast
qed

text \<open>
  Property C2. A push stores the file: the client sends the local file to its end in pieces of at most
  \<open>SYNC_DATA_MAX\<close> bytes, and a service that reads what the client has written stores exactly those
  bytes under the remote path, with the file's time stamp, and answers OKAY. The file is created with the
  permission bits of the owner, which the group gets too, as the others get those of both: bits \<open>0600\<close> become \<open>0666\<close>;
  the client then returns 0. The two machines may have different byte orders and the kernels may
  split reads and writes in any way. When reading the local file fails half way, the bytes before
  the error count as the file: the client does not notice.
\<close>

theorem push_stores_file:
  assumes "S_ISREG mode" "unat mode < 2 ^ 31" "length (push_name rpath mode) \<le> 1024" "CHR 0x00 \<notin> set rpath"
    and "os_open cenv (fs_log wc) lpath RDONLY 0 = Inr lfd" "int lfd \<noteq> fd" "rd_end (rd_ev wc (int lfd)) = Some q"
    and "wr_clean (wr_ev wc fd)" "good_bytes (rd_ev wc fd) = wire_msg ''OKAY'' [n] @ rest"
    and perm: "\<forall>n. bit perm n \<longleftrightarrow> n < 9 \<and> (bit mode n \<or> n < 6 \<and> bit mode (n + 3) \<or> n < 3 \<and> bit mode (n + 6))"
  shows "\<exists>wc' bytes. sync_send cenv fd lpath rpath mtime mode False wc = Inr (0, wc') \<and> wr_out wc' fd = wr_out wc fd @ bytes
    \<and> service_stores denv s bytes rpath perm (good_bytes (rd_ev wc (int lfd))) mtime"
proof -
  have l: "length rpath \<le> 1024" using assms(3) by (simp add: push_name_def)
  obtain cs wc' where s: "sync_send cenv fd lpath rpath mtime mode False wc = Inr (0, wc')" "pieces cs" "concat cs = good_bytes (rd_ev wc (int lfd))"
      "did wc [Put fd (sync_request ''SEND'' (push_name rpath mode)), Called (FsOpen lpath RDONLY 0), Got (int lfd) (concat cs),
         Put fd (data_stream cs), Called (FsClose (int lfd)), Put fd (wire_msg ''DONE'' [mtime]), Got fd (wire_msg ''OKAY'' [n])] wc'"
    using sync_send_sends [OF assms(1) l assms(5-9)] by blast
  have "CHR 0x00 \<notin> set (push_name rpath mode)" using assms(2,4) digits_plain by (auto simp: push_name_def fmt_mode)
  moreover have "perm = file_mode (mode AND 0x1FF)" using perm by (simp add: bit_eq_iff bit_file_mode)
  ultimately have "service_stores denv s (sync_request ''SEND'' (push_name rpath mode) @ data_stream cs @ wire_msg ''DONE'' [mtime]) rpath perm
      (concat cs) mtime"
    using command_send_stores [OF send_mode_push [OF assms(2,1)] assms(3) _ s(2)] by simp
  with s did_out [OF s(4), of fd] show ?thesis by auto
qed

definition ex_sync :: sync_env where
  "ex_sync = \<lparr>host_be = False, malloc_ok = True, os_open = (\<lambda>_ _ how _. Inr (if how = RDONLY then 8 else 9)), os_mkdir = (\<lambda>_ _. None),
     os_symlink = (\<lambda>_ _ _. None), os_readlink = (\<lambda>_ _. None), os_lstat = (\<lambda>_ _. Some \<lparr>st_mode = 0x81A4, st_size = 2, st_mtime = 7\<rparr>),
     os_stat = (\<lambda>_ _. None), os_opendir = (\<lambda>_ _. Some [''a'', ''bc'']), os_lseek = (\<lambda>_ _ _. -1), zip_manifest = (\<lambda>_. None),
     os_errno = (\<lambda>_. EOTHER), os_strerror = (\<lambda>_. ''error'')\<rparr>"

text \<open>A state with the given input on descriptor 5 and a file of two bytes on descriptor 8.\<close>

definition ex_state :: "byte list \<Rightarrow> sync_state" where
  "ex_state bs = world.extend (idle_world\<lparr>rd_ev := (\<lambda>_. [])(5 := [RdBytes bs], 8 := [RdBytes [104], RdErr EINTR, RdBytes [105], RdBytes []])\<rparr>)
     \<lparr>fs_log = [], sync_buf = [], total_bytes = 0\<rparr>"

lemma ex_state_simps [simp]:
  "good_bytes (rd_ev (ex_state bs) 5) = bs" "rd_ev (ex_state bs) 8 = [RdBytes [104], RdErr EINTR, RdBytes [105], RdBytes []]"
  "wr_ev (ex_state bs) x = []" "wr_out (ex_state bs) x = []" "fs_log (ex_state bs) = []"
  by (simp_all add: ex_state_def world.defs idle_world_def)

lemma ex_sync_simps [simp]:
  "os_open ex_sync h p how m = Inr (if how = RDONLY then 8 else 9)" "os_strerror ex_sync e = ''error''" "host_be ex_sync = False"
  "os_opendir ex_sync h p = Some [''a'', ''bc'']" "os_lstat ex_sync h p = Some \<lparr>st_mode = 0x81A4, st_size = 2, st_mtime = 7\<rparr>"
  by (simp_all add: ex_sync_def)

theorem push_stores_file_witness:
  "\<exists>wc' bytes w'. sync_send (ex_sync\<lparr>host_be := True\<rparr>) 5 ''l'' ''/r'' 3 0x81A4 False (ex_state (wire_msg ''OKAY'' [0])) = Inr (0, wc')
     \<and> wr_out wc' 5 = bytes \<and> file_sync_loop ex_sync 5 (ex_state bytes) = file_sync_loop ex_sync 5 w' \<and> wr_out w' 9 = [104, 105]"
proof -
  have n: "length (push_name ''/r'' 0x81A4) \<le> 1024" by (simp add: push_name_def fmt_d_def dec_digits.simps)
  have "file_mode (0x81A4 AND 0x1FF) = 0x1B6" by (simp add: file_mode_def)
  then have perm: "\<forall>n. bit (0x1B6 :: u32) n \<longleftrightarrow> n < 9 \<and> (bit (0x81A4 :: u32) n \<or> n < 6 \<and> bit (0x81A4 :: u32) (n + 3) \<or> n < 3 \<and> bit (0x81A4 :: u32) (n + 6))"
    using bit_file_mode [of "0x81A4"] by metis
  from push_stores_file [of "0x81A4" "''/r''" "ex_sync\<lparr>host_be := True\<rparr>" "ex_state (wire_msg ''OKAY'' [0])" "''l''" 8 5 None 0 "[]" "0x1B6" 3 ex_sync 5] n
  obtain wc' bytes where 1: "sync_send (ex_sync\<lparr>host_be := True\<rparr>) 5 ''l'' ''/r'' 3 0x81A4 False (ex_state (wire_msg ''OKAY'' [0])) = Inr (0, wc')"
      "wr_out wc' 5 = bytes" "service_stores ex_sync 5 bytes ''/r'' 0x1B6 [104, 105] 3"
    using perm by (auto simp: S_ISREG_def simp del: bit_numeral_simps)
  then obtain w' where "file_sync_loop ex_sync 5 (ex_state bytes) = file_sync_loop ex_sync 5 w'" "wr_out w' 9 = [104, 105]"
    unfolding service_stores_def by (fastforce dest: spec [of _ "ex_state bytes"] did_out [of _ _ _ 9])
  with 1 show ?thesis by blast
qed

section \<open>Pulling\<close>

definition client_fetches :: "sync_env \<Rightarrow> fdesc \<Rightarrow> byte list \<Rightarrow> string \<Rightarrow> string \<Rightarrow> byte list \<Rightarrow> bool" where
  "client_fetches env fd bytes rpath lpath contents \<longleftrightarrow>
     (\<forall>w lfd rest. good_bytes (rd_ev w fd) = bytes @ rest \<longrightarrow> (\<forall>h. os_open env h lpath CREAT_TRUNC 0x1A4 = Inr lfd) \<longrightarrow>
        wr_clean (wr_ev w fd) \<longrightarrow> wr_clean (wr_ev w (int lfd)) \<longrightarrow>
        (\<exists>ms w'. sync_recv env fd rpath lpath w = Inr (0, w') \<and> only_mkdirs ms \<and>
           did w ([Put fd (sync_request ''RECV'' rpath), Got fd bytes, Called (FsUnlink lpath)] @ map Called ms
             @ [Called (FsOpen lpath CREAT_TRUNC 0x1A4), Put (int lfd) contents, Called (FsClose (int lfd))]) w'))"

text \<open>
  Property C8. A pull fetches the file: a service that is asked for a file it can read to its end answers with
  some bytes, and a client that asks for the file and reads these bytes creates the local file with exactly
  the contents of the remote one and returns 0.
\<close>

theorem pull_fetches_file:
  assumes "length rpath \<le> 1024" "CHR 0x00 \<notin> set rpath" "lpath \<noteq> []"
    and "good_bytes (rd_ev w s) = sync_request ''RECV'' rpath @ rest'" "wr_clean (wr_ev w s)"
    and "os_open denv (fs_log w) rpath RDONLY 0 = Inr dfd" "int dfd \<noteq> s" "rd_end (rd_ev w (int dfd)) = Some None"
  shows "\<exists>w' bytes. file_sync_loop denv s w = file_sync_loop denv s w' \<and> wr_out w' s = wr_out w s @ bytes
    \<and> client_fetches cenv fd bytes rpath lpath (good_bytes (rd_ev w (int dfd)))"
proof -
  obtain w1 where 1: "did w [Got s (sync_request ''RECV'' rpath)] w1" "sync_command denv s w = bindr (do_recv denv s rpath w1) (\<lambda>(r, w). Inr (r = 0, w))"
    using command_begins [of w s "''RECV''" rpath rest' do_recv denv] assms(1,2,4) by auto
  have l: "fs_log w1 = fs_log w" "rd_ev w1 (int dfd) = rd_ev w (int dfd)" using did_log [OF 1(1)] did_same [OF 1(1)] assms(7) by auto
  obtain cs w2 where 2: "do_recv denv s rpath w1 = Inr (0, w2)" "pieces cs" "concat cs = good_bytes (rd_ev w (int dfd))"
      "did w1 [Called (FsOpen rpath RDONLY 0), Got (int dfd) (concat cs), Put s (file_stream cs 0), Called (FsClose (int dfd))] w2"
    using do_recv_sends [of denv w1 rpath dfd s] assms(6,8) did_clean [OF 1(1) assms(5)] l by (auto simp: file_stream_def)
  have "client_fetches cenv fd (file_stream cs 0) rpath lpath (concat cs)"
    unfolding client_fetches_def by (intro allI impI sync_recv_stores assms(1,3) 2(2)) auto
  moreover have "file_sync_loop denv s w = file_sync_loop denv s w2" using 1(2) 2(1) by (intro loop_continues) simp
  ultimately show ?thesis using 2(3) did_out [OF did_trans [OF 1(1) 2(4)], of s] by auto
qed

theorem pull_fetches_file_witness:
  "\<exists>w' bytes wc'. file_sync_loop ex_sync 5 (ex_state (sync_request ''RECV'' ''/r'')) = file_sync_loop ex_sync 5 w' \<and> wr_out w' 5 = bytes
    \<and> sync_recv ex_sync 5 ''/r'' ''l'' (ex_state bytes) = Inr (0, wc') \<and> wr_out wc' 9 = [104, 105]"
proof -
  from pull_fetches_file [of "''/r''" "''l''" "ex_state (sync_request ''RECV'' ''/r'')" 5 "[]" ex_sync 8 ex_sync 5]
  obtain w' bytes where 1: "file_sync_loop ex_sync 5 (ex_state (sync_request ''RECV'' ''/r'')) = file_sync_loop ex_sync 5 w'" "wr_out w' 5 = bytes"
      "client_fetches ex_sync 5 bytes ''/r'' ''l'' [104, 105]" by auto
  then obtain ms wc' where "sync_recv ex_sync 5 ''/r'' ''l'' (ex_state bytes) = Inr (0, wc')"
      "did (ex_state bytes) ([Put 5 (sync_request ''RECV'' ''/r''), Got 5 bytes, Called (FsUnlink ''l'')] @ map Called ms
             @ [Called (FsOpen ''l'' CREAT_TRUNC 0x1A4), Put 9 [104, 105], Called (FsClose 9)]) wc'"
    using spec [OF spec [OF spec [OF 1(3) [unfolded client_fetches_def], of "ex_state bytes"], of 9], of "[]"] by auto
  with 1 did_out [OF this(2), of 9] show ?thesis by auto
qed

section \<open>A pull that fails\<close>

lemma sync_recv_failed:
  assumes "length rpath \<le> 1024" "good_bytes (rd_ev w fd) = fail_reply reason @ rest" "length reason \<le> 256" "wr_clean (wr_ev w fd)"
  shows "\<exists>w'. sync_recv env fd rpath lpath w = Inr (0, w') \<and>
    did w [Put fd (sync_request ''RECV'' rpath), Got fd (fail_reply reason), Called (FsClose (-1)), Called (FsUnlink lpath)] w'"
proof -
  let ?m = "wire_msg ''FAIL'' [of_nat (length reason)]"
  obtain w1 where 1: "write_request env fd ID_RECV rpath w = Inr (0, w1)" "did w [Put fd (sync_request ''RECV'' rpath)] w1"
    using write_request_did [OF assms(4)] unfolding ID_RECV_def [abs_def] by blast
  have "good_bytes (rd_ev w1 fd) = ?m @ bytes_of reason @ rest" using did_stream [OF 1(2), of fd] assms(2) by (simp add: fail_reply_def)
  then obtain w2 where 2: "readx fd 8 w1 = Inr (Some ?m, w2)" "did w1 [Got fd ?m] w2"
    using readx_did [of w1 fd ?m "bytes_of reason @ rest" 8] by auto
  have 3: "did w [Put fd (sync_request ''RECV'' rpath), Got fd ?m, Called (FsClose (-1)), Called (FsUnlink lpath)] (adb_unlink lpath (fs_close (-1) w2))"
    using did_trans [OF did_trans [OF did_trans [OF 1(2) 2(2)] did_calls(4)] did_calls(5)] by simp
  have "good_bytes (rd_ev (adb_unlink lpath (fs_close (-1) w2)) fd) = bytes_of reason @ rest"
    using did_stream [OF 3, of fd] assms(2) by (simp add: fail_reply_def)
  then obtain w4 where 4: "readx fd (length reason) (adb_unlink lpath (fs_close (-1) w2)) = Inr (Some (bytes_of reason), w4)"
      "did (adb_unlink lpath (fs_close (-1) w2)) [Got fd (bytes_of reason)] w4"
    using readx_did [of _ fd "bytes_of reason" rest "length reason"] by auto
  have len: "sint (of_nat (length reason) :: u32) = int (length reason)" "int_len (of_nat (length reason)) = Inr (length reason)"
    using int_len_small [of "length reason"] assms(3) by simp_all
  have "sync_recv env fd rpath lpath w = Inr (0, fill_buf (bytes_of reason @ [0]) w4)"
    using assms(1,3) 1(1) 2(1) 4(1) len by (simp add: sync_recv_def recv_remote_error_def Let_def tag_field sync_id_defs min_absorb1)
  moreover have "did w [Put fd (sync_request ''RECV'' rpath), Got fd (fail_reply reason), Called (FsClose (-1)), Called (FsUnlink lpath)]
      (fill_buf (bytes_of reason @ [0]) w4)"
    using did_trans [OF did_trans [OF 3 4(2)] did_calls(2)] by (rule did_eq) (simp_all add: fail_reply_def)
  ultimately show ?thesis by blast
qed

text \<open>
  Property C35. A failed pull loses the local file: when the service cannot open the remote file it answers FAIL
  with the reason and goes on, and a client that reads this answer returns 0, as after a success, and its
  only calls on the file system are to close descriptor -1 and to remove the local file of that name, which the
  transfer had not touched.
\<close>

theorem failed_pull_removes_local:
  assumes "length rpath \<le> 1024" "CHR 0x00 \<notin> set rpath" "length (os_strerror denv e) \<le> 256"
    and "good_bytes (rd_ev w s) = sync_request ''RECV'' rpath @ rest'" "wr_clean (wr_ev w s)" "os_open denv (fs_log w) rpath RDONLY 0 = Inl e"
    and "good_bytes (rd_ev wc fd) = fail_reply (os_strerror denv e) @ rest" "wr_clean (wr_ev wc fd)"
  shows "\<exists>w' wc'. file_sync_loop denv s w = file_sync_loop denv s w' \<and> wr_out w' s = wr_out w s @ fail_reply (os_strerror denv e)
    \<and> sync_recv cenv fd rpath lpath wc = Inr (0, wc') \<and> fs_log wc' = fs_log wc @ [FsClose (-1), FsUnlink lpath]"
proof -
  obtain w1 where 1: "did w [Got s (sync_request ''RECV'' rpath)] w1" "sync_command denv s w = bindr (do_recv denv s rpath w1) (\<lambda>(r, w). Inr (r = 0, w))"
    using command_begins [of w s "''RECV''" rpath rest' do_recv denv] assms(1,2,4) by auto
  let ?w2 = "log_call (FsOpen rpath RDONLY 0) w1"
  have d: "did w [Got s (sync_request ''RECV'' rpath), Called (FsOpen rpath RDONLY 0)] ?w2" using did_trans [OF 1(1) did_calls(3)] by simp
  obtain w3 where 3: "sync_fail_message denv s (os_strerror denv e) ?w2 = Inr (0, w3)" "did ?w2 [Put s (fail_reply (os_strerror denv e))] w3"
    using fail_message_did [OF did_clean [OF d assms(5)]] by blast
  have "do_recv denv s rpath w1 = Inr (0, w3)"
    using assms(6) 3(1) did_log [OF 1(1)] by (simp add: do_recv_def fs_open_def fail_errno_def Let_def)
  then have "file_sync_loop denv s w = file_sync_loop denv s w3" using 1(2) by (intro loop_continues) simp
  moreover have "wr_out w3 s = wr_out w s @ fail_reply (os_strerror denv e)" using did_out [OF did_trans [OF d 3(2)], of s] by simp
  moreover obtain wc' where "sync_recv cenv fd rpath lpath wc = Inr (0, wc')"
      "did wc [Put fd (sync_request ''RECV'' rpath), Got fd (fail_reply (os_strerror denv e)), Called (FsClose (-1)), Called (FsUnlink lpath)] wc'"
    using sync_recv_failed [OF assms(1,7,3,8)] by blast
  ultimately show ?thesis using did_log [of wc _ wc'] by fastforce
qed

theorem failed_pull_removes_local_witness:
  "\<exists>w' wc'. file_sync_loop (ex_sync\<lparr>os_open := \<lambda>_ _ _ _. Inl ENOENT\<rparr>) 5 (ex_state (sync_request ''RECV'' ''/r'')) =
      file_sync_loop (ex_sync\<lparr>os_open := \<lambda>_ _ _ _. Inl ENOENT\<rparr>) 5 w' \<and> wr_out w' 5 = fail_reply ''error''
    \<and> sync_recv ex_sync 5 ''/r'' ''l'' (ex_state (fail_reply ''error'')) = Inr (0, wc') \<and> FsUnlink ''l'' \<in> set (fs_log wc')"
  using failed_pull_removes_local [of "''/r''" "ex_sync\<lparr>os_open := \<lambda>_ _ _ _. Inl ENOENT\<rparr>" ENOENT "ex_state (sync_request ''RECV'' ''/r'')" 5 "[]"
      "ex_state (fail_reply ''error'')" 5 "[]" ex_sync "''l''"]
  by fastforce

section \<open>Listing\<close>

lemma sync_ls_reads:
  assumes "good_bytes (rd_ev w fd) = concat (map dent_bytes es) @ wire_msg ''DONE'' [0, 0, 0, 0] @ rest"
    and "\<forall>e\<in>set es. length (snd e) \<le> 256 \<and> CHR 0x00 \<notin> set (snd e)"
  shows "\<exists>w'. sync_ls_loop env fd func cookie w =
       Inr ((True, fold (\<lambda>(st, name). func (st_mode st) (of_nat (st_size st)) (word_of_int (st_mtime st)) name) es cookie), w')
     \<and> did w [Got fd (concat (map dent_bytes es) @ wire_msg ''DONE'' [0, 0, 0, 0])] w'"
  using assms
proof (induction es arbitrary: cookie w)
  case Nil
  let ?m = "wire_msg ''DONE'' [0, 0, 0, 0]"
  obtain w1 where 1: "readx fd 20 w = Inr (Some ?m, w1)" "did w [Got fd ?m] w1" using readx_did [of w fd ?m rest 20] Nil by auto
  then show ?case by (subst sync_ls_loop.simps) (simp add: Let_def tag_field sync_id_defs)
next
  case (Cons e es)
  obtain st name where e: "e = (st, name)" by (cases e) auto
  let ?m = "wire_msg ''DENT'' [st_mode st, of_nat (st_size st), word_of_int (st_mtime st), of_nat (length name)]"
  let ?r = "concat (map dent_bytes es) @ wire_msg ''DONE'' [0, 0, 0, 0]"
  have n: "length name \<le> 256" "CHR 0x00 \<notin> set name" using Cons.prems(2) e by auto
  have db: "dent_bytes e = ?m @ bytes_of name" by (simp add: e dent_bytes_def)
  have str: "good_bytes (rd_ev w fd) = ?m @ bytes_of name @ ?r @ rest" using Cons.prems(1) by (simp add: db)
  obtain w1 where 1: "readx fd 20 w = Inr (Some ?m, w1)" "did w [Got fd ?m] w1" using readx_did [OF str, of 20] by auto
  have "good_bytes (rd_ev w1 fd) = bytes_of name @ ?r @ rest" using did_stream [OF 1(2), of fd] str by simp
  then obtain w2 where 2: "readx fd (length name) w1 = Inr (Some (bytes_of name), w2)" "did w1 [Got fd (bytes_of name)] w2"
    using readx_did [of w1 fd "bytes_of name" "?r @ rest" "length name"] by auto
  have 3: "did w [Got fd (dent_bytes e)] w2" using did_trans [OF 1(2) 2(2)] by (rule did_eq) (simp_all add: db)
  have "good_bytes (rd_ev w2 fd) = concat (map dent_bytes es) @ wire_msg ''DONE'' [0, 0, 0, 0] @ rest"
    using did_stream [OF 3, of fd "?r @ rest"] str by (simp add: db)
  from Cons.IH [OF this, of "func (st_mode st) (of_nat (st_size st)) (word_of_int (st_mtime st)) name cookie"] Cons.prems(2) obtain w' where
    w': "sync_ls_loop env fd func (func (st_mode st) (of_nat (st_size st)) (word_of_int (st_mtime st)) name cookie) w2 =
       Inr ((True, fold (\<lambda>(st, name). func (st_mode st) (of_nat (st_size st)) (word_of_int (st_mtime st)) name) (e # es) cookie), w')"
      "did w2 [Got fd ?r] w'" by (auto simp: e)
  have len: "sint (of_nat (length name) :: u32) = int (length name)" "int_len (of_nat (length name)) = Inr (length name)"
    using int_len_small [of "length name"] n(1) by simp_all
  have "sync_ls_loop env fd func cookie w = sync_ls_loop env fd func (func (st_mode st) (of_nat (st_size st)) (word_of_int (st_mtime st)) name cookie) w2"
    using n 1(1) 2(1) len
    by (subst sync_ls_loop.simps) (simp add: Let_def tag_field sync_id_defs cstr_bytes_of [OF n(2), of "[]"])
  moreover have "did w [Got fd (concat (map dent_bytes (e # es)) @ wire_msg ''DONE'' [0, 0, 0, 0])] w'"
    using did_trans [OF 3 w'(2)] by (rule did_eq) simp_all
  ultimately show ?case using w'(1) by simp
qed

text \<open>What a client that reads \<open>bytes\<close> reports: its callback gets the given entries in order.\<close>

definition client_lists :: "sync_env \<Rightarrow> fdesc \<Rightarrow> byte list \<Rightarrow> string \<Rightarrow> (file_stat \<times> string) list \<Rightarrow> bool" where
  "client_lists env fd bytes path es \<longleftrightarrow>
     (\<forall>w rest. good_bytes (rd_ev w fd) = bytes @ rest \<longrightarrow> wr_clean (wr_ev w fd) \<longrightarrow>
        (\<exists>w'. do_sync_ls env fd path w =
            Inr ((0, map (\<lambda>(st, name). (st_mode st, of_nat (st_size st), word_of_int (st_mtime st), name)) es), w')
          \<and> wr_out w' fd = wr_out w fd @ sync_request ''LIST'' path @ wire_msg ''QUIT'' [0]))"

lemma fold_collect:
  "fold (\<lambda>(st, name) out. out @ [(f st, g st, h st, name)]) es out = out @ map (\<lambda>(st, name). (f st, g st, h st, name)) es"
  by (induction es arbitrary: out) auto

lemma client_lists_stream:
  assumes "0 \<le> fd" "length path \<le> 1024" "\<forall>e\<in>set es. length (snd e) \<le> 256 \<and> CHR 0x00 \<notin> set (snd e)"
  shows "client_lists env fd (concat (map dent_bytes es) @ wire_msg ''DONE'' [0, 0, 0, 0]) path es"
  unfolding client_lists_def
proof (intro allI impI)
  fix w :: sync_state and rest
  assume str: "good_bytes (rd_ev w fd) = (concat (map dent_bytes es) @ wire_msg ''DONE'' [0, 0, 0, 0]) @ rest" and c: "wr_clean (wr_ev w fd)"
  let ?func = "\<lambda>mode size time name out. out @ [(mode, size, time, name)]"
  obtain w1 where 1: "write_request env fd ID_LIST path w = Inr (0, w1)" "did w [Put fd (sync_request ''LIST'' path)] w1"
    using write_request_did [OF c] unfolding ID_LIST_def [abs_def] by blast
  have "good_bytes (rd_ev w1 fd) = concat (map dent_bytes es) @ wire_msg ''DONE'' [0, 0, 0, 0] @ rest"
    using did_stream [OF 1(2), of fd] str by simp
  from sync_ls_reads [OF this assms(3), of env ?func "[]"] obtain w2 where
    2: "sync_ls_loop env fd ?func [] w1 = Inr ((True, map (\<lambda>(st, name). (st_mode st, of_nat (st_size st), word_of_int (st_mtime st), name)) es), w2)"
      "did w1 [Got fd (concat (map dent_bytes es) @ wire_msg ''DONE'' [0, 0, 0, 0])] w2"
    by (auto simp: fold_collect [of "\<lambda>st. st_mode st" "\<lambda>st. of_nat (st_size st)" "\<lambda>st. word_of_int (st_mtime st)"])
  note d = did_trans [OF 1(2) 2(2)]
  obtain w3 where 3: "writex fd (wire_msg ''QUIT'' [0]) w2 = Inr (0, w3)" "did w2 [Put fd (wire_msg ''QUIT'' [0])] w3"
    using writex_did [OF did_clean [OF d c]] by blast
  have "do_sync_ls env fd path w = Inr ((0, map (\<lambda>(st, name). (st_mode st, of_nat (st_size st), word_of_int (st_mtime st), name)) es), w3)"
    using assms(1,2) 1(1) 2(1) 3(1)
    by (simp add: do_sync_ls_def sync_ls_def sync_end_def sync_quit_def Let_def ID_QUIT_def syncmsg_wire_simps)
  moreover have "wr_out w3 fd = wr_out w fd @ sync_request ''LIST'' path @ wire_msg ''QUIT'' [0]"
    using did_out [OF did_trans [OF d 3(2)], of fd] by simp
  ultimately show "\<exists>w'. do_sync_ls env fd path w =
      Inr ((0, map (\<lambda>(st, name). (st_mode st, of_nat (st_size st), word_of_int (st_mtime st), name)) es), w')
      \<and> wr_out w' fd = wr_out w fd @ sync_request ''LIST'' path @ wire_msg ''QUIT'' [0]" by blast
qed

lemma listing_set: "e \<in> set (listing env h path ds) \<Longrightarrow> snd e \<in> set ds \<and> length (snd e) \<le> 256"
  by (induction env h path ds rule: listing.induct) (auto simp: Let_def split: if_splits option.splits)

text \<open>
  Property C13. A listing lists the directory: a service that is asked for a directory it can open answers with
  some bytes, and a client that asks and reads them reports, in the order of the directory, exactly
  the entries with names of at most 256 characters that \<open>lstat\<close> finds, with mode, size and time
  stamp (the latter two cut to 32 bits), ends the session and returns 0.
\<close>

theorem list_lists_directory:
  assumes "0 \<le> fd" "length path \<le> 1022" "CHR 0x00 \<notin> set path"
    and "good_bytes (rd_ev w s) = sync_request ''LIST'' path @ rest'" "wr_clean (wr_ev w s)"
    and "os_opendir denv (fs_log w) path = Some names" "\<forall>d\<in>set names. CHR 0x00 \<notin> set d"
  shows "\<exists>w' bytes. file_sync_loop denv s w = file_sync_loop denv s w' \<and> wr_out w' s = wr_out w s @ bytes
    \<and> client_lists cenv fd bytes path (listing denv (fs_log w @ [FsOpendir path]) path names)"
proof -
  let ?es = "listing denv (fs_log w @ [FsOpendir path]) path names"
  obtain w1 where 1: "did w [Got s (sync_request ''LIST'' path)] w1" "sync_command denv s w = bindr (do_list denv s path w1) (\<lambda>(r, w). Inr (r = 0, w))"
    using command_begins [of w s "''LIST''" path rest' do_list denv] assms(2,3,4) by auto
  have "fs_log w1 = fs_log w" using did_log [OF 1(1)] by simp
  then obtain w2 where 2: "do_list denv s path w1 = Inr (0, w2)"
      "did w1 ([Called (FsOpendir path)] @ lstats path names @ [Put s (concat (map dent_bytes ?es) @ wire_msg ''DONE'' [0, 0, 0, 0]), Called (FsClosedir path)]) w2"
    using do_list_sends [of denv w1 path names s] did_clean [OF 1(1) assms(5)] assms(2,6) by (auto simp: list_tmp_size_def)
  have "client_lists cenv fd (concat (map dent_bytes ?es) @ wire_msg ''DONE'' [0, 0, 0, 0]) path ?es"
    using assms(1,2,7) listing_set [of _ denv _ path names] by (intro client_lists_stream) auto
  moreover have "file_sync_loop denv s w = file_sync_loop denv s w2" using 1(2) 2(1) by (intro loop_continues) simp
  ultimately show ?thesis using did_out [OF did_trans [OF 1(1) 2(2)], of s] by auto
qed

theorem list_lists_directory_witness:
  "\<exists>w' bytes wc'. file_sync_loop ex_sync 5 (ex_state (sync_request ''LIST'' ''/d'')) = file_sync_loop ex_sync 5 w' \<and> wr_out w' 5 = bytes
    \<and> do_sync_ls ex_sync 5 ''/d'' (ex_state bytes) = Inr ((0, [(0x81A4, 2, 7, ''a''), (0x81A4, 2, 7, ''bc'')]), wc')"
proof -
  from list_lists_directory [of 5 "''/d''" "ex_state (sync_request ''LIST'' ''/d'')" 5 "[]" ex_sync "[''a'', ''bc'']" ex_sync]
  obtain w' bytes where 1: "file_sync_loop ex_sync 5 (ex_state (sync_request ''LIST'' ''/d'')) = file_sync_loop ex_sync 5 w'" "wr_out w' 5 = bytes"
      "client_lists ex_sync 5 bytes ''/d'' [(\<lparr>st_mode = 0x81A4, st_size = 2, st_mtime = 7\<rparr>, ''a''), (\<lparr>st_mode = 0x81A4, st_size = 2, st_mtime = 7\<rparr>, ''bc'')]"
    by (auto simp: Let_def)
  then obtain wc' where "do_sync_ls ex_sync 5 ''/d'' (ex_state bytes) = Inr ((0, [(0x81A4, 2, 7, ''a''), (0x81A4, 2, 7, ''bc'')]), wc')"
    using spec [OF spec [OF 1(3) [unfolded client_lists_def], of "ex_state bytes"], of "[]"] by auto
  with 1 show ?thesis by blast
qed

section \<open>Transfers that are refused\<close>

text \<open>
  Property C14. A malformed transfer leaves no file: when, after any number of data messages, a message arrives
  that is neither data nor the end of the file, or data that claims to be longer than \<open>SYNC_DATA_MAX\<close>,
  the service answers FAIL with the reason, closes and removes the file it was writing, and ends the
  session by closing the connection.
\<close>

theorem bad_transfer_leaves_no_file:
  assumes "malloc_ok env" "send_mode name = (path, mode, False)" "length name \<le> 1024" "CHR 0x00 \<notin> set name"
    and "good_bytes (rd_ev w s) = sync_request ''SEND'' name @ data_stream cs @ wire_msg tag [n] @ rest" "pieces cs"
    and "length tag = 4" "bad_message tag n = Some reason"
    and "os_open env (fs_log w @ [FsUnlink path]) path WRONLY_CREAT_EXCL (file_mode mode) = Inr fd"
    and "wr_clean (wr_ev w (int fd))" "wr_clean (wr_ev w s)" "int fd \<noteq> s"
  shows "\<exists>w'. file_sync_service env s w = Inr w' \<and> wr_out w' s = wr_out w s @ fail_reply reason
    \<and> fs_log w' = fs_log w @ [FsUnlink path, FsOpen path WRONLY_CREAT_EXCL (file_mode mode), FsClose (int fd), FsUnlink path, FsClose s]"
proof -
  let ?w = "w\<lparr>sync_buf := []\<rparr>"
  have "good_bytes (rd_ev ?w s) = sync_request ''SEND'' name @ (data_stream cs @ wire_msg tag [n] @ rest)" using assms(5) by simp
  from command_begins [OF this assms(3,4), of do_send env] obtain w1 where
    1: "did ?w [Got s (sync_request ''SEND'' name)] w1" "sync_command env s ?w = bindr (do_send env s name w1) (\<lambda>(r, w). Inr (r = 0, w))" by auto
  have str: "good_bytes (rd_ev w1 s) = data_stream cs @ wire_msg tag [n] @ rest" using did_stream [OF 1(1), of s] assms(5) by simp
  have op: "os_open env (fs_log w1 @ [FsUnlink path]) path WRONLY_CREAT_EXCL (file_mode mode) = Inr fd" using did_log [OF 1(1)] assms(9) by simp
  obtain w2 where 2: "do_send env s name w1 = Inr (-1, w2)"
      "did w1 (send_begin path mode @ [Got s (data_stream cs @ wire_msg tag [n]), Put (int fd) (concat cs), Put s (fail_reply reason),
        Called (FsClose (int fd)), Called (FsUnlink path)]) w2"
    using do_send_fails [OF assms(2) op str assms(6) _ _ assms(7,8)] did_clean [OF 1(1), of "int fd"] did_clean [OF 1(1), of s] assms(10,11) by auto
  have "file_sync_service env s w = Inr (fs_close s w2)"
    using assms(1) 1(2) 2(1) by (simp add: file_sync_service_def file_sync_loop.simps [of env s ?w])
  moreover note d = did_trans [OF did_trans [OF 1(1) 2(2)] did_calls(4) [where fd = s]]
  ultimately show ?thesis using did_out [OF d, of s] did_log [OF d] assms(12) by simp
qed

theorem bad_transfer_leaves_no_file_witness:
  "\<exists>w'. file_sync_service ex_sync 5 (ex_state (sync_request ''SEND'' ''/r,420'' @ data_stream [[104]] @ wire_msg ''DATA'' [451] @ [1, 2])) = Inr w'
    \<and> wr_out w' 5 = fail_reply ''oversize data message'' \<and> FsUnlink ''/r'' \<in> set (fs_log w')"
proof -
  have m: "send_mode ''/r,420'' = (''/r'', 420 AND 0x1FF, False)"
    by (simp add: send_mode_def strrchr_def strtoul_def isspace_def digit_value_def isdigit_def ULONG_MAX_def S_ISLNK_def)
  show ?thesis
    using bad_transfer_leaves_no_file [OF _ m, of ex_sync "ex_state (sync_request ''SEND'' ''/r,420'' @ data_stream [[104]] @ wire_msg ''DATA'' [451] @ [1, 2])"
        5 "[[104]]" "''DATA''" 451 "[1, 2]" "''oversize data message''" 9]
    by (fastforce simp: ex_sync_def bad_message_def SYNC_DATA_MAX_def)
qed

text \<open>
  Names near the limit cannot be pushed: the client accepts a remote path of up to 1024 characters,
  but the name it sends also contains the mode, and a service that reads the request of such a
  transfer with a name of more than 1024 characters answers \<open>invalid namelen\<close> and ends the session.
\<close>

theorem long_name_refused:
  assumes "malloc_ok env" "1024 < length (push_name rpath mode)" "length rpath \<le> 1024"
    and "good_bytes (rd_ev w s) = sync_request ''SEND'' (push_name rpath mode) @ rest'" "wr_clean (wr_ev w s)" "unat mode < 2 ^ 31"
  shows "\<exists>w'. file_sync_service env s w = Inr w' \<and> wr_out w' s = wr_out w s @ fail_reply ''invalid namelen'' \<and> fs_log w' = fs_log w @ [FsClose s]"
proof -
  let ?w = "w\<lparr>sync_buf := []\<rparr>" and ?n = "length (push_name rpath mode)"
  have "length (dec_digits (unat mode)) \<le> 10" using assms(6) by (intro length_dec_digits) auto
  then have n: "?n < 2 ^ 32" using assms(3,6) by (simp add: push_name_def fmt_mode)
  have "good_bytes (rd_ev ?w s) = wire_msg ''SEND'' [of_nat ?n] @ (bytes_of (push_name rpath mode) @ rest')" using assms(4) by (simp add: sync_request_def)
  then obtain w1 where 1: "readx s 8 ?w = Inr (Some (wire_msg ''SEND'' [of_nat ?n]), w1)" "did ?w [Got s (wire_msg ''SEND'' [of_nat ?n])] w1"
    using readx_did [of ?w s "wire_msg ''SEND'' [of_nat ?n]" "bytes_of (push_name rpath mode) @ rest'" 8] by auto
  obtain w2 where 2: "sync_fail_message env s ''invalid namelen'' w1 = Inr (0, w2)" "did w1 [Put s (fail_reply ''invalid namelen'')] w2"
    using fail_message_did [OF did_clean [OF 1(2)], of s env] assms(5) by auto
  have "sync_command env s ?w = Inr (False, w2)"
    using 1(1) 2(1) assms(2) unat_u32_of_nat [OF n] by (simp add: sync_command_def Let_def)
  then have "file_sync_service env s w = Inr (fs_close s w2)"
    using assms(1) by (simp add: file_sync_service_def file_sync_loop.simps [of env s ?w])
  moreover note d = did_trans [OF did_trans [OF 1(2) 2(2)] did_calls(4) [where fd = s]]
  ultimately show ?thesis using did_out [OF d, of s] did_log [OF d] by simp
qed

theorem long_name_refused_witness:
  "\<exists>w'. file_sync_service ex_sync 5 (ex_state (sync_request ''SEND'' (push_name (replicate 1024 CHR ''a'') 0x81A4))) = Inr w'
    \<and> wr_out w' 5 = fail_reply ''invalid namelen''"
proof -
  have "1024 < length (push_name (replicate 1024 CHR ''a'') 0x81A4)" by (simp add: push_name_def)
  from long_name_refused [OF _ this, of ex_sync "ex_state (sync_request ''SEND'' (push_name (replicate 1024 CHR ''a'') 0x81A4))" 5 "[]"]
  show ?thesis by (fastforce simp: ex_sync_def)
qed

section \<open>The buffer of a listing\<close>

lemma list_loop_overflow:
  assumes "wr_clean (wr_ev w s)" "d \<in> set ds" "length d \<le> 256" "list_tmp_size < length path + length d + 2"
  shows "list_loop env s path ds w = Inl MemFault"
  using assms
proof (induction ds arbitrary: w)
  case (Cons c ds)
  let ?w1 = "snd (lstat env (path @ ''/'' @ c) w)"
  have clean: "wr_clean (wr_ev ?w1 s)" using Cons.prems(1) by (simp add: lstat_def log_call_def)
  consider "length c > 256" | "length path + 1 + length c + 1 > list_tmp_size" "length c \<le> 256"
    | "length c \<le> 256" "\<not> length path + 1 + length c + 1 > list_tmp_size" "d \<in> set ds"
    using Cons.prems(2,4) by fastforce
  then show ?case
  proof cases
    case 1
    then have "d \<in> set ds" using Cons.prems(2,3) by auto
    with 1 Cons show ?thesis by simp
  next
    case 2
    then show ?thesis by simp
  next
    case 3
    show ?thesis
    proof (cases "fst (lstat env (path @ ''/'' @ c) w)")
      case None
      with 3 Cons.IH [OF clean 3(3) Cons.prems(3,4)] show ?thesis by (simp add: Let_def case_prod_beta)
    next
      case (Some st)
      obtain w2 where 2: "writex_both s (syncmsg (host_be env) [ID_DENT (host_be env), htoll (host_be env) (st_mode st),
          htoll (host_be env) (of_nat (st_size st)), htoll (host_be env) (word_of_int (st_mtime st)), htoll (host_be env) (of_nat (length c))])
          (bytes_of c) ?w1 = Inr (0, w2)" "wr_clean (wr_ev w2 s)"
        using writex_both_did [OF clean] clean did_clean by blast
      with 3 Some Cons.IH [OF 2(2) 3(3) Cons.prems(3,4)] show ?thesis by (simp add: Let_def case_prod_beta)
    qed
  qed
qed simp

text \<open>
  Property C38. The buffer of a listing is one byte too small: with a directory name of at most 1024 characters,
  as the service accepts, \<open>do_list\<close> writes outside its buffer exactly when the name has 1024
  characters and the directory an entry of 256, the longest the check in the loop lets through.
\<close>

theorem list_buffer_bound:
  assumes "length path \<le> 1024" "os_opendir env (fs_log w) path = Some names" "wr_clean (wr_ev w s)"
  shows "do_list env s path w = Inl MemFault \<longleftrightarrow> length path = 1024 \<and> (\<exists>d\<in>set names. length d = 256)"
proof
  assume f: "do_list env s path w = Inl MemFault"
  have "\<not> (\<forall>d\<in>set names. length d \<le> 256 \<longrightarrow> length path + length d + 2 \<le> list_tmp_size)"
    using do_list_sends [OF assms(2,3)] assms(1) f by (auto simp: list_tmp_size_def)
  then obtain d where d: "d \<in> set names" "length d \<le> 256" "1279 < length path + length d" by (auto simp: list_tmp_size_def)
  then have "length path = 1024" "length d = 256" using assms(1) by linarith+
  with d(1) show "length path = 1024 \<and> (\<exists>d\<in>set names. length d = 256)" by blast
next
  assume l: "length path = 1024 \<and> (\<exists>d\<in>set names. length d = 256)"
  then obtain d where "d \<in> set names" "length d = 256" by blast
  with l list_loop_overflow [of "log_call (FsOpendir path) w" s d names path env] assms(3)
  show "do_list env s path w = Inl MemFault"
    using assms(2) by (simp add: do_list_def list_tmp_size_def Let_def log_call_def)
qed

theorem list_buffer_bound_witness:
  "do_list (ex_sync\<lparr>os_opendir := \<lambda>_ _. Some [replicate 256 CHR ''b'']\<rparr>) 5 (replicate 1024 CHR ''a'') (ex_state []) = Inl MemFault"
  using list_buffer_bound [of "replicate 1024 CHR ''a''" "ex_sync\<lparr>os_opendir := \<lambda>_ _. Some [replicate 256 CHR ''b'']\<rparr>" "ex_state []" "[replicate 256 CHR ''b'']" 5]
  by simp

end
