(* ===== verification/DaemonThreads.thy ===== *)
theory DaemonThreads
  imports SyncFs
begin

text \<open>
  The threads that serve a stream of the daemon on one end of a socket pair: restarting adbd,
  rebooting, waiting for a shell (services.c), screen shots (framebuffer_service.c), the kernel's log
  (log_service.c) and remounting (remount_service.c). The system calls they make are parameters;
  the thread of the file synchronisation service has a theory of its own.
\<close>

section \<open>Restarting and rebooting\<close>

text \<open>The properties a thread has set, in order, on top of the descriptors.\<close>

record thread_world = world +
  properties :: "(string \<times> string) list"
  system_ro :: int

definition property_set :: "string \<Rightarrow> string \<Rightarrow> thread_world \<Rightarrow> thread_world" where
  "property_set key val w = w\<lparr>properties := properties w @ [(key, val)]\<rparr>"

definition PROPERTY_VALUE_MAX :: nat where "PROPERTY_VALUE_MAX = 92"

text \<open>A message that fits the buffer of 100 characters is written and the descriptor closed.\<close>

definition say_and_close :: "fdesc \<Rightarrow> string \<Rightarrow> thread_world \<Rightarrow> thread_world res" where
  "say_and_close fd txt w = bindr (writex fd (bytes_of (take 99 txt)) w) (\<lambda>(_, w). Inr (adb_close fd w))"

definition newline :: string where "newline = [CHR 0x0a]"

definition restart_root_service :: "nat \<Rightarrow> string \<Rightarrow> fdesc \<Rightarrow> thread_world \<Rightarrow> thread_world res" where
  "restart_root_service uid debuggable fd w =
     (if uid = 0 then say_and_close fd (''adbd is already running as root'' @ newline) w
      else if debuggable \<noteq> ''1'' then say_and_close fd (''adbd cannot run as root in production builds'' @ newline) w
      else say_and_close fd (''restarting adbd as root'' @ newline) (property_set ''service.adb.root'' ''1'' w))"

definition restart_tcp_service :: "int \<Rightarrow> fdesc \<Rightarrow> thread_world \<Rightarrow> thread_world res" where
  "restart_tcp_service port fd w =
     (if port \<le> 0 then say_and_close fd (''invalid port'' @ newline) w
      else say_and_close fd (''restarting in TCP mode port: '' @ fmt_d port @ newline)
        (property_set ''service.adb.tcp.port'' (fmt_d port) w))"

definition restart_usb_service :: "fdesc \<Rightarrow> thread_world \<Rightarrow> thread_world res" where
  "restart_usb_service fd w = say_and_close fd (''restarting in USB mode'' @ newline) (property_set ''service.adb.tcp.port'' ''0'' w)"

text \<open>\<open>ret\<close> is what \<open>property_set\<close> returns; after a success the thread pauses for ever.\<close>

definition reboot_service :: "int \<Rightarrow> string \<Rightarrow> fdesc \<Rightarrow> thread_world \<Rightarrow> thread_world res" where
  "reboot_service ret arg fd w =
     (let val = ''reboot,'' @ arg in
      if length val \<ge> PROPERTY_VALUE_MAX
      then say_and_close fd (''reboot string too long. length='' @ fmt_d (int (length val)) @ newline) w
      else let w = property_set ''sys.powerctl'' val w in
        if ret < 0 then say_and_close fd (''reboot failed: '' @ fmt_d ret @ newline) w else Inl Blocks)"

section \<open>Waiting for a shell\<close>

datatype wait_status = Signaled int | Exited nat | Stopped

text \<open>
  What successive calls of \<open>waitpid\<close> report, and the descriptor of the event loop that wants to know
  about exited shells. Every status of the process itself ends the loop.
\<close>

fun wait_loop :: "int \<Rightarrow> (int \<times> wait_status) list \<Rightarrow> wait_status res" where
  "wait_loop pid [] = Inl Blocks"
| "wait_loop pid ((p, status) # rs) = (if p = pid then Inr status else wait_loop pid rs)"

definition subproc_waiter_service :: "bool \<Rightarrow> int \<Rightarrow> (int \<times> wait_status) list \<Rightarrow> int \<Rightarrow> fdesc \<Rightarrow> thread_world \<Rightarrow> thread_world res" where
  "subproc_waiter_service be notify_fd rs pid fd w =
     bindr (wait_loop pid rs) (\<lambda>_.
       if notify_fd \<ge> 0 then bindr (writex notify_fd (mem_bytes be (word_of_int fd)) w) (\<lambda>(_, w). Inr w) else Inr w)"

section \<open>Screen shots\<close>

text \<open>The header of a screen shot for the formats \<open>screencap\<close> may use, and the size of the picture.\<close>

definition fb_colors :: "u32 \<Rightarrow> (nat \<times> u32 \<times> u32 list) option" where
  "fb_colors f =
     (if f = 1 then Some (4, 32, [0, 8, 16, 8, 8, 8, 24, 8])
      else if f = 2 then Some (4, 32, [0, 8, 16, 8, 8, 8, 24, 0])
      else if f = 3 then Some (3, 24, [0, 8, 16, 8, 8, 8, 24, 0])
      else if f = 4 then Some (2, 16, [11, 5, 0, 5, 5, 6, 0, 0])
      else if f = 5 then Some (4, 32, [16, 8, 0, 8, 8, 8, 24, 8])
      else None)"

definition fb_info :: "u32 \<Rightarrow> u32 \<Rightarrow> u32 \<Rightarrow> (u32 list \<times> u32) option" where
  "fb_info w h f = map_option (\<lambda>(bytes, bpp, colors). ([1, bpp, w * h * of_nat bytes, w, h] @ colors, w * h * of_nat bytes)) (fb_colors f)"

definition fb_chunk :: nat where "fb_chunk = 640"

text \<open>The copying loop, with the counter of the code; false when a read or a write failed.\<close>

function fb_copy :: "fdesc \<Rightarrow> fdesc \<Rightarrow> u32 \<Rightarrow> u32 \<Rightarrow> 'a world_scheme \<Rightarrow> (bool \<times> 'a world_scheme) res" where
  "fb_copy cap fd i n w =
     (if i < n then
        bindr (readx cap fb_chunk w) (\<lambda>(r, w).
          case r of
            None \<Rightarrow> Inr (False, w)
          | Some buf \<Rightarrow> bindr (writex fd buf w) (\<lambda>(q, w). if q \<noteq> 0 then Inr (False, w) else fb_copy cap fd (i + of_nat fb_chunk) n w))
      else Inr (True, w))"
  by pat_completeness auto
termination
  by (relation "measure (\<lambda>(cap, fd, i, n, w). rd_left cap w)") (auto simp: fb_chunk_def dest!: io_left)

declare fb_copy.simps [simp del]

definition fb_send :: "bool \<Rightarrow> fdesc \<Rightarrow> fdesc \<Rightarrow> 'a world_scheme \<Rightarrow> 'a world_scheme res" where
  "fb_send be cap fd w =
     bindr (readx cap 4 w) (\<lambda>(a, w). case a of None \<Rightarrow> Inr w | Some a \<Rightarrow>
     bindr (readx cap 4 w) (\<lambda>(b, w). case b of None \<Rightarrow> Inr w | Some b \<Rightarrow>
     bindr (readx cap 4 w) (\<lambda>(c, w). case c of None \<Rightarrow> Inr w | Some c \<Rightarrow>
       case fb_info (mem_word be a) (mem_word be b) (mem_word be c) of
         None \<Rightarrow> Inr w
       | Some (fbinfo, n) \<Rightarrow>
         bindr (writex fd (concat (map (mem_bytes be) fbinfo)) w) (\<lambda>(r, w).
           if r \<noteq> 0 then Inr w
           else bindr (fb_copy cap fd 0 n w) (\<lambda>(ok, w).
             if \<not> ok then Inr w
             else bindr (readx cap (unat n mod fb_chunk) w) (\<lambda>(r, w).
               case r of None \<Rightarrow> Inr w | Some buf \<Rightarrow> bindr (writex fd buf w) (\<lambda>(_, w). Inr w)))))))"

text \<open>
  \<open>fds\<close> are the descriptors of the pipe to \<open>screencap\<close>. When \<open>pipe\<close> fails, the end of the function
  waits for a process id and closes descriptors that have no values.
\<close>

definition framebuffer_service :: "bool \<Rightarrow> (fdesc \<times> fdesc) option \<Rightarrow> int \<Rightarrow> fdesc \<Rightarrow> 'a world_scheme \<Rightarrow> 'a world_scheme res" where
  "framebuffer_service be fds pid fd w =
     (case fds of
        None \<Rightarrow> Inl MemFault
      | Some (fd0, fd1) \<Rightarrow>
          bindr (if pid < 0 then Inr w else fb_send be fd0 fd w) (\<lambda>w. Inr (adb_close fd (adb_close fd1 (adb_close fd0 w)))))"

subsection \<open>Which screen shots arrive\<close>








section \<open>The log\<close>

definition get_log_file_path :: "string \<Rightarrow> string" where
  "get_log_file_path log_name = ''/dev/log/'' @ log_name"

definition LOGGER_ENTRY_MAX_LEN :: nat where "LOGGER_ENTRY_MAX_LEN = 5 * 1024"

text \<open>
  An entry is a header of 20 bytes that starts with the length of the message, and the message. The
  service relies on the driver to return one full entry per read.
\<close>

definition entry_len :: "bool \<Rightarrow> byte list \<Rightarrow> nat" where
  "entry_len be e = (case take 2 e of [a, b] \<Rightarrow> if be then 256 * unat a + unat b else unat a + 256 * unat b | _ \<Rightarrow> 0)"

definition write_log_entry :: "bool \<Rightarrow> fdesc \<Rightarrow> byte list \<Rightarrow> 'a world_scheme \<Rightarrow> 'a world_scheme res" where
  "write_log_entry be fd e w =
     (let n = 20 + entry_len be e in
      if length e < n then Inl MemFault else bindr (writex fd (take n e) w) (\<lambda>(_, w). Inr w))"

text \<open>A descriptor with nothing to read stops the loop: it blocks, or is asked again and again.\<close>

function log_loop :: "bool \<Rightarrow> fdesc \<Rightarrow> fdesc \<Rightarrow> 'a world_scheme \<Rightarrow> 'a world_scheme res" where
  "log_loop be logfd fd w =
     (if rd_ev w logfd = [] then Inl Blocks
      else case adb_read logfd LOGGER_ENTRY_MAX_LEN w of
        Inl e \<Rightarrow> Inl e
      | Inr (IoErr e, _, w') \<Rightarrow>
          if e = EINTR \<or> e = EAGAIN then if rd_left logfd w' < rd_left logfd w then log_loop be logfd fd w' else Inl Blocks else Inr w'
      | Inr (IoN n, entry, w) \<Rightarrow> if n = 0 then Inr w else bindr (write_log_entry be fd entry w) (\<lambda>w. log_loop be logfd fd w))"
  by pat_completeness auto
termination
  by (relation "measure (\<lambda>(be, logfd, fd, w). rd_left logfd w)")
    (auto dest: adb_read_left simp: write_log_entry_def Let_def bindr_eq_Inr dest!: io_left split: if_splits)

declare log_loop.simps [simp del]

text \<open>\<open>logfd\<close> is what opening the log returned; it is never closed.\<close>

definition log_service :: "bool \<Rightarrow> int \<Rightarrow> fdesc \<Rightarrow> 'a world_scheme \<Rightarrow> 'a world_scheme res" where
  "log_service be logfd fd w =
     bindr (if logfd < 0 then Inr w else log_loop be logfd fd w) (\<lambda>w. Inr (adb_close fd w))"

section \<open>Remounting\<close>

text \<open>
  \<open>sscanf\<close> with \<open>"%255s %255s %*s %*s %d %d"\<close> on one line; the mount device, the directory and whether all
  four values were there.
\<close>

definition scan_s :: "nat option \<Rightarrow> string \<Rightarrow> (string \<times> string) option" where
  "scan_s width s =
     (let s = dropWhile isspace s; t = takeWhile (\<lambda>c. \<not> isspace c) s; t = (case width of None \<Rightarrow> t | Some n \<Rightarrow> take n t) in
      if t = [] then None else Some (t, drop (length t) s))"

definition scan_d :: "string \<Rightarrow> string option" where
  "scan_d s =
     (let s = dropWhile isspace s; s = (if s \<noteq> [] \<and> (hd s = CHR ''-'' \<or> hd s = CHR ''+'') then tl s else s) in
      if s \<noteq> [] \<and> isdigit (hd s) then Some (dropWhile isdigit s) else None)"

definition scan_mount :: "string \<Rightarrow> (string \<times> string) option" where
  "scan_mount line =
     Option.bind (scan_s (Some 255) line) (\<lambda>(dev, s).
     Option.bind (scan_s (Some 255) s) (\<lambda>(dir, s).
     Option.bind (scan_s None s) (\<lambda>(_, s).
     Option.bind (scan_s None s) (\<lambda>(_, s).
     Option.bind (scan_d s) (\<lambda>s.
     Option.bind (scan_d s) (\<lambda>_. Some (dev, dir)))))))"

text \<open>
  \<open>strtok\<close> over the bytes read. They are not followed by a NUL, so that a search that comes to their
  end reads on in the uninitialised rest of the buffer, unless the buffer is full.
\<close>

lemma rest_shorter: "k < length (dropWhile P bs) \<Longrightarrow> length (dropWhile P bs) - Suc k < length bs"
  using length_dropWhile_le [of P bs] by linarith

function mount_lines :: "bool \<Rightarrow> string \<Rightarrow> byte list \<Rightarrow> string option res" where
  "mount_lines full dir bs =
     (let bs = dropWhile (\<lambda>b. b = 0x0a) bs; line = takeWhile (\<lambda>b. b \<noteq> 0x0a \<and> b \<noteq> 0) bs; rest = drop (length line) bs in
      if rest = [] \<and> \<not> full then Inl MemFault
      else if line = [] then Inr None
      else case scan_mount (map char_of_byte line) of
        Some (dev, d) \<Rightarrow> if d = dir then Inr (Some dev)
          else if rest = [] \<or> hd rest = 0 then Inr None else mount_lines full dir (tl rest)
      | None \<Rightarrow> if rest = [] \<or> hd rest = 0 then Inr None else mount_lines full dir (tl rest))"
  by pat_completeness auto
termination
  by (relation "measure (\<lambda>(full, dir, bs). length bs)") (auto simp: Let_def not_le intro!: rest_shorter)

declare mount_lines.simps [simp del]

text \<open>\<open>fd\<close> is what opening \<open>/proc/mounts\<close> returned.\<close>

definition find_mount :: "int \<Rightarrow> string \<Rightarrow> thread_world \<Rightarrow> (string option \<times> thread_world) res" where
  "find_mount fd dir w =
     (if fd < 0 then Inr (None, w)
      else case adb_read fd 4095 w of
        Inl e \<Rightarrow> Inl e
      | Inr (r, bs, w) \<Rightarrow> bindr (mount_lines (length bs = 4095) dir bs) (\<lambda>dev. Inr (dev, adb_close fd w)))"

text \<open>The parameters: \<open>/proc/mounts\<close>, opening the device, and the result of \<open>mount\<close>.\<close>

definition remount_system :: "int \<Rightarrow> (string \<Rightarrow> int) \<Rightarrow> (string \<Rightarrow> int) \<Rightarrow> thread_world \<Rightarrow> (int \<times> thread_world) res" where
  "remount_system mounts_fd open_dev mount w =
     (if system_ro w = 0 then Inr (0, w)
      else bindr (find_mount mounts_fd ''/system'' w) (\<lambda>(dev, w).
        case dev of
          None \<Rightarrow> Inr (-1, w)
        | Some dev \<Rightarrow>
            if open_dev dev < 0 then Inr (-1, w)
            else Inr (mount dev, (adb_close (open_dev dev) w)\<lparr>system_ro := mount dev\<rparr>)))"

definition remount_service :: "int \<Rightarrow> (string \<Rightarrow> int) \<Rightarrow> (string \<Rightarrow> int) \<Rightarrow> string \<Rightarrow> fdesc \<Rightarrow> thread_world \<Rightarrow> thread_world res" where
  "remount_service mounts_fd open_dev mount err fd w =
     bindr (remount_system mounts_fd open_dev mount w) (\<lambda>(ret, w).
       bindr (writex fd (bytes_of (if ret = 0 then ''remount succeeded'' @ newline else take 199 (''remount failed: '' @ err @ newline))) w)
         (\<lambda>(_, w). Inr (adb_close fd w)))"

end
