(* ===== verification/Services.thy ===== *)
theory Services
  imports DaemonInv "HOL-Library.Sublist"
begin

text \<open>
  The services of the daemon, \<open>service_to_fd\<close> of services.c with \<open>backup_service\<close>: which thread or process is started for a
  name, on which descriptor, and what is left behind when one of the steps fails. What the threads do
  on their descriptors is modelled in \<open>DaemonThreads\<close> and \<open>SyncService\<close>. The theorems say exactly what a request for a service leaves behind,
  and that with these services every handler of the daemon keeps the invariant, as long as no descriptor the daemon is
  handed is still watched by its event loop.
\<close>

section \<open>Threads and processes\<close>

text \<open>The functions that are started as threads, with their argument; the last three are those of the server on the host.\<close>

record state_info =
  si_transport :: transport_type
  si_serial :: "string option"
  si_state :: int

datatype service_func =
    framebuffer_service_func | log_service_func string | file_sync_service_func | remount_service_func
  | reboot_service_func string | restart_root_service_func | restart_tcp_service_func int | restart_usb_service_func
  | subproc_waiter_service_func int | backup_child_waiter_func int
  | wait_for_state_func state_info | connect_service_func string | btconnect_service_func string

text \<open>
  The threads that were started, each with its descriptor, and the commands of the processes.
\<close>

record svstate = pstate +
  service_threads :: "(service_func \<times> int) list"
  processes :: "string list list"

datatype local_namespace = RESERVED | ABSTRACT | FILESYSTEM

datatype client = Loopback int | Local string local_namespace | Device string

text \<open>
  What the kernel answers in a state: a socket pair; whether there is memory and a new thread; the
  descriptor of the pseudo terminal and whether the calls on it succeed; the result of \<open>fork\<close> in
  the parent; the descriptor of a connection or device. \<open>uninitialised\<close> is the value of a local
  variable that the code reads before it is set.
\<close>

record 's service_env =
  sv_socketpair :: "'s \<Rightarrow> (int \<times> int) option"
  sv_malloc :: "'s \<Rightarrow> bool"
  sv_thread :: "'s \<Rightarrow> bool"
  sv_ptmx :: "'s \<Rightarrow> int"
  sv_grantpt :: "'s \<Rightarrow> bool"
  sv_fork :: "'s \<Rightarrow> int"
  sv_open :: "client \<Rightarrow> 's \<Rightarrow> int"
  uninitialised :: int

definition start_thread :: "service_func \<Rightarrow> int \<Rightarrow> svstate \<Rightarrow> svstate" where
  "start_thread func fd st = st\<lparr>service_threads := service_threads st @ [(func, fd)]\<rparr>"

definition create_service_thread :: "svstate service_env \<Rightarrow> service_func \<Rightarrow> svstate \<Rightarrow> (int \<times> svstate) res" where
  "create_service_thread env func st =
     (case sv_socketpair env st of
        None \<Rightarrow> Inr (-1, st)
      | Some (s0, s1) \<Rightarrow>
          if \<not> sv_malloc env st then Inl (ExitWith (-1))
          else if \<not> sv_thread env st then Inr (-1, adb_close s1 (adb_close s0 st))
          else Inr (s0, start_thread func s1 st))"

definition SHELL_COMMAND :: string where "SHELL_COMMAND = ''/system/bin/sh''"

text \<open>The result with the process id that was stored, if any; the child executes its arguments.\<close>

definition create_subprocess :: "svstate service_env \<Rightarrow> string list \<Rightarrow> svstate \<Rightarrow> int \<times> int option \<times> svstate" where
  "create_subprocess env argv st =
     (let ptm = sv_ptmx env st in
      if ptm < 0 then (-1, None, st)
      else if \<not> sv_grantpt env st then (-1, None, adb_close ptm st)
      else let pid = sv_fork env st in
        if pid < 0 then (-1, Some pid, adb_close ptm st)
        else (ptm, Some pid, st\<lparr>processes := processes st @ [argv]\<rparr>))"

text \<open>The result of \<open>create_subprocess\<close> is not checked: the thread is started for a failed process too.\<close>

definition create_subproc_thread :: "svstate service_env \<Rightarrow> string option \<Rightarrow> svstate \<Rightarrow> (int \<times> svstate) res" where
  "create_subproc_thread env name st =
     (let (ret_fd, pid, st) = create_subprocess env
            (case name of Some cmd \<Rightarrow> [SHELL_COMMAND, ''-c'', cmd] | None \<Rightarrow> [SHELL_COMMAND, ''-'']) st;
          pid = (case pid of Some p \<Rightarrow> p | None \<Rightarrow> uninitialised env) in
      if \<not> sv_malloc env st then Inl (ExitWith (-1))
      else if \<not> sv_thread env st then Inr (-1, adb_close ret_fd st)
      else Inr (ret_fd, start_thread (subproc_waiter_service_func pid) ret_fd st))"

datatype BackupOperation = BACKUP | RESTORE

text \<open>The arguments of \<open>bu\<close>: the text cut at its colons.\<close>

function bu_args :: "string \<Rightarrow> string list" where
  "bu_args p = (if p = [] then [] else takeWhile (\<lambda>c. c \<noteq> CHR '':'') p # bu_args (drop 1 (dropWhile (\<lambda>c. c \<noteq> CHR '':'') p)))"
  by pat_completeness auto
termination
  by (relation "measure length") (auto simp: less_Suc_eq_le dest: dropWhile_tail_less [of _ "\<lambda>c. c \<noteq> CHR '':''"])

declare bu_args.simps [simp del]

text \<open>The waiter thread closes the descriptor the caller goes on using.\<close>

definition backup_service :: "svstate service_env \<Rightarrow> BackupOperation \<Rightarrow> string option \<Rightarrow> svstate \<Rightarrow> (int \<times> svstate) res" where
  "backup_service env op args st =
     (case sv_socketpair env st of
        None \<Rightarrow> Inr (-1, st)
      | Some (s0, s1) \<Rightarrow>
          let pid = sv_fork env st in
          if pid < 0 then Inr (-1, adb_close s1 (adb_close s0 st))
          else
            let argv = [''bu'', take 15 (fmt_d s1), if op = BACKUP then ''backup'' else ''restore''] @ (case args of None \<Rightarrow> [] | Some p \<Rightarrow> bu_args p);
                st = adb_close s1 (st\<lparr>processes := processes st @ [argv]\<rparr>) in
            if \<not> sv_malloc env st then Inl MemFault
            else if \<not> sv_thread env st then Inr (-1, adb_close s0 st)
            else Inr (s0, start_thread (backup_child_waiter_func pid) s0 st))"

text \<open>What that thread does once \<open>waitpid\<close> has returned.\<close>

definition backup_child_waiter :: "int \<Rightarrow> int \<Rightarrow> svstate \<Rightarrow> svstate" where
  "backup_child_waiter pid fd st = adb_close fd st"

section \<open>Names of services\<close>

text \<open>\<open>sscanf\<close> with \<open>"%d"\<close>: the variable keeps its value at the end of the text, and is 0 after a mismatch.\<close>

definition scan_port :: "int \<Rightarrow> string \<Rightarrow> int" where
  "scan_port old s =
     (let t = dropWhile (\<lambda>c. is_space (byte_of c)) s; u = (if t \<noteq> [] \<and> (hd t = CHR ''-'' \<or> hd t = CHR ''+'') then tl t else t) in
      if t = [] then old else if u = [] \<or> \<not> isdigit (hd u) then 0 else atoi t)"

definition adbd_service_to_fd :: "svstate service_env \<Rightarrow> string \<Rightarrow> svstate \<Rightarrow> (int \<times> svstate) res" where
  "adbd_service_to_fd env name st =
     (if has_prefix name ''tcp:'' then
        if strchr (drop 4 name) CHR '':'' = None then Inr (sv_open env (Loopback (atoi (drop 4 name))) st, st) else Inr (-1, st)
      else if has_prefix name ''local:'' then Inr (sv_open env (Local (drop 6 name) RESERVED) st, st)
      else if has_prefix name ''localreserved:'' then Inr (sv_open env (Local (drop 14 name) RESERVED) st, st)
      else if has_prefix name ''localabstract:'' then Inr (sv_open env (Local (drop 14 name) ABSTRACT) st, st)
      else if has_prefix name ''localfilesystem:'' then Inr (sv_open env (Local (drop 16 name) FILESYSTEM) st, st)
      else if has_prefix name ''dev:'' then Inr (sv_open env (Device (drop 4 name)) st, st)
      else if has_prefix name ''framebuffer:'' then create_service_thread env framebuffer_service_func st
      else if has_prefix name ''jdwp:'' then create_jdwp_connection_fd (atoi (drop 5 name)) (sv_socketpair env st) st
      else if has_prefix name ''log:'' then create_service_thread env (log_service_func (''/dev/log/'' @ drop 4 name)) st
      else if \<not> HOST st \<and> has_prefix name ''shell:'' then
        create_subproc_thread env (if drop 6 name \<noteq> [] then Some (drop 6 name) else None) st
      else if has_prefix name ''sync:'' then create_service_thread env file_sync_service_func st
      else if has_prefix name ''remount:'' then create_service_thread env remount_service_func st
      else if has_prefix name ''reboot:'' then
        if sv_malloc env st then create_service_thread env (reboot_service_func (drop 7 name)) st else Inr (-1, st)
      else if has_prefix name ''root:'' then create_service_thread env restart_root_service_func st
      else if has_prefix name ''backup:'' then
        if sv_malloc env st then backup_service env BACKUP (Some (drop 7 name)) st else Inr (-1, st)
      else if has_prefix name ''restore:'' then backup_service env RESTORE None st
      else if has_prefix name ''tcpip:'' then create_service_thread env (restart_tcp_service_func (scan_port (uninitialised env) (drop 6 name))) st
      else if has_prefix name ''usb:'' then create_service_thread env restart_usb_service_func st
      else Inr (-1, st))"


section \<open>What starting a service keeps\<close>

text \<open>
  Any predicate that does not look at the threads, the processes and the closed descriptors, and that a
  connection to a debuggable process keeps, is kept by starting a service; the result
  is one of the kernel's answers or negative.
\<close>

definition kernel_answer :: "svstate service_env \<Rightarrow> svstate \<Rightarrow> int \<Rightarrow> bool" where
  "kernel_answer env st fd \<longleftrightarrow> fd < 0 \<or> fd = sv_ptmx env st \<or> (\<exists>c. fd = sv_open env c st) \<or> (\<exists>s1. sv_socketpair env st = Some (fd, s1))"

locale service_state =
  fixes J :: "svstate \<Rightarrow> bool"
  assumes J_threads: "J (st\<lparr>service_threads := ts\<rparr>) = J st"
    and J_processes: "J (st\<lparr>processes := ps\<rparr>) = J st"
    and J_close: "J (adb_close fd st) = J st"
    and J_jdwp: "J st \<Longrightarrow> ensures (create_jdwp_connection_fd pid fds st) (\<lambda>(r, st'). J st')"
begin

lemmas J_simps [simp] = J_threads J_processes J_close

lemma thread_keeps: "J st \<Longrightarrow> ensures (create_service_thread env func st) (\<lambda>(fd, st'). J st' \<and> kernel_answer env st fd)"
  by (auto simp: create_service_thread_def start_thread_def kernel_answer_def split: option.splits)

lemma subprocess_keeps: "J st \<Longrightarrow> create_subprocess env argv st = (fd, pid, st') \<Longrightarrow> J st' \<and> kernel_answer env st fd"
  by (auto simp: create_subprocess_def Let_def kernel_answer_def split: if_splits)

lemma subproc_thread_keeps: "J st \<Longrightarrow> ensures (create_subproc_thread env name st) (\<lambda>(fd, st'). J st' \<and> kernel_answer env st fd)"
proof -
  assume o: "J st"
  obtain fd pid st1 where c: "create_subprocess env (case name of Some cmd \<Rightarrow> [SHELL_COMMAND, ''-c'', cmd] | None \<Rightarrow> [SHELL_COMMAND, ''-'']) st = (fd, pid, st1)"
    by (metis prod_cases3)
  show ?thesis using subprocess_keeps [OF o c]
    unfolding create_subproc_thread_def c by (auto simp: Let_def start_thread_def kernel_answer_def)
qed

lemma backup_keeps: "J st \<Longrightarrow> ensures (backup_service env op args st) (\<lambda>(fd, st'). J st' \<and> kernel_answer env st fd)"
  by (auto simp: backup_service_def Let_def start_thread_def kernel_answer_def split: option.splits)

lemma jdwp_answer: "ensures (create_jdwp_connection_fd pid (sv_socketpair env st) st) (\<lambda>(fd, st'). kernel_answer env st fd)"
  by (auto simp: create_jdwp_connection_fd_def kernel_answer_def Let_def split: option.splits intro!: ensuresI)

lemma service_keeps: "J st \<Longrightarrow> ensures (adbd_service_to_fd env name st) (\<lambda>(fd, st'). J st' \<and> kernel_answer env st fd)"
proof -
  assume o: "J st"
  have j: "ensures (create_jdwp_connection_fd pid (sv_socketpair env st) st) (\<lambda>(fd, st'). J st' \<and> kernel_answer env st fd)" for pid
    using ensures_conj [OF J_jdwp [OF o] jdwp_answer] by (rule ensures_mono) auto
  have r: "kernel_answer env st (-1)" "kernel_answer env st (sv_open env c st)" for c by (auto simp: kernel_answer_def)
  show ?thesis unfolding adbd_service_to_fd_def
    using o by (simp add: thread_keeps subproc_thread_keeps backup_keeps j r)
qed

end

text \<open>The invariant of the daemon together with the table of the event loop.\<close>

definition safe_table :: "nat \<Rightarrow> (nat \<Rightarrow> addr option) \<Rightarrow> svstate \<Rightarrow> bool" where
  "safe_table k tbl st \<longleftrightarrow> safe k st \<and> tbl_at st = tbl"

lemma safe_service_fields:
  fixes st :: svstate
  shows "safe k (st\<lparr>service_threads := ts\<rparr>) = safe k st" "safe k (st\<lparr>processes := ps\<rparr>) = safe k st"
proof -
  have "roles {} (st\<lparr>service_threads := ts\<rparr>) = roles {} st" "roles {} (st\<lparr>processes := ps\<rparr>) = roles {} st" by (rule roles_cong; simp)+
  moreover have "ginv False k (st\<lparr>service_threads := ts\<rparr>) = ginv False k st" "ginv False k (st\<lparr>processes := ps\<rparr>) = ginv False k st"
    by (simp_all add: ginv_def reg_ok_def act_def sock_inv_unfold fd_inv_unfold)
  ultimately show "safe k (st\<lparr>service_threads := ts\<rparr>) = safe k st" "safe k (st\<lparr>processes := ps\<rparr>) = safe k st" by (simp_all add: safe_def)
qed

lemma tbl_at_service_fields:
  "tbl_at (st\<lparr>service_threads := ts\<rparr>) = tbl_at st" "tbl_at (st\<lparr>processes := ps\<rparr>) = tbl_at st" "tbl_at (adb_close fd st) = tbl_at st"
  by (simp_all add: tbl_at_def adb_close_def fun_eq_iff)

lemma tbl_at_put_proc [simp]: "tbl_at (put_proc j p st) = tbl_at st"
  by (simp add: tbl_at_def put_proc_def fun_eq_iff)

lemma fdevent_update_table: "fdevent_update a ev st = Inr st' \<Longrightarrow> fd_table st' = fd_table st \<and> closed_fds st' = closed_fds st"
  by (auto simp: fdevent_update_def put_fde_def watch_fd_def bindr_eq_Inr split: if_splits)

lemma plist_remove_table: "fdevent_plist_remove a st = Inr st' \<Longrightarrow> fd_table st' = fd_table st \<and> closed_fds st' = closed_fds st"
  by (auto simp: fdevent_plist_remove_def split: if_splits)

lemma fdevent_set_table:
  assumes "fdevent_set a ev st = Inr st'"
  shows "fd_table st' = fd_table st \<and> closed_fds st' = closed_fds st"
proof -
  have "ensures (fdevent_set a ev st) (\<lambda>st'. fd_table st' = fd_table st \<and> closed_fds st' = closed_fds st)"
    by (auto simp: fdevent_set_def Let_def put_fde_def intro!: ensuresI dest!: fdevent_update_table plist_remove_table)
  then show ?thesis using assms by (rule ensuresD)
qed

lemma fdevent_add_table: "fdevent_add a ev st = Inr st' \<Longrightarrow> tbl_at st' = tbl_at st \<and> closed_fds st' = closed_fds st"
  by (auto simp: fdevent_add_def bindr_eq_Inr tbl_at_def fun_eq_iff dest!: fdevent_set_table)

lemma jdwp_connection_cases:
  assumes "create_jdwp_connection_fd pid fds st = Inr (r, st')"
  shows "st' = st \<or> (\<exists>j p. st' = put_proc j p st) \<or> (\<exists>j p f. fdevent_add f FDE_WRITE (put_proc j p st) = Inr st')"
proof -
  obtain j where j: "find_pid pid (jdwp_list st) st = Inr j" using assms by (auto simp: create_jdwp_connection_fd_def bindr_eq_Inr)
  show ?thesis
  proof (cases j)
    case None
    then show ?thesis using assms j by (simp add: create_jdwp_connection_fd_def)
  next
    case (Some j)
    then obtain p where p: "get_proc j st = Inr p" using assms \<open>find_pid _ _ _ = _\<close> by (auto simp: create_jdwp_connection_fd_def bindr_eq_Inr)
    show ?thesis
    proof (cases "MAX_OUT_FDS \<le> length (out_fds p) \<or> fds = None")
      case True
      then show ?thesis using assms j Some p by (auto simp: create_jdwp_connection_fd_def split: if_splits)
    next
      case False
      then obtain s0 s1 where "fds = Some (s0, s1)" by auto
      then show ?thesis using assms j Some p False by (cases "out_fds p = []") (auto simp: create_jdwp_connection_fd_def bindr_eq_Inr Let_def)
    qed
  qed
qed

lemma jdwp_connection_frame:
  fixes st :: "'a sstate_scheme"
  assumes "create_jdwp_connection_fd pid fds st = Inr (r, st')"
  shows "tbl_at st' = tbl_at st" "st' = st \<or> (\<exists>j p. fd_frame (put_proc j p st) st')"
proof -
  have refl: "fd_frame st st" for st :: "'a sstate_scheme" by (simp add: fd_frame_def)
  show "tbl_at st' = tbl_at st" using jdwp_connection_cases [OF assms] by (auto dest!: fdevent_add_table)
  show "st' = st \<or> (\<exists>j p. fd_frame (put_proc j p st) st')"
    using jdwp_connection_cases [OF assms] refl by (blast dest: fdevent_add_frame)
qed

lemma safe_put_proc [simp]: "safe k (put_proc j p st) = safe k st"
  by (simp add: safe_def roles.I_env)

interpretation started: service_state "safe_table k tbl" for k tbl
proof
  fix st :: svstate and fds pid assume s: "safe_table k tbl st"
  have "ensures (create_jdwp_connection_fd pid fds st) (\<lambda>(r, st'). safe k st')"
    using s by (auto simp: safe_table_def create_jdwp_connection_fd_def Let_def split: option.splits
      intro!: ensuresI [of "find_pid pid js st" for js st] fdevent_add_safe [THEN ensures_mono])
  moreover have "ensures (create_jdwp_connection_fd pid fds st) (\<lambda>(r, st'). tbl_at st' = tbl)"
    using s by (auto simp: safe_table_def intro!: ensuresI dest!: jdwp_connection_frame(1))
  ultimately show "ensures (create_jdwp_connection_fd pid fds st) (\<lambda>(r, st'). safe_table k tbl st')"
    by (cases "create_jdwp_connection_fd pid fds st") (auto simp: safe_table_def)
qed (simp_all add: safe_table_def safe_service_fields tbl_at_service_fields)

lemma outside_trans: "outside a b \<Longrightarrow> outside b c \<Longrightarrow> outside a c"
  by (simp add: outside_def)

interpretation admits: service_state "outside st0" for st0
proof
  fix st :: svstate and fds pid assume o: "outside st0 st"
  have "outside st st'" if "create_jdwp_connection_fd pid fds st = Inr (r, st')" for r st'
    using jdwp_connection_frame(2) [OF that]
    by (auto simp: outside_def is_online_def put_proc_def dest: fd_frame_tstate fd_frame_auth)
  then show "ensures (create_jdwp_connection_fd pid fds st) (\<lambda>(r, st'). outside st0 st')" using outside_trans [OF o] by (auto intro!: ensuresI)
qed (simp_all add: outside_def is_online_def adb_close_def)

section \<open>Properties\<close>

text \<open>
  What the theorems on the whole daemon ask: a descriptor it is handed is not watched by the event loop. A kernel only hands out
  numbers that are not open, so this holds as long as the daemon closes no descriptor it still watches. It does so once a
  backup has ended (the waiter thread closes the socket of the stream), and then this hypothesis may fail.
\<close>

definition kernel_fresh :: "svstate service_env \<Rightarrow> bool" where
  "kernel_fresh env \<longleftrightarrow> (\<forall>st. free_fd (sv_ptmx env st) st \<and> (\<forall>c. free_fd (sv_open env c st) st)
     \<and> (\<forall>s0 s1. sv_socketpair env st = Some (s0, s1) \<longrightarrow> free_fd s0 st))"

lemma answer_free: "kernel_fresh env \<Longrightarrow> kernel_answer env st fd \<Longrightarrow> free_fd fd st"
  by (auto simp: kernel_fresh_def kernel_answer_def) (simp add: free_fd_def)

text \<open>The daemon's environment with the services of this theory.\<close>

definition with_services :: "svstate service_env \<Rightarrow> svstate daemon_env \<Rightarrow> svstate daemon_env" where
  "with_services sv env = env\<lparr>service_to_fd := adbd_service_to_fd sv\<rparr>"

lemma with_services_safe: "kernel_fresh sv \<Longrightarrow> services_safe (with_services sv env)"
proof -
  assume f: "kernel_fresh sv"
  have "safe k st' \<and> free_fd fd st'" if s: "safe k st" and r: "adbd_service_to_fd sv name st = Inr (fd, st')" for k name st fd st'
  proof -
    have "safe_table k (tbl_at st) st'" "kernel_answer sv st fd"
      using ensuresD [OF started.service_keeps r, of k "tbl_at st"] s by (auto simp: safe_table_def)
    then show ?thesis using answer_free [OF f] by (auto simp: safe_table_def free_fd_def)
  qed
  then show ?thesis by (auto simp: services_safe_def with_services_def)
qed

lemma with_services_outside: "services_outside (with_services sv env)"
proof -
  have "outside st st'" if "adbd_service_to_fd sv name st = Inr (fd, st')" for name and st st' :: svstate and fd
    using ensuresD [OF admits.service_keeps that, of st] by (auto simp: outside_def)
  then show ?thesis by (auto simp: services_outside_def with_services_def)
qed

text \<open>The rest of \<open>daemon_ok\<close>: what \<open>accept\<close> and \<open>adb_socketpair\<close> hand out.\<close>

definition kernel_ok :: "svstate daemon_env \<Rightarrow> bool" where
  "kernel_ok env \<longleftrightarrow> (\<forall>fn fd st. free_fd (os_accept env fn fd st) st)
     \<and> (\<forall>st s0 s1. os_socketpair env st = Some (s0, s1) \<longrightarrow> tbl_at st (nat s0) = None)"

lemma with_services_ok: "kernel_fresh sv \<Longrightarrow> kernel_ok env \<Longrightarrow> daemon_ok (with_services sv env)"
  using with_services_safe [of sv env] by (simp add: daemon_ok_def kernel_ok_def with_services_def)

text \<open>
  In the complete model of the daemon, in which opening a stream starts the threads and processes of
  \<open>service_to_fd\<close>, every callback of the event loop keeps the daemon's invariant, and afterwards every
  socket has the three functions of one kind of socket and a smart socket has a local socket as its peer.
  The hypotheses: the descriptors the daemon is handed are not watched, and the callback does not show a
  public key to the framework while the event record or the descriptor this needs is busy.
\<close>

theorem daemon_with_services_typed:
  assumes "kernel_fresh sv" "kernel_ok env" "daemon_inv st" "daemon_call (with_services sv env) fn fd ev st = Inr st'"
    and "daemon_call_once (with_services sv env) fn fd ev st \<noteq> Inl key_again"
  shows "daemon_inv st' \<and> (\<forall>a s. socks st' a = Some s \<longrightarrow> role_at st' s)"
proof -
  have "daemon_call_once (with_services sv env) fn fd ev st = Inr st'"
    using dispatch_once [of "with_services sv env" fn fd ev st] assms(4,5) by auto
  from daemon_world.daemon_call_keeps [OF daemon_worldI [OF with_services_ok [OF assms(1,2)]] assms(3) this]
  show ?thesis by (auto simp: daemon_inv_def dest: safeD(2) rolesD(2))
qed

text \<open>A small world: the kernel refuses everything, a transport is online and its peer opens a stream.\<close>

definition ex_services :: "svstate service_env" where
  "ex_services = \<lparr>sv_socketpair = (\<lambda>_. None), sv_malloc = (\<lambda>_. True), sv_thread = (\<lambda>_. True), sv_ptmx = (\<lambda>_. -1), sv_grantpt = (\<lambda>_. True),
     sv_fork = (\<lambda>_. 1), sv_open = (\<lambda>_ _. -1), uninitialised = 77\<rparr>"

definition ex_kernel :: "svstate daemon_env" where
  "ex_kernel = \<lparr>adb_device_banner = ''device'', property_get = (\<lambda>_. ''x''), big_endian = False,
     trusted = \<lparr>file_exists = (\<lambda>_. False), file_bytes = (\<lambda>_. None)\<rparr>,
     user = \<lparr>HOME = None, ADB_VENDOR_KEYS = None, path_exists = (\<lambda>_. False), can_mkdir = (\<lambda>_. False), load_file = (\<lambda>_. None),
       can_generate = (\<lambda>_. False), can_read_key = (\<lambda>_. False)\<rparr>,
     RSA_sign = (\<lambda>_ _. None), service_to_fd = (\<lambda>_ st. Inr (-1, st)), runs_as_root = False,
     calls = \<lparr>handle_host_request_fn = (\<lambda>_ _ _ _ _ st. Inr (-1, st)), host_service_to_socket_fn = (\<lambda>_ _ st. Inr (None, st))\<rparr>,
     hash_stack = replicate 64 0, os_accept = (\<lambda>_ _ _. -1), os_socketpair = (\<lambda>_. None),
     os_sendmsg = (\<lambda>_. \<lparr>getfl_ok = True, clear_ok = True, send_ok = True, restore_ok = True\<rparr>), os_fionread = (\<lambda>_. 0)\<rparr>"

definition open_packet :: "string \<Rightarrow> apacket" where
  "open_packet name = get_apacket\<lparr>msg := zero_msg\<lparr>command := A_OPEN, arg0 := 1, data_length := of_nat (length name + 1)\<rparr>,
     pk_data := bytes_of name @ [0]\<rparr>"

definition ex_services_start :: svstate where
  "ex_services_start = pstate.extend (ex_pstate\<lparr>transports := [8 \<mapsto> zero_transport\<lparr>t_online := True\<rparr>], pipe := (\<lambda>_. [])(5 := [open_packet ''sync:''])\<rparr>)
     \<lparr>service_threads = [], processes = []\<rparr>"

lemmas ex_services_simps = ex_services_start_def svstate.defs ex_pstate_simps

lemma ex_services_inv: "daemon_inv ex_services_start"
proof -
  have "sock_start ex_services_start" "\<not> ADB_HOST ex_services_start" "list_pending ex_services_start = []"
    by (simp_all add: sock_start_def fd_start_def ex_services_simps)
  then have "ginv False 0 ex_services_start" using sock_start_inv [of ex_services_start] by simp
  moreover have "roles {} ex_services_start" by (simp add: roles_def ex_services_simps zero_transport_def)
  ultimately show ?thesis using \<open>list_pending ex_services_start = []\<close> by (simp add: daemon_inv_def safe_def)
qed

lemma ex_services_open: "\<exists>st'. daemon_call (with_services ex_services ex_kernel) (transport_socket_events 8) 5 FDE_READ ex_services_start = Inr st'"
proof -
  let ?st = "ex_services_start\<lparr>pipe := (\<lambda>_. [])\<rparr>" and ?env = "conn_of (with_services ex_services ex_kernel)"
  have p: "open_name (open_packet ''sync:'') = Inr ''sync:''" by code_simp
  have "adbd_service_to_fd ex_services ''sync:'' ?st = Inr (-1, ?st)"
    by (simp add: adbd_service_to_fd_def has_prefix_def strncmp_eq_def create_service_thread_def ex_services_def)
  then have s: "create_local_service_socket (service_to_fd ?env) (runs_as_root ?env) ''sync:'' ?st = Inr (None, ?st)"
    by (simp add: create_local_service_socket_def with_services_def)
  have "transports ?st 8 = Some (zero_transport\<lparr>t_online := True\<rparr>)" "wr_ev ?st (transport_socket (zero_transport\<lparr>t_online := True\<rparr>)) = []"
    by (simp_all add: ex_services_simps)
  from send_packet_ok [OF _ this, of "message_packet A_CLSE 0 1"] obtain st' where st': "send_close 0 1 8 ?st = Inr st'"
    by (auto simp: send_close_def message_packet_def get_apacket_def zero_msg_def)
  have "handle_packet ?env (open_packet ''sync:'') 8 ?st = Inr st'"
    using s st' p by (simp add: handle_packet_def handle_open_def get_transport_def open_packet_def get_apacket_def zero_msg_def
        ex_services_simps command_defs)
  moreover have "has FDE_READ FDE_READ" "pipe ex_services_start = (\<lambda>_. [])(5 := [open_packet ''sync:''])" by (simp_all add: has_def FDE_READ_def ex_services_simps)
  moreover have "(\<lambda>_. [])(5 := []) = (\<lambda>_ :: int. [] :: apacket list)" by auto
  ultimately show ?thesis
    by (simp add: daemon_call_def daemon_dispatch_def handler_call_def transport_socket_events_run_def read_packet_def)
qed

theorem daemon_with_services_typed_witness:
  "\<exists>st'. daemon_call (with_services ex_services ex_kernel) (transport_socket_events 8) 5 FDE_READ ex_services_start = Inr st'
    \<and> daemon_inv st' \<and> (\<forall>a s. socks st' a = Some s \<longrightarrow> role_at st' s)"
proof -
  have k: "kernel_fresh ex_services" "kernel_ok ex_kernel"
    by (simp_all add: kernel_fresh_def kernel_ok_def free_fd_def ex_services_def ex_kernel_def)
  obtain st' where c: "daemon_call (with_services ex_services ex_kernel) (transport_socket_events 8) 5 FDE_READ ex_services_start = Inr st'"
    using ex_services_open by blast
  have "daemon_call_once (with_services ex_services ex_kernel) (transport_socket_events 8) 5 FDE_READ ex_services_start \<noteq> Inl key_again"
    using c by (simp add: daemon_call_def daemon_call_once_def daemon_dispatch_def handler_once_def shows_key_again_def public_key_packet_def
        ex_services_simps open_packet_def get_apacket_def zero_msg_def command_defs)
  from daemon_with_services_typed [OF k ex_services_inv c this] c show ?thesis by blast
qed

text \<open>
  The thread that serves a name, and the argument it gets: the name after the colon for a log and a
  reboot, the port it holds for tcpip. \<open>u\<close> is the port if the name holds none.
\<close>

definition thread_table :: "int \<Rightarrow> (string \<times> (string \<Rightarrow> service_func)) list" where
  "thread_table u = [(''framebuffer:'', \<lambda>_. framebuffer_service_func), (''log:'', \<lambda>r. log_service_func (''/dev/log/'' @ r)),
     (''sync:'', \<lambda>_. file_sync_service_func), (''remount:'', \<lambda>_. remount_service_func), (''reboot:'', \<lambda>r. reboot_service_func r),
     (''root:'', \<lambda>_. restart_root_service_func), (''tcpip:'', \<lambda>r. restart_tcp_service_func (scan_port u r)),
     (''usb:'', \<lambda>_. restart_usb_service_func)]"

definition thread_of :: "int \<Rightarrow> string \<Rightarrow> service_func option" where
  "thread_of u name = map_option (\<lambda>(p, f). f (drop (length p) name)) (find (\<lambda>(p, f). prefix p name) (thread_table u))"

definition names_any :: "string list \<Rightarrow> string \<Rightarrow> bool" where
  "names_any ps name \<longleftrightarrow> (\<exists>p\<in>set ps. prefix p name)"

lemma has_prefix_prefix: "has_prefix name p \<longleftrightarrow> prefix p name"
  by (auto simp: has_prefix_def strncmp_eq_def prefix_def) (metis append_take_drop_id take_all_iff order_refl)

lemma jdwp_leaves:
  assumes c: "create_jdwp_connection_fd pid fds st = Inr (fd, st')"
  shows "service_threads st' = service_threads st" "processes st' = processes st" "closed_fds st' = closed_fds st"
proof -
  have "service_threads st' = service_threads st \<and> processes st' = processes st" if "fd_frame (put_proc j p st) st'" for j p
    using that by (cases st; cases st') (simp add: fd_frame_def put_proc_def)
  then show "service_threads st' = service_threads st" "processes st' = processes st" using jdwp_connection_frame(2) [OF c] by auto
  show "closed_fds st' = closed_fds st" using jdwp_connection_cases [OF c] by (auto simp: put_proc_def dest!: fdevent_add_table)
qed

lemma thread_of_cases:
  assumes "thread_of u name = Some func"
  obtains (fb) r where "name = ''framebuffer:'' @ r" "func = framebuffer_service_func"
    | (log) r where "name = ''log:'' @ r" "func = log_service_func (''/dev/log/'' @ r)"
    | (sync) r where "name = ''sync:'' @ r" "func = file_sync_service_func"
    | (remount) r where "name = ''remount:'' @ r" "func = remount_service_func"
    | (reboot) r where "name = ''reboot:'' @ r" "func = reboot_service_func r"
    | (root) r where "name = ''root:'' @ r" "func = restart_root_service_func"
    | (tcpip) r where "name = ''tcpip:'' @ r" "func = restart_tcp_service_func (scan_port u r)"
    | (usb) r where "name = ''usb:'' @ r" "func = restart_usb_service_func"
  using assms unfolding thread_of_def thread_table_def by (auto elim!: prefixE split: if_split_asm)

text \<open>A name that stands for a thread is served by starting it; a reboot first takes memory for its argument.\<close>

lemma thread_service:
  assumes "thread_of (uninitialised env) name = Some func"
  shows "adbd_service_to_fd env name st = (if prefix ''reboot:'' name \<and> \<not> sv_malloc env st then Inr (-1, st) else create_service_thread env func st)"
  using assms by (cases rule: thread_of_cases) (simp_all add: adbd_service_to_fd_def has_prefix_def strncmp_eq_def)

text \<open>
  Property C15. A service that runs in a thread is started completely or not at all, and no descriptor is lost.
  If there is no socket pair, the stream is refused and the state is as before. If the thread starts, the stream gets
  the first end of the pair, and exactly one thread has been added, the one that the name stands for, with the second end.
  If it does not start, the stream is refused, no thread was added and both ends have been closed.
  Without memory only a reboot is refused, before a pair is made (every other request ends the daemon, so it has no result).
  A name that asks for no thread (a port, a local socket, a device, a process to debug, or an unknown one)
  starts nothing and closes nothing. Shells and backups are treated in the two theorems that follow.
\<close>

theorem service_started_or_refused:
  assumes "adbd_service_to_fd env name st = Inr (fd, st')" "\<not> names_any [''shell:'', ''backup:'', ''restore:''] name"
  shows "case thread_of (uninitialised env) name of
      None \<Rightarrow> service_threads st' = service_threads st \<and> processes st' = processes st \<and> closed_fds st' = closed_fds st
    | Some func \<Rightarrow>
        (case sv_socketpair env st of
           None \<Rightarrow> fd = -1 \<and> st' = st
         | Some (s0, s1) \<Rightarrow>
             if \<not> sv_malloc env st then prefix ''reboot:'' name \<and> fd = -1 \<and> st' = st
             else if sv_thread env st then fd = s0 \<and> st' = st\<lparr>service_threads := service_threads st @ [(func, s1)]\<rparr>
             else fd = -1 \<and> st' = st\<lparr>closed_fds := closed_fds st @ [s0, s1]\<rparr>)"
proof -
  have t: "case sv_socketpair env st of
           None \<Rightarrow> x = -1 \<and> y = st
         | Some (s0, s1) \<Rightarrow>
             if \<not> sv_malloc env st then False
             else if sv_thread env st then x = s0 \<and> y = st\<lparr>service_threads := service_threads st @ [(func, s1)]\<rparr>
             else x = -1 \<and> y = st\<lparr>closed_fds := closed_fds st @ [s0, s1]\<rparr>"
    if "create_service_thread env func st = Inr (x, y)" for func x y
    using that by (auto simp: create_service_thread_def start_thread_def adb_close_def split: option.splits if_splits)
  show ?thesis
  proof (cases "thread_of (uninitialised env) name")
    case None
    then show ?thesis using assms
      by (simp add: adbd_service_to_fd_def thread_of_def thread_table_def has_prefix_prefix names_any_def jdwp_leaves split: if_split_asm)
  next
    case (Some func)
    note c = thread_service [OF Some, of st]
    show ?thesis
    proof (cases "prefix ''reboot:'' name \<and> \<not> sv_malloc env st")
      case True
      then show ?thesis using assms(1) Some unfolding c by (auto split: option.splits)
    next
      case False
      have "create_service_thread env func st = Inr (fd, st')" using assms(1) unfolding c if_not_P [OF False] .
      from t [OF this] show ?thesis using Some by (auto split: option.splits)
    qed
  qed
qed

theorem service_started_or_refused_witness:
  "adbd_service_to_fd (ex_services\<lparr>sv_socketpair := \<lambda>_. Some (20, 21), sv_thread := \<lambda>_. False\<rparr>) ''log:main'' ex_services_start
      = Inr (-1, ex_services_start\<lparr>closed_fds := [20, 21]\<rparr>)"
proof -
  let ?env = "ex_services\<lparr>sv_socketpair := \<lambda>_. Some (20, 21), sv_thread := \<lambda>_. False\<rparr>"
  have n: "\<not> names_any [''shell:'', ''backup:'', ''restore:''] ''log:main''" by (simp add: names_any_def)
  have t: "thread_of (uninitialised ?env) ''log:main'' = Some (log_service_func ''/dev/log/main'')" by (simp add: thread_of_def thread_table_def)
  obtain fd st' where r: "adbd_service_to_fd ?env ''log:main'' ex_services_start = Inr (fd, st')"
    using thread_service [OF t] by (simp add: create_service_thread_def ex_services_def)
  from service_started_or_refused [OF r n] r show ?thesis unfolding t by (simp add: ex_services_def ex_services_simps)
qed

text \<open>
  A backup or a restore is started completely or not at all, but its stream loses its descriptor. If the pair or the process
  cannot be made the stream is refused and nothing is left open. Otherwise the process runs with the second end as its argument,
  the daemon closes its own copy of that end, and the stream gets the first end; if the thread that waits for the process
  cannot be started, the first end is closed too and the stream is refused, although the process
  runs. The thread that waits has been given the very descriptor that the stream got: when the process ends, the thread closes it,
  while the socket of the stream still owns it and will close that number again.
\<close>

theorem backup_closes_its_stream:
  assumes "adbd_service_to_fd env name st = Inr (fd, st')"
    and "(name, args) = (''backup:'' @ arg, [''backup''] @ bu_args arg) \<or> (name, args) = (''restore:'' @ arg, [''restore''])"
  shows "case sv_socketpair env st of
      None \<Rightarrow> fd = -1 \<and> st' = st
    | Some (s0, s1) \<Rightarrow>
        if prefix ''backup:'' name \<and> \<not> sv_malloc env st then fd = -1 \<and> st' = st
        else if sv_fork env st < 0 then fd = -1 \<and> st' = st\<lparr>closed_fds := closed_fds st @ [s0, s1]\<rparr>
        else
          let st1 = st\<lparr>processes := processes st @ [[''bu'', take 15 (fmt_d s1)] @ args], closed_fds := closed_fds st @ [s1]\<rparr> in
          if sv_thread env st1
          then fd = s0 \<and> st' = st1\<lparr>service_threads := service_threads st @ [(backup_child_waiter_func (sv_fork env st), fd)]\<rparr>
            \<and> closed_fds (backup_child_waiter (sv_fork env st) fd st') = closed_fds st @ [s1, fd]
          else fd = -1 \<and> st' = st1\<lparr>closed_fds := closed_fds st @ [s1, s0]\<rparr>"
proof -
  have b: "case sv_socketpair env st of
      None \<Rightarrow> fd = -1 \<and> st' = st
    | Some (s0, s1) \<Rightarrow>
        if sv_fork env st < 0 then fd = -1 \<and> st' = st\<lparr>closed_fds := closed_fds st @ [s0, s1]\<rparr>
        else
          let st1 = st\<lparr>processes := processes st @ [[''bu'', take 15 (fmt_d s1)] @ (if op = BACKUP then ''backup'' else ''restore'') #
            (case a of None \<Rightarrow> [] | Some p \<Rightarrow> bu_args p)], closed_fds := closed_fds st @ [s1]\<rparr> in
          if sv_thread env st1
          then fd = s0 \<and> st' = st1\<lparr>service_threads := service_threads st @ [(backup_child_waiter_func (sv_fork env st), fd)]\<rparr>
            \<and> closed_fds (backup_child_waiter (sv_fork env st) fd st') = closed_fds st @ [s1, fd]
          else fd = -1 \<and> st' = st1\<lparr>closed_fds := closed_fds st @ [s1, s0]\<rparr>"
    if "backup_service env op a st = Inr (fd, st')" for op a
    using that by (auto simp: backup_service_def backup_child_waiter_def start_thread_def adb_close_def Let_def split: option.splits if_splits)
  note names = adbd_service_to_fd_def has_prefix_def strncmp_eq_def
  from assms(2) show ?thesis
  proof
    assume n: "(name, args) = (''backup:'' @ arg, [''backup''] @ bu_args arg)"
    then have r: "(if sv_malloc env st then backup_service env BACKUP (Some arg) st else Inr (-1, st)) = Inr (fd, st')"
      using assms(1) by (simp add: names split: if_split_asm)
    show ?thesis
    proof (cases "sv_malloc env st")
      case True
      then have "backup_service env BACKUP (Some arg) st = Inr (fd, st')" using r by simp
      from b [OF this] show ?thesis using n True by (cases "sv_socketpair env st") (auto simp: split_beta Let_def split: if_split_asm)
    next
      case False
      then show ?thesis using r n by (simp split: option.splits prod.splits)
    qed
  next
    assume n: "(name, args) = (''restore:'' @ arg, [''restore''])"
    then have "backup_service env RESTORE None st = Inr (fd, st')" using assms(1) by (simp add: names)
    from b [OF this] show ?thesis using n by (cases "sv_socketpair env st") (auto simp: split_beta Let_def split: if_split_asm)
  qed
qed

theorem backup_closes_its_stream_witness:
  "\<exists>st'. adbd_service_to_fd (ex_services\<lparr>sv_socketpair := \<lambda>_. Some (20, 21)\<rparr>) ''backup:-f:x'' ex_services_start = Inr (20, st')
      \<and> processes st' = [[''bu'', ''21'', ''backup'', ''-f'', ''x'']] \<and> service_threads st' = [(backup_child_waiter_func 1, 20)]
      \<and> closed_fds (backup_child_waiter 1 20 st') = [21, 20]"
proof -
  let ?env = "ex_services\<lparr>sv_socketpair := \<lambda>_. Some (20, 21)\<rparr>"
  have a: "bu_args ''-f:x'' = [''-f'', ''x'']" by (simp add: bu_args.simps)
  have d: "take 15 (fmt_d 21) = ''21''" by code_simp
  obtain fd st' where r: "adbd_service_to_fd ?env ''backup:-f:x'' ex_services_start = Inr (fd, st')"
    by (simp add: adbd_service_to_fd_def has_prefix_def strncmp_eq_def backup_service_def Let_def ex_services_def)
  have n: "(''backup:-f:x'', [''backup'', ''-f'', ''x'']) = (''backup:'' @ ''-f:x'', [''backup''] @ bu_args ''-f:x'')
      \<or> (''backup:-f:x'', [''backup'', ''-f'', ''x'']) = (''restore:'' @ ''-f:x'', [''restore''])" by (simp add: a)
  from backup_closes_its_stream [OF r n] r d show ?thesis by (simp add: ex_services_def ex_services_simps Let_def backup_child_waiter_def adb_close_def)
qed

text \<open>
  A shell whose process cannot be started: \<open>create_subproc_thread\<close> does not check the result of
  \<open>create_subprocess\<close>. It starts the thread that waits for the process all the same, with the
  descriptor -1 and, if the pseudo terminal could not be opened, with a process id that was never set.
\<close>

theorem failed_shell_still_waits:
  assumes "sv_ptmx env st < 0 \<or> \<not> sv_grantpt env st" "sv_malloc env (if sv_ptmx env st < 0 then st else adb_close (sv_ptmx env st) st)"
    "sv_thread env (if sv_ptmx env st < 0 then st else adb_close (sv_ptmx env st) st)" "\<not> HOST st"
  shows "\<exists>st'. adbd_service_to_fd env (''shell:'' @ cmd) st = Inr (-1, st')
    \<and> service_threads st' = service_threads st @ [(subproc_waiter_service_func (uninitialised env), -1)]"
proof -
  have "adbd_service_to_fd env (''shell:'' @ cmd) st = create_subproc_thread env (if cmd \<noteq> [] then Some cmd else None) st"
    using assms(4) by (simp add: adbd_service_to_fd_def has_prefix_def strncmp_eq_def)
  moreover have "\<exists>st1. create_subprocess env argv st = (-1, None, st1) \<and> service_threads st1 = service_threads st
      \<and> sv_malloc env st1 \<and> sv_thread env st1" for argv
    using assms(1-3) by (auto simp: create_subprocess_def Let_def adb_close_def split: if_splits)
  then have "\<exists>st'. create_subproc_thread env name st = Inr (-1, st')
      \<and> service_threads st' = service_threads st @ [(subproc_waiter_service_func (uninitialised env), -1)]" for name
  proof -
    obtain st1 where "create_subprocess env (case name of Some cmd \<Rightarrow> [SHELL_COMMAND, ''-c'', cmd] | None \<Rightarrow> [SHELL_COMMAND, ''-'']) st = (-1, None, st1)"
        "service_threads st1 = service_threads st" "sv_malloc env st1" "sv_thread env st1"
      using \<open>\<And>argv. \<exists>st1. create_subprocess env argv st = (-1, None, st1) \<and> _ st1\<close> by blast
    then show ?thesis by (simp add: create_subproc_thread_def start_thread_def)
  qed
  ultimately show ?thesis by simp
qed

theorem failed_shell_still_waits_witness:
  "\<exists>st'. adbd_service_to_fd ex_services ''shell:ls'' ex_services_start = Inr (-1, st') \<and> service_threads st' = [(subproc_waiter_service_func 77, -1)]"
  using failed_shell_still_waits [of ex_services ex_services_start "''ls''"] by (simp add: ex_services_def ex_services_simps)

end
