(* ===== verification/HostServices.thy ===== *)
theory HostServices
  imports Services SyncFs
begin

text \<open>
  The services of the server on the host, the other half of services.c: waiting for a device,
  connecting to a device over TCP or Bluetooth or to an emulator, and \<open>host_service_to_socket\<close>,
  which starts them. The state of the threads is that of the server; the sockets of libcutils and
  of the Bluetooth library are parameters.
\<close>

section \<open>Buffers\<close>

text \<open>\<open>snprintf\<close> into the buffer of \<open>connect_service\<close>.\<close>

definition in_buffer :: "string \<Rightarrow> string" where
  "in_buffer txt = take 4095 txt"

text \<open>
  \<open>strncpy\<close> of 99 characters into a buffer of 100, read back as a string: a longer text leaves the last
  character of the buffer unset.
\<close>

definition host_buffer :: "string \<Rightarrow> string res" where
  "host_buffer host = (if length host < 99 then Inr host else Inl MemFault)"

section \<open>Waiting for a device\<close>

text \<open>\<open>sts\<close> are the states in which the list of transports is looked at, one per second.\<close>

definition wait_for_state :: "state_info \<Rightarrow> fdesc \<Rightarrow> 'a pstate_scheme list \<Rightarrow> 'a pstate_scheme \<Rightarrow> 'a pstate_scheme res" where
  "wait_for_state sinfo fd sts st =
     (case acquire_one_transport (si_state sinfo) (si_transport sinfo) (si_serial sinfo) sts of
        None \<Rightarrow> Inl Blocks
      | Some r \<Rightarrow> bindr r (\<lambda>r.
          bindr (case r of Inr t \<Rightarrow> write_text fd ''OKAY'' st | Inl err \<Rightarrow> reply_fail fd err st) (\<lambda>st. Inr (adb_close fd st))))"

section \<open>Connecting\<close>

definition DEFAULT_ADB_LOCAL_TRANSPORT_PORT :: int where "DEFAULT_ADB_LOCAL_TRANSPORT_PORT = 5555"
definition DEFAULT_BT_PSM :: int where "DEFAULT_BT_PSM = 0x1003"

record net_env =
  socket_network_client :: "string \<Rightarrow> int \<Rightarrow> int"
  btsocket_network_client :: "string \<Rightarrow> int \<Rightarrow> int"
  socket_loopback_client :: "int \<Rightarrow> int"
  ADBHOST :: "string option"
  net_t_name :: "addr \<Rightarrow> string"
  net_uninitialised :: int

definition register_device :: "net_env \<Rightarrow> string \<Rightarrow> int \<Rightarrow> string \<Rightarrow> int \<Rightarrow> 'a pstate_scheme \<Rightarrow> (string \<times> 'a pstate_scheme) res" where
  "register_device env host port ser fd st =
     (if fd < 0 then Inr (in_buffer (''unable to connect to '' @ host @ '':'' @ fmt_d port), st)
      else bindr (register_socket_transport (net_t_name env) fd (Some ser) port False st) (\<lambda>(ret, st).
        if ret < 0 then Inr (in_buffer (''already connected to '' @ ser), adb_close fd st)
        else Inr (in_buffer (''connected to '' @ ser), st)))"

text \<open>The serial number of a device: its host name and port, in a buffer of 100 characters.\<close>

definition device_serial :: "string \<Rightarrow> int \<Rightarrow> string" where
  "device_serial hostbuf port = take 99 (hostbuf @ '':'' @ fmt_d port)"

text \<open>A port of no characters leaves the variable as it was, since \<open>sscanf\<close> then returns \<open>EOF\<close>.\<close>

definition connect_device :: "net_env \<Rightarrow> string \<Rightarrow> 'a pstate_scheme \<Rightarrow> (string \<times> 'a pstate_scheme) res" where
  "connect_device env host st =
     (case strchr host CHR '':'' of
        None \<Rightarrow> bindr (host_buffer host) (\<lambda>hostbuf.
          let port = DEFAULT_ADB_LOCAL_TRANSPORT_PORT in
          register_device env host port (device_serial hostbuf port) (socket_network_client env hostbuf port) st)
      | Some i \<Rightarrow>
          if i \<ge> 100 then Inr (in_buffer (''bad host name '' @ host), st)
          else
            let hostbuf = take i host; portstr = drop (Suc i) host;
                t = dropWhile (\<lambda>c. is_space (byte_of c)) portstr;
                u = (if t \<noteq> [] \<and> (hd t = CHR ''-'' \<or> hd t = CHR ''+'') then tl t else t) in
            if t \<noteq> [] \<and> (u = [] \<or> \<not> isdigit (hd u)) then Inr (in_buffer (''bad port number :'' @ portstr), st)
            else let port = scan_port (net_uninitialised env) portstr in
              register_device env host port (device_serial hostbuf port) (socket_network_client env hostbuf port) st)"

definition btconnect_device :: "net_env \<Rightarrow> string \<Rightarrow> 'a pstate_scheme \<Rightarrow> (string \<times> 'a pstate_scheme) res" where
  "btconnect_device env host st = bindr (host_buffer host) (\<lambda>hostbuf.
     register_device env host DEFAULT_BT_PSM (device_serial hostbuf DEFAULT_BT_PSM) (btsocket_network_client env hostbuf DEFAULT_BT_PSM) st)"

text \<open>\<open>local_connect_arbitrary_ports\<close> of transport_local.c as the server runs it.\<close>

definition local_connect_arbitrary_ports :: "net_env \<Rightarrow> int \<Rightarrow> int \<Rightarrow> 'a pstate_scheme \<Rightarrow> (int \<times> 'a pstate_scheme) res" where
  "local_connect_arbitrary_ports env console_port port st =
     (let fd = (case ADBHOST env of None \<Rightarrow> -1 | Some host \<Rightarrow> socket_network_client env host port);
          fd = (if fd < 0 then socket_loopback_client env port else fd) in
      if 0 \<le> fd then
        bindr (register_socket_transport (net_t_name env) fd (Some (take 63 (''emulator-'' @ fmt_d console_port))) port True st) (\<lambda>(r, st). Inr (0, st))
      else Inr (-1, st))"

text \<open>The first loop of the server: every second port from 5555 on.\<close>

fun client_socket_thread :: "net_env \<Rightarrow> nat \<Rightarrow> int \<Rightarrow> 'a pstate_scheme \<Rightarrow> 'a pstate_scheme res" where
  "client_socket_thread env 0 port st = Inr st"
| "client_socket_thread env (Suc count) port st =
     bindr (local_connect_arbitrary_ports env (port - 1) port st) (\<lambda>(r, st). client_socket_thread env count (port + 2) st)"

definition connect_emulator :: "net_env \<Rightarrow> string \<Rightarrow> 'a pstate_scheme \<Rightarrow> (string \<times> 'a pstate_scheme) res" where
  "connect_emulator env port_spec st =
     (case strchr port_spec CHR '','' of
        None \<Rightarrow> Inr (in_buffer (''unable to parse '' @ [CHR 0x27] @ port_spec @ [CHR 0x27] @ '' as <console port>,<adb port>''), st)
      | Some i \<Rightarrow>
          let console = strtol (take i port_spec); port = strtol (drop (Suc i) port_spec) in
          if \<not> (console > 0 \<and> port > 0)
          then Inr (in_buffer (''Invalid port numbers: Expected positive numbers, got '' @ [CHR 0x27] @ port_spec @ [CHR 0x27]), st)
          else bindr (find_emulator_transport_by_adb_port port st) (\<lambda>known.
            if known \<noteq> None then Inr (in_buffer (''Emulator on port '' @ fmt_d port @ '' already registered.''), st)
            else if get_available_local_transport_index st < 0 then Inr (in_buffer ''Cannot accept more emulators.'', st)
            else bindr (local_connect_arbitrary_ports env console port st) (\<lambda>(r, st).
              Inr (in_buffer ((if r = 0 then ''Connected'' else ''Could not connect'') @ '' to emulator on ports '' @ fmt_d console @ '','' @ fmt_d port), st))))"

text \<open>The answer of both services.\<close>

definition answer_service :: "fdesc \<Rightarrow> (string \<times> 'a pstate_scheme) res \<Rightarrow> 'a pstate_scheme res" where
  "answer_service fd m = bindr m (\<lambda>(buf, st).
     bindr (write_text fd (take 4095 (fmt_04x (length buf) @ buf)) st) (\<lambda>st. Inr (adb_close fd st)))"

definition connect_service :: "net_env \<Rightarrow> string \<Rightarrow> fdesc \<Rightarrow> 'a pstate_scheme \<Rightarrow> 'a pstate_scheme res" where
  "connect_service env host fd st =
     answer_service fd (if has_prefix host ''emu:'' then connect_emulator env (drop 4 host) st else connect_device env host st)"

definition btconnect_service :: "net_env \<Rightarrow> string \<Rightarrow> fdesc \<Rightarrow> 'a pstate_scheme \<Rightarrow> 'a pstate_scheme res" where
  "btconnect_service env host fd st = answer_service fd (btconnect_device env host st)"

section \<open>Starting the services\<close>

text \<open>The socket on the descriptor of the new thread, or on -1 if there is none.\<close>

definition thread_socket :: "svstate service_env \<Rightarrow> service_func \<Rightarrow> svstate \<Rightarrow> (addr option \<times> svstate) res" where
  "thread_socket env func st = bindr (create_service_thread env func st) (\<lambda>(fd, st).
     bindr (create_local_socket fd st) (\<lambda>(a, st). Inr (Some a, st)))"

definition host_service_to_socket :: "svstate service_env \<Rightarrow> string \<Rightarrow> string option \<Rightarrow> svstate \<Rightarrow> (addr option \<times> svstate) res" where
  "host_service_to_socket env name ser st =
     (if name = ''track-devices'' then let (a, st) = create_device_tracker st in Inr (Some a, st)
      else if has_prefix name ''wait-for-'' then
        let name = drop 9 name;
            wait = (\<lambda>t. thread_socket env (wait_for_state_func \<lparr>si_transport = t, si_serial = ser, si_state = CS_DEVICE\<rparr>) st) in
        if has_prefix name ''local'' then wait kTransportLocal
        else if has_prefix name ''usb'' then wait kTransportUsb
        else if has_prefix name ''any'' then wait kTransportAny
        else Inr (None, st)
      else if has_prefix name ''connect:'' then thread_socket env (connect_service_func (drop 8 name)) st
      else if has_prefix name ''btconnect:'' then thread_socket env (btconnect_service_func (drop 10 name)) st
      else Inr (None, st))"

section \<open>Properties\<close>

lemma fmt_psm: "fmt_d DEFAULT_BT_PSM = ''4099''"
  by (simp add: fmt_d_def DEFAULT_BT_PSM_def dec_digits.simps hex_digit_def)

lemma register_device_spec:
  assumes "t_fresh st" "wr_clean (wr_ev st (registration_send st))"
  shows "\<exists>st' t. register_device env host port ser fd st =
      Inr (in_buffer (if fd < 0 then ''unable to connect to '' @ host @ '':'' @ fmt_d port
         else if serial_used ser st then ''already connected to '' @ ser else ''connected to '' @ ser), st')
    \<and> transport_list st' = transport_list st
    \<and> (if 0 \<le> fd \<and> \<not> serial_used ser st
       then pending_list st' = pending_list st @ [next_addr st] \<and> tmsgs st' = tmsgs st @ [(next_addr st, 1)]
         \<and> transports st' = (transports st)(next_addr st \<mapsto> t) \<and> serial t = Some ser \<and> sfd t = fd
       else pending_list st' = pending_list st \<and> tmsgs st' = tmsgs st \<and> transports st' = transports st \<and> (0 \<le> fd \<longrightarrow> fd \<in> set (closed_fds st')))"
proof (cases "fd < 0")
  case True
  then show ?thesis by (simp add: register_device_def)
next
  case False
  have m: "may_register ser port False st \<longleftrightarrow> \<not> serial_used ser st" by (simp add: may_register_def needs_slot_def)
  from register_socket_transport_exact [OF assms, of "net_t_name env" fd ser port False] show ?thesis
    using False by (cases "serial_used ser st") (auto simp: register_device_def m adb_close_def)
qed

text \<open>
  Property C17. What \<open>adb btconnect\<close> says is what has happened: for a Bluetooth address of less than 99 characters the
  answer is "connected to" exactly when a transport with that address and the new connection has been put on the
  pending list and its registration queued; it is "already connected to" exactly when the serial
  number is in use, and then the new connection is closed again and the lists, the transports and the
  queue are as before; otherwise nothing was connected.
\<close>

theorem btconnect_exact:
  fixes host
  defines "ser \<equiv> device_serial host DEFAULT_BT_PSM"
  assumes "t_fresh st" "wr_clean (wr_ev st (registration_send st))" "length host < 99" "btsocket_network_client env host DEFAULT_BT_PSM = fd"
  shows "\<exists>st' t. btconnect_device env host st =
      Inr (in_buffer (if fd < 0 then ''unable to connect to '' @ host @ '':4099''
         else if serial_used ser st then ''already connected to '' @ ser else ''connected to '' @ ser), st')
    \<and> transport_list st' = transport_list st
    \<and> (if 0 \<le> fd \<and> \<not> serial_used ser st
       then pending_list st' = pending_list st @ [next_addr st] \<and> tmsgs st' = tmsgs st @ [(next_addr st, 1)]
         \<and> transports st' = (transports st)(next_addr st \<mapsto> t) \<and> serial t = Some ser \<and> sfd t = fd
       else pending_list st' = pending_list st \<and> tmsgs st' = tmsgs st \<and> transports st' = transports st \<and> (0 \<le> fd \<longrightarrow> fd \<in> set (closed_fds st')))"
proof -
  have p: "fmt_d DEFAULT_BT_PSM = ''4099''" by (rule fmt_psm)
  have e: "''unable to connect to '' @ host @ '':'' @ fmt_d DEFAULT_BT_PSM = ''unable to connect to '' @ host @ '':4099''" unfolding p by simp
  have "btconnect_device env host st = register_device env host DEFAULT_BT_PSM ser fd st"
    using assms by (simp add: btconnect_device_def host_buffer_def)
  then show ?thesis using register_device_spec [OF assms(2,3), of env host DEFAULT_BT_PSM ser fd] unfolding e by (simp only:)
qed

definition ex_net :: net_env where
  "ex_net = \<lparr>socket_network_client = (\<lambda>_ _. -1), btsocket_network_client = (\<lambda>_ _. 9), socket_loopback_client = (\<lambda>_. -1), ADBHOST = None,
     net_t_name = (\<lambda>_. []), net_uninitialised = 0\<rparr>"

theorem btconnect_exact_witness:
  "\<exists>st' t. btconnect_device ex_net ''00:11'' ex_pstate = Inr (''connected to 00:11:4099'', st')
    \<and> pending_list st' = pending_list ex_pstate @ [next_addr ex_pstate] \<and> transports st' (next_addr ex_pstate) = Some t \<and> sfd t = 9"
proof -
  have f: "t_fresh ex_pstate" "wr_clean (wr_ev ex_pstate (registration_send ex_pstate))"
    by (auto simp: t_fresh_def store_ok_def ex_pstate_simps)
  have d: "device_serial ''00:11'' DEFAULT_BT_PSM = ''00:11:4099''" by (simp add: device_serial_def fmt_psm)
  have "\<not> serial_used ''00:11:4099'' ex_pstate" by (simp add: serial_used_def ex_pstate_simps zero_transport_def)
  then show ?thesis using btconnect_exact [OF f, of "''00:11''" ex_net 9] by (auto simp: ex_net_def d in_buffer_def)
qed

lemma prefix_append: "has_prefix name p \<Longrightarrow> \<exists>r. name = p @ r"
  by (metis append_take_drop_id has_prefix_def strncmp_eq_def take_all_iff order_refl)

lemma install_refused: "fd < 0 \<Longrightarrow> fdevent_install a fd func st = Inl (Fatal ''bogus negative fd'')"
  by (simp add: fdevent_install_def fdevent_register_def get_fde_def put_fde_def from_opt_def Let_def)

lemma local_socket_refused: "fd < 0 \<Longrightarrow> create_local_socket fd st = Inl (Fatal ''bogus negative fd'')"
  by (simp add: create_local_socket_def alloc_sock_def alloc_def Let_def install_local_socket_def upd_sock_def get_sock_def put_sock_def
      from_opt_def install_refused)

text \<open>
  Property C40. Without a free descriptor the server dies: when the socket pair or the thread of a host service (waiting for a device, connect and
  btconnect) cannot be made, the result -1 is passed on to \<open>create_local_socket\<close> unchecked, and installing it in the event loop
  is a fatal error that ends the server and with it every connection.
\<close>

theorem host_service_without_thread_fatal:
  assumes "sv_socketpair env st = None \<or> \<not> sv_thread env st" "sv_malloc env st"
    and "\<exists>p\<in>{''wait-for-local'', ''wait-for-usb'', ''wait-for-any'', ''connect:'', ''btconnect:''}. has_prefix name p"
  shows "host_service_to_socket env name ser st = Inl (Fatal ''bogus negative fd'')"
proof -
  have c: "\<exists>st'. create_service_thread env func st = Inr (-1, st')" for func
    using assms(1,2) by (auto simp: create_service_thread_def split: option.splits)
  have t: "thread_socket env func st = Inl (Fatal ''bogus negative fd'')" for func
    using c [of func] by (auto simp: thread_socket_def local_socket_refused)
  consider r where "name = ''wait-for-local'' @ r" | r where "name = ''wait-for-usb'' @ r" | r where "name = ''wait-for-any'' @ r" | r where "name = ''connect:'' @ r" | r where "name = ''btconnect:'' @ r"
    using assms(3) prefix_append by blast
  then show ?thesis
    by cases (simp_all add: host_service_to_socket_def has_prefix_def strncmp_eq_def t)
qed

theorem host_service_without_thread_fatal_witness:
  "host_service_to_socket ex_services ''connect:phone'' None ex_services_start = Inl (Fatal ''bogus negative fd'')"
  using host_service_without_thread_fatal [of ex_services ex_services_start "''connect:phone''" None]
  by (simp add: ex_services_def has_prefix_def strncmp_eq_def)

end
