(* ===== verification/AdbClient.thy ===== *)
theory AdbClient
  imports SyncFs Listeners
begin

text \<open>
  The client's side of the smart socket protocol, adb_client.c: connecting to the server, asking for
  a transport, reading the status, commands and queries. The theorems put it together with what
  the server writes: the reply of a query and the reason of a failure arrive.
\<close>

section \<open>State\<close>

text \<open>
  The descriptors, the text of the last error, and how often a connection was asked for. The
  environment has the settings of the command line, the descriptor each attempt to connect to a
  host and port gives, and the result of starting a server.
\<close>

record client_world = world +
  adb_error :: string
  attempts :: nat

record client_env =
  adb_transport :: transport_type
  adb_serial :: "string option"
  adb_server_port :: int
  adb_server_name :: "string option"
  socket_client :: "string option \<Rightarrow> int \<Rightarrow> nat \<Rightarrow> int"
  launch_server :: "int \<Rightarrow> int"

definition set_error :: "string \<Rightarrow> client_world \<Rightarrow> client_world" where
  "set_error txt w = w\<lparr>adb_error := txt\<rparr>"

section \<open>Operations\<close>

definition fmt_02x :: "byte \<Rightarrow> string" where
  "fmt_02x b = [hex_digit (unat b div 16), hex_digit (unat b)]"

text \<open>Four characters read and terminated, as a hexadecimal number.\<close>

definition hex_length :: "byte list \<Rightarrow> nat" where
  "hex_length bs = unat (fst (strtoul (cstr (bs @ [0])) 16))"

definition adb_status :: "fdesc \<Rightarrow> client_world \<Rightarrow> (int \<times> client_world) res" where
  "adb_status fd w = bindr (readx fd 4 w) (\<lambda>(buf, w).
     case buf of
       None \<Rightarrow> Inr (-1, set_error ''protocol fault (no status)'' w)
     | Some buf \<Rightarrow>
         if buf = bytes_of ''OKAY'' then Inr (0, w)
         else if buf \<noteq> bytes_of ''FAIL'' then
           Inr (-1, set_error (''protocol fault (status '' @ fmt_02x (buf ! 0) @ '' '' @ fmt_02x (buf ! 1) @ '' '' @ fmt_02x (buf ! 2) @ '' ''
             @ fmt_02x (buf ! 3) @ ''?!)'') w)
         else bindr (readx fd 4 w) (\<lambda>(buf, w).
           case buf of
             None \<Rightarrow> Inr (-1, set_error ''protocol fault (status len)'' w)
           | Some buf \<Rightarrow> bindr (readx fd (min 255 (hex_length buf)) w) (\<lambda>(txt, w).
               case txt of
                 None \<Rightarrow> Inr (-1, set_error ''protocol fault (status read)'' w)
               | Some txt \<Rightarrow> Inr (-1, set_error (cstr (txt @ [0])) w))))"

text \<open>A request: the length and the text, in two writes.\<close>

definition write_request_text :: "fdesc \<Rightarrow> string \<Rightarrow> client_world \<Rightarrow> (int \<times> client_world) res" where
  "write_request_text fd txt w = bindr (writex fd (bytes_of (take 4 (fmt_04x (length txt)))) w) (\<lambda>(r, w).
     if r \<noteq> 0 then Inr (r, w) else writex fd (bytes_of txt) w)"

definition switch_socket_transport :: "client_env \<Rightarrow> fdesc \<Rightarrow> client_world \<Rightarrow> (int \<times> client_world) res" where
  "switch_socket_transport env fd w =
     (case (case adb_serial env of
              Some s \<Rightarrow> Some (take 63 (''host:transport:'' @ s))
            | None \<Rightarrow> (case adb_transport env of
                kTransportUsb \<Rightarrow> Some ''host:transport-usb''
              | kTransportLocal \<Rightarrow> Some ''host:transport-local''
              | kTransportAny \<Rightarrow> Some ''host:transport-any''
              | kTransportHost \<Rightarrow> None)) of
        None \<Rightarrow> Inr (0, w)
      | Some service \<Rightarrow>
          bindr (write_request_text fd service w) (\<lambda>(r, w).
            if r \<noteq> 0 then Inr (-1, adb_close fd (set_error ''write failure during connection'' w))
            else bindr (adb_status fd w) (\<lambda>(r, w). if r \<noteq> 0 then Inr (-1, adb_close fd w) else Inr (0, w))))"

text \<open>\<open>_adb_connect\<close>\<close>

definition adb_connect_once :: "client_env \<Rightarrow> string \<Rightarrow> client_world \<Rightarrow> (int \<times> client_world) res" where
  "adb_connect_once env service w =
     (if length service < 1 \<or> 1024 < length service then Inr (-1, set_error ''service name too long'' w)
      else
        let fd = socket_client env (adb_server_name env) (adb_server_port env) (attempts w); w = w\<lparr>attempts := attempts w + 1\<rparr> in
        if fd < 0 then Inr (-2, set_error ''cannot connect to daemon'' w)
        else
          bindr (if \<not> strncmp_eq service ''host'' 4 then switch_socket_transport env fd w else Inr (0, w)) (\<lambda>(r, w).
            if r \<noteq> 0 then Inr (-1, w)
            else bindr (write_request_text fd service w) (\<lambda>(r, w).
              if r \<noteq> 0 then Inr (-1, adb_close fd (set_error ''write failure during connection'' w))
              else bindr (adb_status fd w) (\<lambda>(r, w). if r \<noteq> 0 then Inr (-1, adb_close fd w) else Inr (fd, w)))))"

text \<open>
  The version in the reply to \<open>host:version\<close>, or \<open>None\<close> for a reply that cannot be read. The text
  goes to the buffer that holds the four characters of its length and a zero; more than four
  characters overwrite the zero, so that what \<open>sscanf\<close> reads is no longer a string.
\<close>

definition server_version :: "fdesc \<Rightarrow> client_world \<Rightarrow> (int option \<times> client_world) res" where
  "server_version fd w = bindr (readx fd 4 w) (\<lambda>(len, w).
     case len of
       None \<Rightarrow> Inr (None, adb_close fd w)
     | Some len \<Rightarrow>
         let n = hex_length len in
         if n > 100 then Inr (None, adb_close fd w)
         else bindr (readx fd n w) (\<lambda>(txt, w).
           case txt of
             None \<Rightarrow> Inr (None, adb_close fd w)
           | Some txt \<Rightarrow>
               if n > 4 \<and> 0 \<notin> set txt then Inl MemFault
               else (case scan_hex 4 (txt @ drop n (len @ [0])) of
               None \<Rightarrow> Inr (None, adb_close fd (adb_close fd w))
             | Some v \<Rightarrow> Inr (Some v, adb_close fd w))))"

definition adb_connect_again :: "client_env \<Rightarrow> string \<Rightarrow> client_world \<Rightarrow> (int \<times> client_world) res" where
  "adb_connect_again env service w =
     (if service = ''host:start-server'' then Inr (0, w) else adb_connect_once env service w)"

definition start_server :: "client_env \<Rightarrow> string \<Rightarrow> client_world \<Rightarrow> (int \<times> client_world) res" where
  "start_server env service w =
     (if launch_server env (adb_server_port env) \<noteq> 0 then Inr (-1, w) else adb_connect_again env service w)"

definition adb_connect :: "client_env \<Rightarrow> string \<Rightarrow> client_world \<Rightarrow> (int \<times> client_world) res" where
  "adb_connect env service w = bindr (adb_connect_once env ''host:version'' w) (\<lambda>(fd, w).
     if fd = -2 then if adb_server_name env \<noteq> None then Inr (fd, w) else start_server env service w
     else if fd < 0 \<and> adb_error w \<noteq> ''unknown host service'' then Inr (fd, w)
     else bindr (if fd \<ge> 0 then server_version fd w else Inr (Some (int ADB_SERVER_VERSION - 1), w)) (\<lambda>(version, w).
       case version of
         None \<Rightarrow> Inr (-1, w)
       | Some version \<Rightarrow>
           if version \<noteq> int ADB_SERVER_VERSION
           then bindr (adb_connect_once env ''host:kill'' w) (\<lambda>(fd, w). start_server env service (adb_close fd w))
           else adb_connect_again env service w))"

definition adb_command :: "client_env \<Rightarrow> string \<Rightarrow> client_world \<Rightarrow> (int \<times> client_world) res" where
  "adb_command env service w = bindr (adb_connect env service w) (\<lambda>(fd, w).
     if fd < 0 then Inr (-1, w)
     else bindr (adb_status fd w) (\<lambda>(r, w). if r \<noteq> 0 then Inr (-1, adb_close fd w) else Inr (0, w)))"

definition adb_query :: "client_env \<Rightarrow> string \<Rightarrow> client_world \<Rightarrow> (string option \<times> client_world) res" where
  "adb_query env service w = bindr (adb_connect env service w) (\<lambda>(fd, w).
     if fd < 0 then Inr (None, w)
     else bindr (readx fd 4 w) (\<lambda>(buf, w).
       case buf of
         None \<Rightarrow> Inr (None, adb_close fd w)
       | Some buf \<Rightarrow>
           if hex_length buf > 1024 then Inr (None, adb_close fd w)
           else bindr (readx fd (hex_length buf) w) (\<lambda>(tmp, w). Inr (map_option (\<lambda>tmp. cstr (tmp @ [0])) tmp, adb_close fd w))))"

text \<open>
  The emulators in a list of devices: the lines that begin with the prefix of an emulator's name.
  When no serial number was given, the only emulator's name is read after the list has been freed.
\<close>

definition LOCAL_CLIENT_PREFIX :: string where "LOCAL_CLIENT_PREFIX = ''emulator-''"

function device_lines :: "string \<Rightarrow> string list" where
  "device_lines p = (if p = [] then [] else takeWhile (\<lambda>c. c \<noteq> CHR 0x0a) p # device_lines (drop 1 (dropWhile (\<lambda>c. c \<noteq> CHR 0x0a) p)))"
  by pat_completeness auto
termination
  by (relation "measure length") (auto simp: less_Suc_eq_le dest: dropWhile_tail_less [of _ "\<lambda>c. c \<noteq> CHR 0x0a"])

declare device_lines.simps [simp del]

definition emulator_lines :: "string \<Rightarrow> string list" where
  "emulator_lines txt = filter (\<lambda>l. take (length LOCAL_CLIENT_PREFIX) l = LOCAL_CLIENT_PREFIX) (device_lines txt)"

definition adb_get_emulator_console_port :: "client_env \<Rightarrow> client_world \<Rightarrow> (int \<times> client_world) res" where
  "adb_get_emulator_console_port env w =
     (case adb_serial env of
        Some name \<Rightarrow>
          if take (length LOCAL_CLIENT_PREFIX) name \<noteq> LOCAL_CLIENT_PREFIX then Inr (-1, w)
          else Inr (atoi (drop (length LOCAL_CLIENT_PREFIX) name), w)
      | None \<Rightarrow> bindr (adb_query env ''host:devices'' w) (\<lambda>(tmp, w).
          case tmp of
            None \<Rightarrow> Inr (-1, w)
          | Some txt \<Rightarrow> (case emulator_lines txt of
              [] \<Rightarrow> Inr (-1, w)
            | [l] \<Rightarrow> Inl MemFault
            | _ \<Rightarrow> Inr (-2, w))))"

section \<open>Conversations\<close>

text \<open>The other end has written \<open>i\<close> and accepts whatever is written.\<close>

definition hears :: "client_world \<Rightarrow> fdesc \<Rightarrow> byte list \<Rightarrow> bool" where
  "hears w fd i \<longleftrightarrow> wr_clean (wr_ev w fd) \<and> good_bytes (rd_ev w fd) = i"

text \<open>A step that writes \<open>out\<close> to \<open>fd\<close>, leaves \<open>i\<close> to be read, and touches no other descriptor.\<close>

definition talks :: "fdesc \<Rightarrow> byte list \<Rightarrow> byte list \<Rightarrow> client_world \<Rightarrow> client_world \<Rightarrow> bool" where
  "talks fd out i w w' \<longleftrightarrow> hears w' fd i \<and> wr_out w' fd = wr_out w fd @ out \<and> attempts w' = attempts w
     \<and> (\<forall>x. x \<noteq> fd \<longrightarrow> rd_ev w' x = rd_ev w x \<and> wr_ev w' x = wr_ev w x \<and> wr_out w' x = wr_out w x)"

lemma talks_trans: "talks fd a i w w1 \<Longrightarrow> talks fd b j w1 w2 \<Longrightarrow> talks fd (a @ b) j w w2"
  by (simp add: talks_def)

lemma talks_hears: "talks fd out i w w' \<Longrightarrow> hears w' fd i"
  by (simp add: talks_def)

lemma talks_simps [simp]:
  "talks fd out i w (adb_close x w') = talks fd out i w w'" "talks fd out i w (set_error txt w') = talks fd out i w w'"
  "hears (adb_close x w) fd i = hears w fd i" "hears (w\<lparr>attempts := n\<rparr>) fd i = hears w fd i"
  by (simp_all add: talks_def hears_def adb_close_def set_error_def)

lemma talk_write: "hears w fd i \<Longrightarrow> \<exists>w'. writex fd bs w = Inr (0, w') \<and> talks fd bs i w w'"
proof -
  assume h: "hears w fd i"
  then have c: "wr_clean (wr_ev w fd)" by (simp add: hears_def)
  from writex_spec [of fd bs w] c obtain w' where "writex fd bs w = Inr (0, w')" "wr_prefix fd bs w (length bs) w'" by blast
  then show ?thesis using h c by (auto simp: wr_prefix_def talks_def hears_def wr_done_def)
qed

lemma talk_read: "hears w fd (m @ i) \<Longrightarrow> length m = n \<Longrightarrow> \<exists>w'. readx fd n w = Inr (Some m, w') \<and> talks fd [] i w w'"
proof -
  assume h: "hears w fd (m @ i)" "length m = n"
  then have g: "good_bytes (rd_ev w fd) = m @ i" by (simp add: hears_def)
  then have "n \<le> length (good_bytes (rd_ev w fd))" using h(2) by simp
  from readx_good [OF refl this] g h show ?thesis by (auto simp: talks_def hears_def rd_set_def)
qed

section \<open>Lengths\<close>

lemma hex_digit_char: "\<not> isspace (hex_digit d) \<and> hex_digit d \<notin> {CHR ''-'', CHR ''+'', CHR ''x'', CHR ''X'', CHR 0x00}
    \<and> digit_value (hex_digit d) = Some (d mod 16)"
proof -
  have "hex_digit d \<in> set ''0123456789abcdef''" unfolding hex_digit_def by (rule nth_mem) simp
  moreover have "\<forall>c\<in>set ''0123456789abcdef''. \<not> isspace c \<and> c \<notin> {CHR ''-'', CHR ''+'', CHR ''x'', CHR ''X'', CHR 0x00}"
    by (simp add: isspace_def)
  moreover have "map digit_value ''0123456789abcdef'' = map Some [0..<16]" by (simp add: digit_value_def isdigit_def upt_rec)
  then have "map digit_value ''0123456789abcdef'' ! (d mod 16) = map Some [0..<16] ! (d mod 16)" by (rule arg_cong)
  then have "digit_value (hex_digit d) = Some (d mod 16)" by (subst (asm) (1 2) nth_map) (simp_all add: hex_digit_def)
  ultimately show ?thesis by blast
qed

lemma strtoul_hex_digits:
  "strtoul [hex_digit a, hex_digit b, hex_digit c, hex_digit d] 16
     = (of_nat (16 * (16 * (16 * (a mod 16) + b mod 16) + c mod 16) + d mod 16), False)"
proof -
  have small: "(16 \<le> x mod (16 :: nat)) = False" for x by (simp add: not_le)
  have "strtoul [hex_digit a, hex_digit b, hex_digit c, hex_digit d] 16
      = (let (acc, any) = strtoul_loop 16 [hex_digit a, hex_digit b, hex_digit c, hex_digit d] 0 0 in (of_nat acc, any < 0))"
    using hex_digit_char [of a] hex_digit_char [of b] by (simp add: strtoul_def Let_def case_prod_beta)
  also have "strtoul_loop 16 [hex_digit a, hex_digit b, hex_digit c, hex_digit d] 0 0
      = (16 * (16 * (16 * (a mod 16) + b mod 16) + c mod 16) + d mod 16, 1)"
    by (simp add: hex_digit_char small ULONG_MAX_def algebra_simps)
  finally show ?thesis by simp
qed

lemma cstr_bytes: "CHR 0x00 \<notin> set s \<Longrightarrow> cstr (bytes_of s @ [0]) = s"
  by (rule cstr_bytes_of)

lemma hex_length_fmt: "n < 65536 \<Longrightarrow> hex_length (bytes_of (fmt_04x n)) = n"
proof -
  assume n: "n < 65536"
  have "CHR 0x00 \<noteq> hex_digit d" for d using hex_digit_char [of d] by (metis insert_iff)
  then have z: "CHR 0x00 \<notin> set (fmt_04x n)" by (simp add: fmt_04x_digits [OF n])
  have "strtoul (fmt_04x n) 16 = (of_nat n, False)"
    by (simp only: fmt_04x_digits [OF n] strtoul_hex_digits hex_parts [OF n])
  then show ?thesis using n by (simp add: hex_length_def cstr_bytes [OF z] unat_of_nat)
qed

lemma length_fmt_04x: "n < 65536 \<Longrightarrow> length (fmt_04x n) = 4"
  by (simp add: fmt_04x_digits)

section \<open>Status and requests\<close>

lemma adb_status_okay:
  assumes "hears w fd (bytes_of ''OKAY'' @ i)"
  shows "\<exists>w'. adb_status fd w = Inr (0, w') \<and> talks fd [] i w w'"
proof -
  obtain w' where "readx fd 4 w = Inr (Some (bytes_of ''OKAY''), w')" "talks fd [] i w w'"
    using talk_read [OF assms, of 4] by (auto simp: bytes_of_def)
  then show ?thesis by (auto simp: adb_status_def)
qed

lemma request_talks:
  assumes "hears w fd i" "length txt < 65536"
  shows "\<exists>w'. write_request_text fd txt w = Inr (0, w') \<and> talks fd (bytes_of (fmt_04x (length txt) @ txt)) i w w'"
proof -
  obtain w1 where 1: "writex fd (bytes_of (fmt_04x (length txt))) w = Inr (0, w1)" "talks fd (bytes_of (fmt_04x (length txt))) i w w1"
    using talk_write [OF assms(1)] by blast
  obtain w2 where 2: "writex fd (bytes_of txt) w1 = Inr (0, w2)" "talks fd (bytes_of txt) i w1 w2"
    using talk_write [OF talks_hears [OF 1(2)]] by blast
  have "take 4 (fmt_04x (length txt)) = fmt_04x (length txt)" using length_fmt_04x [OF assms(2)] by simp
  with 1 2 talks_trans [OF 1(2) 2(2)] show ?thesis by (auto simp: write_request_text_def bytes_of_def)
qed

text \<open>A service of the server itself: the request is written and the status read.\<close>

lemma connect_once_talks:
  assumes c: "socket_client env (adb_server_name env) (adb_server_port env) (attempts w) = fd" "0 \<le> fd"
    and s: "take 4 service = ''host''" "length service \<le> 1024" and h: "hears w fd (bytes_of ''OKAY'' @ i)"
  shows "\<exists>w'. adb_connect_once env service w = Inr (fd, w') \<and> talks fd (bytes_of (fmt_04x (length service) @ service)) i (w\<lparr>attempts := attempts w + 1\<rparr>) w'"
proof -
  let ?w = "w\<lparr>attempts := attempts w + 1\<rparr>"
  obtain w1 where 1: "write_request_text fd service ?w = Inr (0, w1)"
      "talks fd (bytes_of (fmt_04x (length service) @ service)) (bytes_of ''OKAY'' @ i) ?w w1"
    using request_talks [of ?w fd _ service] h s(2) by auto
  obtain w2 where 2: "adb_status fd w1 = Inr (0, w2)" "talks fd [] i w1 w2" using adb_status_okay [OF talks_hears [OF 1(2)]] by blast
  have "strncmp_eq service ''host'' 4" using s(1) by (simp add: strncmp_eq_def)
  moreover have "1 \<le> length service" using s(1) by (cases service) auto
  ultimately show ?thesis using 1 2 c s(2) talks_trans [OF 1(2) 2(2)] by (auto simp: adb_connect_once_def Let_def)
qed

text \<open>The reply to \<open>host:version\<close>.\<close>

definition version_reply :: "byte list" where
  "version_reply = bytes_of (okay_text (fmt_04x ADB_SERVER_VERSION))"

lemma okay_text_bytes: "length txt \<le> 4087 \<Longrightarrow> bytes_of (okay_text txt) = bytes_of ''OKAY'' @ bytes_of (fmt_04x (length txt)) @ bytes_of txt"
  by (simp add: okay_text_def bytes_of_def length_fmt_04x)

lemma version_read:
  assumes "hears w fd (bytes_of (fmt_04x 4) @ bytes_of (fmt_04x ADB_SERVER_VERSION) @ i)"
  shows "\<exists>w'. server_version fd w = Inr (Some (int ADB_SERVER_VERSION), w') \<and> talks fd [] i w w'"
proof -
  obtain w1 where 1: "readx fd 4 w = Inr (Some (bytes_of (fmt_04x 4)), w1)" "talks fd [] (bytes_of (fmt_04x ADB_SERVER_VERSION) @ i) w w1"
    using talk_read [OF assms, of 4] by (auto simp: bytes_of_def length_fmt_04x)
  obtain w2 where 2: "readx fd 4 w1 = Inr (Some (bytes_of (fmt_04x ADB_SERVER_VERSION)), w2)" "talks fd [] i w1 w2"
    using talk_read [OF talks_hears [OF 1(2)], of 4] by (auto simp: bytes_of_def length_fmt_04x ADB_SERVER_VERSION_def)
  have "scan_hex 4 (bytes_of (fmt_04x ADB_SERVER_VERSION) @ drop 4 (bytes_of (fmt_04x 4) @ [0])) = Some (int ADB_SERVER_VERSION)" by code_simp
  with 1 2 hex_length_fmt [of 4] talks_trans [OF 1(2) 2(2)] show ?thesis by (auto simp: server_version_def Let_def)
qed

section \<open>Properties\<close>

text \<open>
  Property C16. A query is answered: against a running server of the same version, \<open>adb_query\<close> sends the name of
  the service with its length in front, in a form the server's \<open>unhex\<close> reads back, and returns
  exactly the text the server replies with (\<open>okay_text\<close>), provided it has at most 1024 characters.
  The server replies with up to 4087; such a reply the client drops without a message.
\<close>

theorem query_answered:
  assumes "socket_client env (adb_server_name env) (adb_server_port env) (attempts w) = v" "0 \<le> v"
    and "socket_client env (adb_server_name env) (adb_server_port env) (attempts w + 1) = fd" "0 \<le> fd" "fd \<noteq> v"
    and "hears w v version_reply" "hears w fd (bytes_of (okay_text txt))"
    and "take 4 service = ''host''" "length service \<le> 1024" "service \<noteq> ''host:start-server''" "length txt \<le> 4087" "CHR 0x00 \<notin> set txt"
  shows "\<exists>w' request. adb_query env service w = Inr (if length txt \<le> 1024 then Some txt else None, w') \<and> wr_out w' fd = wr_out w fd @ request
    \<and> unhex request 4 = Inr (of_nat (length service)) \<and> drop 4 request = bytes_of service"
proof -
  let ?a = "w\<lparr>attempts := attempts w + 1\<rparr>"
  have v: "hears w v (bytes_of ''OKAY'' @ bytes_of (fmt_04x 4) @ bytes_of (fmt_04x ADB_SERVER_VERSION) @ [])"
    using assms(6) by (simp add: version_reply_def okay_text_bytes length_fmt_04x ADB_SERVER_VERSION_def)
  obtain w1 where 1: "adb_connect_once env ''host:version'' w = Inr (v, w1)"
      "talks v (bytes_of (fmt_04x (length ''host:version'') @ ''host:version'')) (bytes_of (fmt_04x 4) @ bytes_of (fmt_04x ADB_SERVER_VERSION) @ []) ?a w1"
    using connect_once_talks [OF assms(1,2) _ _ v, of "''host:version''"] by auto
  obtain w2 where 2: "server_version v w1 = Inr (Some (int ADB_SERVER_VERSION), w2)" "talks v [] [] w1 w2"
    using version_read [OF talks_hears [OF 1(2)]] by blast
  have d: "talks v (bytes_of (fmt_04x (length ''host:version'') @ ''host:version'')) [] ?a w2" using talks_trans [OF 1(2) 2(2)] by simp
  have h: "hears w2 fd (bytes_of ''OKAY'' @ bytes_of (fmt_04x (length txt)) @ bytes_of txt @ [])" and o: "wr_out w2 fd = wr_out w fd"
    and n: "attempts w2 = attempts w + 1"
    using d assms(5,7,11) by (auto simp: talks_def hears_def okay_text_bytes)
  obtain w3 where 3: "adb_connect_once env service w2 = Inr (fd, w3)"
      "talks fd (bytes_of (fmt_04x (length service) @ service)) (bytes_of (fmt_04x (length txt)) @ bytes_of txt @ []) (w2\<lparr>attempts := attempts w2 + 1\<rparr>) w3"
    using connect_once_talks [OF _ assms(4,8,9) h] assms(3) n by auto
  have c: "adb_connect env service w = Inr (fd, w3)"
    using 1(1) 2(1) 3(1) assms(2,10) by (simp add: adb_connect_def adb_connect_again_def)
  have l: "length (fmt_04x (length txt)) = 4" using assms(11) by (simp add: length_fmt_04x)
  obtain w4 where 4: "readx fd 4 w3 = Inr (Some (bytes_of (fmt_04x (length txt))), w4)" "talks fd [] (bytes_of txt @ []) w3 w4"
    using talk_read [OF talks_hears [OF 3(2)], of 4] l by (auto simp: bytes_of_def)
  obtain w5 where 5: "readx fd (length txt) w4 = Inr (Some (bytes_of txt), w5)" "talks fd [] [] w4 w5"
    using talk_read [OF talks_hears [OF 4(2)], of "length txt"] by (auto simp: bytes_of_def)
  have k: "hex_length (bytes_of (fmt_04x (length txt))) = length txt" using assms(11) by (intro hex_length_fmt) simp
  have "\<exists>w'. adb_query env service w = Inr (if length txt \<le> 1024 then Some txt else None, w') \<and> wr_out w' fd = wr_out w3 fd"
    using c assms(4) 4 5 by (auto simp: adb_query_def k cstr_bytes [OF assms(12)] talks_def adb_close_def)
  moreover have "wr_out w3 fd = wr_out w fd @ bytes_of (fmt_04x (length service) @ service)" using 3(2) o by (simp add: talks_def)
  moreover have "unhex (bytes_of (fmt_04x (length service) @ service)) 4 = Inr (of_nat (length service))"
    using unhex_fmt [of "length service" "bytes_of service"] assms(9) by (simp add: bytes_of_def)
  moreover have "drop 4 (bytes_of (fmt_04x (length service) @ service)) = bytes_of service"
    using assms(9) by (simp add: bytes_of_def length_fmt_04x)
  ultimately show ?thesis by auto
qed

text \<open>
  Property C36. The reason of a failure arrives: when the server has sent \<open>sendfailmsg\<close>, the client's
  \<open>adb_status\<close> fails and its error is the first 255 characters of the reason.
\<close>

theorem failure_reason_arrives:
  assumes "sendfailmsg s reason ws = Inr (0, ws')" "wr_out ws s = []" "hears w fd (wr_out ws' s)" "CHR 0x00 \<notin> set reason"
  shows "\<exists>w'. adb_status fd w = Inr (-1, w') \<and> adb_error w' = take 255 reason"
proof -
  let ?n = "min (length reason) 0xffff"
  obtain ws1 where "writex s (fail_message reason) ws = Inr (0, ws1)" "writex s (bytes_of (take 0xffff reason)) ws1 = Inr (0, ws')"
    using assms(1) by (auto simp: sendfailmsg_def bindr_eq_Inr length_fail_message split: if_splits)
  from sock_snk.wr_seq [OF this] have "wr_out ws' s = bytes_of ''FAIL'' @ bytes_of (fmt_04x ?n) @ bytes_of (take 0xffff reason)"
    using assms(2) by (simp add: fail_message_def bytes_of_def)
  then have h: "hears w fd (bytes_of ''FAIL'' @ bytes_of (fmt_04x ?n) @ bytes_of (take 0xffff reason))" using assms(3) by simp
  obtain w1 where 1: "readx fd 4 w = Inr (Some (bytes_of ''FAIL''), w1)" "talks fd [] (bytes_of (fmt_04x ?n) @ bytes_of (take 0xffff reason)) w w1"
    using talk_read [OF h, of 4] by (auto simp: bytes_of_def)
  obtain w2 where 2: "readx fd 4 w1 = Inr (Some (bytes_of (fmt_04x ?n)), w2)" "talks fd [] (bytes_of (take 0xffff reason)) w1 w2"
    using talk_read [OF talks_hears [OF 1(2)], of 4] by (auto simp: bytes_of_def length_fmt_04x)
  have t: "bytes_of (take 0xffff reason) = bytes_of (take 255 reason) @ bytes_of (drop 255 (take 0xffff reason))"
    using append_take_drop_id [of 255 "take 0xffff reason"] by (simp add: bytes_of_def flip: map_append)
  have l: "length (bytes_of (take 255 reason)) = min 255 ?n" by (auto simp: bytes_of_def)
  obtain w3 where 3: "readx fd (min 255 ?n) w2 = Inr (Some (bytes_of (take 255 reason)), w3)"
    using talk_read [OF _ l, of w2 fd] talks_hears [OF 2(2)] t by auto
  have "hex_length (bytes_of (fmt_04x ?n)) = ?n" by (rule hex_length_fmt) simp
  moreover have "bytes_of ''FAIL'' \<noteq> bytes_of ''OKAY''" by code_simp
  moreover have "cstr (bytes_of (take 255 reason) @ [0]) = take 255 reason" using assms(4) by (intro cstr_bytes) (auto dest: in_set_takeD)
  ultimately show ?thesis using 1(1) 2(1) 3 by (simp add: adb_status_def set_error_def)
qed

text \<open>
  The console port of the only emulator: when no serial number was given and the list of devices names
  exactly one emulator, the function reads the name out of the list after it has been freed.
\<close>

theorem only_emulator_read_after_free:
  assumes "adb_serial env = None" "adb_query env ''host:devices'' w = Inr (Some txt, w')" "emulator_lines txt = [l]"
  shows "adb_get_emulator_console_port env w = Inl MemFault"
  using assms by (simp add: adb_get_emulator_console_port_def)

text \<open>A server on port 5038 that answers the version on descriptor 3 and \<open>host:devices\<close> on descriptor 4.\<close>

definition ex_client :: client_env where
  "ex_client = \<lparr>adb_transport = kTransportAny, adb_serial = None, adb_server_port = 5038, adb_server_name = None,
     socket_client = (\<lambda>_ _ k. int k + 3), launch_server = (\<lambda>_. 0)\<rparr>"

definition ex_reply :: string where "ex_reply = ''emulator-5554'' @ [CHR 0x09] @ ''device'' @ [CHR 0x0a]"

definition ex_client_world :: client_world where
  "ex_client_world = world.extend (idle_world\<lparr>rd_ev := (\<lambda>_. [])(3 := [RdBytes version_reply], 4 := [RdBytes (bytes_of (okay_text ex_reply))],
     5 := [RdBytes (bytes_of ''FAIL0006closed'')])\<rparr>) \<lparr>adb_error = [], attempts = 0\<rparr>"

lemma ex_client_hears:
  "hears ex_client_world 3 version_reply" "hears ex_client_world 4 (bytes_of (okay_text ex_reply))" "hears ex_client_world 5 (bytes_of ''FAIL0006closed'')"
  "attempts ex_client_world = 0" "wr_out ex_client_world 4 = []"
  by (simp_all add: hears_def ex_client_world_def world.defs idle_world_def)

theorem query_answered_witness:
  "\<exists>w' request. adb_query ex_client ''host:devices'' ex_client_world = Inr (Some ex_reply, w') \<and> wr_out w' 4 = request
    \<and> unhex request 4 = Inr 12 \<and> drop 4 request = bytes_of ''host:devices''"
  using query_answered [of ex_client ex_client_world 3 4 ex_reply "''host:devices''"] ex_client_hears
  by (simp add: ex_client_def ex_reply_def)

theorem failure_reason_arrives_witness:
  "\<exists>w'. adb_status 5 ex_client_world = Inr (-1, w') \<and> adb_error w' = ''closed''"
proof -
  obtain ws' where s: "sendfailmsg 3 ''closed'' idle_world = Inr (0, ws')"
    using sendfailmsg_clean [of idle_world 3] by (auto simp: idle_world_def)
  then obtain ws1 where w: "writex 3 (fail_message ''closed'') idle_world = Inr (0, ws1)" "writex 3 (bytes_of ''closed'') ws1 = Inr (0, ws')"
    by (auto simp: sendfailmsg_def bindr_eq_Inr length_fail_message split: if_splits)
  have "fmt_04x 6 = ''0006''" by code_simp
  moreover have "min (length ''closed'') 0xffff = 6" by simp
  ultimately have "fail_message ''closed'' = bytes_of ''FAIL0006''" by (simp only: fail_message_def append.simps)
  with sock_snk.wr_seq [OF w] have "wr_out ws' 3 = bytes_of ''FAIL0006closed''"
    by (simp add: idle_world_def bytes_of_def)
  with failure_reason_arrives [OF s _ _ ] ex_client_hears(3) show ?thesis by (simp add: idle_world_def)
qed

end
