(* ===== verification/ServerThreads.thy ===== *)
theory ServerThreads
  imports Transport CString
begin

text \<open>
  The threads of transport_local.c that wait for a host: over TCP, over Bluetooth and, in an
  emulator, through the QEMU pipe. They never end by themselves; the model runs them for as long as the
  given list of results of the system calls lasts.
\<close>

section \<open>Server sockets\<close>

text \<open>
  One round for each pair: what opening the server socket returns, if there is none yet, and what
  \<open>accept\<close> returns. \<open>t_name\<close> is as for \<open>register_socket_transport\<close>, whose result is not looked at.
\<close>

fun server_rounds :: "(addr \<Rightarrow> string) \<Rightarrow> int \<Rightarrow> int \<Rightarrow> (int \<times> int) list \<Rightarrow> 'a tstate_scheme \<Rightarrow> (int \<times> 'a tstate_scheme) res" where
  "server_rounds t_name port serverfd [] st = Inr (serverfd, st)"
| "server_rounds t_name port serverfd ((opened, fd) # rs) st =
     (let server = (if serverfd = -1 then opened else serverfd) in
      if serverfd = -1 \<and> opened < 0 then server_rounds t_name port server rs st
      else bindr (if fd \<ge> 0 then register_socket_transport t_name fd (Some ''host'') port True st else Inr (0, st))
        (\<lambda>(r, st). server_rounds t_name port server rs st))"

definition server_socket_thread :: "(addr \<Rightarrow> string) \<Rightarrow> int \<Rightarrow> (int \<times> int) list \<Rightarrow> 'a tstate_scheme \<Rightarrow> (int \<times> 'a tstate_scheme) res" where
  "server_socket_thread t_name port rs st = server_rounds t_name port (-1) rs st"

definition bt_psm :: int where "bt_psm = 0x1003"

text \<open>The Bluetooth thread runs the same loop on the sockets of the Bluetooth library.\<close>

definition server_btsocket_thread :: "(addr \<Rightarrow> string) \<Rightarrow> (int \<times> int) list \<Rightarrow> 'a tstate_scheme \<Rightarrow> (int \<times> 'a tstate_scheme) res" where
  "server_btsocket_thread t_name rs st = server_rounds t_name bt_psm (-1) rs st"

section \<open>The QEMU pipe\<close>

text \<open>The descriptors that opening the pipe returns, one after the other.\<close>

fun qemu_rounds :: "(addr \<Rightarrow> string) \<Rightarrow> int \<Rightarrow> int list \<Rightarrow> 'a tstate_scheme \<Rightarrow> 'a tstate_scheme res" where
  "qemu_rounds t_name port [] st = Inl Blocks"
| "qemu_rounds t_name port (fd # fds) st =
     (if fd < 0 then Inr st
      else bindr (adb_write fd (bytes_of ''accept'') st) (\<lambda>(res, st).
        if res \<noteq> IoN 6 then Inr st
        else bindr (adb_read fd 256 st) (\<lambda>(res, tmp, st).
          bindr (if res \<noteq> IoN 2 \<or> tmp \<noteq> bytes_of ''ok'' then Inr (adb_close fd st)
                 else bindr (register_socket_transport t_name fd (Some ''host'') port True st) (\<lambda>(r, st).
                   bindr (adb_write fd (bytes_of ''start'') st) (\<lambda>(r, st). Inr st)))
            (qemu_rounds t_name port fds))))"

text \<open>Without the pipe the thread starts the TCP thread in its place and ends.\<close>

definition qemu_socket_thread :: "(addr \<Rightarrow> string) \<Rightarrow> int \<Rightarrow> int list \<Rightarrow> 'a tstate_scheme \<Rightarrow> (bool \<times> 'a tstate_scheme) res" where
  "qemu_socket_thread t_name port fds st =
     (case fds of
        [] \<Rightarrow> Inl Blocks
      | fd # _ \<Rightarrow> if fd < 0 then Inr (True, st) else bindr (qemu_rounds t_name port fds st) (\<lambda>st. Inr (False, st)))"

text \<open>
  Which threads \<open>local_init\<close> starts. On the host only the TCP thread runs, since the Bluetooth function is
  chosen but not started.
\<close>

datatype local_thread = ClientSocketThread | ServerSocketThread | ServerBtsocketThread | QemuSocketThread

definition local_init :: "bool \<Rightarrow> bool \<Rightarrow> string \<Rightarrow> local_thread list" where
  "local_init adb_host host is_qemu =
     (if host then [ClientSocketThread]
      else if adb_host then [ServerSocketThread]
      else if is_qemu = ''1'' then [QemuSocketThread]
      else [ServerBtsocketThread, ServerSocketThread])"

section \<open>Properties\<close>

lemma init_closes_nothing: "ensures (init_socket_transport a s port local st) (\<lambda>(r, st'). closed_fds st' = closed_fds st)"
  by (auto simp: init_socket_transport_def put_transport_def Let_def intro!: ensuresI)

lemma refused_closes_nothing:
  assumes "register_socket_transport t_name s ser port local st = Inr (-1, st')"
  shows "closed_fds st' = closed_fds st"
proof -
  define a st0 where "a = next_addr st" and "st0 = put_transport (next_addr st) zero_transport (snd (alloc st))"
  have c: "closed_fds st0 = closed_fds st" by (simp add: st0_def put_transport_def alloc_def)
  obtain r st1 where i: "init_socket_transport a s port local st0 = Inr (r, st1)"
    using assms by (auto simp: register_socket_transport_def alloc_def Let_def bindr_eq_Inr a_def st0_def)
  have "closed_fds st1 = closed_fds st" using ensuresD [OF init_closes_nothing i] c by simp
  moreover have "st' = free_transport a st1"
    using assms i by (auto simp: register_socket_transport_def alloc_def Let_def bindr_eq_Inr a_def st0_def split: if_splits)
  ultimately show ?thesis by (simp add: free_transport_def)
qed

text \<open>
  Property C18. A daemon has one host at a time on its server sockets, TCP and Bluetooth together: an accepted
  connection becomes a pending transport with the serial number "host" exactly when no transport has that
  serial number. Any further connection is refused, but the thread does not look at the
  result: the transports are unchanged, and the descriptor of the refused connection is never closed.
\<close>

theorem one_host_at_a_time:
  assumes "t_fresh st" "wr_clean (wr_ev st (registration_send st))" "\<not> ADB_HOST st" "0 \<le> serverfd" "0 \<le> fd"
  shows "\<exists>st' t. server_rounds t_name port serverfd [(opened, fd)] st = Inr (serverfd, st') \<and> transport_list st' = transport_list st
    \<and> (if serial_used ''host'' st
       then transports st' = transports st \<and> pending_list st' = pending_list st \<and> closed_fds st' = closed_fds st
       else pending_list st' = pending_list st @ [next_addr st] \<and> transports st' = (transports st)(next_addr st \<mapsto> t)
         \<and> serial t = Some ''host'' \<and> sfd t = fd)"
proof -
  have m: "may_register ''host'' port True st \<longleftrightarrow> \<not> serial_used ''host'' st" using assms(3) by (simp add: may_register_def needs_slot_def)
  have s: "server_rounds t_name port serverfd [(opened, fd)] st
      = bindr (register_socket_transport t_name fd (Some ''host'') port True st) (\<lambda>(r, st). Inr (serverfd, st))"
    using assms(4,5) by (cases "register_socket_transport t_name fd (Some ''host'') port True st") auto
  from register_socket_transport_exact [OF assms(1,2), of t_name fd "''host''" port True] show ?thesis
    unfolding s m by (cases "serial_used ''host'' st") (auto dest: refused_closes_nothing)
qed

text \<open>A device with one host connected gets a second connection on descriptor 8.\<close>

definition ex_device :: tstate where
  "ex_device = ex_tstate\<lparr>ADB_HOST := False, HOST := False, transports := (transports ex_tstate)(8 \<mapsto> zero_transport\<lparr>serial := Some ''host''\<rparr>)\<rparr>"

theorem one_host_at_a_time_witness:
  "\<exists>st'. server_rounds (\<lambda>_. []) 5555 6 [(6, 8)] ex_device = Inr (6, st') \<and> transports st' = transports ex_device \<and> closed_fds st' = []"
proof -
  have "t_fresh ex_device" "wr_clean (wr_ev ex_device (registration_send ex_device))" "\<not> ADB_HOST ex_device" "closed_fds ex_device = []"
    by (auto simp: t_fresh_def store_ok_def ex_device_def ex_tstate_simps)
  moreover have "serial_used ''host'' ex_device" by (simp add: serial_used_def ex_device_def ex_tstate_simps)
  ultimately show ?thesis using one_host_at_a_time [of ex_device 6 8 "\<lambda>_. []" 5555 6] by auto
qed

end
