(* ===== verification/UsbTransport.thy ===== *)
theory UsbTransport
  imports Packet SyncFs
begin

text \<open>
  Packets over USB, transport_usb.c, and the USB interfaces the server takes for devices,
  usb_vendors.c. Moving bytes over USB is done by back ends that differ from system to system:
  their \<open>usb_read\<close> and \<open>usb_write\<close> are parameters.
\<close>

section \<open>Packets\<close>

text \<open>The header and the data are transferred separately, and nothing is transferred for empty data.\<close>

definition usb_remote_read ::
  "(nat \<Rightarrow> 's \<Rightarrow> (byte list option \<times> 's) res) \<Rightarrow> bool \<Rightarrow> apacket \<Rightarrow> 's \<Rightarrow> (int \<times> apacket \<times> 's) res" where
  "usb_remote_read rd big_endian p s =
     bindr (rd sizeof_amessage s) (\<lambda>(r, s).
       case r of
         None \<Rightarrow> Inr (-1, p, s)
       | Some bs \<Rightarrow>
           let p = p\<lparr>msg := fix_endians big_endian (message_of_mem big_endian bs)\<rparr> in
           if check_header p \<noteq> 0 then Inr (-1, p, s)
           else bindr (if data_length (msg p) \<noteq> 0 then rd (unat (data_length (msg p))) s else Inr (Some [], s)) (\<lambda>(r, s).
             case r of
               None \<Rightarrow> Inr (-1, p, s)
             | Some d \<Rightarrow>
                 let p = p\<lparr>pk_data := d\<rparr> in
                 bindr (check_data p) (\<lambda>c. if c \<noteq> 0 then Inr (-1, p, s) else Inr (0, p, s))))"

definition usb_remote_write ::
  "(byte list \<Rightarrow> 's \<Rightarrow> (int \<times> 's) res) \<Rightarrow> bool \<Rightarrow> apacket \<Rightarrow> 's \<Rightarrow> (int \<times> 's) res" where
  "usb_remote_write wr big_endian p s =
     (let len = unat (data_length (msg p)) in
      bindr (wr (mem_message big_endian (fix_endians big_endian (msg p))) s) (\<lambda>(r, s).
        if r \<noteq> 0 then Inr (-1, s)
        else if data_length (fix_endians big_endian (msg p)) = 0 then Inr (0, s)
        else if len > length (pk_data p) then Inl MemFault
        else bindr (wr (take len (pk_data p)) s) (\<lambda>(r, s). if r \<noteq> 0 then Inr (-1, s) else Inr (0, s))))"

section \<open>Interfaces\<close>

definition builtInVendorIds :: "int list" where
  "builtInVendorIds = [0x18D1, 0x8087, 0x0BB4, 0x04E8, 0x22B8, 0x1004, 0x12D1, 0x0502, 0x0FCE, 0x0489, 0x413C, 0x0955, 0x091E, 0x04DD, 0x19D2, 0x0482,
     0x10A9, 0x05C6, 0x2257, 0x0409, 0x04DA, 0x0930, 0x1F53, 0x2116, 0x0B05, 0x0471, 0x0451, 0x0F1C, 0x0414, 0x2420, 0x1219, 0x1BBB,
     0x2006, 0x17EF, 0xE040, 0x24E3, 0x1D4D, 0x0E79, 0x1662, 0x04C5, 0x25E3, 0x0408, 0x2314, 0x054C, 0x1949, 0x1EBF, 0x2237, 0x2340,
     0x16D5, 0x19A5, 0x22D9, 0x2717, 0x19D1, 0x2836, 0x201E, 0x109B, 0x0E8D, 0x2080, 0x1D45, 0x03FC]"

definition VENDOR_COUNT_MAX :: nat where "VENDOR_COUNT_MAX = 128"

text \<open>
  The lines of the file with more vendors. \<open>errno\<close> says that \<open>errno\<close> is \<open>EINVAL\<close> or \<open>ERANGE\<close>; it is not
  reset before \<open>strtol\<close>, which sets it for a number that does not fit.
\<close>

fun add_vendors :: "bool \<Rightarrow> string list \<Rightarrow> int list \<Rightarrow> int list res" where
  "add_vendors errno [] ids = Inr ids"
| "add_vendors errno (temp # ls) ids =
     (if take 1 temp = ''#'' then add_vendors errno ls ids
      else
        let value = strtol temp; errno = (errno \<or> strtol_range temp) in
        if errno \<or> value < 0 then Inl (ExitWith 2)
        else if length ids + 1 = VENDOR_COUNT_MAX then Inr (ids @ [value])
        else add_vendors errno ls (ids @ [value]))"

definition usb_vendors_init :: "bool \<Rightarrow> string list option \<Rightarrow> int list res" where
  "usb_vendors_init errno file =
     (case file of None \<Rightarrow> Inr builtInVendorIds | Some ls \<Rightarrow> add_vendors errno ls builtInVendorIds)"

definition PATH_MAX_INI :: nat where "PATH_MAX_INI = 4096"

text \<open>The path of that file, unless it is too long.\<close>

definition get_adb_usb_ini :: "string option \<Rightarrow> string option" where
  "get_adb_usb_ini home =
     (let path = (case home of None \<Rightarrow> ''/tmp'' | Some h \<Rightarrow> h) @ ''/.android/adb_usb.ini'' in
      if length path \<ge> PATH_MAX_INI then None else Some path)"

fun vendor_search :: "int list \<Rightarrow> int \<Rightarrow> int \<Rightarrow> int \<Rightarrow> int \<Rightarrow> bool" where
  "vendor_search [] vid cls subclass protocol = False"
| "vendor_search (v # vs) vid cls subclass protocol =
     (if vid = v then cls = 0xff \<and> subclass = 0x42 \<and> protocol = 1 else vendor_search vs vid cls subclass protocol)"

definition is_adb_interface :: "int list \<Rightarrow> int \<Rightarrow> int \<Rightarrow> int \<Rightarrow> int \<Rightarrow> int \<Rightarrow> int" where
  "is_adb_interface ids vid pid cls subclass protocol = (if vendor_search ids vid cls subclass protocol then 1 else 0)"

section \<open>Properties\<close>

text \<open>
  A header of a packet without data has the length 0 in either byte order, so that testing it after
  the conversion is testing it before.
\<close>

lemma H4_zero: "H4 x = 0 \<longleftrightarrow> x = 0"
proof -
  have "H4 0 = 0" by (simp add: H4_def)
  then show ?thesis by (metis H4_H4)
qed

lemma fix_endians_zero: "data_length (fix_endians be m) = 0 \<longleftrightarrow> data_length m = 0"
  by (simp add: fix_endians_def H4_zero)

text \<open>
  Property C37. A packet over USB is the packet over a socket: where reading no bytes gives no bytes, \<open>usb_remote_read\<close> is
  \<open>remote_read\<close>; and what \<open>usb_remote_write\<close> hands to \<open>usb_write\<close> is, in one or two pieces, exactly the bytes
  that \<open>remote_write\<close> sends.
\<close>

theorem usb_packet_is_socket_packet:
  assumes "\<And>s. rd 0 s = Inr (Some [], s)" "length (pk_data p) = unat (data_length (msg p))"
    and "\<And>bs s s'. wr bs s = Inr (0, s') \<Longrightarrow> sent s' = sent s @ bs"
  shows "usb_remote_read rd be q s = remote_read rd be q s \<and>
    (usb_remote_write wr be p t = Inr (0, t') \<longrightarrow> sent t' = sent t @ mem_message be (fix_endians be (msg p)) @ pk_data p)"
proof
  show "usb_remote_read rd be q s = remote_read rd be q s"
    by (cases "rd sizeof_amessage s") (auto simp: usb_remote_read_def remote_read_def Let_def assms(1) split: option.splits)
  show "usb_remote_write wr be p t = Inr (0, t') \<longrightarrow> sent t' = sent t @ mem_message be (fix_endians be (msg p)) @ pk_data p"
    using assms(2) fix_endians_zero [of be "msg p"]
    by (auto simp: usb_remote_write_def Let_def bindr_eq_Inr dest!: assms(3) split: if_splits)
qed

theorem usb_packet_is_socket_packet_witness:
  "usb_remote_read (readx 3) False get_apacket (ex_reader (wire_packet ex_sealed)) = remote_read (readx 3) False get_apacket (ex_reader (wire_packet ex_sealed))"
proof -
  have "length (pk_data ex_sealed) = unat (data_length (msg ex_sealed))" by (simp add: ex_sealed_def ex_packet_def get_apacket_def zero_msg_def)
  from usb_packet_is_socket_packet [of "readx 3" ex_sealed "writex 3" "\<lambda>w. wr_out w 3" False get_apacket "ex_reader (wire_packet ex_sealed)",
      OF readx_0 this sock_snk.wr_ok] show ?thesis by blast
qed

lemma vendor_search_iff: "vendor_search ids vid c s p \<longleftrightarrow> vid \<in> set ids \<and> c = 0xff \<and> s = 0x42 \<and> p = 1"
  by (induction ids) auto

lemma add_vendors_keeps: "length ids < VENDOR_COUNT_MAX \<Longrightarrow> add_vendors e ls ids = Inr r \<Longrightarrow>
    (\<exists>more. r = ids @ more \<and> (\<forall>v\<in>set more. 0 \<le> v \<and> v < 2 ^ 31)) \<and> length r \<le> VENDOR_COUNT_MAX"
proof (induction e ls ids rule: add_vendors.induct)
  case (2 e l ls ids)
  have v: "strtol l < 2 ^ 31" by (simp add: strtol_def case_prod_beta min_less_iff_disj)
  show ?case
  proof (cases "take 1 l = ''#''")
    case False
    have g: "\<not> (e \<or> strtol_range l)" "0 \<le> strtol l" using "2.prems"(2) False by (auto simp: Let_def split: if_splits)
    show ?thesis
    proof (cases "length ids + 1 = VENDOR_COUNT_MAX")
      case True
      with False g "2.prems"(2) v show ?thesis by (intro conjI exI [of _ "[strtol l]"]) (auto simp: Let_def)
    next
      case less: False
      with False g "2.prems" have "add_vendors (e \<or> strtol_range l) ls (ids @ [strtol l]) = Inr r" by (simp add: Let_def)
      with "2.IH"(2) [OF False refl refl _ less] g less "2.prems"(1) obtain more where
        "r = (ids @ [strtol l]) @ more" "\<forall>v\<in>set more. 0 \<le> v \<and> v < 2 ^ 31" "length r \<le> VENDOR_COUNT_MAX" by auto
      with g(2) v show ?thesis by (intro conjI exI [of _ "strtol l # more"]) auto
    qed
  qed (use 2 in auto)
qed auto

text \<open>
  The table of vendors never grows beyond its 128 places, whatever the user's file holds: it begins with
  the built-in vendors, followed by numbers that fit an \<open>int\<close>. An interface is taken for a device exactly
  when its vendor is in the table and it has the class, subclass and protocol of adb.
\<close>

theorem vendor_table_fits:
  "(\<forall>ids. usb_vendors_init errno file = Inr ids \<longrightarrow> take (length builtInVendorIds) ids = builtInVendorIds \<and> length ids \<le> VENDOR_COUNT_MAX
      \<and> (\<forall>v\<in>set ids. 0 \<le> v \<and> v < 2 ^ 31)
      \<and> (is_adb_interface ids vid pid cls subclass protocol = 1 \<longleftrightarrow> vid \<in> set ids \<and> cls = 0xff \<and> subclass = 0x42 \<and> protocol = 1))"
proof (intro allI impI)
  fix ids assume i: "usb_vendors_init errno file = Inr ids"
  have b: "length builtInVendorIds < VENDOR_COUNT_MAX" "\<forall>v\<in>set builtInVendorIds. 0 \<le> v \<and> v < 2 ^ 31"
    by (simp_all add: builtInVendorIds_def VENDOR_COUNT_MAX_def)
  then obtain more where "ids = builtInVendorIds @ more" "\<forall>v\<in>set more. 0 \<le> v \<and> v < 2 ^ 31" "length ids \<le> VENDOR_COUNT_MAX"
    using i add_vendors_keeps [OF b(1)] by (fastforce simp: usb_vendors_init_def split: option.splits)
  then show "take (length builtInVendorIds) ids = builtInVendorIds \<and> length ids \<le> VENDOR_COUNT_MAX \<and> (\<forall>v\<in>set ids. 0 \<le> v \<and> v < 2 ^ 31)
      \<and> (is_adb_interface ids vid pid cls subclass protocol = 1 \<longleftrightarrow> vid \<in> set ids \<and> cls = 0xff \<and> subclass = 0x42 \<and> protocol = 1)"
    using b(2) by (auto simp: is_adb_interface_def vendor_search_iff)
qed

theorem vendor_table_fits_witness:
  "usb_vendors_init False None = Inr builtInVendorIds \<and> length builtInVendorIds \<le> VENDOR_COUNT_MAX \<and> is_adb_interface builtInVendorIds 0x18D1 0 0xff 0x42 1 = 1"
proof -
  have i: "usb_vendors_init False None = Inr builtInVendorIds" by (simp add: usb_vendors_init_def)
  moreover have "0x18D1 \<in> set builtInVendorIds" by (simp add: builtInVendorIds_def)
  ultimately show ?thesis using vendor_table_fits [of False None "0x18D1" 0 "0xff" "0x42" 1] by auto
qed

end
